(* ===== verification/Zl_Prelude.thy ===== *)
theory Zl_Prelude
  imports Complex_Main "HOL-Library.Word" "HOL-Library.Signed_Division"
begin

text \<open>
  Shared vocabulary of the development: the result type of operations that can raise,
  the fixed-width integers of the C++ sources, the collections of rewrite rules the
  component theories extend, and generic facts on lists and options.

  Every operation of the sources that can throw returns \<open>'e + 'a\<close>: \<open>Inl\<close> carries the
  exception, \<open>Inr\<close> the result.
\<close>

unbundle bit_operations_syntax

named_theorems zl_defs
  \<open>definitions a component proof unfolds before case analysis\<close>

named_theorems int64_simps
  \<open>rewrite rules for 64-bit signed integers\<close>

type_synonym int64 = "64 word"

definition INT64_MIN :: int where
  "INT64_MIN = - (2 ^ 63)"

definition INT64_MAX :: int where
  "INT64_MAX = 2 ^ 63 - 1"

definition in_int64 :: "int \<Rightarrow> bool" where
  "in_int64 i \<longleftrightarrow> INT64_MIN \<le> i \<and> i \<le> INT64_MAX"

text \<open>\<open><cctype>\<close> in the C locale, on the unsigned value of a byte.\<close>

abbreviation code :: "char \<Rightarrow> nat" where
  "code c \<equiv> of_char c"

definition is_digit :: "char \<Rightarrow> bool" where
  "is_digit c \<longleftrightarrow> 48 \<le> code c \<and> code c \<le> 57"

definition is_alpha :: "char \<Rightarrow> bool" where
  "is_alpha c \<longleftrightarrow> 65 \<le> code c \<and> code c \<le> 90 \<or> 97 \<le> code c \<and> code c \<le> 122"

definition is_alnum :: "char \<Rightarrow> bool" where
  "is_alnum c \<longleftrightarrow> is_alpha c \<or> is_digit c"

definition is_space :: "char \<Rightarrow> bool" where
  "is_space c \<longleftrightarrow> code c = 32 \<or> 9 \<le> code c \<and> code c \<le> 13"

text \<open>\<open>std::to_string\<close> on an unsigned number, and the value of a run of decimal digits.\<close>

definition digit_char :: "nat \<Rightarrow> char" where
  "digit_char d = char_of (48 + d)"

definition digit_val :: "char \<Rightarrow> int" where
  "digit_val c = int (code c) - 48"

fun nat_to_string :: "nat \<Rightarrow> string" where
  "nat_to_string n =
     (if n < 10 then [digit_char n] else nat_to_string (n div 10) @ [digit_char (n mod 10)])"

declare nat_to_string.simps [simp del]

definition digits_val :: "string \<Rightarrow> int" where
  "digits_val = foldl (\<lambda>v c. v * 10 + digit_val c) 0"

text \<open>C++ integer division and remainder truncate towards zero.\<close>

text \<open>The elements with a separator between them.\<close>

fun joinWith :: "string \<Rightarrow> string list \<Rightarrow> string" where
  "joinWith sep [] = []"
| "joinWith sep [x] = x"
| "joinWith sep (x # y # xs) = x @ sep @ joinWith sep (y # xs)"

definition tdiv :: "int \<Rightarrow> int \<Rightarrow> int" where
  "tdiv a b = a sdiv b"

definition tmod :: "int \<Rightarrow> int \<Rightarrow> int" where
  "tmod a b = a smod b"

lemma sint_in_int64 [simp]: "in_int64 (sint (w :: int64))"
  using sint_greater_eq [of w] sint_lt [of w]
  by (simp add: in_int64_def INT64_MIN_def INT64_MAX_def)

lemma sint_bounds:
  fixes w :: int64
  shows "INT64_MIN \<le> sint w" and "sint w \<le> INT64_MAX"
  using sint_in_int64 [of w] by (simp_all add: in_int64_def)

lemma sint_word_of_int [int64_simps]:
  assumes "in_int64 i"
  shows "sint (word_of_int i :: int64) = i"
proof -
  have "signed_take_bit 63 i = i"
    using assms
    by (intro signed_take_bit_int_eq_self)
      (auto simp: in_int64_def INT64_MIN_def INT64_MAX_def)
  then show ?thesis by (simp add: sint_sbintrunc')
qed

declare of_int_sint [simp del]

lemma word_of_int_sint [simp, int64_simps]: "word_of_int (sint (a :: int64)) = a"
  by (simp add: of_int_sint)

lemma sint_eq_iff: "sint (a :: int64) = sint b \<longleftrightarrow> a = b"
  by (metis word_of_int_sint)

subsection \<open>Decimal numbers\<close>

lemma code_digit_char: "d < 10 \<Longrightarrow> code (digit_char d) = 48 + d"
  by (simp add: digit_char_def)

lemma is_digit_digit_char: "d < 10 \<Longrightarrow> is_digit (digit_char d)"
  by (simp add: is_digit_def code_digit_char)

lemma digit_val_digit_char: "d < 10 \<Longrightarrow> digit_val (digit_char d) = int d"
  by (simp add: digit_val_def code_digit_char)

lemma digits_val_snoc: "digits_val (ds @ [c]) = digits_val ds * 10 + digit_val c"
  by (simp add: digits_val_def)

lemma nat_to_string_props:
  "nat_to_string n \<noteq> [] \<and> list_all is_digit (nat_to_string n) \<and> digits_val (nat_to_string n) = int n"
proof (induction n rule: nat_to_string.induct)
  case (1 n)
  show ?case
  proof (cases "n < 10")
    case True
    then show ?thesis
      by (subst (1 2 3) nat_to_string.simps)
        (simp add: is_digit_digit_char digit_val_digit_char digits_val_def)
  next
    case False
    have "nat_to_string n = nat_to_string (n div 10) @ [digit_char (n mod 10)]"
      using False by (subst nat_to_string.simps) simp
    with "1.IH" [OF False] show ?thesis
      by (simp add: digits_val_snoc is_digit_digit_char digit_val_digit_char zdiv_int zmod_int)
  qed
qed

lemma is_digit_is_alnum: "is_digit c \<Longrightarrow> is_alnum c"
  by (simp add: is_alnum_def)

lemma is_alnum_not_space: "is_alnum c \<Longrightarrow> \<not> is_space c"
  by (auto simp: is_alnum_def is_alpha_def is_digit_def is_space_def)

lemma map_sum_Inr: "map_sum f g r = Inr y \<longleftrightarrow> (\<exists>x. r = Inr x \<and> y = g x)"
  by (cases r) auto

lemma map_sum_Inl: "map_sum id g r = Inl e \<longleftrightarrow> r = Inl e"
  by (cases r) auto

lemma find_Some_iff_first:
  "find P xs = Some x \<Longrightarrow> P x \<and> x \<in> set xs"
  by (auto simp: find_Some_iff)

end
