(* ===== verification/Zl_Lexer.thy ===== *)
theory Zl_Lexer
  imports Zl_Prelude
begin

text \<open>
  The lexer (\<^verbatim>\<open>src/lexer/lexer.cpp\<close>, \<^verbatim>\<open>include/zl/lexer/token.hpp\<close>). The state is the source text with a
  position, a line and a column; every scanning routine takes the state and returns it updated. The
  routines that throw return the message on the left. All loops consume input, so they are total
  functions. The one enumeration of token types is split into keywords, symbols and the rest, which
  keeps each datatype small. The second half states what tokens a text has, without a scanner: each is the longest
  text at its place that spells a token, and the lexer finds exactly these.
\<close>

datatype keyword_type =
    KW_VAR | KW_LET | KW_DATA | KW_ENUM | KW_IMPORT | KW_FUNC | KW_ASYNC | KW_AWAIT
    | KW_OPERATOR | KW_RETURN | KW_CLASS | KW_STATIC | KW_PUBLIC | KW_PRIVATE | KW_PROTECTED
    | KW_NEW | KW_THIS | KW_EXTENDS | KW_WITH | KW_IMPLEMENTS | KW_INTERFACE | KW_SUPER
    | KW_VOID | KW_ARRAY | KW_LIST | KW_SET | KW_MAP | KW_GC | KW_OWNED | KW_BORROW | KW_SHARED
    | KW_MOVE | KW_IF | KW_ELSE | KW_ELSEIF | KW_FOR | KW_IN | KW_STEP | KW_REPEAT | KW_WHILE
    | KW_BREAK | KW_CONTINUE | KW_TRY | KW_CATCH | KW_THROW | KW_FINALLY | KW_MATCH | KW_TRUE
    | KW_FALSE | KW_NULL | KW_LOG

datatype symbol_type =
    LBRACE | RBRACE | LPAREN | RPAREN | LBRACKET | RBRACKET | SEMICOLON | COLON | COMMA | DOT
    | DOT_DOT | AT | PLUS | MINUS | STAR | SLASH | PERCENT | POW | BIT_AND | BIT_OR | BIT_XOR
    | BIT_NOT | SHL | SHR | USHR | ASSIGN | FAT_ARROW | EQ | NEQ | LT | GT | LTE | GTE | AND_tok
    | OR_tok | NOT_tok

datatype token_type =
    INT_LITERAL | DECIMAL_LITERAL | FLOAT_LITERAL | STRING_LITERAL | REGEX_LITERAL
    | BOOL_LITERAL | IDENTIFIER | Kw keyword_type | Sym symbol_type | END_OF_FILE | UNKNOWN

record token =
  tk_type :: token_type
  tk_lexeme :: string
  tk_line :: nat
  tk_column :: nat

definition mkToken :: "token_type \<Rightarrow> string \<Rightarrow> nat \<Rightarrow> nat \<Rightarrow> token" where
  "mkToken ty lexeme l c = \<lparr>tk_type = ty, tk_lexeme = lexeme, tk_line = l, tk_column = c\<rparr>"

definition keywordTable :: "(string \<times> keyword_type) list" where
  "keywordTable =
    [(''var'', KW_VAR), (''let'', KW_LET), (''data'', KW_DATA), (''enum'', KW_ENUM),
     (''import'', KW_IMPORT), (''func'', KW_FUNC), (''async'', KW_ASYNC),
     (''await'', KW_AWAIT), (''operator'', KW_OPERATOR), (''return'', KW_RETURN),
     (''class'', KW_CLASS), (''static'', KW_STATIC), (''public'', KW_PUBLIC),
     (''private'', KW_PRIVATE), (''protected'', KW_PROTECTED), (''new'', KW_NEW),
     (''this'', KW_THIS), (''extends'', KW_EXTENDS), (''with'', KW_WITH),
     (''implements'', KW_IMPLEMENTS), (''interface'', KW_INTERFACE), (''super'', KW_SUPER),
     (''void'', KW_VOID), (''array'', KW_ARRAY), (''list'', KW_LIST), (''set'', KW_SET),
     (''map'', KW_MAP), (''gc'', KW_GC), (''owned'', KW_OWNED), (''borrow'', KW_BORROW),
     (''shared'', KW_SHARED), (''move'', KW_MOVE), (''if'', KW_IF), (''else'', KW_ELSE),
     (''elif'', KW_ELSEIF), (''for'', KW_FOR), (''in'', KW_IN), (''step'', KW_STEP),
     (''repeat'', KW_REPEAT), (''while'', KW_WHILE), (''break'', KW_BREAK),
     (''continue'', KW_CONTINUE), (''try'', KW_TRY), (''catch'', KW_CATCH),
     (''throw'', KW_THROW), (''finally'', KW_FINALLY), (''match'', KW_MATCH),
     (''true'', KW_TRUE), (''false'', KW_FALSE), (''null'', KW_NULL), (''log'', KW_LOG)]"

record lexer =
  lx_source :: string
  lx_pos :: nat
  lx_line :: nat
  lx_column :: nat

definition newLexer :: "string \<Rightarrow> lexer" where
  "newLexer source = \<lparr>lx_source = source, lx_pos = 0, lx_line = 1, lx_column = 1\<rparr>"

abbreviation NEWLINE :: char where "NEWLINE \<equiv> CHR 0x0A"
abbreviation QUOTE :: char where "QUOTE \<equiv> CHR 0x22"
abbreviation BACKSLASH :: char where "BACKSLASH \<equiv> CHR 0x5C"
abbreviation NUL :: char where "NUL \<equiv> CHR 0x00"

definition isAtEnd :: "lexer \<Rightarrow> bool" where
  "isAtEnd lx \<longleftrightarrow> length (lx_source lx) \<le> lx_pos lx"

definition peek :: "lexer \<Rightarrow> char" where
  "peek lx = (if isAtEnd lx then NUL else lx_source lx ! lx_pos lx)"

definition peekNext :: "lexer \<Rightarrow> char" where
  "peekNext lx =
     (if length (lx_source lx) \<le> lx_pos lx + 1 then NUL else lx_source lx ! (lx_pos lx + 1))"

text \<open>Reading the position one past the last character gives the terminating NUL of the string.\<close>

definition advance :: "lexer \<Rightarrow> char \<times> lexer" where
  "advance lx =
     (let c = peek lx; lx' = lx\<lparr>lx_pos := lx_pos lx + 1\<rparr>
      in (c, if c = NEWLINE then lx'\<lparr>lx_line := lx_line lx + 1, lx_column := 1\<rparr>
             else lx'\<lparr>lx_column := lx_column lx + 1\<rparr>))"

definition matchChar :: "char \<Rightarrow> lexer \<Rightarrow> bool \<times> lexer" where
  "matchChar expected lx =
     (if isAtEnd lx \<or> lx_source lx ! lx_pos lx \<noteq> expected then (False, lx)
      else (True, snd (advance lx)))"

definition remaining :: "lexer \<Rightarrow> nat" where
  "remaining lx = length (lx_source lx) - lx_pos lx"

lemma snd_advance [simp]:
  "lx_source (snd (advance lx)) = lx_source lx"
  "lx_pos (snd (advance lx)) = lx_pos lx + 1"
  by (simp_all add: advance_def Let_def)

lemma remaining_advance: "\<not> isAtEnd lx \<Longrightarrow> remaining (snd (advance lx)) < remaining lx"
  by (auto simp: remaining_def isAtEnd_def)

text \<open>The loop \<open>while (!isAtEnd() && p(peek())) text += advance();\<close>\<close>

function scanWhile :: "(char \<Rightarrow> bool) \<Rightarrow> string \<Rightarrow> lexer \<Rightarrow> string \<times> lexer" where
  "scanWhile p text lx =
     (if \<not> isAtEnd lx \<and> p (peek lx)
      then scanWhile p (text @ [fst (advance lx)]) (snd (advance lx))
      else (text, lx))"
  by pat_completeness auto
termination
  by (relation "measure (\<lambda>(p, text, lx). remaining lx)") (auto intro: remaining_advance)

declare scanWhile.simps [simp del]

definition isBlank :: "char \<Rightarrow> bool" where
  "isBlank c \<longleftrightarrow> c = CHR '' '' \<or> c = CHR 0x09 \<or> c = CHR 0x0D \<or> c = NEWLINE"

definition skipComment :: "lexer \<Rightarrow> lexer" where
  "skipComment lx = snd (scanWhile (\<lambda>c. c \<noteq> NEWLINE) [] lx)"

definition wordChar :: "char \<Rightarrow> bool" where
  "wordChar c \<longleftrightarrow> is_alnum c \<or> c = CHR ''_''"

lemma remaining_scanWhile: "remaining (snd (scanWhile p acc lx)) \<le> remaining lx"
proof (induction p acc lx rule: scanWhile.induct)
  case (1 p acc lx)
  then show ?case
    using remaining_advance [of lx] by (subst scanWhile.simps) force
qed

lemma scanWhile_step:
  assumes "\<not> isAtEnd lx" and "p (peek lx)"
  shows "scanWhile p acc lx = scanWhile p (acc @ [fst (advance lx)]) (snd (advance lx))"
  using assms by (subst scanWhile.simps) simp

lemma remaining_scanWhile_less:
  assumes "\<not> isAtEnd lx" and "p (peek lx)"
  shows "remaining (snd (scanWhile p acc lx)) < remaining lx"
  using remaining_scanWhile [of p "acc @ [fst (advance lx)]" "snd (advance lx)"]
    remaining_advance [OF assms(1)] scanWhile_step [of lx p acc] assms
  by simp

lemma remaining_skipComment:
  "\<not> isAtEnd lx \<Longrightarrow> peek lx = CHR ''/'' \<Longrightarrow> remaining (skipComment lx) < remaining lx"
  unfolding skipComment_def by (rule remaining_scanWhile_less) auto

function skipWhitespaceAndComments :: "lexer \<Rightarrow> lexer" where
  "skipWhitespaceAndComments lx =
     (if isAtEnd lx then lx
      else if isBlank (peek lx) then skipWhitespaceAndComments (snd (advance lx))
      else if peek lx = CHR ''/'' \<and> peekNext lx = CHR ''/''
      then skipWhitespaceAndComments (skipComment lx)
      else lx)"
  by pat_completeness auto
termination
  by (relation "measure remaining") (auto intro: remaining_advance remaining_skipComment)

declare skipWhitespaceAndComments.simps [simp del]

definition scanNumber :: "lexer \<Rightarrow> token \<times> lexer" where
  "scanNumber lx =
     (if peek lx = CHR ''.'' then
        (let (c, lx1) = advance lx; (text, lx2) = scanWhile is_digit [c] lx1
         in (mkToken FLOAT_LITERAL text (lx_line lx) (lx_column lx), lx2))
      else
        (let (text, lx1) = scanWhile is_digit [] lx
         in if peek lx1 = CHR ''.'' \<and> is_digit (peekNext lx1) then
              (let (c, lx2) = advance lx1; (text', lx3) = scanWhile is_digit (text @ [c]) lx2
               in (mkToken FLOAT_LITERAL text' (lx_line lx) (lx_column lx), lx3))
            else (mkToken INT_LITERAL text (lx_line lx) (lx_column lx), lx1)))"

definition escaped :: "char \<Rightarrow> char" where
  "escaped esc =
     (if esc = CHR ''n'' then NEWLINE
      else if esc = CHR ''t'' then CHR 0x09
      else if esc = CHR ''r'' then CHR 0x0D
      else if esc = BACKSLASH then BACKSLASH
      else if esc = QUOTE then QUOTE
      else if esc = CHR ''0'' then NUL
      else esc)"

function scanStringLoop :: "string \<Rightarrow> lexer \<Rightarrow> string \<times> lexer" where
  "scanStringLoop text lx =
     (if \<not> isAtEnd lx \<and> peek lx \<noteq> QUOTE then
        (let (c, lx1) = advance lx
         in if c = BACKSLASH \<and> \<not> isAtEnd lx1 then
              (let (esc, lx2) = advance lx1 in scanStringLoop (text @ [escaped esc]) lx2)
            else scanStringLoop (text @ [c]) lx1)
      else (text, lx))"
  by pat_completeness auto
termination
  by (relation "measure (\<lambda>(text, lx). remaining lx)")
    (auto simp: remaining_def isAtEnd_def advance_def Let_def split: if_splits)

declare scanStringLoop.simps [simp del]

definition unterminatedString :: string where
  "unterminatedString = ''Unterminated string literal''"

definition unterminatedRegex :: string where
  "unterminatedRegex = ''Unterminated regex literal''"

definition scanString :: "lexer \<Rightarrow> string + token \<times> lexer" where
  "scanString lx =
     (let lx1 = snd (advance lx); (text, lx2) = scanStringLoop [] lx1
      in if isAtEnd lx2 then Inl unterminatedString
         else Inr (mkToken STRING_LITERAL text (lx_line lx) (lx_column lx), snd (advance lx2)))"

function scanRegexLoop :: "string \<Rightarrow> lexer \<Rightarrow> string + string \<times> lexer" where
  "scanRegexLoop pattern lx =
     (if isAtEnd lx then Inl unterminatedRegex
      else if peek lx = CHR ''#'' then Inr (pattern, snd (advance lx))
      else if peek lx = BACKSLASH then
        (let (c, lx1) = advance lx
         in if isAtEnd lx1 then Inl unterminatedRegex
            else (let (d, lx2) = advance lx1 in scanRegexLoop (pattern @ [c, d]) lx2))
      else if peek lx = CHR ''/'' \<and> peekNext lx = CHR ''/'' then scanRegexLoop pattern (skipComment lx)
      else if isBlank (peek lx) then scanRegexLoop pattern (snd (advance lx))
      else scanRegexLoop (pattern @ [fst (advance lx)]) (snd (advance lx)))"
  by pat_completeness auto
termination
proof (relation "measure (\<lambda>(pattern, lx). remaining lx)", goal_cases)
  case (2 pattern lx x c lx1 y d lx2)
  then have "lx1 = snd (advance lx)" "lx2 = snd (advance lx1)" by (metis snd_conv)+
  with 2 show ?case
    using remaining_advance [of lx] remaining_advance [of lx1] by simp
qed (auto intro: remaining_advance remaining_skipComment)

declare scanRegexLoop.simps [simp del]

definition scanRegexLiteral :: "lexer \<Rightarrow> string + token \<times> lexer" where
  "scanRegexLiteral lx =
     (case scanRegexLoop [] (snd (advance lx)) of
        Inl e \<Rightarrow> Inl e
      | Inr (pattern, lx') \<Rightarrow> Inr (mkToken REGEX_LITERAL pattern (lx_line lx) (lx_column lx), lx'))"

definition scanIdentifierOrKeyword :: "lexer \<Rightarrow> token \<times> lexer" where
  "scanIdentifierOrKeyword lx =
     (let (text, lx') = scanWhile wordChar [] lx;
          ty = (case map_of keywordTable text of Some k \<Rightarrow> Kw k | None \<Rightarrow> IDENTIFIER)
      in (mkToken ty text (lx_line lx) (lx_column lx), lx'))"

text \<open>The symbols of one character that no longer symbol begins with.\<close>

definition singleSymbols :: "(char \<times> symbol_type) list" where
  "singleSymbols =
     [(CHR ''('', LPAREN), (CHR '')'', RPAREN), (CHR ''{'', LBRACE), (CHR ''}'', RBRACE),
      (CHR '','', COMMA), (CHR ''+'', PLUS), (CHR ''-'', MINUS), (CHR ''*'', STAR),
      (CHR ''/'', SLASH), (CHR ''%'', PERCENT), (CHR ''['', LBRACKET), (CHR '']'', RBRACKET),
      (CHR '';'', SEMICOLON), (CHR '':'', COLON), (CHR ''@'', AT), (CHR ''~'', BIT_NOT)]"

text \<open>
  The \<open>switch\<close> of \<open>tokenize\<close> after the symbol character has been consumed. \<open>orElse\<close> is the form
  \<open>if (match(c)) push(long) else push(short)\<close>.
\<close>

definition orElse ::
  "char \<Rightarrow> (lexer \<Rightarrow> (token_type \<times> string) \<times> lexer) \<Rightarrow> (lexer \<Rightarrow> (token_type \<times> string) \<times> lexer) \<Rightarrow>
   lexer \<Rightarrow> (token_type \<times> string) \<times> lexer"
where
  "orElse c onMatch otherwise lx =
     (let (matched, lx') = matchChar c lx in if matched then onMatch lx' else otherwise lx')"

definition push :: "token_type \<Rightarrow> string \<Rightarrow> lexer \<Rightarrow> (token_type \<times> string) \<times> lexer" where
  "push ty s lx = ((ty, s), lx)"

definition scanOperator :: "char \<Rightarrow> lexer \<Rightarrow> (token_type \<times> string) \<times> lexer" where
  "scanOperator c =
     (case map_of singleSymbols c of
        Some ty \<Rightarrow> push (Sym ty) [c]
      | None \<Rightarrow>
          if c = CHR ''^'' then orElse CHR ''^'' (push (Sym POW) ''^^'') (push (Sym BIT_XOR) ''^'')
          else if c = CHR ''&'' then orElse CHR ''&'' (push (Sym AND_tok) ''&&'') (push (Sym BIT_AND) ''&'')
          else if c = CHR ''|'' then orElse CHR ''|'' (push (Sym OR_tok) ''||'') (push (Sym BIT_OR) ''|'')
          else if c = CHR ''.'' then orElse CHR ''.'' (push (Sym DOT_DOT) ''..'') (push (Sym DOT) ''.'')
          else if c = CHR ''='' then
            orElse CHR ''='' (push (Sym EQ) ''=='') (orElse CHR ''>'' (push (Sym FAT_ARROW) ''=>'') (push (Sym ASSIGN) ''=''))
          else if c = CHR ''!'' then orElse CHR ''='' (push (Sym NEQ) ''!='') (push (Sym NOT_tok) ''!'')
          else if c = CHR ''<'' then
            orElse CHR ''<'' (push (Sym SHL) ''<<'') (orElse CHR ''='' (push (Sym LTE) ''<='') (push (Sym LT) ''<''))
          else if c = CHR ''>'' then
            orElse CHR ''>'' (orElse CHR ''>'' (push (Sym USHR) ''>>>'') (push (Sym SHR) ''>>''))
              (orElse CHR ''='' (push (Sym GTE) ''>='') (push (Sym GT) ''>''))
          else push UNKNOWN [c])"

text \<open>A \<open>#\<close> begins a regex literal; the scanner expects it still to be current, so the state is rewound.\<close>

definition scanSymbol :: "lexer \<Rightarrow> string + token \<times> lexer" where
  "scanSymbol lx =
     (let (c, lx1) = advance lx
      in if c = CHR ''#'' then
           scanRegexLiteral (lx1\<lparr>lx_pos := lx_pos lx1 - 1, lx_column := lx_column lx1 - 1\<rparr>)
         else (let ((ty, s), lx2) = scanOperator c lx1
               in Inr (mkToken ty s (lx_line lx) (lx_column lx), lx2)))"

definition scanToken :: "lexer \<Rightarrow> string + token \<times> lexer" where
  "scanToken lx =
     (let c = peek lx
      in if is_digit c \<or> c = CHR ''.'' \<and> is_digit (peekNext lx) then Inr (scanNumber lx)
         else if is_alpha c \<or> c = CHR ''_'' then Inr (scanIdentifierOrKeyword lx)
         else if c = QUOTE then scanString lx
         else scanSymbol lx)"

subsection \<open>The scanners as functions of the remaining text\<close>

text \<open>
  A scanner that has consumed \<open>t\<close> is at \<open>moved lx t\<close>: positions count characters and lines.
\<close>

definition rest :: "lexer \<Rightarrow> string" where
  "rest lx = drop (lx_pos lx) (lx_source lx)"

fun after_char :: "nat \<times> nat \<Rightarrow> char \<Rightarrow> nat \<times> nat" where
  "after_char (l, c) x = (if x = NEWLINE then (l + 1, 1) else (l, c + 1))"

definition position_after :: "nat \<times> nat \<Rightarrow> string \<Rightarrow> nat \<times> nat" where
  "position_after = foldl after_char"

definition position :: "lexer \<Rightarrow> nat \<times> nat" where
  "position lx = (lx_line lx, lx_column lx)"

definition moved :: "lexer \<Rightarrow> string \<Rightarrow> lexer" where
  "moved lx t =
     lx\<lparr>lx_pos := lx_pos lx + length t,
        lx_line := fst (position_after (position lx) t),
        lx_column := snd (position_after (position lx) t)\<rparr>"

lemma position_after_simps [simp]:
  "position_after p [] = p"
  "position_after p (c # t) = position_after (after_char p c) t"
  "position_after p (t @ t') = position_after (position_after p t) t'"
  by (simp_all add: position_after_def)

lemma position_moved [simp]: "position (moved lx t) = position_after (position lx) t"
  by (simp add: position_def moved_def)

lemma moved_Nil [simp]: "moved lx [] = lx"
  by (simp add: moved_def position_def)

lemma moved_moved [simp]: "moved (moved lx a) b = moved lx (a @ b)"
  by (simp add: moved_def position_def)

lemma rest_moved [simp]: "rest (moved lx t) = drop (length t) (rest lx)"
  by (simp add: rest_def moved_def add.commute)

lemma drop_takeWhile [simp]:
  "drop (length (takeWhile p xs)) xs = dropWhile p xs"
  "drop (Suc (length (takeWhile p xs))) xs = tl (dropWhile p xs)"
  by (induction xs) (simp_all add: drop_Suc)

lemma isAtEnd_iff [simp]: "isAtEnd lx \<longleftrightarrow> rest lx = []"
  by (simp add: isAtEnd_def rest_def)

lemma rest_ConsD:
  assumes "rest lx = c # r"
  shows "lx_pos lx < length (lx_source lx)" "lx_source lx ! lx_pos lx = c"
    "drop (lx_pos lx + 1) (lx_source lx) = r"
  using assms unfolding rest_def
  by (metis append_Nil2 append_take_drop_id drop_all leI list.simps(3),
      metis nth_via_drop, metis drop_Suc drop_tl list.sel(3) Suc_eq_plus1)

lemma peek_Cons [simp]: "rest lx = c # r \<Longrightarrow> peek lx = c"
  by (simp add: peek_def rest_ConsD)

lemma peekNext_Cons: "rest lx = c # r \<Longrightarrow> peekNext lx = (case r of [] \<Rightarrow> NUL | d # _ \<Rightarrow> d)"
  using rest_ConsD(3) [of lx c r] nth_via_drop [of "lx_pos lx + 1" "lx_source lx"]
  by (cases r) (auto simp: peekNext_def)

lemma advance_Cons [simp]: "rest lx = c # r \<Longrightarrow> advance lx = (c, moved lx [c])"
  by (simp add: advance_def moved_def position_def Let_def)

lemma matchChar_rest:
  "matchChar e lx = (case rest lx of [] \<Rightarrow> (False, lx) | c # _ \<Rightarrow> if c = e then (True, moved lx [c]) else (False, lx))"
  by (cases "rest lx") (simp_all add: matchChar_def rest_ConsD)

lemma scanWhile_rest:
  "scanWhile p acc lx = (acc @ takeWhile p (rest lx), moved lx (takeWhile p (rest lx)))"
proof (induction p acc lx rule: scanWhile.induct)
  case (1 p acc lx)
  then show ?case
    by (cases "rest lx") (subst scanWhile.simps, simp)+
qed

text \<open>Layout: blanks, and comments up to the end of their line.\<close>

definition starts_comment :: "string \<Rightarrow> bool" where
  "starts_comment s \<longleftrightarrow> take 2 s = ''//''"

function layout :: "string \<Rightarrow> string" where
  "layout s =
     (if s \<noteq> [] \<and> isBlank (hd s) then hd s # layout (tl s)
      else if starts_comment s
      then takeWhile (\<lambda>c. c \<noteq> NEWLINE) s @ layout (dropWhile (\<lambda>c. c \<noteq> NEWLINE) s)
      else [])"
  by pat_completeness auto
termination
proof (relation "measure length", goal_cases)
  case (3 s)
  then obtain r where "s = CHR ''/'' # r" by (cases s) (auto simp: starts_comment_def)
  then show ?case by (simp add: le_imp_less_Suc length_dropWhile_le)
qed auto

declare layout.simps [simp del]

lemma comment_at_peek:
  "rest lx \<noteq> [] \<Longrightarrow> peek lx = CHR ''/'' \<and> peekNext lx = CHR ''/'' \<longleftrightarrow> starts_comment (rest lx)"
  by (cases "rest lx"; cases "tl (rest lx)") (auto simp: peekNext_Cons starts_comment_def)

lemma skipComment_rest:
  "skipComment lx = moved lx (takeWhile (\<lambda>c. c \<noteq> NEWLINE) (rest lx))"
  by (simp add: skipComment_def scanWhile_rest)

lemma skip_rest: "skipWhitespaceAndComments lx = moved lx (layout (rest lx))"
proof (induction lx rule: skipWhitespaceAndComments.induct)
  case (1 lx)
  show ?case
  proof (cases "rest lx")
    case Nil
    then show ?thesis
      by (subst skipWhitespaceAndComments.simps, subst layout.simps) (simp add: starts_comment_def)
  next
    case (Cons c r)
    then show ?thesis
      using 1 comment_at_peek [of lx]
      by (subst skipWhitespaceAndComments.simps, subst layout.simps) (auto simp: skipComment_rest)
  qed
qed

text \<open>The text of a number at the start of a string.\<close>

definition starts_fraction :: "string \<Rightarrow> bool" where
  "starts_fraction s \<longleftrightarrow> (case s of d # e # _ \<Rightarrow> d = CHR ''.'' \<and> is_digit e | _ \<Rightarrow> False)"

definition number_text :: "string \<Rightarrow> token_type \<times> string" where
  "number_text s =
     (let a = takeWhile is_digit s; b = dropWhile is_digit s
      in if starts_fraction b then (FLOAT_LITERAL, a @ CHR ''.'' # takeWhile is_digit (tl b))
         else (INT_LITERAL, a))"

lemma starts_fraction_peek:
  "peek lx = CHR ''.'' \<and> is_digit (peekNext lx) \<longleftrightarrow> starts_fraction (rest lx)"
proof (cases "rest lx")
  case Nil
  then show ?thesis by (simp add: peek_def starts_fraction_def)
next
  case (Cons c r)
  have "\<not> is_digit NUL" by (simp add: is_digit_def)
  with Cons show ?thesis by (auto simp: starts_fraction_def peekNext_Cons split: list.splits)
qed

lemma not_digit_dot [simp]: "\<not> is_digit CHR ''.''"
  by (simp add: is_digit_def)

lemma starts_fractionE:
  assumes "starts_fraction s"
  obtains d r where "s = CHR ''.'' # d # r" "is_digit d"
  using assms by (auto simp: starts_fraction_def split: list.splits)

lemma scanNumber_rest:
  assumes "is_digit (peek lx) \<or> starts_fraction (rest lx)"
  shows "scanNumber lx =
    (mkToken (fst (number_text (rest lx))) (snd (number_text (rest lx))) (lx_line lx) (lx_column lx),
     moved lx (snd (number_text (rest lx))))"
proof (cases "peek lx = CHR ''.''")
  case True
  then obtain d r where "rest lx = CHR ''.'' # d # r" "is_digit d"
    using assms starts_fractionE by auto
  then show ?thesis
    using True by (simp add: scanNumber_def scanWhile_rest number_text_def starts_fraction_def)
next
  case False
  let ?a = "takeWhile is_digit (rest lx)"
  show ?thesis
  proof (cases "starts_fraction (dropWhile is_digit (rest lx))")
    case T: True
    then obtain d r where r: "dropWhile is_digit (rest lx) = CHR ''.'' # d # r"
      by (rule starts_fractionE)
    then have "advance (moved lx ?a) = (CHR ''.'', moved (moved lx ?a) ''.'')" by (intro advance_Cons) simp
    then show ?thesis
      using False T starts_fraction_peek [of "moved lx ?a"] r
      by (simp add: scanNumber_def scanWhile_rest number_text_def)
  next
    case F: False
    then show ?thesis
      using False starts_fraction_peek [of "moved lx ?a"]
      by (auto simp: scanNumber_def scanWhile_rest number_text_def)
  qed
qed

text \<open>What stands between the quotes of a string literal: the text it denotes, and its source.\<close>

fun string_span :: "string \<Rightarrow> (string \<times> string) option" where
  "string_span [] = None"
| "string_span (c # cs) =
     (if c = QUOTE then Some ([], [])
      else if c = BACKSLASH then
        (case cs of
           [] \<Rightarrow> None
         | e # es \<Rightarrow> map_option (\<lambda>(l, b). (escaped e # l, c # e # b)) (string_span es))
      else map_option (\<lambda>(l, b). (c # l, c # b)) (string_span cs))"

lemma scanStringLoop_rest:
  "case string_span (rest lx) of
     None \<Rightarrow> isAtEnd (snd (scanStringLoop acc lx))
   | Some (l, b) \<Rightarrow> scanStringLoop acc lx = (acc @ l, moved lx b) \<and>
       (\<exists>r. rest lx = b @ QUOTE # r)"
proof (induction "rest lx" arbitrary: acc lx rule: string_span.induct)
  case 1
  then show ?case by (subst scanStringLoop.simps) simp
next
  case (2 c cs)
  note Cons = 2(3) [symmetric]
  consider "c = QUOTE" | "c = BACKSLASH" "cs = []" | e es where "c = BACKSLASH" "cs = e # es"
    | "c \<noteq> QUOTE" "c \<noteq> BACKSLASH"
    by (cases cs) auto
  then show ?case
  proof cases
    case 2
    then show ?thesis
      using Cons
      by (subst scanStringLoop.simps) (simp add: scanStringLoop.simps [of _ "moved lx [BACKSLASH]"])
  next
    case 3
    then have "scanStringLoop acc lx = scanStringLoop (acc @ [escaped e]) (moved lx [c, e])"
      using Cons by (subst scanStringLoop.simps) simp
    then show ?thesis
      using 3 Cons "2.hyps"(1) [of e "moved lx [c, e]" "acc @ [escaped e]"]
      by (auto split: option.splits)
  next
    case 4
    then have "scanStringLoop acc lx = scanStringLoop (acc @ [c]) (moved lx [c])"
      using Cons by (subst scanStringLoop.simps) simp
    then show ?thesis
      using 4 Cons "2.hyps"(2) [of "moved lx [c]" "acc @ [c]"]
      by (auto split: option.splits)
  qed (use Cons in \<open>subst scanStringLoop.simps, simp\<close>)
qed

lemma scanString_rest:
  assumes "rest lx = QUOTE # r"
  shows "scanString lx =
    (case string_span r of
       None \<Rightarrow> Inl unterminatedString
     | Some (l, b) \<Rightarrow>
         Inr (mkToken STRING_LITERAL l (lx_line lx) (lx_column lx), moved lx (QUOTE # b @ [QUOTE])))"
  using scanStringLoop_rest [of "[]" "moved lx [QUOTE]"] assms
  by (auto simp: scanString_def Let_def case_prod_beta split: option.splits)

function regex_span :: "string \<Rightarrow> (string \<times> string) option" where
  "regex_span s =
     (case s of
        [] \<Rightarrow> None
      | c # cs \<Rightarrow>
          if c = CHR ''#'' then Some ([], [])
          else if c = BACKSLASH then
            (case cs of
               [] \<Rightarrow> None
             | d # ds \<Rightarrow> map_option (\<lambda>(l, b). (c # d # l, c # d # b)) (regex_span ds))
          else if starts_comment s then
            map_option (\<lambda>(l, b). (l, takeWhile (\<lambda>c. c \<noteq> NEWLINE) s @ b))
              (regex_span (dropWhile (\<lambda>c. c \<noteq> NEWLINE) cs))
          else if isBlank c then map_option (\<lambda>(l, b). (l, c # b)) (regex_span cs)
          else map_option (\<lambda>(l, b). (c # l, c # b)) (regex_span cs))"
  by pat_completeness auto
termination
  by (relation "measure length") (auto simp: le_imp_less_Suc length_dropWhile_le)

declare regex_span.simps [simp del]

lemma regex_span_Nil [simp]: "regex_span [] = None"
  by (simp add: regex_span.simps)

lemma scanRegexLoop_rest:
  "scanRegexLoop acc lx =
     (case regex_span (rest lx) of
        None \<Rightarrow> Inl unterminatedRegex
      | Some (l, b) \<Rightarrow> Inr (acc @ l, moved lx (b @ ''#'')))"
proof (induction "rest lx" arbitrary: acc lx rule: regex_span.induct)
  case 1
  note IH = 1
  show ?case
  proof (cases "rest lx")
    case Nil
    then show ?thesis by (subst scanRegexLoop.simps, subst regex_span.simps) simp
  next
    case (Cons c cs)
    consider "c = CHR ''#''" | "c = BACKSLASH" "cs = []" | d ds where "c = BACKSLASH" "cs = d # ds"
      | "starts_comment (c # cs)" "c = CHR ''/''"
      | "c \<noteq> CHR ''#''" "c \<noteq> BACKSLASH" "\<not> starts_comment (c # cs)"
      by (cases cs) (auto simp: starts_comment_def)
    then show ?thesis
    proof cases
      case 3
      then show ?thesis
        using Cons IH(1) [OF Cons, of d "moved lx [c, d]" "acc @ [c, d]"]
        by (subst scanRegexLoop.simps, subst regex_span.simps) (auto split: option.splits)
    next
      case 4
      then show ?thesis
        using Cons comment_at_peek [of lx] IH(2) [OF Cons, of "skipComment lx" acc]
        by (subst scanRegexLoop.simps, subst regex_span.simps)
          (auto simp: skipComment_rest split: option.splits)
    next
      case 5
      then have "\<not> (peek lx = CHR ''/'' \<and> peekNext lx = CHR ''/'')"
        using comment_at_peek [of lx] Cons by simp
      then show ?thesis
        using Cons 5 IH(3) [of c "moved lx [c]" acc]
          IH(4) [of c "moved lx [c]" "acc @ [c]"]
        by (subst scanRegexLoop.simps, subst regex_span.simps) (auto split: option.splits)
    qed (use Cons in \<open>subst scanRegexLoop.simps, subst regex_span.simps, simp\<close>)+
  qed
qed

lemma scanRegexLiteral_rest:
  assumes "rest lx = c # r"
  shows "scanRegexLiteral lx =
    (case regex_span r of
       None \<Rightarrow> Inl unterminatedRegex
     | Some (l, b) \<Rightarrow>
         Inr (mkToken REGEX_LITERAL l (lx_line lx) (lx_column lx), moved lx (c # b @ ''#'')))"
  using assms by (simp add: scanRegexLiteral_def scanRegexLoop_rest split: option.splits)

definition symbolTable :: "(string \<times> symbol_type) list" where
  "symbolTable =
     [(''>>>'', USHR), (''>>'', SHR), (''>='', GTE), (''<<'', SHL), (''<='', LTE), (''=='', EQ),
      (''=>'', FAT_ARROW), (''!='', NEQ), (''^^'', POW), (''&&'', AND_tok), (''||'', OR_tok),
      (''..'', DOT_DOT), (''>'', GT), (''<'', LT), (''='', ASSIGN), (''!'', NOT_tok),
      (''^'', BIT_XOR), (''&'', BIT_AND), (''|'', BIT_OR), (''.'', DOT)] @
     map (\<lambda>(c, ty). ([c], ty)) singleSymbols"

definition symbol_text :: "string \<Rightarrow> token_type \<times> string" where
  "symbol_text s =
     (case find (\<lambda>(t, _). t = take (length t) s) symbolTable of
        Some (t, ty) \<Rightarrow> (Sym ty, t)
      | None \<Rightarrow> (UNKNOWN, take 1 s))"

lemma orElse_rest:
  "orElse e f g lx =
     (case rest lx of [] \<Rightarrow> g lx | c # _ \<Rightarrow> if c = e then f (moved lx [c]) else g lx)"
  by (simp add: orElse_def matchChar_rest split: list.splits)

lemmas operator_simps = scanOperator_def symbol_text_def symbolTable_def singleSymbols_def orElse_rest push_def

definition operatorStarts :: string where
  "operatorStarts = ''^&|.=!<>''"


lemma scanOperator_long:
  assumes "c \<in> set operatorStarts"
  shows "scanOperator c lx = (symbol_text (c # rest lx), moved lx (tl (snd (symbol_text (c # rest lx)))))"
proof -
  have c: "c = CHR ''^'' \<or> c = CHR ''&'' \<or> c = CHR ''|'' \<or> c = CHR ''.'' \<or> c = CHR ''='' \<or>
    c = CHR ''!'' \<or> c = CHR ''<'' \<or> c = CHR ''>''"
    using assms by (simp add: operatorStarts_def)
  consider "rest lx = []" | d where "rest lx = [d]" | d e r where "rest lx = d # e # r"
    by (cases "rest lx" rule: remdups_adj.cases) auto
  then show ?thesis
    by cases (use c in \<open>elim disjE; simp add: operator_simps\<close>)+
qed

lemma scanOperator_single:
  assumes "c \<in> fst ` set singleSymbols"
  shows "scanOperator c lx = (symbol_text (c # rest lx), moved lx (tl (snd (symbol_text (c # rest lx)))))"
proof -
  have "c = CHR ''('' \<or> c = CHR '')'' \<or> c = CHR ''{'' \<or> c = CHR ''}'' \<or> c = CHR '','' \<or>
    c = CHR ''+'' \<or> c = CHR ''-'' \<or> c = CHR ''*'' \<or> c = CHR ''/'' \<or> c = CHR ''%'' \<or>
    c = CHR ''['' \<or> c = CHR '']'' \<or> c = CHR '';'' \<or> c = CHR '':'' \<or> c = CHR ''@'' \<or> c = CHR ''~''"
    using assms by (simp add: singleSymbols_def)
  then show ?thesis
    by (elim disjE; simp add: operator_simps)
qed

lemma symbolTable_starts:
  "(t, ty) \<in> set symbolTable \<Longrightarrow> t \<noteq> [] \<and> (hd t \<in> set operatorStarts \<or> hd t \<in> fst ` set singleSymbols)"
  by (auto simp: symbolTable_def operatorStarts_def singleSymbols_def)

lemma symbol_text_unknown:
  assumes "c \<notin> set operatorStarts" "c \<notin> fst ` set singleSymbols"
  shows "symbol_text (c # r) = (UNKNOWN, [c])"
proof -
  have "find (\<lambda>(t, _). t = take (length t) (c # r)) symbolTable = None"
  proof (clarsimp simp: find_None_iff)
    fix t ty
    assume "(t, ty) \<in> set symbolTable" "t = take (length t) (c # r)"
    then show False
      using symbolTable_starts [of t ty] assms by (cases t) auto
  qed
  then show ?thesis by (simp add: symbol_text_def)
qed

lemma scanOperator_rest:
  "scanOperator c lx = (symbol_text (c # rest lx), moved lx (tl (snd (symbol_text (c # rest lx)))))"
proof -
  consider "c \<in> set operatorStarts" | "c \<in> fst ` set singleSymbols"
    | "c \<notin> set operatorStarts" "c \<notin> fst ` set singleSymbols"
    by blast
  then show ?thesis
  proof cases
    case 3
    then have "map_of singleSymbols c = None" by (simp add: map_of_eq_None_iff)
    then show ?thesis
      using 3 by (simp add: symbol_text_unknown scanOperator_def push_def operatorStarts_def)
  qed (simp_all add: scanOperator_long scanOperator_single)
qed

definition word_type :: "string \<Rightarrow> token_type" where
  "word_type t = (case map_of keywordTable t of Some k \<Rightarrow> Kw k | None \<Rightarrow> IDENTIFIER)"

definition word_start :: "char \<Rightarrow> bool" where
  "word_start c \<longleftrightarrow> is_alpha c \<or> c = CHR ''_''"

text \<open>The token a text begins with: its type, its lexeme and its source.\<close>

definition token_at :: "string \<Rightarrow> string + token_type \<times> string \<times> string" where
  "token_at s =
     (if is_digit (hd s) \<or> starts_fraction s
      then Inr (fst (number_text s), snd (number_text s), snd (number_text s))
      else if word_start (hd s)
      then Inr (word_type (takeWhile wordChar s), takeWhile wordChar s, takeWhile wordChar s)
      else if hd s = QUOTE then
        (case string_span (tl s) of
           None \<Rightarrow> Inl unterminatedString
         | Some (l, b) \<Rightarrow> Inr (STRING_LITERAL, l, QUOTE # b @ [QUOTE]))
      else if hd s = CHR ''#'' then
        (case regex_span (tl s) of
           None \<Rightarrow> Inl unterminatedRegex
         | Some (l, b) \<Rightarrow> Inr (REGEX_LITERAL, l, CHR ''#'' # b @ ''#''))
      else Inr (fst (symbol_text s), snd (symbol_text s), snd (symbol_text s)))"

lemma find_symbol:
  assumes "find (\<lambda>(t, _). t = take (length t) s) symbolTable = Some (t, ty)"
  shows "(t, ty) \<in> set symbolTable" "t = take (length t) s"
  using find_Some_iff_first [OF assms] by auto

lemma symbol_text_shape:
  assumes "s \<noteq> []"
  shows "snd (symbol_text s) \<noteq> [] \<and> (\<exists>r. s = snd (symbol_text s) @ r)"
proof (cases "find (\<lambda>(t, _). t = take (length t) s) symbolTable")
  case None
  then show ?thesis using assms by (auto simp: symbol_text_def intro: exI [of _ "drop 1 s"])
next
  case (Some e)
  then obtain t ty where "find (\<lambda>(t, _). t = take (length t) s) symbolTable = Some (t, ty)"
    by (cases e) auto
  note t = this find_symbol [OF this]
  then have "s = t @ drop (length t) s" by (metis append_take_drop_id)
  with t show ?thesis
    using symbolTable_starts [of t ty] by (auto simp: symbol_text_def)
qed

lemma scanSymbol_rest:
  assumes "rest lx = c # r"
  shows "scanSymbol lx =
    (if c = CHR ''#'' then scanRegexLiteral lx
     else Inr (mkToken (fst (symbol_text (rest lx))) (snd (symbol_text (rest lx))) (lx_line lx)
                 (lx_column lx), moved lx (snd (symbol_text (rest lx)))))"
proof (cases "c = CHR ''#''")
  case True
  then show ?thesis
    using assms by (simp add: scanSymbol_def) (simp add: moved_def position_def)
next
  case False
  obtain t where t: "snd (symbol_text (rest lx)) = c # t"
    using symbol_text_shape [of "rest lx"] assms
    by (metis Cons_eq_append_conv list.distinct(1))
  then show ?thesis
    using assms False by (simp add: scanSymbol_def scanOperator_rest case_prod_beta)
qed

lemma scanToken_rest:
  assumes "rest lx \<noteq> []"
  shows "scanToken lx =
    map_sum id (\<lambda>(ty, l, t). (mkToken ty l (lx_line lx) (lx_column lx), moved lx t)) (token_at (rest lx))"
proof -
  obtain c r where r: "rest lx = c # r" using assms by (cases "rest lx") auto
  then have [simp]: "peek lx = c" by simp
  show ?thesis
    using r starts_fraction_peek [of lx] scanNumber_rest [of lx]
    by (auto simp: scanToken_def token_at_def Let_def scanIdentifierOrKeyword_def scanWhile_rest
        word_type_def word_start_def scanString_rest scanSymbol_rest scanRegexLiteral_rest
        split: option.splits)
qed

lemma takeWhile_prefix [simp]: "\<exists>r. s = takeWhile p s @ r"
  by (metis takeWhile_dropWhile_id)

lemma fraction_split:
  "starts_fraction b \<Longrightarrow> b = CHR ''.'' # takeWhile is_digit (tl b) @ dropWhile is_digit (tl b)"
  by (auto elim!: starts_fractionE)

lemma number_text_shape:
  assumes "s \<noteq> []" and "is_digit (hd s) \<or> starts_fraction s"
  shows "snd (number_text s) \<noteq> [] \<and> (\<exists>r. s = snd (number_text s) @ r)"
proof (cases "starts_fraction (dropWhile is_digit s)")
  case True
  have "s = takeWhile is_digit s @ dropWhile is_digit s" by simp
  also have "dropWhile is_digit s =
    CHR ''.'' # takeWhile is_digit (tl (dropWhile is_digit s)) @ dropWhile is_digit (tl (dropWhile is_digit s))"
    by (rule fraction_split [OF True])
  finally have "\<exists>r. s = snd (number_text s) @ r"
    using True by (simp add: number_text_def del: takeWhile_dropWhile_id) blast
  then show ?thesis using True by (simp add: number_text_def)
next
  case False
  then show ?thesis
    using assms by (cases s) (auto simp: number_text_def split: if_splits)
qed

lemma string_span_shape: "string_span s = Some (l, b) \<Longrightarrow> \<exists>r. s = b @ QUOTE # r"
  by (induction s arbitrary: l b rule: string_span.induct) (auto split: if_splits list.splits)

lemma regex_span_shape: "regex_span s = Some (l, b) \<Longrightarrow> \<exists>r. s = b @ CHR ''#'' # r"
proof (induction s arbitrary: l b rule: regex_span.induct)
  case (1 s)
  note IH = 1
  show ?case
  proof (cases "starts_comment s \<and> hd s \<noteq> CHR ''#'' \<and> hd s \<noteq> BACKSLASH")
    case True
    then obtain c cs where s: "s = c # cs" "c = CHR ''/''"
      by (cases s) (auto simp: starts_comment_def)
    obtain b' where b': "regex_span (dropWhile (\<lambda>c. c \<noteq> NEWLINE) cs) = Some (l, b')"
        "b = takeWhile (\<lambda>c. c \<noteq> NEWLINE) s @ b'"
      using IH(5) s True by (subst (asm) regex_span.simps) auto
    then obtain r where "dropWhile (\<lambda>c. c \<noteq> NEWLINE) cs = b' @ CHR ''#'' # r"
      using IH(2) s True by auto
    then have "dropWhile (\<lambda>c. c \<noteq> NEWLINE) s = b' @ CHR ''#'' # r" using s by simp
    then have "s = takeWhile (\<lambda>c. c \<noteq> NEWLINE) s @ b' @ CHR ''#'' # r"
      using takeWhile_dropWhile_id [of "\<lambda>c. c \<noteq> NEWLINE" s] by simp
    then show ?thesis using b'(2) by auto
  next
    case False
    then show ?thesis
      using IH by (subst (asm) (5) regex_span.simps) (auto split: list.splits if_splits)
  qed
qed

lemma token_at_shape:
  assumes "s \<noteq> []" and "token_at s = Inr (ty, l, t)"
  shows "t \<noteq> [] \<and> (\<exists>r. s = t @ r)"
proof -
  obtain c r where s: "s = c # r" using assms by (cases s) auto
  show ?thesis
    using assms number_text_shape [of s] symbol_text_shape [of s]
      string_span_shape [of r] regex_span_shape [of r] takeWhile_dropWhile_id [of wordChar s]
    by (auto simp: s token_at_def word_start_def wordChar_def is_alnum_def split: if_splits option.splits)
qed

lemma scanToken_progress:
  assumes "\<not> isAtEnd lx" and "scanToken lx = Inr (tk, lx')"
  shows "length (rest lx') < length (rest lx)"
proof -
  obtain ty l t where t: "token_at (rest lx) = Inr (ty, l, t)" "lx' = moved lx t"
    using assms by (auto simp: scanToken_rest map_sum_def split: sum.splits)
  then show ?thesis
    using token_at_shape [of "rest lx" ty l t] assms(1) by auto
qed

function tokenizeLoop :: "token list \<Rightarrow> lexer \<Rightarrow> string + token list" where
  "tokenizeLoop tokens lx =
     (let lx1 = skipWhitespaceAndComments lx
      in if isAtEnd lx1 then Inr (tokens @ [mkToken END_OF_FILE [] (lx_line lx1) (lx_column lx1)])
         else case scanToken lx1 of
           Inl e \<Rightarrow> Inl e
         | Inr (tk, lx2) \<Rightarrow> tokenizeLoop (tokens @ [tk]) lx2)"
  by pat_completeness auto
termination
proof (relation "measure (\<lambda>(tokens, lx). length (rest lx))", goal_cases)
  case (2 tokens lx lx1 y tk lx2)
  then have "length (rest lx2) < length (rest lx1)"
    by (intro scanToken_progress) auto
  then show ?case using 2(1) by (simp add: skip_rest)
qed auto

declare tokenizeLoop.simps [simp del]

definition tokenize :: "string \<Rightarrow> string + token list" where
  "tokenize source = tokenizeLoop [] (newLexer source)"

subsection \<open>What the tokens of a text are\<close>

text \<open>
  \<open>spells ty l t\<close>: the text \<open>t\<close> by itself is a token of type \<open>ty\<close> with lexeme \<open>l\<close>. A string
  literal ends at its first quote that no backslash escapes; a character that begins no other token
  is one of unknown type.
\<close>

definition is_float :: "string \<Rightarrow> bool" where
  "is_float t \<longleftrightarrow> starts_fraction (dropWhile is_digit t) \<and> list_all is_digit (tl (dropWhile is_digit t))"

definition begins_nothing :: "char \<Rightarrow> bool" where
  "begins_nothing c \<longleftrightarrow> \<not> is_digit c \<and> \<not> word_start c \<and> c \<noteq> QUOTE \<and> c \<noteq> CHR ''#'' \<and>
     c \<notin> set operatorStarts \<and> c \<notin> fst ` set singleSymbols"

fun spells :: "token_type \<Rightarrow> string \<Rightarrow> string \<Rightarrow> bool" where
  "spells INT_LITERAL l t \<longleftrightarrow> l = t \<and> t \<noteq> [] \<and> list_all is_digit t"
| "spells FLOAT_LITERAL l t \<longleftrightarrow> l = t \<and> is_float t"
| "spells STRING_LITERAL l t \<longleftrightarrow>
     (\<exists>b. t = QUOTE # b @ [QUOTE] \<and> string_span (b @ [QUOTE]) = Some (l, b))"
| "spells REGEX_LITERAL l t \<longleftrightarrow>
     (\<exists>b. t = CHR ''#'' # b @ ''#'' \<and> regex_span (b @ ''#'') = Some (l, b))"
| "spells IDENTIFIER l t \<longleftrightarrow>
     l = t \<and> t \<noteq> [] \<and> word_start (hd t) \<and> list_all wordChar t \<and> word_type t = IDENTIFIER"
| "spells (Kw k) l t \<longleftrightarrow> l = t \<and> (t, k) \<in> set keywordTable"
| "spells (Sym k) l t \<longleftrightarrow> l = t \<and> (t, k) \<in> set symbolTable"
| "spells UNKNOWN l t \<longleftrightarrow> l = t \<and> length t = 1 \<and> begins_nothing (hd t)"
| "spells _ l t \<longleftrightarrow> False"

text \<open>The longest token at the start of a text.\<close>

definition longest_token :: "string \<Rightarrow> token_type \<Rightarrow> string \<Rightarrow> string \<Rightarrow> bool" where
  "longest_token s ty l t \<longleftrightarrow> spells ty l t \<and> (\<exists>r. s = t @ r) \<and>
     (\<forall>ty' l' t' r'. s = t' @ r' \<and> spells ty' l' t' \<longrightarrow> length t' \<le> length t)"

text \<open>
  \<open>lexed p s ts\<close>: the tokens of \<open>s\<close>, a text that begins at line and column \<open>p\<close>. After layout stands the
  longest token, located where it begins; at the end of the text stands the end-of-file token.
\<close>

inductive lexed :: "nat \<times> nat \<Rightarrow> string \<Rightarrow> token list \<Rightarrow> bool" where
  at_end: "layout s = s \<Longrightarrow> position_after p s = (n, m) \<Longrightarrow> lexed p s [mkToken END_OF_FILE [] n m]"
| at_token: "s = layout s @ t @ r \<Longrightarrow> longest_token (t @ r) ty l t \<Longrightarrow>
    position_after p (layout s) = (n, m) \<Longrightarrow> lexed (position_after p (layout s @ t)) r ts \<Longrightarrow>
    lexed p s (mkToken ty l n m # ts)"

lemma string_span_append:
  "string_span s = Some (l, b) \<Longrightarrow> string_span (b @ QUOTE # r) = Some (l, b)"
  by (induction s arbitrary: l b rule: string_span.induct) (auto split: if_splits list.splits)

lemma regex_span_append:
  "regex_span s = Some (l, b) \<Longrightarrow> regex_span (b @ CHR ''#'' # r) = Some (l, b)"
proof (induction s arbitrary: l b rule: regex_span.induct)
  case (1 s)
  note IH = 1
  obtain c cs where s: "s = c # cs" using 1(5) by (cases s) auto
  have esc: "c = BACKSLASH \<Longrightarrow> cs \<noteq> []"
    using 1(5) s by (auto simp: regex_span.simps [of "[BACKSLASH]"])
  consider "c = CHR ''#''" | d ds where "c = BACKSLASH" "cs = d # ds"
    | "c = CHR ''/''" "starts_comment s"
    | "c \<noteq> CHR ''#''" "c \<noteq> BACKSLASH" "\<not> starts_comment s"
    using esc by (cases cs) (auto simp: starts_comment_def s)
  then show ?case
  proof cases
    case 1
    then show ?thesis using IH(5) s by (simp add: regex_span.simps)
  next
    case 2
    then obtain l' b' where "regex_span ds = Some (l', b')" "l = c # d # l'" "b = c # d # b'"
      using IH(5) s by (auto simp: regex_span.simps [of "BACKSLASH # d # ds"])
    then show ?thesis
      using IH(1) [OF s _ 2] 2 by (simp add: regex_span.simps [of "BACKSLASH # _"])
  next
    case 3
    let ?p = "\<lambda>c. c \<noteq> NEWLINE"
    obtain b' where b': "regex_span (dropWhile ?p cs) = Some (l, b')" "b = takeWhile ?p s @ b'"
      using IH(5) s 3 by (auto simp: regex_span.simps [of "CHR ''/'' # cs"])
    obtain r' where r': "dropWhile ?p cs = b' @ CHR ''#'' # r'"
      using regex_span_shape [OF b'(1)] by auto
    then have "b' @ CHR ''#'' # r' \<noteq> [] \<and> \<not> ?p (hd (b' @ CHR ''#'' # r'))"
      using hd_dropWhile [of ?p cs] by auto
    then obtain b'' where n: "b' = NEWLINE # b''" by (cases b') auto
    then have "takeWhile ?p (b @ CHR ''#'' # r) = takeWhile ?p s"
        "dropWhile ?p (b @ CHR ''#'' # r) = b' @ CHR ''#'' # r"
      using b' by (auto simp: takeWhile_append dropWhile_append dest: set_takeWhileD)
    moreover obtain cs' where "s = CHR ''/'' # CHR ''/'' # cs'"
      using 3 s by (cases cs) (auto simp: starts_comment_def)
    moreover have "regex_span (b' @ CHR ''#'' # r) = Some (l, b')"
      using IH(2) [OF s] 3 b' s by simp
    ultimately show ?thesis
      using b' by (subst regex_span.simps) (simp add: starts_comment_def)
  next
    case 4
    then obtain l' b' where "regex_span cs = Some (l', b')" "b = c # b'"
      using IH(5) s by (auto simp: regex_span.simps [of "c # cs"] split: if_splits)
    moreover have "\<not> starts_comment (c # b' @ CHR ''#'' # r)"
      using regex_span_shape [OF calculation(1)] s 4(3) by (cases b') (auto simp: starts_comment_def)
    ultimately show ?thesis
      using IH(3,4,5) s 4 by (subst regex_span.simps) (auto simp: regex_span.simps [of "c # cs"] split: if_splits)
  qed
qed


lemma takeWhile_wordChar_type:
  assumes "word_start (hd s)" "s \<noteq> []"
  shows "spells (word_type (takeWhile wordChar s)) (takeWhile wordChar s) (takeWhile wordChar s)"
proof (cases "map_of keywordTable (takeWhile wordChar s)")
  case None
  with assms show ?thesis
    by (cases s) (auto simp: word_type_def list_all_iff word_start_def wordChar_def is_alnum_def dest!: set_takeWhileD)
next
  case (Some k)
  then show ?thesis by (simp add: word_type_def map_of_SomeD)
qed

lemma number_text_spells:
  assumes "s \<noteq> []" "is_digit (hd s) \<or> starts_fraction s"
  shows "spells (fst (number_text s)) (snd (number_text s)) (snd (number_text s))"
proof (cases "starts_fraction (dropWhile is_digit s)")
  case True
  then obtain d r where r: "dropWhile is_digit s = CHR ''.'' # d # r" "is_digit d"
    by (rule starts_fractionE)
  have "list_all is_digit (takeWhile is_digit xs)" for xs
    by (auto simp: list_all_iff dest: set_takeWhileD)
  with r show ?thesis
    by (simp add: number_text_def is_float_def starts_fraction_def dropWhile_append list_all_iff
        dropWhile_eq_Nil_conv)
next
  case False
  then show ?thesis
    using number_text_shape [OF assms] by (auto simp: number_text_def list_all_iff dest: set_takeWhileD)
qed

lemma token_at_spells:
  assumes "s \<noteq> []" and "token_at s = Inr (ty, l, t)"
  shows "spells ty l t"
proof -
  obtain c r where s: "s = c # r" using assms by (cases s) auto
  consider "is_digit c \<or> starts_fraction s" | "word_start c" "\<not> (is_digit c \<or> starts_fraction s)"
    | "c = QUOTE" "\<not> (is_digit c \<or> starts_fraction s)" "\<not> word_start c"
    | "c = CHR ''#''" "\<not> (is_digit c \<or> starts_fraction s)" "\<not> word_start c"
    | "\<not> (is_digit c \<or> starts_fraction s)" "\<not> word_start c" "c \<noteq> QUOTE" "c \<noteq> CHR ''#''"
    by blast
  then show ?thesis
  proof cases
    case 1
    then show ?thesis using assms number_text_spells [of s] s by (auto simp: token_at_def)
  next
    case 2
    then show ?thesis using assms takeWhile_wordChar_type [of s] s by (auto simp: token_at_def)
  next
    case 3
    then show ?thesis
      using assms s string_span_append [of r _ _ "[]"] by (auto simp: token_at_def split: option.splits)
  next
    case 4
    then show ?thesis
      using assms s regex_span_append [of r _ _ "[]"] by (auto simp: token_at_def split: option.splits)
  next
    case 5
    then have t: "ty = fst (symbol_text s)" "l = snd (symbol_text s)" "t = snd (symbol_text s)"
      using assms s by (auto simp: token_at_def)
    show ?thesis
    proof (cases "find (\<lambda>(t, _). t = take (length t) s) symbolTable")
      case None
      have "(t, ty) \<in> set symbolTable \<Longrightarrow> t \<noteq> take (length t) s" for t ty
        using None by (auto simp: find_None_iff)
      then have "[c] \<notin> fst ` set symbolTable" using s by fastforce
      then have "c \<notin> set operatorStarts" "c \<notin> fst ` set singleSymbols"
        by (force simp: symbolTable_def operatorStarts_def image_iff)+
      then show ?thesis using t 5 s by (simp add: symbol_text_unknown begins_nothing_def)
    next
      case (Some e)
      then show ?thesis
        using t find_symbol [of s "fst e" "snd e"] by (cases e) (auto simp: symbol_text_def)
    qed
  qed
qed


lemma sorted_find_longest:
  assumes "sorted_wrt (\<lambda>x y. length (fst y) \<le> length (fst x)) xs" "e \<in> set xs" "P e" "find P xs = Some e'"
  shows "length (fst e) \<le> length (fst e')"
  using assms by (induction xs) (auto split: if_splits)

lemma symbolTable_sorted: "sorted_wrt (\<lambda>x y. length (fst y) \<le> length (fst x)) symbolTable"
  by (simp add: symbolTable_def singleSymbols_def)

lemma symbolTable_distinct: "distinct (map fst symbolTable)"
  by (simp add: symbolTable_def singleSymbols_def)

lemma symbol_first_char:
  assumes "c \<in> set operatorStarts \<or> c \<in> fst ` set singleSymbols"
  shows "\<not> is_digit c" "\<not> word_start c" "c \<noteq> QUOTE" "c \<noteq> CHR ''#''" "\<not> isBlank c"
  using assms
  by (auto simp: operatorStarts_def singleSymbols_def is_digit_def word_start_def is_alpha_def isBlank_def)

text \<open>No text spells a longer token than the one the scanner finds, nor another one of the same length.\<close>

definition beats :: "string + token_type \<times> string \<times> string \<Rightarrow> token_type \<Rightarrow> string \<Rightarrow> string \<Rightarrow> bool" where
  "beats x ty' l' t' \<longleftrightarrow>
     (\<exists>ty l t. x = Inr (ty, l, t) \<and> (length t' < length t \<or> (ty, l, t) = (ty', l', t')))"

lemma takeWhile_all_append: "list_all P t \<Longrightarrow> takeWhile P (t @ r) = t @ takeWhile P r"
  by (simp add: list_all_iff takeWhile_append)

lemma dropWhile_all_append: "list_all P t \<Longrightarrow> dropWhile P (t @ r) = dropWhile P r"
  by (simp add: list_all_iff dropWhile_append)

lemma beats_int:
  assumes "t' \<noteq> []" "list_all is_digit t'"
  shows "beats (token_at (t' @ r)) INT_LITERAL t' t'"
proof -
  have "is_digit (hd (t' @ r))" using assms by (cases t') auto
  then show ?thesis
    using assms
    by (auto simp: beats_def token_at_def number_text_def Let_def takeWhile_all_append dropWhile_all_append)
qed

lemma beats_float:
  assumes "is_float t'"
  shows "beats (token_at (t' @ r)) FLOAT_LITERAL t' t'"
proof -
  define a where "a = takeWhile is_digit t'"
  obtain d b where b: "dropWhile is_digit t' = CHR ''.'' # d # b" "is_digit d"
    using assms by (auto simp: is_float_def elim: starts_fractionE)
  then have t': "t' = a @ CHR ''.'' # d # b"
    using takeWhile_dropWhile_id [of is_digit t'] by (simp add: a_def)
  have a: "list_all is_digit a" by (auto simp: a_def list_all_iff dest: set_takeWhileD)
  have "list_all is_digit b" using assms b by (simp add: is_float_def)
  moreover have "is_digit (hd (t' @ r)) \<or> starts_fraction (t' @ r)"
    using t' a b(2) by (cases a) (auto simp: starts_fraction_def)
  ultimately show ?thesis
    using a b(2)
    by (auto simp: beats_def token_at_def number_text_def t' takeWhile_all_append dropWhile_all_append
        starts_fraction_def)
qed

lemma beats_word:
  assumes "t' \<noteq> []" "word_start (hd t')" "list_all wordChar t'"
  shows "beats (token_at (t' @ r)) (word_type t') t' t'"
proof -
  have "\<not> is_digit (hd t')" "\<not> starts_fraction (t' @ r)"
    using assms(1,2)
    by (cases t'; auto simp: word_start_def is_alpha_def is_digit_def starts_fraction_def split: list.splits)+
  moreover have "takeWhile wordChar r = [] \<or> length t' < length (t' @ takeWhile wordChar r)" by auto
  ultimately show ?thesis
    using assms by (auto simp: beats_def token_at_def takeWhile_all_append)
qed

lemma beats_string:
  assumes "string_span (b @ [QUOTE]) = Some (l', b)"
  shows "beats (token_at (QUOTE # b @ QUOTE # r)) STRING_LITERAL l' (QUOTE # b @ [QUOTE])"
  using string_span_append [OF assms, of r]
  by (simp add: beats_def token_at_def starts_fraction_def is_digit_def word_start_def is_alpha_def
      split: list.splits)

lemma beats_regex:
  assumes "regex_span (b @ ''#'') = Some (l', b)"
  shows "beats (token_at (CHR ''#'' # b @ CHR ''#'' # r)) REGEX_LITERAL l' (CHR ''#'' # b @ ''#'')"
  using regex_span_append [OF assms, of r]
  by (simp add: beats_def token_at_def starts_fraction_def is_digit_def word_start_def is_alpha_def
      split: list.splits)

lemma beats_symbol:
  assumes "(t', k) \<in> set symbolTable"
  shows "beats (token_at (t' @ r)) (Sym k) t' t'"
proof -
  obtain c u where t': "t' = c # u" and c: "c \<in> set operatorStarts \<or> c \<in> fst ` set singleSymbols"
    using symbolTable_starts [OF assms] by (cases t') auto
  note first = symbol_first_char [OF c]
  show ?thesis
  proof (cases "starts_fraction (t' @ r)")
    case True
    then have "c = CHR ''.''" by (auto simp: t' elim: starts_fractionE)
    then have "t' = ''.'' \<or> t' = ''..''"
      using assms t' by (auto simp: symbolTable_def singleSymbols_def)
    with True have "t' = ''.''" by (auto simp: starts_fraction_def)
    with True obtain d r' where "r = d # r'" "is_digit d" by (auto elim: starts_fractionE)
    with \<open>t' = ''.''\<close> show ?thesis
      by (simp add: beats_def token_at_def number_text_def starts_fraction_def)
  next
    case False
    obtain e where e: "find (\<lambda>(t, _). t = take (length t) (t' @ r)) symbolTable = Some e"
      using assms by (cases "find (\<lambda>(t, _). t = take (length t) (t' @ r)) symbolTable")
        (fastforce simp: find_None_iff)+
    have len: "length t' \<le> length (fst e)"
      using sorted_find_longest [OF symbolTable_sorted assms _ e] by simp
    have e': "e \<in> set symbolTable" "fst e = take (length (fst e)) (t' @ r)"
      using find_symbol [of "t' @ r" "fst e" "snd e"] e by simp_all
    have "token_at (t' @ r) = Inr (Sym (snd e), fst e, fst e)"
      using False first e by (simp add: token_at_def t' symbol_text_def case_prod_beta)
    moreover have "e = (t', k)" if "length (fst e) = length t'"
    proof -
      have "fst e = t'" using e'(2) that by simp
      then show ?thesis
        using e'(1) assms symbolTable_distinct by (metis eq_key_imp_eq_value prod.collapse)
    qed
    ultimately show ?thesis using len by (auto simp: beats_def)
  qed
qed

lemma beats_unknown:
  assumes "begins_nothing c"
  shows "beats (token_at (c # r)) UNKNOWN [c] [c]"
proof -
  have "c \<noteq> CHR ''.''" using assms by (auto simp: begins_nothing_def operatorStarts_def)
  then have "\<not> starts_fraction (c # r)" by (auto elim: starts_fractionE)
  with assms show ?thesis
    by (simp add: beats_def token_at_def begins_nothing_def symbol_text_unknown)
qed

lemma keyword_words:
  "list_all (\<lambda>(t, k). t \<noteq> [] \<and> word_start (hd t) \<and> list_all wordChar t \<and> word_type t = Kw k) keywordTable"
  by (simp add: keywordTable_def word_type_def word_start_def wordChar_def is_alnum_def is_alpha_def)

lemma spells_beats: "spells ty' l' t' \<Longrightarrow> beats (token_at (t' @ r)) ty' l' t'"
proof (cases ty')
  case (Kw k)
  assume "spells ty' l' t'"
  with Kw have "l' = t'" "(t', k) \<in> set keywordTable" by simp_all
  then show ?thesis
    using keyword_words beats_word [of t' r] Kw by (auto simp: list_all_iff)
next
  case UNKNOWN
  assume "spells ty' l' t'"
  with UNKNOWN show ?thesis
    using beats_unknown [of "hd t'" r] by (cases t') auto
next
  case IDENTIFIER
  assume "spells ty' l' t'"
  with IDENTIFIER show ?thesis using beats_word [of t' r] by auto
qed (auto simp: beats_int beats_float beats_string beats_regex beats_symbol)

lemma token_at_longest:
  assumes "s \<noteq> []"
  shows "token_at s = Inr (ty, l, t) \<longleftrightarrow> longest_token s ty l t"
proof
  assume a: "token_at s = Inr (ty, l, t)"
  then have "length t' \<le> length t" if "spells ty' l' t'" "s = t' @ r'" for ty' l' t' r'
    using spells_beats [OF that(1), of r'] that(2) by (auto simp: beats_def)
  then show "longest_token s ty l t"
    using token_at_spells [OF assms a] token_at_shape [OF assms a] by (auto simp: longest_token_def)
next
  assume a: "longest_token s ty l t"
  then obtain r where "s = t @ r" "spells ty l t" by (auto simp: longest_token_def)
  then obtain ty1 l1 t1 where t1: "token_at s = Inr (ty1, l1, t1)"
      "length t < length t1 \<or> (ty1, l1, t1) = (ty, l, t)"
    using spells_beats [of ty l t r] by (auto simp: beats_def)
  moreover have "\<not> length t < length t1"
    using a token_at_spells [OF assms t1(1)] token_at_shape [OF assms t1(1)]
    by (auto simp: longest_token_def dest: leD)
  ultimately show "token_at s = Inr (ty, l, t)" by simp
qed

lemma layout_shape: "\<exists>r. s = layout s @ r"
proof (induction s rule: layout.induct)
  case (1 s)
  show ?case
  proof (cases "s \<noteq> [] \<and> isBlank (hd s)")
    case True
    then obtain c r where "s = c # r" by (cases s) auto
    then show ?thesis using 1(1) True by (auto simp: layout.simps [of "c # r"])
  next
    case False
    let ?p = "\<lambda>c. c \<noteq> NEWLINE"
    show ?thesis
    proof (cases "starts_comment s")
      case True
      then obtain r where r: "dropWhile ?p s = layout (dropWhile ?p s) @ r"
        using 1(2) False by blast
      have "layout s = takeWhile ?p s @ layout (dropWhile ?p s)"
        using False True by (subst layout.simps) auto
      then have "s = layout s @ r"
        using takeWhile_dropWhile_id [of ?p s] r by (metis append.assoc)
      then show ?thesis by blast
    next
      case F: False
      then have "layout s = []" using False by (subst layout.simps) auto
      then show ?thesis by simp
    qed
  qed
qed

lemma layout_rest: "s = layout s @ drop (length (layout s)) s"
  using layout_shape [of s] by (metis append_eq_conv_conj)

text \<open>The loop, as a function of the remaining text and its position.\<close>

lemma tokenizeLoop_end:
  assumes "layout (rest lx) = rest lx"
  shows "tokenizeLoop acc lx = Inr (acc @
    [mkToken END_OF_FILE [] (fst (position_after (position lx) (rest lx))) (snd (position_after (position lx) (rest lx)))])"
proof -
  have "fst (position_after (position lx) (rest lx)) = lx_line (moved lx (rest lx))"
      "snd (position_after (position lx) (rest lx)) = lx_column (moved lx (rest lx))"
    by (simp_all add: moved_def)
  then show ?thesis
    using assms by (subst tokenizeLoop.simps) (simp add: skip_rest Let_def)
qed

lemma tokenizeLoop_token:
  assumes "rest lx = layout (rest lx) @ u" and "u \<noteq> []"
    and "position_after (position lx) (layout (rest lx)) = (n, m)"
  shows "tokenizeLoop acc lx =
    (case token_at u of
       Inl e \<Rightarrow> Inl e
     | Inr (ty, l, t) \<Rightarrow> tokenizeLoop (acc @ [mkToken ty l n m]) (moved lx (layout (rest lx) @ t)))"
proof -
  let ?lx = "moved lx (layout (rest lx))"
  have u: "rest ?lx = u" using assms(1) by (metis append_eq_conv_conj rest_moved)
  moreover have "lx_line ?lx = n" "lx_column ?lx = m"
    using assms(3) position_moved [of lx "layout (rest lx)"] by (auto simp: position_def)
  ultimately show ?thesis
    using assms(2)
    by (subst tokenizeLoop.simps) (simp add: skip_rest scanToken_rest map_sum_def split: sum.splits)
qed

lemma spells_nonempty: "spells ty l t \<Longrightarrow> t \<noteq> []"
  using keyword_words symbolTable_starts by (cases ty) (auto simp: is_float_def starts_fraction_def list_all_iff)

lemma longest_token_nonempty: "longest_token s ty l t \<Longrightarrow> t \<noteq> []"
  by (auto simp: longest_token_def dest: spells_nonempty)

lemma tokenizeLoop_lexed:
  "tokenizeLoop acc lx = Inr ts \<longleftrightarrow> (\<exists>us. ts = acc @ us \<and> lexed (position lx) (rest lx) us)"
proof (induction "length (rest lx)" arbitrary: acc lx rule: less_induct)
  case less
  define u where "u = drop (length (layout (rest lx))) (rest lx)"
  have u: "rest lx = layout (rest lx) @ u" using layout_rest [of "rest lx"] by (simp add: u_def)
  obtain n m where nm: "position_after (position lx) (layout (rest lx)) = (n, m)" by fastforce
  show ?case
  proof (cases "u = []")
    case True
    with u have all: "layout (rest lx) = rest lx" by simp
    have "lexed (position lx) (rest lx) us \<longleftrightarrow> us = [mkToken END_OF_FILE [] n m]" for us
    proof
      assume "lexed (position lx) (rest lx) us"
      then show "us = [mkToken END_OF_FILE [] n m]"
        by (cases rule: lexed.cases) (use all nm in \<open>auto dest: longest_token_nonempty\<close>)
    next
      assume "us = [mkToken END_OF_FILE [] n m]"
      then show "lexed (position lx) (rest lx) us" using all nm by (auto intro: lexed.at_end)
    qed
    then show ?thesis using tokenizeLoop_end [OF all, of acc] all nm by auto
  next
    case False
    show ?thesis
    proof (cases "token_at u")
      case (Inl e)
      have "\<not> lexed (position lx) (rest lx) us" for us
      proof
        assume "lexed (position lx) (rest lx) us"
        then show False
        proof (cases rule: lexed.cases)
          case at_end
          with u False show False by simp
        next
          case (at_token t r ty l)
          then have "u = t @ r" using u by (metis same_append_eq)
          with at_token token_at_longest [OF False] Inl show False by auto
        qed
      qed
      then show ?thesis using tokenizeLoop_token [OF u False nm, of acc] Inl by simp
    next
      case (Inr x)
      then obtain ty l t where x: "token_at u = Inr (ty, l, t)" by (cases x) auto
      obtain r where r: "u = t @ r" and t: "t \<noteq> []" using token_at_shape [OF False x] by blast
      define lx' where "lx' = moved lx (layout (rest lx) @ t)"
      have rest': "rest lx' = r"
        unfolding lx'_def rest_moved using u r by (metis append.assoc append_eq_conv_conj)
      have "length (rest lx') < length (rest lx)"
        using arg_cong [OF u, of length] r t by (simp add: rest')
      note IH = less [OF this, of "acc @ [mkToken ty l n m]"]
      have pos: "position lx' = position_after (position lx) (layout (rest lx) @ t)"
        by (simp add: lx'_def)
      have "lexed (position lx) (rest lx) us \<longleftrightarrow>
          (\<exists>vs. us = mkToken ty l n m # vs \<and> lexed (position lx') r vs)" for us
      proof
        assume "lexed (position lx) (rest lx) us"
        then show "\<exists>vs. us = mkToken ty l n m # vs \<and> lexed (position lx') r vs"
        proof (cases rule: lexed.cases)
          case at_end
          with u False show ?thesis by simp
        next
          case (at_token t' r' ty' l')
          then have u': "u = t' @ r'" using u by (metis same_append_eq)
          with at_token have "token_at u = Inr (ty', l', t')" using token_at_longest [OF False] by simp
          with x u' r at_token nm pos show ?thesis by auto
        qed
      next
        assume "\<exists>vs. us = mkToken ty l n m # vs \<and> lexed (position lx') r vs"
        then show "lexed (position lx) (rest lx) us"
          using lexed.at_token [of "rest lx" t r ty l "position lx" n m] u r nm pos x token_at_longest [OF False]
          by auto
      qed
      then show ?thesis
        using tokenizeLoop_token [OF u False nm, of acc] x IH by (auto simp: lx'_def [symmetric] rest')
    qed
  qed
qed

lemma tokenizeLoop_errors:
  "tokenizeLoop acc lx = Inl e \<Longrightarrow> e = unterminatedString \<or> e = unterminatedRegex"
proof (induction acc lx rule: tokenizeLoop.induct)
  case (1 acc lx)
  have err: "token_at u = Inl e' \<Longrightarrow> e' = unterminatedString \<or> e' = unterminatedRegex" for u e'
    by (auto simp: token_at_def split: if_splits option.splits)
  show ?case
  proof (cases "isAtEnd (skipWhitespaceAndComments lx)")
    case True
    then show ?thesis using 1(2) by (subst (asm) tokenizeLoop.simps) (simp add: Let_def)
  next
    case False
    then show ?thesis
      using 1 err by (subst (asm) (2) tokenizeLoop.simps)
        (auto simp: scanToken_rest map_sum_def Let_def split: sum.splits prod.splits)
  qed
qed

lemma newLexer_start: "position (newLexer s) = (1, 1)" "rest (newLexer s) = s"
  by (simp_all add: newLexer_def position_def rest_def)

text \<open>C2: The lexer is total and finds exactly the longest-match tokens: it returns a token list if and
  only if the source text is layout and tokens in turn, each token the longest text at its place that
  spells one, located at the line and column where it begins, with one end-of-file token at the end; on
  every other text it throws one of its two messages.\<close>

theorem tokenize_correct:
  "(tokenize source = Inr ts \<longleftrightarrow> lexed (1, 1) source ts) \<and>
   (tokenize source \<in> {Inl unterminatedString, Inl unterminatedRegex} \<or>
    (\<exists>ts. lexed (1, 1) source ts))"
proof -
  have iff: "tokenize source = Inr ts \<longleftrightarrow> lexed (1, 1) source ts" for ts
    by (simp add: tokenize_def tokenizeLoop_lexed newLexer_start)
  moreover have "tokenize source \<in> {Inl unterminatedString, Inl unterminatedRegex} \<or>
      (\<exists>ts. lexed (1, 1) source ts)"
    using tokenizeLoop_errors [of "[]" "newLexer source"] iff
    by (cases "tokenize source") (auto simp: tokenize_def)
  ultimately show ?thesis by blast
qed

subsection \<open>Writing tokens and reading them back\<close>

definition quoteString :: "string \<Rightarrow> string" where
  "quoteString l =
     QUOTE # concat (map (\<lambda>c. if c = QUOTE \<or> c = BACKSLASH then [BACKSLASH, c] else [c]) l) @ [QUOTE]"

definition spelling :: "token_type \<Rightarrow> string \<Rightarrow> string" where
  "spelling ty l =
     (case ty of STRING_LITERAL \<Rightarrow> quoteString l | REGEX_LITERAL \<Rightarrow> CHR ''#'' # l @ ''#'' | _ \<Rightarrow> l)"

definition writable :: "token_type \<times> string \<Rightarrow> bool" where
  "writable x \<longleftrightarrow> (case x of (ty, l) \<Rightarrow> spells ty l (spelling ty l) \<and> \<not> isBlank (hd (spelling ty l)))"

definition write_tokens :: "(token_type \<times> string) list \<Rightarrow> string" where
  "write_tokens xs = concat (map (\<lambda>(ty, l). CHR '' '' # spelling ty l) xs)"

lemma quoteString_span:
  "string_span (concat (map (\<lambda>c. if c = QUOTE \<or> c = BACKSLASH then [BACKSLASH, c] else [c]) l) @ [QUOTE]) =
     Some (l, concat (map (\<lambda>c. if c = QUOTE \<or> c = BACKSLASH then [BACKSLASH, c] else [c]) l))"
  by (induction l) (auto simp: escaped_def)

lemma writable_string: "writable (STRING_LITERAL, l)"
  by (simp add: writable_def spelling_def quoteString_def quoteString_span isBlank_def)

lemma symbol_no_blank: "(t, k) \<in> set symbolTable \<Longrightarrow> CHR '' '' \<notin> set t \<and> take 2 t \<noteq> ''//''"
  by (auto simp: symbolTable_def singleSymbols_def)

lemma keyword_word: "(t, k) \<in> set keywordTable \<Longrightarrow> t \<noteq> [] \<and> word_start (hd t) \<and> list_all wordChar t"
  using keyword_words unfolding list_all_iff by fast

lemma digit_word_no_blank [simp]: "\<not> is_digit CHR '' ''" "\<not> wordChar CHR '' ''"
  by (simp_all add: is_digit_def wordChar_def is_alnum_def is_alpha_def)

lemma is_float_chars: "is_float t \<Longrightarrow> list_all (\<lambda>c. is_digit c \<or> c = CHR ''.'') t"
proof -
  assume f: "is_float t"
  then obtain d r where r: "dropWhile is_digit t = CHR ''.'' # d # r" "list_all is_digit (d # r)"
    by (auto simp: is_float_def elim: starts_fractionE)
  define a where "a = takeWhile is_digit t"
  have t: "t = a @ CHR ''.'' # d # r"
    using takeWhile_dropWhile_id [of is_digit t] r(1) by (simp add: a_def)
  have "list_all is_digit a"
    by (auto simp: a_def list_all_iff dest: set_takeWhileD)
  then show ?thesis using r(2) by (auto simp: t list_all_iff)
qed

text \<open>The characters that can stand in a token, by its first one.\<close>

lemma spells_first:
  assumes "spells ty l (c # u)"
  shows "c = QUOTE \<longleftrightarrow> ty = STRING_LITERAL" "c = CHR ''#'' \<longleftrightarrow> ty = REGEX_LITERAL"
proof -
  have d: "\<not> is_digit QUOTE" "\<not> is_digit CHR ''#''" "\<not> wordChar QUOTE" "\<not> wordChar CHR ''#''"
    by (simp_all add: is_digit_def wordChar_def is_alnum_def is_alpha_def)
  have kw: "(c # u, k) \<in> set keywordTable \<Longrightarrow> wordChar c" for k
    using keyword_word [of "c # u" k] by simp
  have sym: "(c # u, k) \<in> set symbolTable \<Longrightarrow> c \<noteq> QUOTE \<and> c \<noteq> CHR ''#''" for k
    using symbolTable_starts [of "c # u" k] symbol_first_char(3,4) [of c] by simp
  have fl: "is_float (c # u) \<Longrightarrow> is_digit c \<or> c = CHR ''.''"
    using is_float_chars [of "c # u"] by simp
  have "c \<noteq> QUOTE \<and> c \<noteq> CHR ''#''" if "ty \<noteq> STRING_LITERAL" "ty \<noteq> REGEX_LITERAL"
    using assms that d kw sym fl
    by (cases ty) (auto simp: begins_nothing_def)
  then show "c = QUOTE \<longleftrightarrow> ty = STRING_LITERAL" "c = CHR ''#'' \<longleftrightarrow> ty = REGEX_LITERAL"
    using assms by (cases "ty = STRING_LITERAL"; cases "ty = REGEX_LITERAL"; auto)+
qed

lemma spells_no_blank:
  assumes "spells ty l t" "ty \<noteq> STRING_LITERAL" "ty \<noteq> REGEX_LITERAL" "ty \<noteq> UNKNOWN"
  shows "CHR '' '' \<notin> set t"
proof -
  have "(t, k) \<in> set keywordTable \<Longrightarrow> CHR '' '' \<notin> set t" for k
    using keyword_word [of t k] by (auto simp: list_all_iff)
  then show ?thesis
    using assms is_float_chars [of t] symbol_no_blank [of t]
    by (cases ty) (auto simp: list_all_iff)
qed

text \<open>A token that a blank or the end of the text follows is not the beginning of a longer one.\<close>

lemma spells_not_extended:
  assumes "spells ty l t" "spells ty1 l1 (t @ CHR '' '' # w)"
  shows False
proof -
  obtain c u where t: "t = c # u" using spells_nonempty [OF assms(1)] by (cases t) auto
  have same: "ty = STRING_LITERAL \<longleftrightarrow> ty1 = STRING_LITERAL" "ty = REGEX_LITERAL \<longleftrightarrow> ty1 = REGEX_LITERAL"
    using spells_first [of ty l c u] spells_first [of ty1 l1 c "u @ CHR '' '' # w"] assms t by auto
  consider "ty1 = STRING_LITERAL" | "ty1 = REGEX_LITERAL" | "ty1 = UNKNOWN"
    | "ty1 \<noteq> STRING_LITERAL" "ty1 \<noteq> REGEX_LITERAL" "ty1 \<noteq> UNKNOWN"
    by blast
  then show False
  proof cases
    case 1
    obtain b b1 where b: "t = QUOTE # b @ [QUOTE]" "string_span (b @ [QUOTE]) = Some (l, b)"
        "b @ QUOTE # CHR '' '' # w = b1 @ [QUOTE]" "string_span (b1 @ [QUOTE]) = Some (l1, b1)"
      using assms same 1 by auto
    then have "b = b1" using string_span_append [OF b(2), of "CHR '' '' # w"] by simp
    with b(3) show False by simp
  next
    case 2
    obtain b b1 where b: "t = CHR ''#'' # b @ ''#''" "regex_span (b @ ''#'') = Some (l, b)"
        "b @ CHR ''#'' # CHR '' '' # w = b1 @ ''#''" "regex_span (b1 @ ''#'') = Some (l1, b1)"
      using assms same 2 by auto
    then have "b = b1" using regex_span_append [OF b(2), of "CHR '' '' # w"] by simp
    with b(3) show False by simp
  next
    case 3
    then show False using assms(2) t by simp
  next
    case 4
    then show False using spells_no_blank [OF assms(2)] by simp
  qed
qed

lemma token_at_separated:
  assumes "spells ty l t" "r = [] \<or> hd r = CHR '' ''"
  shows "token_at (t @ r) = Inr (ty, l, t)"
proof -
  have ne: "t @ r \<noteq> []" using spells_nonempty [OF assms(1)] by simp
  obtain ty1 l1 t1 where t1: "token_at (t @ r) = Inr (ty1, l1, t1)"
      "length t < length t1 \<or> (ty1, l1, t1) = (ty, l, t)"
    using spells_beats [OF assms(1), of r] by (auto simp: beats_def)
  moreover have "\<not> length t < length t1"
  proof
    assume len: "length t < length t1"
    obtain r1 where "t @ r = t1 @ r1" using token_at_shape [OF ne t1(1)] by blast
    with len obtain w where "t1 = t @ w" "w \<noteq> []" "r = w @ r1"
      by (metis append_Nil2 append_eq_append_conv_if append_eq_conv_conj append_take_drop_id
          less_imp_le_nat less_irrefl_nat)
    with assms(2) obtain w' where "t1 = t @ CHR '' '' # w'" by (cases w) auto
    then show False using spells_not_extended [OF assms(1)] token_at_spells [OF ne t1(1)] by blast
  qed
  ultimately show ?thesis by simp
qed

lemma spells_no_comment:
  assumes "spells ty l t" "r = [] \<or> hd r = CHR '' ''"
  shows "\<not> starts_comment (t @ r)"
proof
  assume "starts_comment (t @ r)"
  moreover obtain c u where t: "t = c # u" using spells_nonempty [OF assms(1)] by (cases t) auto
  ultimately have c: "c = CHR ''/''" "take 1 (u @ r) = ''/''"
    by (simp_all add: starts_comment_def)
  have d: "\<not> is_digit CHR ''/''" "\<not> wordChar CHR ''/''"
    by (simp_all add: is_digit_def wordChar_def is_alnum_def is_alpha_def)
  have "(c # u, k) \<in> set keywordTable \<Longrightarrow> wordChar c" for k
    using keyword_word [of "c # u" k] by simp
  then obtain k where "(t, k) \<in> set symbolTable"
    using assms(1) c(1) d is_float_chars [of t] spells_first [of ty l c u] t
    by (cases ty) (auto simp: begins_nothing_def singleSymbols_def)
  then have "u = []" using c t by (auto simp: symbolTable_def singleSymbols_def)
  with c(2) assms(2) show False by (cases r) auto
qed

lemma write_tokens_follow: "write_tokens xs = [] \<or> hd (write_tokens xs) = CHR '' ''"
  by (cases xs) (auto simp: write_tokens_def)

lemma write_tokens_lexed:
  "list_all writable xs \<Longrightarrow>
   \<exists>ts. lexed p (write_tokens xs) ts \<and> map (\<lambda>t. (tk_type t, tk_lexeme t)) ts = xs @ [(END_OF_FILE, [])]"
proof (induction xs arbitrary: p)
  case Nil
  have "lexed p [] [mkToken END_OF_FILE [] (fst p) (snd p)]"
    by (rule lexed.at_end) (simp_all add: layout.simps starts_comment_def)
  then show ?case by (auto simp: write_tokens_def mkToken_def)
next
  case (Cons x xs)
  obtain ty l where x: "x = (ty, l)" by fastforce
  define t where "t = spelling ty l"
  let ?r = "write_tokens xs"
  have sp: "spells ty l t" "\<not> isBlank (hd t)" using Cons.prems x by (simp_all add: writable_def t_def)
  have ne: "t \<noteq> []" by (rule spells_nonempty [OF sp(1)])
  have "layout (t @ ?r) = []"
    using sp ne spells_no_comment [OF sp(1) write_tokens_follow [of xs]] by (subst layout.simps) simp
  then have lay: "layout (CHR '' '' # t @ ?r) = '' ''"
    by (subst layout.simps) (simp add: isBlank_def)
  have "longest_token (t @ ?r) ty l t"
    using token_at_separated [OF sp(1) write_tokens_follow [of xs]] token_at_longest [of "t @ ?r" ty l t] ne by simp
  moreover obtain ts where ts: "lexed (position_after p ('' '' @ t)) ?r ts"
      "map (\<lambda>t. (tk_type t, tk_lexeme t)) ts = xs @ [(END_OF_FILE, [])]"
    using Cons.IH [of "position_after p ('' '' @ t)"] Cons.prems by auto
  ultimately have "lexed p (CHR '' '' # t @ ?r)
      (mkToken ty l (fst (position_after p '' '')) (snd (position_after p '' '')) # ts)"
    by (intro lexed.at_token [of _ t ?r]) (simp_all add: lay)
  moreover have "write_tokens (x # xs) = CHR '' '' # t @ ?r"
    by (simp add: write_tokens_def x t_def)
  ultimately show ?case using ts(2) by (auto simp: mkToken_def x)
qed

text \<open>C32: Reading back what was written: a list of tokens, each written the way the language spells it
  (string literals quoted, any characters in them) and separated by blanks, is tokenized to the same types
  and lexemes, followed by the end of the file.\<close>

theorem tokenize_write_tokens:
  assumes "list_all writable xs"
  shows "\<exists>ts. tokenize (write_tokens xs) = Inr ts \<and>
    map (\<lambda>t. (tk_type t, tk_lexeme t)) ts = xs @ [(END_OF_FILE, [])]"
  using write_tokens_lexed [OF assms, of "(1, 1)"]
  by (simp add: tokenize_def tokenizeLoop_lexed newLexer_start)

theorem tokenize_write_tokens_witness:
  "let xs = [(Kw KW_LET, ''let''), (IDENTIFIER, ''letter''), (Sym ASSIGN, ''=''),
             (FLOAT_LITERAL, ''.5''), (Sym USHR, ''>>>''), (STRING_LITERAL, [QUOTE, BACKSLASH, NEWLINE, CHR ''#''])]
   in list_all writable xs \<and>
      (\<exists>ts. tokenize (write_tokens xs) = Inr ts \<and>
         map (\<lambda>t. (tk_type t, tk_lexeme t)) ts = xs @ [(END_OF_FILE, [])])"
proof -
  let ?xs = "[(Kw KW_LET, ''let''), (IDENTIFIER, ''letter''), (Sym ASSIGN, ''=''),
    (FLOAT_LITERAL, ''.5''), (Sym USHR, ''>>>''), (STRING_LITERAL, [QUOTE, BACKSLASH, NEWLINE, CHR ''#''])]"
  have "list_all writable ?xs"
    by (simp add: writable_string)
      (simp add: writable_def spelling_def isBlank_def keywordTable_def symbolTable_def word_type_def word_start_def
        wordChar_def is_alnum_def is_alpha_def is_float_def starts_fraction_def is_digit_def)
  then show ?thesis using tokenize_write_tokens [of ?xs] by (simp add: Let_def)
qed

end
