(* ===== verification/Zl_Type_Name.thy ===== *)
theory Zl_Type_Name
  imports Zl_Prelude "HOL-Library.Char_ord" "HOL-Library.List_Lexorder"
begin

text \<open>
  The type-name grammar shared by the compiler and the runtime
  (\<^verbatim>\<open>src/common/type_name.cpp\<close>): the parser, the renderer, structural equality and the
  substitution of type parameters. The parser's cursor \<open>pos_\<close> is modelled by the text that is
  left, its flag \<open>valid_\<close> is threaded. Its recursion is bounded by fuel; \<open>parse_fuel\<close> is what
  the text's length gives, and it is proved to be enough. \<open>std::string\<close> comparison is the
  lexicographic order on bytes.
\<close>

datatype type_name =
  TypeName (tn_name: string) (tn_args: "type_name list")
    (tn_unionMembers: "type_name list") (tn_fixedSize: "nat option")

text \<open>Rendering.\<close>

definition headText :: "string \<Rightarrow> nat option \<Rightarrow> string" where
  "headText name sz =
     (case sz of
        Some n \<Rightarrow> if name = ''array'' then ''array['' @ nat_to_string n @ '']'' else name
      | None \<Rightarrow> name)"

definition memberText :: "type_name \<Rightarrow> string \<Rightarrow> string" where
  "memberText t text =
     (if tn_name t = ''func'' \<and> tn_args t \<noteq> [] then ''('' @ text @ '')'' else text)"

fun describeTypeName :: "type_name \<Rightarrow> string" where
  "describeTypeName (TypeName name args members sz) =
     (if members \<noteq> [] then
        joinWith ''|'' (map (\<lambda>m. memberText m (describeTypeName m)) members)
      else
        headText name sz @
        (if args = [] then []
         else if name = ''func'' then
           ''('' @ joinWith '','' (butlast (map describeTypeName args)) @ ''):'' @
           last (map describeTypeName args)
         else ''<'' @ joinWith '','' (map describeTypeName args) @ ''>''))"

definition unionMemberName :: "type_name \<Rightarrow> string" where
  "unionMemberName spec = memberText spec (describeTypeName spec)"

text \<open>Structural equality: a union compares its members only, any other name the rest.\<close>

fun typeNamesEqual :: "type_name \<Rightarrow> type_name \<Rightarrow> bool"
and allTypeNamesEqual :: "type_name list \<Rightarrow> type_name list \<Rightarrow> bool"
where
  "typeNamesEqual (TypeName n1 a1 u1 f1) (TypeName n2 a2 u2 f2) =
     (if u1 \<noteq> [] \<or> u2 \<noteq> [] then length u1 = length u2 \<and> allTypeNamesEqual u1 u2
      else n1 = n2 \<and> f1 = f2 \<and> length a1 = length a2 \<and> allTypeNamesEqual a1 a2)"
| "allTypeNamesEqual (x # xs) (y # ys) = (typeNamesEqual x y \<and> allTypeNamesEqual xs ys)"
| "allTypeNamesEqual _ _ = True"

text \<open>The parser. \<open>tn_invalid\<close> is the tree \<open>invalid()\<close> returns; it also clears \<open>valid_\<close>.\<close>

definition tn_invalid :: type_name where
  "tn_invalid = TypeName ''<invalid>'' [] [] None"

type_synonym tn_cursor = "string \<times> bool"

definition skipWhitespace :: "tn_cursor \<Rightarrow> tn_cursor" where
  "skipWhitespace st = (dropWhile is_space (fst st), snd st)"

definition consume :: "char \<Rightarrow> tn_cursor \<Rightarrow> bool \<times> tn_cursor" where
  "consume c st =
     (let st' = skipWhitespace st
      in case fst st' of
           [] \<Rightarrow> (False, st')
         | d # rest \<Rightarrow> if d = c then (True, (rest, snd st')) else (False, st'))"

definition invalidate :: "tn_cursor \<Rightarrow> type_name \<times> tn_cursor" where
  "invalidate st = (tn_invalid, (fst st, False))"

definition nameChar :: "char \<Rightarrow> bool" where
  "nameChar c \<longleftrightarrow> is_alnum c \<or> c = CHR ''_'' \<or> c = CHR ''.''"

definition canonicalName :: "string \<Rightarrow> string" where
  "canonicalName name =
     (let n1 = (if name = ''float'' \<or> name = ''decimal'' then ''double'' else name)
      in if n1 = ''null'' then ''nil'' else n1)"

text \<open>\<open>std::unique\<close> with \<open>typeNamesEqual\<close>: each run of equal neighbours keeps its first.\<close>

fun uniqueAdjacent :: "('a \<Rightarrow> 'a \<Rightarrow> bool) \<Rightarrow> 'a list \<Rightarrow> 'a list" where
  "uniqueAdjacent eq [] = []"
| "uniqueAdjacent eq [x] = [x]"
| "uniqueAdjacent eq (x # y # ys) =
     (if eq x y then uniqueAdjacent eq (x # ys) else x # uniqueAdjacent eq (y # ys))"

definition finishUnion :: "type_name list \<Rightarrow> type_name" where
  "finishUnion members =
     (if length members = 1 then hd members
      else
        let flattened =
              concat (map (\<lambda>m. if tn_unionMembers m = [] then [m] else tn_unionMembers m) members);
            ordered = sort_key unionMemberName flattened
        in TypeName ''union'' [] (uniqueAdjacent typeNamesEqual ordered) None)"

text \<open>The \<open>array[N]\<close> size: \<open>None\<close> where the code returns \<open>invalid()\<close>, else the size if any.\<close>

definition SIZE_MAX :: int where
  "SIZE_MAX = 2 ^ 64 - 1"

definition parseFixedSize :: "string \<Rightarrow> tn_cursor \<Rightarrow> (nat option) option \<times> tn_cursor" where
  "parseFixedSize name st =
     (if name = ''array'' then
        (case consume (CHR ''['') st of
           (False, st1) \<Rightarrow> (Some None, st1)
         | (True, st1) \<Rightarrow>
             let digits = takeWhile is_digit (fst st1);
                 st2 = (dropWhile is_digit (fst st1), snd st1)
             in if digits = [] then (None, st2)
                else case consume (CHR '']'') st2 of
                       (False, st3) \<Rightarrow> (None, st3)
                     | (True, st3) \<Rightarrow>
                         if SIZE_MAX < digits_val digits then (None, st3)
                         else (Some (Some (nat (digits_val digits))), skipWhitespace st3))
      else (Some None, st))"

text \<open>
  The mutually recursive methods, each over the parser it calls: \<open>parseMembers\<close> is the loop of
  \<open>parseUnion\<close>, \<open>parseArgs\<close> and \<open>parseParams\<close> are the two argument loops of \<open>parsePrimary\<close>. A
  loop's own fuel is one more than the length of the text that is left.
\<close>

type_synonym tn_parser = "tn_cursor \<Rightarrow> (type_name \<times> tn_cursor) option"

definition loop_fuel :: "tn_cursor \<Rightarrow> nat" where
  "loop_fuel st = Suc (length (fst st))"

primrec parseMembers ::
  "tn_parser \<Rightarrow> nat \<Rightarrow> type_name list \<Rightarrow> tn_cursor \<Rightarrow> (type_name list \<times> tn_cursor) option"
where
  "parseMembers primary 0 acc st = None"
| "parseMembers primary (Suc k) acc st =
     (let (bar, st1) = consume (CHR ''|'') st
      in if bar then
           (case primary st1 of
              None \<Rightarrow> None
            | Some (m, st2) \<Rightarrow> parseMembers primary k (acc @ [m]) (skipWhitespace st2))
         else Some (acc, st1))"

definition parseUnionWith :: "tn_parser \<Rightarrow> tn_parser" where
  "parseUnionWith primary st =
     (case primary st of
        None \<Rightarrow> None
      | Some (m, st1) \<Rightarrow>
          (case parseMembers primary (loop_fuel (skipWhitespace st1)) [m] (skipWhitespace st1) of
             None \<Rightarrow> None
           | Some (members, st2) \<Rightarrow> Some (finishUnion members, st2)))"

primrec parseArgs ::
  "tn_parser \<Rightarrow> nat \<Rightarrow> type_name list \<Rightarrow> tn_cursor \<Rightarrow> ((type_name list) option \<times> tn_cursor) option"
where
  "parseArgs pun 0 acc st = None"
| "parseArgs pun (Suc k) acc st =
     (case pun st of
        None \<Rightarrow> None
      | Some (t, st1) \<Rightarrow>
          let (closed, st2) = consume (CHR ''>'') (skipWhitespace st1)
          in if closed then Some (Some (acc @ [t]), st2)
             else let (comma, st3) = consume (CHR '','') st2
                  in if comma then parseArgs pun k (acc @ [t]) st3 else Some (None, st3))"

primrec parseParams ::
  "tn_parser \<Rightarrow> nat \<Rightarrow> type_name list \<Rightarrow> tn_cursor \<Rightarrow> ((type_name list) option \<times> tn_cursor) option"
where
  "parseParams pun 0 acc st = None"
| "parseParams pun (Suc k) acc st =
     (let (closed, st1) = consume (CHR '')'') (skipWhitespace st)
      in if closed then Some (Some acc, st1)
         else
           (case pun st1 of
              None \<Rightarrow> None
            | Some (t, st2) \<Rightarrow>
                let (closed', st3) = consume (CHR '')'') (skipWhitespace st2)
                in if closed' then Some (Some (acc @ [t]), st3)
                   else let (comma, st4) = consume (CHR '','') st3
                        in if comma then parseParams pun k (acc @ [t]) st4
                           else Some (None, st4)))"

definition parseGroup :: "tn_parser \<Rightarrow> tn_parser" where
  "parseGroup pun st =
     (case pun st of
        None \<Rightarrow> None
      | Some (grouped, st1) \<Rightarrow>
          let (closed, st2) = consume (CHR '')'') st1
          in Some (if closed then (grouped, st2) else invalidate st2))"

definition parseAngleArgs :: "tn_parser \<Rightarrow> string \<Rightarrow> nat option \<Rightarrow> tn_parser" where
  "parseAngleArgs pun name sz st =
     (let (closed, st1) = consume (CHR ''>'') (skipWhitespace st)
      in if closed then Some (TypeName name [] [] sz, st1)
         else
           (case parseArgs pun (loop_fuel st1) [] st1 of
              None \<Rightarrow> None
            | Some (None, st2) \<Rightarrow> Some (invalidate st2)
            | Some (Some args, st2) \<Rightarrow> Some (TypeName name args [] sz, st2)))"

definition parseFuncTail :: "tn_parser \<Rightarrow> string \<Rightarrow> nat option \<Rightarrow> tn_parser" where
  "parseFuncTail pun name sz st =
     (case parseParams pun (loop_fuel st) [] st of
        None \<Rightarrow> None
      | Some (None, st1) \<Rightarrow> Some (invalidate st1)
      | Some (Some params, st1) \<Rightarrow>
          let (colon, st2) = consume (CHR '':'') (skipWhitespace st1)
          in if colon then
               (case pun st2 of
                  None \<Rightarrow> None
                | Some (ret, st3) \<Rightarrow> Some (TypeName name (params @ [ret]) [] sz, st3))
             else Some (invalidate st2))"

definition parseTail :: "tn_parser \<Rightarrow> string \<Rightarrow> nat option \<Rightarrow> tn_parser" where
  "parseTail pun name sz st =
     (let (angle, st1) = consume (CHR ''<'') st
      in if angle then parseAngleArgs pun name sz st1
         else if name = ''func'' then
           let (paren, st2) = consume (CHR ''('') st1
           in if paren then parseFuncTail pun name sz st2 else Some (TypeName name [] [] sz, st2)
         else Some (TypeName name [] [] sz, st1))"

definition parseNamed :: "tn_parser \<Rightarrow> tn_parser" where
  "parseNamed pun st =
     (let raw = takeWhile nameChar (fst st);
          st1 = (dropWhile nameChar (fst st), snd st);
          name = canonicalName raw
      in if raw = [] then Some (invalidate st1)
         else
           (case parseFixedSize name (skipWhitespace st1) of
              (None, st2) \<Rightarrow> Some (invalidate st2)
            | (Some sz, st2) \<Rightarrow> parseTail pun name sz st2))"

definition parsePrimaryWith :: "tn_parser \<Rightarrow> tn_parser" where
  "parsePrimaryWith pun st =
     (let (paren, st1) = consume (CHR ''('') (skipWhitespace st)
      in if paren then parseGroup pun st1 else parseNamed pun st1)"

primrec parseUnion :: "nat \<Rightarrow> tn_parser" where
  "parseUnion 0 = (\<lambda>st. None)"
| "parseUnion (Suc n) = parseUnionWith (parsePrimaryWith (parseUnion n))"

definition parse_fuel :: "string \<Rightarrow> nat" where
  "parse_fuel text = Suc (length text)"

definition parseTypeNameOpt :: "string \<Rightarrow> type_name option" where
  "parseTypeNameOpt text =
     (case parseUnion (parse_fuel text) (text, True) of
        None \<Rightarrow> None
      | Some (result, st) \<Rightarrow>
          let st' = skipWhitespace st
          in Some (if snd st' \<and> fst st' = [] then result else tn_invalid))"

definition parseTypeName :: "string \<Rightarrow> type_name" where
  "parseTypeName text = (case parseTypeNameOpt text of Some t \<Rightarrow> t | None \<Rightarrow> tn_invalid)"

text \<open>Substitution of type parameters in a type name.\<close>

fun substituteTree :: "(string \<rightharpoonup> string) \<Rightarrow> type_name \<Rightarrow> type_name" where
  "substituteTree bindings (TypeName name args members sz) =
     (case bindings name of
        Some bound \<Rightarrow>
          if args = [] \<and> members = [] then parseTypeName bound
          else TypeName name (map (substituteTree bindings) args)
                 (map (substituteTree bindings) members) sz
      | None \<Rightarrow>
          TypeName name (map (substituteTree bindings) args)
            (map (substituteTree bindings) members) sz)"

definition substituteTypeParams :: "string \<Rightarrow> (string \<times> string) list \<Rightarrow> string" where
  "substituteTypeParams typeName bindings =
     (if bindings = [] \<or> typeName = [] then typeName
      else describeTypeName (parseTypeName (describeTypeName
             (substituteTree (map_of bindings) (parseTypeName typeName)))))"

subsection \<open>The parser always returns\<close>

text \<open>A result that is there and leaves at most \<open>n\<close> characters.\<close>

fun ret_le :: "nat \<Rightarrow> ('a \<times> tn_cursor) option \<Rightarrow> bool" where
  "ret_le n None = False"
| "ret_le n (Some (t, st)) = (length (fst st) \<le> n)"

lemma ret_leE:
  assumes "ret_le n r"
  obtains t st where "r = Some (t, st)" "length (fst st) \<le> n"
  using assms by (cases "(n, r)" rule: ret_le.cases) auto

lemma ret_le_mono: "ret_le n r \<Longrightarrow> n \<le> m \<Longrightarrow> ret_le m r"
  by (elim ret_leE) simp

text \<open>\<open>p\<close> returns on every text shorter than \<open>n\<close>, and what it leaves is no longer than what it got.\<close>

definition total_below :: "nat \<Rightarrow> tn_parser \<Rightarrow> bool" where
  "total_below n p \<longleftrightarrow> (\<forall>st. length (fst st) < n \<longrightarrow> ret_le (length (fst st)) (p st))"

lemma total_belowD:
  assumes "total_below n p" "length (fst st) < n"
  obtains t st' where "p st = Some (t, st')" "length (fst st') \<le> length (fst st)"
  using assms unfolding total_below_def by (blast elim: ret_leE)

lemma skipWhitespace_le: "length (fst (skipWhitespace st)) \<le> length (fst st)"
  by (simp add: skipWhitespace_def length_dropWhile_le)

lemma consume_le:
  assumes "consume c st = (b, st')"
  shows "length (fst st') \<le> length (fst st)" "b \<Longrightarrow> length (fst st') < length (fst st)"
  using assms skipWhitespace_le [of st]
  by (auto simp: consume_def Let_def split: list.splits if_splits)

lemma parseMembers_total:
  assumes p: "total_below n primary"
  shows "length (fst st) < k \<Longrightarrow> length (fst st) \<le> n \<Longrightarrow>
    ret_le (length (fst st)) (parseMembers primary k acc st)"
proof (induction k arbitrary: acc st)
  case (Suc k)
  obtain bar st1 where c: "consume (CHR ''|'') st = (bar, st1)" by (rule prod.exhaust)
  show ?case
  proof (cases bar)
    case True
    with consume_le [OF c] have less: "length (fst st1) < length (fst st)" by simp
    with Suc.prems obtain m st2 where m: "primary st1 = Some (m, st2)" "length (fst st2) \<le> length (fst st1)"
      using total_belowD [OF p, of st1] by (metis order_less_le_trans)
    note w = skipWhitespace_le [of st2]
    from Suc.IH [of "skipWhitespace st2" "acc @ [m]"] m w less Suc.prems
    show ?thesis using c True by (auto elim: ret_le_mono)
  next
    case False
    then show ?thesis using c consume_le(1) [OF c] by simp
  qed
qed simp

lemma parseUnionWith_total:
  assumes p: "total_below n primary"
  shows "total_below n (parseUnionWith primary)"
  unfolding total_below_def
proof (intro allI impI)
  fix st :: tn_cursor
  assume len: "length (fst st) < n"
  from total_belowD [OF p this]
  obtain m st1 where m: "primary st = Some (m, st1)" "length (fst st1) \<le> length (fst st)" by blast
  let ?w = "skipWhitespace st1"
  have w: "length (fst ?w) \<le> length (fst st1)" by (rule skipWhitespace_le)
  obtain ms st2 where "parseMembers primary (loop_fuel ?w) [m] ?w = Some (ms, st2)"
      "length (fst st2) \<le> length (fst ?w)"
    using parseMembers_total [OF p, of ?w "loop_fuel ?w" "[m]"] w m len
    by (auto simp: loop_fuel_def elim!: ret_leE)
  then show "ret_le (length (fst st)) (parseUnionWith primary st)"
    using m w by (simp add: parseUnionWith_def)
qed

lemma parseArgs_total:
  assumes p: "total_below n pun"
  shows "length (fst st) < k \<Longrightarrow> length (fst st) < n \<Longrightarrow>
    ret_le (length (fst st)) (parseArgs pun k acc st)"
proof (induction k arbitrary: acc st)
  case (Suc k)
  from total_belowD [OF p Suc.prems(2)]
  obtain t st1 where t: "pun st = Some (t, st1)" "length (fst st1) \<le> length (fst st)" by blast
  obtain closed st2 where c: "consume (CHR ''>'') (skipWhitespace st1) = (closed, st2)" by (rule prod.exhaust)
  obtain comma st3 where d: "consume (CHR '','') st2 = (comma, st3)" by (rule prod.exhaust)
  note le = consume_le(1) [OF c] consume_le(1) [OF d] skipWhitespace_le [of st1] t(2)
  show ?case
  proof (cases "\<not> closed \<and> comma")
    case True
    then have "length (fst st3) < length (fst st)" using consume_le(2) [OF d] le by simp
    with Suc.IH [of st3 "acc @ [t]"] Suc.prems le show ?thesis using t c d True by (auto elim: ret_le_mono)
  next
    case False
    then show ?thesis using t c d le by auto
  qed
qed simp

lemma parseParams_total:
  assumes p: "total_below n pun"
  shows "length (fst st) < k \<Longrightarrow> length (fst st) < n \<Longrightarrow>
    ret_le (length (fst st)) (parseParams pun k acc st)"
proof (induction k arbitrary: acc st)
  case (Suc k)
  obtain closed st1 where c: "consume (CHR '')'') (skipWhitespace st) = (closed, st1)" by (rule prod.exhaust)
  note le1 = consume_le(1) [OF c] skipWhitespace_le [of st]
  then have "length (fst st1) < n" using Suc.prems by linarith
  from total_belowD [OF p this]
  obtain t st2 where t: "pun st1 = Some (t, st2)" "length (fst st2) \<le> length (fst st1)" by blast
  obtain closed' st3 where c': "consume (CHR '')'') (skipWhitespace st2) = (closed', st3)" by (rule prod.exhaust)
  obtain comma st4 where d: "consume (CHR '','') st3 = (comma, st4)" by (rule prod.exhaust)
  note le = le1 consume_le(1) [OF c'] consume_le(1) [OF d] skipWhitespace_le [of st2] t(2)
  show ?case
  proof (cases "\<not> closed \<and> \<not> closed' \<and> comma")
    case True
    then have "length (fst st4) < length (fst st)" using consume_le(2) [OF d] le by simp
    with Suc.IH [of st4 "acc @ [t]"] Suc.prems le show ?thesis using t c c' d True by (auto elim: ret_le_mono)
  next
    case False
    then show ?thesis using t c c' d le by auto
  qed
qed simp

lemma parseAngleArgs_total:
  assumes p: "total_below n pun" and "length (fst st) < n"
  shows "ret_le (length (fst st)) (parseAngleArgs pun name sz st)"
proof -
  obtain closed st1 where c: "consume (CHR ''>'') (skipWhitespace st) = (closed, st1)" by (rule prod.exhaust)
  note le = consume_le(1) [OF c] skipWhitespace_le [of st]
  obtain r st2 where "parseArgs pun (loop_fuel st1) [] st1 = Some (r, st2)" "length (fst st2) \<le> length (fst st1)"
    using parseArgs_total [OF p, of st1 "loop_fuel st1" "[]"] le assms(2)
    by (auto simp: loop_fuel_def elim!: ret_leE)
  then show ?thesis using c le by (auto simp: parseAngleArgs_def invalidate_def split: option.split)
qed

lemma parseFuncTail_total:
  assumes p: "total_below n pun" and "length (fst st) < n"
  shows "ret_le (length (fst st)) (parseFuncTail pun name sz st)"
proof -
  obtain r st1 where r: "parseParams pun (loop_fuel st) [] st = Some (r, st1)" "length (fst st1) \<le> length (fst st)"
    using parseParams_total [OF p, of st "loop_fuel st" "[]"] assms(2)
    by (auto simp: loop_fuel_def elim!: ret_leE)
  obtain colon st2 where c: "consume (CHR '':'') (skipWhitespace st1) = (colon, st2)" by (rule prod.exhaust)
  note le = r(2) consume_le(1) [OF c] skipWhitespace_le [of st1]
  then have "length (fst st2) < n" using assms(2) by linarith
  from total_belowD [OF p this]
  obtain t st3 where "pun st2 = Some (t, st3)" "length (fst st3) \<le> length (fst st2)" by blast
  then show ?thesis using r(1) c le by (auto simp: parseFuncTail_def invalidate_def split: option.split)
qed

lemma parseTail_total:
  assumes p: "total_below n pun" and "length (fst st) < n"
  shows "ret_le (length (fst st)) (parseTail pun name sz st)"
proof -
  obtain angle st1 where c: "consume (CHR ''<'') st = (angle, st1)" by (rule prod.exhaust)
  obtain paren st2 where d: "consume (CHR ''('') st1 = (paren, st2)" by (rule prod.exhaust)
  note le = consume_le(1) [OF c] consume_le(1) [OF d]
  have "length (fst st1) < n" "length (fst st2) < n" using le assms(2) by linarith+
  from parseAngleArgs_total [OF p this(1), of name sz] parseFuncTail_total [OF p this(2), of name sz]
  show ?thesis using c d le by (auto simp: parseTail_def elim: ret_le_mono)
qed

lemma parseFixedSize_le:
  assumes "parseFixedSize name st = (r, st')"
  shows "length (fst st') \<le> length (fst st)"
proof -
  obtain opened st1 where c: "consume (CHR ''['') st = (opened, st1)" by (rule prod.exhaust)
  let ?st2 = "(dropWhile is_digit (fst st1), snd st1)"
  obtain close st3 where d: "consume (CHR '']'') ?st2 = (close, st3)" by (rule prod.exhaust)
  have "length (fst ?st2) \<le> length (fst st1)" by (simp add: length_dropWhile_le)
  then have "length (fst st3) \<le> length (fst st1)" using consume_le(1) [OF d] by simp
  then show ?thesis
    using assms c d consume_le(1) [OF c] skipWhitespace_le [of st3]
      length_dropWhile_le [of is_digit "fst st1"]
    by (auto simp: parseFixedSize_def Let_def split: if_splits bool.splits)
qed

lemma parseNamed_total:
  assumes p: "total_below n pun" and len: "length (fst st) \<le> n"
  shows "ret_le (length (fst st)) (parseNamed pun st)"
proof (cases "takeWhile nameChar (fst st) = []")
  case True
  then show ?thesis by (simp add: parseNamed_def invalidate_def Let_def length_dropWhile_le)
next
  case False
  let ?st1 = "(dropWhile nameChar (fst st), snd st)"
  let ?name = "canonicalName (takeWhile nameChar (fst st))"
  have "length (takeWhile nameChar (fst st)) + length (dropWhile nameChar (fst st)) = length (fst st)"
    by (metis length_append takeWhile_dropWhile_id)
  moreover have "0 < length (takeWhile nameChar (fst st))" using False by blast
  ultimately have less: "length (fst ?st1) < length (fst st)" unfolding fst_conv by linarith
  obtain r st2 where s: "parseFixedSize ?name (skipWhitespace ?st1) = (r, st2)" by (rule prod.exhaust)
  then have le: "length (fst st2) < length (fst st)"
    using parseFixedSize_le [OF s] skipWhitespace_le [of ?st1] less by linarith
  then have "length (fst st2) < n" using len by linarith
  show ?thesis
  proof (cases r)
    case None
    then show ?thesis using False s le by (simp add: parseNamed_def Let_def invalidate_def)
  next
    case (Some sz)
    then show ?thesis
      using False s le parseTail_total [OF p \<open>length (fst st2) < n\<close>, of ?name sz]
      by (auto simp: parseNamed_def Let_def elim: ret_le_mono)
  qed
qed

lemma parsePrimaryWith_total:
  assumes p: "total_below n pun"
  shows "total_below (Suc n) (parsePrimaryWith pun)"
  unfolding total_below_def
proof (intro allI impI)
  fix st :: tn_cursor
  assume len: "length (fst st) < Suc n"
  obtain paren st1 where c: "consume (CHR ''('') (skipWhitespace st) = (paren, st1)" by (rule prod.exhaust)
  note le = consume_le(1) [OF c] skipWhitespace_le [of st]
  show "ret_le (length (fst st)) (parsePrimaryWith pun st)"
  proof (cases paren)
    case True
    then have "length (fst st1) < n" using consume_le(2) [OF c] le len by linarith
    from total_belowD [OF p this]
    obtain t st2 where t: "pun st1 = Some (t, st2)" "length (fst st2) \<le> length (fst st1)" by blast
    obtain closed st3 where d: "consume (CHR '')'') st2 = (closed, st3)" by (rule prod.exhaust)
    show ?thesis using True c t d le consume_le(1) [OF d]
      by (auto simp: parsePrimaryWith_def parseGroup_def invalidate_def)
  next
    case False
    have "length (fst st1) \<le> n" using le len by linarith
    from parseNamed_total [OF p this] show ?thesis
      using False c le by (auto simp: parsePrimaryWith_def elim: ret_le_mono)
  qed
qed

lemma parseUnion_total: "total_below n (parseUnion n)"
proof (induction n)
  case (Suc n)
  then show ?case using parseUnionWith_total [OF parsePrimaryWith_total [OF Suc]] by simp
qed (simp add: total_below_def)

text \<open>The type-name parser returns on every text: a recursion depth of one more than the length of the
  text is always enough, for the descent and for each of its loops.\<close>

theorem parseTypeName_total: "\<exists>t. parseTypeNameOpt text = Some t \<and> parseTypeName text = t"
proof -
  obtain t st where "parseUnion (parse_fuel text) (text, True) = Some (t, st)"
    using total_belowD [OF parseUnion_total [of "parse_fuel text"], of "(text, True)"]
    by (metis fst_conv lessI parse_fuel_def)
  then show ?thesis by (simp add: parseTypeNameOpt_def parseTypeName_def Let_def)
qed

end
