(* ===== verification/Zl_Double.thy ===== *)
theory Zl_Double
  imports Zl_Prelude
begin

text \<open>
  The C++ \<open>double\<close> the sources compute with: IEEE 754 binary64 with round to nearest,
  ties to even. A value is a NaN, a signed infinity, or a signed finite magnitude that is an
  exact rational. Arithmetic is exact arithmetic followed by \<open>f64_round\<close>; the sign of zero is
  kept. NaN payloads and signalling NaNs are not distinguished. \<open>std::pow\<close> is not correctly
  rounded by any standard, so it stays a parameter of the definitions that call it.
\<close>

datatype f64 = NaN | Inf bool | Fin bool rat

text \<open>Powers of two with an integer exponent, and the binary exponent of a magnitude.\<close>

definition pow2 :: "int \<Rightarrow> rat" where
  "pow2 k = (if 0 \<le> k then 2 ^ nat k else 1 / 2 ^ nat (- k))"

function int_log2 :: "int \<Rightarrow> int" where
  "int_log2 n = (if n < 2 then 0 else int_log2 (n div 2) + 1)"
  by pat_completeness auto
termination
  by (relation "measure nat") auto

declare int_log2.simps [simp del]

definition rat_log2 :: "rat \<Rightarrow> int" where
  "rat_log2 q =
     (let (n, d) = quotient_of q;
          k = int_log2 n - int_log2 d
      in if pow2 k \<le> q then k else k - 1)"

definition round_half_even :: "rat \<Rightarrow> int" where
  "round_half_even q =
     (let f = \<lfloor>q\<rfloor>; r = q - of_int f
      in if r < 1 / 2 then f else if r > 1 / 2 then f + 1 else if even f then f else f + 1)"

definition f64_round :: "bool \<Rightarrow> rat \<Rightarrow> f64" where
  "f64_round s q =
     (if q = 0 then Fin s 0
      else let e = max (- 1074) (rat_log2 q - 52);
               r = of_int (round_half_even (q / pow2 e)) * pow2 e
           in if pow2 1024 \<le> r then Inf s else Fin s r)"

text \<open>The representable values: rounding leaves them alone.\<close>

fun f64_ok :: "f64 \<Rightarrow> bool" where
  "f64_ok (Fin s q) \<longleftrightarrow> 0 \<le> q \<and> f64_round s q = Fin s q"
| "f64_ok _ \<longleftrightarrow> True"

fun f64_isnan :: "f64 \<Rightarrow> bool" where
  "f64_isnan NaN = True"
| "f64_isnan _ = False"

fun f64_isinf :: "f64 \<Rightarrow> bool" where
  "f64_isinf (Inf _) = True"
| "f64_isinf _ = False"

fun f64_isfinite :: "f64 \<Rightarrow> bool" where
  "f64_isfinite (Fin _ _) = True"
| "f64_isfinite _ = False"

fun f64_signbit :: "f64 \<Rightarrow> bool" where
  "f64_signbit NaN = False"
| "f64_signbit (Inf s) = s"
| "f64_signbit (Fin s _) = s"

text \<open>The signed rational a finite double denotes.\<close>

fun f64_val :: "f64 \<Rightarrow> rat" where
  "f64_val (Fin s q) = (if s then - q else q)"
| "f64_val _ = 0"

definition f64_of_rat :: "rat \<Rightarrow> f64" where
  "f64_of_rat q = f64_round (q < 0) \<bar>q\<bar>"

definition f64_of_int :: "int \<Rightarrow> f64" where
  "f64_of_int i = f64_of_rat (of_int i)"

fun f64_neg :: "f64 \<Rightarrow> f64" where
  "f64_neg NaN = NaN"
| "f64_neg (Inf s) = Inf (\<not> s)"
| "f64_neg (Fin s q) = Fin (\<not> s) q"

fun f64_add :: "f64 \<Rightarrow> f64 \<Rightarrow> f64" where
  "f64_add NaN _ = NaN"
| "f64_add _ NaN = NaN"
| "f64_add (Inf s) (Inf t) = (if s = t then Inf s else NaN)"
| "f64_add (Inf s) (Fin _ _) = Inf s"
| "f64_add (Fin _ _) (Inf t) = Inf t"
| "f64_add (Fin s a) (Fin t b) =
     (let v = f64_val (Fin s a) + f64_val (Fin t b)
      in if v = 0 then Fin (s \<and> t) 0 else f64_of_rat v)"

definition f64_sub :: "f64 \<Rightarrow> f64 \<Rightarrow> f64" where
  "f64_sub x y = f64_add x (f64_neg y)"

fun f64_mul :: "f64 \<Rightarrow> f64 \<Rightarrow> f64" where
  "f64_mul NaN _ = NaN"
| "f64_mul _ NaN = NaN"
| "f64_mul (Inf s) (Inf t) = Inf (s \<noteq> t)"
| "f64_mul (Inf s) (Fin t b) = (if b = 0 then NaN else Inf (s \<noteq> t))"
| "f64_mul (Fin s a) (Inf t) = (if a = 0 then NaN else Inf (s \<noteq> t))"
| "f64_mul (Fin s a) (Fin t b) = f64_round (s \<noteq> t) (a * b)"

fun f64_div :: "f64 \<Rightarrow> f64 \<Rightarrow> f64" where
  "f64_div NaN _ = NaN"
| "f64_div _ NaN = NaN"
| "f64_div (Inf s) (Inf t) = NaN"
| "f64_div (Inf s) (Fin t b) = Inf (s \<noteq> t)"
| "f64_div (Fin s a) (Inf t) = Fin (s \<noteq> t) 0"
| "f64_div (Fin s a) (Fin t b) =
     (if b = 0 then (if a = 0 then NaN else Inf (s \<noteq> t)) else f64_round (s \<noteq> t) (a / b))"

text \<open>\<open>std::fmod\<close> is exact: the remainder has the sign of the dividend.\<close>

fun f64_fmod :: "f64 \<Rightarrow> f64 \<Rightarrow> f64" where
  "f64_fmod NaN _ = NaN"
| "f64_fmod _ NaN = NaN"
| "f64_fmod (Inf s) _ = NaN"
| "f64_fmod (Fin s a) (Inf t) = Fin s a"
| "f64_fmod (Fin s a) (Fin t b) =
     (if b = 0 then NaN else Fin s (a - of_int \<lfloor>a / b\<rfloor> * b))"

text \<open>The C++ comparison operators: every one of them is false on a NaN.\<close>

fun f64_lt :: "f64 \<Rightarrow> f64 \<Rightarrow> bool" where
  "f64_lt NaN _ = False"
| "f64_lt _ NaN = False"
| "f64_lt (Inf s) (Inf t) = (s \<and> \<not> t)"
| "f64_lt (Inf s) (Fin _ _) = s"
| "f64_lt (Fin _ _) (Inf t) = (\<not> t)"
| "f64_lt x y = (f64_val x < f64_val y)"

fun f64_eq :: "f64 \<Rightarrow> f64 \<Rightarrow> bool" where
  "f64_eq NaN _ = False"
| "f64_eq _ NaN = False"
| "f64_eq (Inf s) (Inf t) = (s = t)"
| "f64_eq (Inf s) (Fin _ _) = False"
| "f64_eq (Fin _ _) (Inf t) = False"
| "f64_eq x y = (f64_val x = f64_val y)"

definition f64_le :: "f64 \<Rightarrow> f64 \<Rightarrow> bool" where
  "f64_le x y \<longleftrightarrow> f64_lt x y \<or> f64_eq x y"

definition f64_zero :: f64 where
  "f64_zero = Fin False 0"

definition f64_one :: f64 where
  "f64_one = Fin False 1"

text \<open>\<open>std::floor\<close> and \<open>std::ceil\<close> keep the sign of a zero result.\<close>

fun f64_floor :: "f64 \<Rightarrow> f64" where
  "f64_floor (Fin s q) = Fin s \<bar>of_int \<lfloor>f64_val (Fin s q)\<rfloor>\<bar>"
| "f64_floor x = x"

fun f64_ceil :: "f64 \<Rightarrow> f64" where
  "f64_ceil (Fin s q) = Fin s \<bar>of_int \<lceil>f64_val (Fin s q)\<rceil>\<bar>"
| "f64_ceil x = x"

subsection \<open>Rounding\<close>

lemma pow2_pos [simp]: "0 < pow2 k"
  by (simp add: pow2_def)

lemma pow2_nonzero [simp]: "pow2 k \<noteq> 0"
  using pow2_pos [of k] by linarith

lemma pow2_powi: "pow2 k = 2 powi k"
  by (cases "0 \<le> k") (simp_all add: pow2_def power_int_def inverse_eq_divide power_one_over)

lemma pow2_add: "pow2 (a + b) = pow2 a * pow2 b"
  by (simp add: pow2_powi power_int_add)

lemma pow2_diff: "pow2 (a - b) = pow2 a / pow2 b"
  by (simp add: pow2_powi power_int_diff)

lemma pow2_strict: "a < b \<Longrightarrow> pow2 a < pow2 b"
  by (simp add: pow2_powi power_int_strict_increasing)

lemma pow2_less_iff: "pow2 a < pow2 b \<longleftrightarrow> a < b"
  using pow2_strict [of a b] pow2_strict [of b a] by (cases a b rule: linorder_cases) auto

lemma pow2_le_iff: "pow2 a \<le> pow2 b \<longleftrightarrow> a \<le> b"
  using pow2_less_iff [of b a] by (auto simp: not_less [symmetric])

lemma pow2_of_nat: "pow2 (int n) = 2 ^ n"
  by (simp add: pow2_def)

lemma int_log2_nonneg: "0 \<le> int_log2 n"
  by (induction n rule: int_log2.induct) (subst int_log2.simps, simp)

lemma of_int_less_pow2:
  assumes "of_int m < pow2 k" and "0 \<le> k"
  shows "of_int (m + 1) \<le> pow2 k"
proof -
  have k: "pow2 k = of_int (2 ^ nat k)" using assms(2) by (simp add: pow2_def)
  with assms(1) have "m < 2 ^ nat k" by (simp only: of_int_less_iff)
  then have "m + 1 \<le> 2 ^ nat k" by simp
  then show ?thesis unfolding k by (simp only: of_int_le_iff)
qed

lemma pow2_double: "pow2 (k + 1) = 2 * pow2 k"
  by (simp add: pow2_add) (simp add: pow2_def)

lemma int_log2_bounds:
  assumes "0 < n"
  shows "pow2 (int_log2 n) \<le> of_int n \<and> of_int n < pow2 (int_log2 n + 1)"
  using assms
proof (induction n rule: int_log2.induct)
  case (1 n)
  show ?case
  proof (cases "n < 2")
    case True
    with "1.prems" have "n = 1" by simp
    then show ?thesis by (simp add: int_log2.simps pow2_def)
  next
    case False
    define m where "m = n div 2"
    have IH: "pow2 (int_log2 m) \<le> of_int m" "of_int m < pow2 (int_log2 m + 1)"
      using "1.IH" False by (simp_all add: m_def)
    have "2 * m \<le> n" "n < 2 * (m + 1)" by (simp_all add: m_def)
    then have "(of_int (2 * m) :: rat) \<le> of_int n" "(of_int n :: rat) < of_int (2 * (m + 1))"
      by (simp_all only: of_int_le_iff of_int_less_iff)
    moreover have "pow2 (int_log2 m + 1) \<ge> of_int (m + 1)"
      using IH(2) False int_log2_nonneg [of m] by (intro of_int_less_pow2) simp_all
    moreover have "int_log2 n = int_log2 m + 1" using False by (simp add: int_log2.simps [of n] m_def)
    moreover have "pow2 (int_log2 m + 1 + 1) = 2 * pow2 (int_log2 m + 1)" by (rule pow2_double)
    ultimately show ?thesis using IH by (simp add: pow2_double)
  qed
qed

text \<open>\<open>rat_log2\<close> is the exponent of the binade a positive magnitude lies in.\<close>

lemma rat_log2_bounds:
  assumes "0 < q"
  shows "pow2 (rat_log2 q) \<le> q \<and> q < pow2 (rat_log2 q + 1)"
proof -
  obtain n d where nd: "quotient_of q = (n, d)" by force
  have d: "0 < d" using nd by (rule quotient_of_denom_pos)
  have q: "q = of_int n / of_int d" using nd by (rule quotient_of_div)
  with assms d have n: "0 < n" by (simp add: zero_less_divide_iff)
  define a where "a = int_log2 n"
  define b where "b = int_log2 d"
  have n_lo: "pow2 a \<le> of_int n" and n_hi: "of_int n < pow2 (a + 1)"
    using int_log2_bounds [OF n] by (simp_all add: a_def)
  have d_lo: "pow2 b \<le> of_int d" and d_hi: "of_int d < pow2 (b + 1)"
    using int_log2_bounds [OF d] by (simp_all add: b_def)
  define k where "k = a - b"
  have lo: "pow2 (k - 1) \<le> q"
  proof -
    have "pow2 (k - 1) = pow2 a / pow2 (b + 1)"
      by (simp add: k_def diff_diff_eq flip: pow2_diff)
    also have "\<dots> \<le> of_int n / of_int d"
      using n_lo d_hi d n by (intro frac_le) (auto intro: less_imp_le)
    finally show ?thesis using q by simp
  qed
  have hi: "q < pow2 (k + 1)"
  proof -
    have "of_int n / of_int d < pow2 (a + 1) / pow2 b"
      using n_hi d_lo d n by (intro frac_less) auto
    also have "\<dots> = pow2 (k + 1)"
      by (simp add: k_def algebra_simps flip: pow2_diff)
    finally show ?thesis using q by simp
  qed
  have "rat_log2 q = (if pow2 k \<le> q then k else k - 1)"
    by (simp add: rat_log2_def nd a_def b_def k_def)
  then show ?thesis using lo hi by auto
qed

lemma round_half_even_of_int [simp]: "round_half_even (of_int i) = i"
  by (simp add: round_half_even_def)

text \<open>A multiple of the unit in the last place below the overflow threshold is representable.\<close>

lemma f64_round_exact:
  assumes "0 < q" and "q / pow2 (max (- 1074) (rat_log2 q - 52)) = of_int m" and "q < pow2 1024"
  shows "f64_round s q = Fin s q"
proof -
  let ?e = "max (- 1074) (rat_log2 q - 52)"
  have "of_int (round_half_even (q / pow2 ?e)) * pow2 ?e = q"
    unfolding assms(2) round_half_even_of_int by (simp flip: assms(2))
  then show ?thesis using assms(1,3) by (simp add: f64_round_def Let_def)
qed

lemma f64_round_zero [simp]: "f64_round s 0 = Fin s 0"
  by (simp add: f64_round_def)

lemma pow2_1024: "(2::rat) ^ 53 < pow2 1024"
proof -
  have "pow2 53 < pow2 1024" by (simp only: pow2_less_iff)
  then show ?thesis by (simp add: pow2_def)
qed

text \<open>Every integer of magnitude at most \<open>2 ^ 53\<close> is a double.\<close>

lemma f64_round_small_int:
  assumes "0 \<le> i" and "i \<le> 2 ^ 53"
  shows "f64_round s (of_int i) = Fin s (of_int i)"
proof (cases "i = 0")
  case False
  with assms have pos: "0 < i" by simp
  have "(of_int i :: rat) \<le> of_int (2 ^ 53)" using assms(2) by (simp only: of_int_le_iff)
  then have le: "(of_int i :: rat) \<le> 2 ^ 53" by simp
  then have small: "(of_int i :: rat) < pow2 1024" using pow2_1024 by linarith
  let ?e = "max (- 1074) (rat_log2 (of_int i) - 52)"
  have b: "pow2 (rat_log2 (of_int i)) \<le> of_int i" "of_int i < pow2 (rat_log2 (of_int i) + 1)"
    using rat_log2_bounds [of "of_int i"] pos by simp_all
  show ?thesis
  proof (cases "i = 2 ^ 53")
    case True
    have "pow2 53 < pow2 (rat_log2 (of_int i) + 1)" "pow2 (rat_log2 (of_int i)) \<le> pow2 53"
      using b True by (simp_all add: pow2_def)
    then have "rat_log2 (of_int i) = 53" by (simp only: pow2_less_iff pow2_le_iff)
    then have "of_int i / pow2 ?e = of_int (2 ^ 52)" using True by (simp add: pow2_def)
    then show ?thesis using pos small by (intro f64_round_exact) simp_all
  next
    case False
    then have "i < 2 ^ 53" using assms(2) by simp
    then have "(of_int i :: rat) < of_int (2 ^ 53)" by (simp only: of_int_less_iff)
    then have "pow2 (rat_log2 (of_int i)) < pow2 53" using b by (simp add: pow2_def)
    then have "rat_log2 (of_int i) \<le> 52" by (simp only: pow2_less_iff)
    then have e: "?e \<le> 0" by simp
    have "of_int i / pow2 ?e = of_int (i * 2 ^ nat (- ?e))"
      using e by (auto simp: pow2_def)
    then show ?thesis using pos small by (intro f64_round_exact) (simp_all only: of_int_0_less_iff)
  qed
qed simp

lemma f64_of_int_exact:
  assumes "\<bar>i\<bar> \<le> 2 ^ 53"
  shows "f64_of_int i = Fin (i < 0) \<bar>of_int i\<bar>"
proof -
  have "f64_of_int i = f64_round (i < 0) (of_int \<bar>i\<bar>)"
    by (simp add: f64_of_int_def f64_of_rat_def)
  also have "\<dots> = Fin (i < 0) (of_int \<bar>i\<bar>)"
    using assms by (intro f64_round_small_int) auto
  finally show ?thesis by simp
qed

lemma f64_val_of_int_exact:
  assumes "\<bar>i\<bar> \<le> 2 ^ 53"
  shows "f64_val (f64_of_int i) = of_int i"
  using f64_of_int_exact [OF assms] by auto

lemma f64_ok_one: "f64_ok f64_one"
  using f64_round_small_int [of 1 False] by (simp add: f64_one_def)

subsection \<open>Identities that hold for every representable operand\<close>

lemma f64_mul_one_right: "f64_ok x \<Longrightarrow> f64_mul x f64_one = x"
  by (cases x) (simp_all add: f64_one_def)

lemma f64_mul_one_left: "f64_ok x \<Longrightarrow> f64_mul f64_one x = x"
  by (cases x) (simp_all add: f64_one_def)

lemma f64_div_one: "f64_ok x \<Longrightarrow> f64_div x f64_one = x"
  by (cases x) (simp_all add: f64_one_def)

lemma f64_sub_zero:
  assumes "f64_ok x"
  shows "f64_sub x f64_zero = x"
proof (cases x)
  case (Fin s q)
  then show ?thesis
    using assms by (auto simp: f64_sub_def f64_zero_def f64_of_rat_def Let_def)
qed (simp_all add: f64_sub_def f64_zero_def)

lemma f64_eq_zero_iff: "f64_eq x f64_zero \<longleftrightarrow> (\<exists>s. x = Fin s 0)"
  by (cases x) (auto simp: f64_zero_def)

lemma f64_isfinite_iff: "f64_isfinite x \<longleftrightarrow> \<not> f64_isnan x \<and> \<not> f64_isinf x"
  by (cases x) auto

lemma f64_lt_finite: "f64_isfinite x \<Longrightarrow> f64_isfinite y \<Longrightarrow> f64_lt x y \<longleftrightarrow> f64_val x < f64_val y"
  by (cases x; cases y) auto

lemma f64_eq_finite: "f64_isfinite x \<Longrightarrow> f64_isfinite y \<Longrightarrow> f64_eq x y \<longleftrightarrow> f64_val x = f64_val y"
  by (cases x; cases y) auto

subsection \<open>Rounding is monotone\<close>

lemma pow2_nonneg [simp]: "0 \<le> pow2 k"
  by (rule less_imp_le) (rule pow2_pos)

lemma round_half_even_near:
  "of_int (round_half_even q) - 1 / 2 \<le> q" "q \<le> of_int (round_half_even q) + 1 / 2"
proof -
  define f where "f = \<lfloor>q\<rfloor>"
  have f: "of_int f \<le> q" "q < of_int f + 1" unfolding f_def by linarith+
  have r: "round_half_even q =
      (if q - of_int f < 1 / 2 then f else if q - of_int f > 1 / 2 then f + 1 else if even f then f else f + 1)"
    by (simp add: round_half_even_def Let_def f_def)
  show "of_int (round_half_even q) - 1 / 2 \<le> q" "q \<le> of_int (round_half_even q) + 1 / 2"
    unfolding r using f by auto
qed

lemma round_half_even_mono:
  assumes "p \<le> q"
  shows "round_half_even p \<le> round_half_even q"
proof (rule ccontr)
  assume "\<not> ?thesis"
  then have gt: "round_half_even q + 1 \<le> round_half_even p" by simp
  then have "of_int (round_half_even q + 1) \<le> (of_int (round_half_even p) :: rat)" by (simp only: of_int_le_iff)
  then have g: "of_int (round_half_even q) + 1 \<le> (of_int (round_half_even p) :: rat)" by simp
  have "p = q" using g round_half_even_near(1) [of p] round_half_even_near(2) [of q] assms by linarith
  then show False using gt by simp
qed

definition ulp_exp :: "rat \<Rightarrow> int" where
  "ulp_exp q = max (- 1074) (rat_log2 q - 52)"

definition round_mag :: "rat \<Rightarrow> rat" where
  "round_mag q = of_int (round_half_even (q / pow2 (ulp_exp q))) * pow2 (ulp_exp q)"

lemma f64_round_mag:
  "f64_round s q = (if q = 0 then Fin s 0 else if pow2 1024 \<le> round_mag q then Inf s else Fin s (round_mag q))"
  by (simp add: f64_round_def round_mag_def ulp_exp_def Let_def)

lemma rat_log2_mono:
  assumes "0 < p" "p \<le> q"
  shows "rat_log2 p \<le> rat_log2 q"
proof -
  have "pow2 (rat_log2 p) < pow2 (rat_log2 q + 1)"
    using rat_log2_bounds [OF assms(1)] rat_log2_bounds [of q] assms by linarith
  then show ?thesis by (simp add: pow2_less_iff)
qed

lemma round_mag_upper:
  assumes "0 < p" "rat_log2 p + 1 \<le> k" "- 1074 \<le> k"
  shows "round_mag p \<le> pow2 k"
proof -
  have e: "ulp_exp p \<le> k" using assms(2,3) by (simp add: ulp_exp_def)
  have "p < pow2 (rat_log2 p + 1)" using rat_log2_bounds [OF assms(1)] by simp
  also have "\<dots> \<le> pow2 k" using assms(2) by (simp add: pow2_le_iff)
  finally have "p / pow2 (ulp_exp p) \<le> pow2 k / pow2 (ulp_exp p)" by (intro divide_right_mono) simp_all
  also have "\<dots> = of_int (2 ^ nat (k - ulp_exp p))"
    using e pow2_of_nat [of "nat (k - ulp_exp p)"] by (simp flip: pow2_diff)
  finally have "round_half_even (p / pow2 (ulp_exp p)) \<le> 2 ^ nat (k - ulp_exp p)"
    using round_half_even_mono round_half_even_of_int by metis
  then have "(of_int (round_half_even (p / pow2 (ulp_exp p))) :: rat) \<le> of_int (2 ^ nat (k - ulp_exp p))"
    by (simp only: of_int_le_iff)
  also have "\<dots> = pow2 k / pow2 (ulp_exp p)"
    using e pow2_of_nat [of "nat (k - ulp_exp p)"] by (simp flip: pow2_diff)
  finally show ?thesis by (simp add: round_mag_def pos_le_divide_eq)
qed

lemma round_mag_lower:
  assumes "0 < q" "- 1074 \<le> rat_log2 q"
  shows "pow2 (rat_log2 q) \<le> round_mag q"
proof -
  let ?k = "rat_log2 q"
  have e: "ulp_exp q \<le> ?k" using assms(2) by (simp add: ulp_exp_def)
  have pw: "pow2 ?k / pow2 (ulp_exp q) = of_int (2 ^ nat (?k - ulp_exp q))"
    using e pow2_of_nat [of "nat (?k - ulp_exp q)"] by (simp flip: pow2_diff)
  have "pow2 ?k / pow2 (ulp_exp q) \<le> q / pow2 (ulp_exp q)"
    using rat_log2_bounds [OF assms(1)] by (intro divide_right_mono) simp_all
  then have "2 ^ nat (?k - ulp_exp q) \<le> round_half_even (q / pow2 (ulp_exp q))"
    unfolding pw using round_half_even_mono round_half_even_of_int by metis
  then have "of_int (2 ^ nat (?k - ulp_exp q)) \<le> (of_int (round_half_even (q / pow2 (ulp_exp q))) :: rat)"
    by (simp only: of_int_le_iff)
  then show ?thesis unfolding pw [symmetric] by (simp add: round_mag_def pos_divide_le_eq)
qed

lemma round_mag_mono:
  assumes "0 < p" "p \<le> q"
  shows "round_mag p \<le> round_mag q"
proof (cases "ulp_exp p = ulp_exp q")
  case True
  have "p / pow2 (ulp_exp q) \<le> q / pow2 (ulp_exp q)" using assms(2) by (intro divide_right_mono) simp_all
  then show ?thesis unfolding round_mag_def True by (simp add: round_half_even_mono)
next
  case False
  then have "rat_log2 p < rat_log2 q" "- 1074 < rat_log2 q"
    using rat_log2_mono [OF assms] by (auto simp: ulp_exp_def max_def split: if_splits)
  then show ?thesis
    using round_mag_upper [of p "rat_log2 q"] round_mag_lower [of q] assms by simp
qed

lemma f64_round_Fin_mono:
  assumes "0 < p" "p \<le> q" "f64_round s q = Fin s r"
  shows "\<exists>r'. f64_round s' p = Fin s' r' \<and> 0 \<le> r' \<and> r' \<le> r"
proof -
  have r: "r = round_mag q" "round_mag q < pow2 1024"
    using assms by (auto simp: f64_round_mag split: if_splits)
  have "round_mag p \<le> round_mag q" by (rule round_mag_mono [OF assms(1,2)])
  moreover have "0 \<le> p / pow2 (ulp_exp p)" using assms(1) by (intro divide_nonneg_nonneg) simp_all
  then have "0 \<le> round_half_even (p / pow2 (ulp_exp p))"
    using round_half_even_mono [of 0] round_half_even_of_int [of 0] by simp
  then have "0 \<le> round_mag p" by (simp add: round_mag_def)
  ultimately show ?thesis using r assms(1) by (auto simp: f64_round_mag)
qed

lemma rat_log2_unique:
  assumes "pow2 k \<le> q" "q < pow2 (k + 1)"
  shows "rat_log2 q = k"
proof -
  have "0 < q" using assms(1) pow2_pos [of k] by linarith
  from rat_log2_bounds [OF this] have "pow2 (rat_log2 q) < pow2 (k + 1)" "pow2 k < pow2 (rat_log2 q + 1)"
    using assms by linarith+
  then show ?thesis by (simp add: pow2_less_iff)
qed

text \<open>The representable magnitudes: a significand of at most 53 bits, scaled.\<close>

lemma f64_round_scaled:
  assumes "0 < m" "m < 2 ^ 53" "- 1074 \<le> e" "of_int m * pow2 e < pow2 1024"
  shows "f64_round s (of_int m * pow2 e) = Fin s (of_int m * pow2 e)"
proof -
  let ?q = "of_int m * pow2 e"
  have q: "0 < ?q" using assms(1) by simp
  have "(of_int m :: rat) < of_int (2 ^ 53)" using assms(2) by (simp only: of_int_less_iff)
  then have "?q < pow2 53 * pow2 e" by (simp add: pow2_def mult_strict_right_mono)
  then have "pow2 (rat_log2 ?q) < pow2 (53 + e)" using rat_log2_bounds [OF q] unfolding pow2_add [of 53 e] by linarith
  then have le: "max (- 1074) (rat_log2 ?q - 52) \<le> e" using assms(3) by (simp add: pow2_less_iff)
  let ?u = "max (- 1074) (rat_log2 ?q - 52)"
  have "?q / pow2 ?u = of_int m * pow2 (e - ?u)" by (simp add: pow2_diff)
  also have "\<dots> = of_int (m * 2 ^ nat (e - ?u))" using le by (simp add: pow2_def)
  finally show ?thesis using q assms(4) by (intro f64_round_exact)
qed

lemma f64_round_2_63: "f64_round s (2 ^ 63) = Fin s (2 ^ 63)"
proof -
  have "pow2 63 < pow2 1024" by (simp only: pow2_less_iff)
  then have "f64_round s (of_int 1 * pow2 63) = Fin s (of_int 1 * pow2 63)"
    by (intro f64_round_scaled) simp_all
  then show ?thesis by (simp add: pow2_def)
qed

lemma f64_round_7_2: "f64_round s (7 / 2) = Fin s (7 / 2)"
proof -
  have "of_int 7 * pow2 (- 1) < pow2 2" by (simp add: pow2_def)
  also have "pow2 2 < pow2 1024" by (simp only: pow2_less_iff)
  finally have "f64_round s (of_int 7 * pow2 (- 1)) = Fin s (of_int 7 * pow2 (- 1))"
    by (intro f64_round_scaled) simp_all
  then show ?thesis by (simp add: pow2_def)
qed

lemma f64_of_int_2_53:
  "f64_of_int 9007199254740992 = Fin False 9007199254740992"
  "f64_of_int 9007199254740993 = Fin False 9007199254740992"
proof -
  show "f64_of_int 9007199254740992 = Fin False 9007199254740992" by (simp add: f64_of_int_exact)
  have log: "rat_log2 9007199254740993 = 53" by (rule rat_log2_unique) (simp_all add: pow2_def)
  have f: "\<lfloor>9007199254740993 / (2::rat)\<rfloor> = 4503599627370496" by (rule floor_unique) simp_all
  have "round_half_even (9007199254740993 / 2) = 4503599627370496"
    unfolding round_half_even_def f Let_def by simp
  moreover have "(9007199254740992 :: rat) < pow2 1024"
    using pow2_1024 by simp
  ultimately show "f64_of_int 9007199254740993 = Fin False 9007199254740992"
    by (simp add: f64_of_int_def f64_of_rat_def f64_round_def log pow2_def [of 1] not_le)
qed

end
