(* ===== verification/Vm_Value.thy ===== *)
theory Vm_Value
  imports Zl_Type_Name Zl_Double
begin

text \<open>
  Runtime values (\<^verbatim>\<open>include/zl/vm/value.hpp\<close>, \<^verbatim>\<open>src/vm/value.cpp\<close>): the \<open>Value\<close> variant, the
  boxes its handles point to, field access on the flat object layout, truthiness, numeric
  comparison and equality.

  A \<open>GcRef\<close> is an address or null. All boxes live in one heap, since the collector identifies
  them by address. Reading through a dangling handle is undefined behaviour in the source; the
  model reads the default-constructed box there. Mutexes guard single operations, so each
  operation is one atomic step. Iteration over an \<open>unordered_map\<close> follows the order of the
  association list that stands for it.
\<close>

type_synonym addr = nat

datatype zvalue =
    VNil
  | VInt int64
  | VDouble f64
  | VString string
  | VBool bool
  | VList "addr option"
  | VMap "addr option"
  | VObject "addr option"
  | VClosure "addr option"
  | VTask "addr option"
  | VThread "addr option"
  | VNativeHandle nat
  | VNativeBuffer "nat option" nat bool
  | VNativeStruct "nat option" nat nat bool
  | VNativeCallback nat

text \<open>
  A buffer view is its data pointer, its size and whether the owner is alive; a struct view adds
  the alignment.
\<close>

record container_type =
  ct_arguments :: "type_name list"
  ct_fixedSize :: "nat option"

record list_box =
  lb_storageType :: "container_type option"
  lb_items :: "zvalue list"
  lb_frontIndex :: nat

record map_box =
  mb_storageType :: "container_type option"
  mb_entries :: "(zvalue \<times> zvalue) list"
  mb_stringKeyIndex :: "string \<rightharpoonup> nat"
  mb_stringKeyIndexValid :: bool

record runtime_field =
  rf_name :: string
  rf_isStatic :: bool

record runtime_type =
  rt_name :: string
  rt_isDataType :: bool
  rt_fields :: "runtime_field list"
  rt_instanceFieldCount :: nat
  rt_instanceFieldNames :: "string list"
  rt_fieldIndex :: "string \<rightharpoonup> nat"

record pending_send =
  ps_value :: zvalue
  ps_task :: "addr option"

record channel_state =
  ch_items :: "zvalue list"
  ch_pendingSends :: "pending_send list"
  ch_pendingReceives :: "addr option list"
  ch_capacity :: nat

record object_box =
  ob_genericTypeName :: string
  ob_mutexState :: "nat option"
  ob_rwLockState :: "nat option"
  ob_atomicState :: "int64 option"
  ob_atomicBoolState :: "bool option"
  ob_atomicDoubleState :: "f64 option"
  ob_atomicRefMutex :: "nat option"
  ob_sharedValueMutex :: "nat option"
  ob_atomicRefState :: "zvalue option"
  ob_semaphoreState :: "int64 option"
  ob_conditionState :: "nat option"
  ob_channelState :: "channel_state option"
  ob_className :: string
  ob_runtimeType :: "runtime_type option"
  ob_fields :: "zvalue list"
  ob_extraFields :: "(string \<times> zvalue) list"

record closure_box =
  cb_functionName :: string
  cb_paramNames :: "string list"
  cb_parameterTypeNames :: "string list"
  cb_returnTypeName :: string
  cb_isAsync :: bool
  cb_isNative :: bool
  cb_entryAddress :: nat
  cb_functionIndex :: nat
  cb_chunk :: "nat option"
  cb_captured :: "(string \<times> zvalue) list"
  cb_typeBindings :: "(string \<times> string) list"

text \<open>What a task retains for the collector: its result, its operands, a thrown ZL object.\<close>

record task_roots =
  tk_result :: "zvalue option"
  tk_operationRoots :: "zvalue list"
  tk_errorValue :: "addr option"

datatype box =
    BList list_box
  | BMap map_box
  | BObject object_box
  | BClosure closure_box
  | BTask task_roots

type_synonym heap = "addr \<rightharpoonup> box"

definition empty_list_box :: list_box where
  "empty_list_box = \<lparr>lb_storageType = None, lb_items = [], lb_frontIndex = 0\<rparr>"

definition empty_map_box :: map_box where
  "empty_map_box =
     \<lparr>mb_storageType = None, mb_entries = [], mb_stringKeyIndex = Map.empty,
      mb_stringKeyIndexValid = False\<rparr>"

definition empty_object_box :: object_box where
  "empty_object_box =
     \<lparr>ob_genericTypeName = [], ob_mutexState = None, ob_rwLockState = None,
      ob_atomicState = None, ob_atomicBoolState = None, ob_atomicDoubleState = None,
      ob_atomicRefMutex = None, ob_sharedValueMutex = None, ob_atomicRefState = None,
      ob_semaphoreState = None, ob_conditionState = None, ob_channelState = None,
      ob_className = [], ob_runtimeType = None, ob_fields = [], ob_extraFields = []\<rparr>"

definition empty_closure_box :: closure_box where
  "empty_closure_box =
     \<lparr>cb_functionName = [], cb_paramNames = [], cb_parameterTypeNames = [],
      cb_returnTypeName = [], cb_isAsync = False, cb_isNative = False, cb_entryAddress = 0,
      cb_functionIndex = 0, cb_chunk = None, cb_captured = [], cb_typeBindings = []\<rparr>"

definition list_at :: "heap \<Rightarrow> addr \<Rightarrow> list_box" where
  "list_at h a = (case h a of Some (BList b) \<Rightarrow> b | _ \<Rightarrow> empty_list_box)"

definition map_at :: "heap \<Rightarrow> addr \<Rightarrow> map_box" where
  "map_at h a = (case h a of Some (BMap b) \<Rightarrow> b | _ \<Rightarrow> empty_map_box)"

definition object_at :: "heap \<Rightarrow> addr \<Rightarrow> object_box" where
  "object_at h a = (case h a of Some (BObject b) \<Rightarrow> b | _ \<Rightarrow> empty_object_box)"

text \<open>Errors: \<open>RuntimeError\<close> is a plain \<open>std::runtime_error\<close>, \<open>Fault\<close> a \<open>ZlRuntimeFault\<close>.\<close>

datatype vm_error = RuntimeError string | Fault string string

definition throwArithmeticError :: "string \<Rightarrow> vm_error" where
  "throwArithmeticError message = Fault ''ArithmeticError'' message"

text \<open>The flat field layout of a class.\<close>

definition addLayoutField :: "runtime_field \<Rightarrow> runtime_type \<Rightarrow> runtime_type" where
  "addLayoutField f t =
     (if rf_isStatic f then t
      else if rt_fieldIndex t (rf_name f) \<noteq> None then t
      else t\<lparr>rt_fieldIndex := (rt_fieldIndex t)(rf_name f \<mapsto> rt_instanceFieldCount t),
             rt_instanceFieldNames := rt_instanceFieldNames t @ [rf_name f],
             rt_instanceFieldCount := Suc (rt_instanceFieldCount t)\<rparr>)"

definition buildRuntimeFieldIndex :: "runtime_type \<Rightarrow> runtime_type" where
  "buildRuntimeFieldIndex t =
     fold addLayoutField (rt_fields t)
       (t\<lparr>rt_instanceFieldCount := 0, rt_instanceFieldNames := [], rt_fieldIndex := Map.empty\<rparr>)"

definition objectFieldSlot :: "object_box \<Rightarrow> string \<Rightarrow> nat option" where
  "objectFieldSlot b name =
     (case ob_runtimeType b of None \<Rightarrow> None | Some t \<Rightarrow> rt_fieldIndex t name)"

definition objectFieldLookup :: "object_box \<Rightarrow> string \<Rightarrow> zvalue option" where
  "objectFieldLookup b name =
     (case objectFieldSlot b name of
        Some i \<Rightarrow> if i < length (ob_fields b) then Some (ob_fields b ! i) else None
      | None \<Rightarrow> map_of (ob_extraFields b) name)"

definition objectFieldRequire :: "object_box \<Rightarrow> string \<Rightarrow> vm_error + zvalue" where
  "objectFieldRequire b name =
     (case objectFieldLookup b name of
        Some v \<Rightarrow> Inr v
      | None \<Rightarrow> Inl (RuntimeError (''object field not found: '' @ name)))"

text \<open>
  \<open>objectFieldAccess\<close> returns a reference; writing through it is \<open>objectFieldWrite\<close>. A slot past
  the end grows the vector with nil values.
\<close>

definition growTo :: "nat \<Rightarrow> zvalue list \<Rightarrow> zvalue list" where
  "growTo n xs = (if length xs < n then xs @ replicate (n - length xs) VNil else xs)"

fun assocWrite :: "'k \<Rightarrow> 'v \<Rightarrow> ('k \<times> 'v) list \<Rightarrow> ('k \<times> 'v) list" where
  "assocWrite k v [] = [(k, v)]"
| "assocWrite k v ((k', v') # kvs) =
     (if k' = k then (k', v) # kvs else (k', v') # assocWrite k v kvs)"

definition objectFieldWrite :: "object_box \<Rightarrow> string \<Rightarrow> zvalue \<Rightarrow> object_box" where
  "objectFieldWrite b name v =
     (case objectFieldSlot b name of
        Some i \<Rightarrow> b\<lparr>ob_fields := (growTo (Suc i) (ob_fields b))[i := v]\<rparr>
      | None \<Rightarrow> b\<lparr>ob_extraFields := assocWrite name v (ob_extraFields b)\<rparr>)"

definition objectFieldForEach :: "object_box \<Rightarrow> (string \<times> zvalue) list" where
  "objectFieldForEach b =
     (case ob_runtimeType b of
        Some t \<Rightarrow>
          (let count = min (length (ob_fields b)) (rt_instanceFieldCount t)
           in map (\<lambda>i. (rt_instanceFieldNames t ! i, ob_fields b ! i)) [0..<count])
      | None \<Rightarrow> []) @ ob_extraFields b"

definition isTruthy :: "heap \<Rightarrow> zvalue \<Rightarrow> bool" where
  "isTruthy h v =
     (case v of
        VNil \<Rightarrow> False
      | VBool b \<Rightarrow> b
      | VInt i \<Rightarrow> i \<noteq> 0
      | VDouble d \<Rightarrow> \<not> f64_eq d f64_zero
      | VString s \<Rightarrow> s \<noteq> []
      | VList r \<Rightarrow> (case r of None \<Rightarrow> False | Some a \<Rightarrow> lb_items (list_at h a) \<noteq> [])
      | VMap r \<Rightarrow> (case r of None \<Rightarrow> False | Some a \<Rightarrow> length (mb_entries (map_at h a)) \<noteq> 0)
      | VObject r \<Rightarrow> r \<noteq> None
      | VClosure r \<Rightarrow> r \<noteq> None
      | VTask r \<Rightarrow> r \<noteq> None
      | VThread r \<Rightarrow> r \<noteq> None
      | VNativeHandle i \<Rightarrow> i \<noteq> 0
      | VNativeBuffer data sz alive \<Rightarrow> (data \<noteq> None \<or> sz = 0) \<and> alive
      | VNativeStruct data sz al alive \<Rightarrow> (data \<noteq> None \<or> sz = 0) \<and> alive
      | VNativeCallback i \<Rightarrow> i \<noteq> 0)"

fun isNumericValue :: "zvalue \<Rightarrow> bool" where
  "isNumericValue (VInt _) = True"
| "isNumericValue (VDouble _) = True"
| "isNumericValue _ = False"

fun toDouble :: "zvalue \<Rightarrow> vm_error + f64" where
  "toDouble (VInt i) = Inr (f64_of_int (sint i))"
| "toDouble (VDouble d) = Inr d"
| "toDouble _ = Inl (RuntimeError ''expected a number'')"

fun toInt64Strict :: "zvalue \<Rightarrow> vm_error + int64" where
  "toInt64Strict (VInt i) = Inr i"
| "toInt64Strict _ = Inl (RuntimeError ''expected a whole number, got a decimal or non-number'')"

text \<open>
  Exact comparison of an integer with a double; 2 is \<open>unordered\<close>. The conversions of the floor
  and the ceiling to \<open>int64_t\<close> are in range under the guards.
\<close>

definition three_way :: "int \<Rightarrow> int \<Rightarrow> int" where
  "three_way i j = (if i > j then 1 else 0) - (if i < j then 1 else 0)"

definition f64_to_int :: "f64 \<Rightarrow> int" where
  "f64_to_int d = (let v = f64_val d in if 0 \<le> v then \<lfloor>v\<rfloor> else \<lceil>v\<rceil>)"

definition compareIntAndDouble :: "int64 \<Rightarrow> f64 \<Rightarrow> int" where
  "compareIntAndDouble i d =
     (if f64_isnan d then 2
      else if f64_lt f64_zero d then
        (if f64_le (Fin False (2 ^ 63)) d then - 1
         else
           let lower = f64_floor d; lowerInt = f64_to_int lower
           in if sint i < lowerInt then - 1
              else if sint i > lowerInt then 1
              else if f64_eq lower d then 0 else - 1)
      else if f64_lt d f64_zero then
        (if f64_lt d (Fin True (2 ^ 63)) then 1
         else
           let upper = f64_ceil d; upperInt = f64_to_int upper
           in if sint i < upperInt then - 1
              else if sint i > upperInt then 1
              else if f64_eq upper d then 0 else 1)
      else if i = 0 then 0 else if sint i < 0 then - 1 else 1)"

fun compareNumbers :: "zvalue \<Rightarrow> zvalue \<Rightarrow> vm_error + int" where
  "compareNumbers (VInt a) (VInt b) = Inr (three_way (sint a) (sint b))"
| "compareNumbers (VInt a) (VDouble d) = Inr (compareIntAndDouble a d)"
| "compareNumbers (VDouble d) (VInt b) = Inr (- compareIntAndDouble b d)"
| "compareNumbers (VDouble c) (VDouble d) =
     Inr ((if f64_lt d c then 1 else 0) - (if f64_lt c d then 1 else 0))"
| "compareNumbers _ _ = Inl (RuntimeError ''expected numeric values'')"

definition compareNumericValues :: "zvalue \<Rightarrow> zvalue \<Rightarrow> vm_error + int" where
  "compareNumericValues a b =
     (if \<not> isNumericValue a \<or> \<not> isNumericValue b
      then Inl (RuntimeError ''expected numeric values'')
      else compareNumbers a b)"

text \<open>
  Equality. \<open>valuesEqualPlain\<close> is \<open>valuesEqual\<close> on two values that are not both objects. A struct
  view's \<open>data()\<close> throws when the owner is gone.
\<close>

definition structViewError :: vm_error where
  "structViewError = RuntimeError ''native struct view is not valid or owner is destroyed''"

fun numericEqual :: "zvalue \<Rightarrow> zvalue \<Rightarrow> vm_error + bool" where
  "numericEqual a b =
     (case (a, b) of
        (VDouble d, _) \<Rightarrow>
          if f64_isnan d then Inr False
          else (case b of
                  VDouble e \<Rightarrow>
                    if f64_isnan e then Inr False
                    else (case compareNumbers a b of Inl er \<Rightarrow> Inl er | Inr c \<Rightarrow> Inr (c = 0))
                | _ \<Rightarrow> (case compareNumbers a b of Inl er \<Rightarrow> Inl er | Inr c \<Rightarrow> Inr (c = 0)))
      | (_, VDouble e) \<Rightarrow>
          if f64_isnan e then Inr False
          else (case compareNumbers a b of Inl er \<Rightarrow> Inl er | Inr c \<Rightarrow> Inr (c = 0))
      | _ \<Rightarrow> (case compareNumbers a b of Inl er \<Rightarrow> Inl er | Inr c \<Rightarrow> Inr (c = 0)))"

fun valuesEqualPlain :: "zvalue \<Rightarrow> zvalue \<Rightarrow> vm_error + bool" where
  "valuesEqualPlain a b =
     (if isNumericValue a \<and> isNumericValue b then numericEqual a b
      else case (a, b) of
        (VThread r, VThread r') \<Rightarrow> Inr (r = r')
      | (VNativeHandle i, VNativeHandle j) \<Rightarrow> Inr (i = j)
      | (VNativeBuffer d sz al, VNativeBuffer d' sz' al') \<Rightarrow> Inr (d = d' \<and> sz = sz')
      | (VNativeStruct d sz algn al, VNativeStruct d' sz' algn' al') \<Rightarrow>
          if \<not> ((d \<noteq> None \<or> sz = 0) \<and> al) \<or> \<not> ((d' \<noteq> None \<or> sz' = 0) \<and> al')
          then Inl structViewError
          else Inr (d = d' \<and> sz = sz' \<and> algn = algn')
      | (VNativeCallback i, VNativeCallback j) \<Rightarrow> Inr (i = j)
      | (VObject r, VObject r') \<Rightarrow> Inr (r = r')
      | (VNil, VNil) \<Rightarrow> Inr True
      | (VString s, VString s') \<Rightarrow> Inr (s = s')
      | (VBool x, VBool y) \<Rightarrow> Inr (x = y)
      | (VList r, VList r') \<Rightarrow> Inr (r = r')
      | (VMap r, VMap r') \<Rightarrow> Inr (r = r')
      | (VClosure r, VClosure r') \<Rightarrow> Inr (r = r')
      | (VTask r, VTask r') \<Rightarrow> Inr (r = r')
      | _ \<Rightarrow> Inr False)"

text \<open>
  Structural equality of records. \<open>seen\<close> holds the pairs already under comparison; the nesting
  budget is \<open>kMaxValueNestingDepth - depth + 1\<close>, so it is 0 exactly when the depth check throws.
\<close>

definition kMaxValueNestingDepth :: nat where
  "kMaxValueNestingDepth = 500"

definition depthError :: vm_error where
  "depthError = RuntimeError ''structural comparison nesting exceeds the maximum depth of 500''"

type_synonym seen_pairs = "(addr \<times> addr) list"

definition isDataBox :: "heap \<Rightarrow> addr \<Rightarrow> bool" where
  "isDataBox h a = (case ob_runtimeType (object_at h a) of None \<Rightarrow> False | Some t \<Rightarrow> rt_isDataType t)"

primrec compareFields ::
  "(addr option \<Rightarrow> addr option \<Rightarrow> seen_pairs \<Rightarrow> vm_error + bool \<times> seen_pairs) \<Rightarrow> object_box \<Rightarrow>
   (string \<times> zvalue) list \<Rightarrow> seen_pairs \<Rightarrow> vm_error + bool \<times> seen_pairs"
where
  "compareFields recEq b [] seen = Inr (True, seen)"
| "compareFields recEq b (nv # nvs) seen =
     (case objectFieldLookup b (fst nv) of
        None \<Rightarrow> Inr (False, seen)
      | Some bv \<Rightarrow>
          (case (case (snd nv, bv) of
                   (VObject r, VObject r') \<Rightarrow> recEq r r' seen
                 | _ \<Rightarrow> (case valuesEqualPlain (snd nv) bv of
                          Inl e \<Rightarrow> Inl e | Inr eq \<Rightarrow> Inr (eq, seen))) of
             Inl e \<Rightarrow> Inl e
           | Inr (eq, seen') \<Rightarrow>
               if eq then compareFields recEq b nvs seen' else Inr (False, seen')))"

definition recordValuesEqualWith ::
  "(addr option \<Rightarrow> addr option \<Rightarrow> seen_pairs \<Rightarrow> vm_error + bool \<times> seen_pairs) \<Rightarrow> bool \<Rightarrow> heap \<Rightarrow>
   addr option \<Rightarrow> addr option \<Rightarrow> seen_pairs \<Rightarrow> vm_error + bool \<times> seen_pairs"
where
  "recordValuesEqualWith recEq exhausted h a b seen =
     (if a = b then Inr (True, seen)
      else case (a, b) of
        (Some p, Some q) \<Rightarrow>
          let x = object_at h p; y = object_at h q
          in if \<not> isDataBox h p \<or> \<not> isDataBox h q \<or> ob_className x \<noteq> ob_className y
             then Inr (False, seen)
             else if exhausted then Inl depthError
             else if (p, q) \<in> set seen then Inr (True, seen)
             else if length (ob_fields x) + length (ob_extraFields x) \<noteq>
                     length (ob_fields y) + length (ob_extraFields y)
             then Inr (False, (p, q) # seen)
             else compareFields recEq y (objectFieldForEach x) ((p, q) # seen)
      | _ \<Rightarrow> Inr (False, seen))"

primrec recordValuesEqual ::
  "nat \<Rightarrow> heap \<Rightarrow> addr option \<Rightarrow> addr option \<Rightarrow> seen_pairs \<Rightarrow> vm_error + bool \<times> seen_pairs"
where
  "recordValuesEqual 0 h =
     recordValuesEqualWith (\<lambda>_ _ seen. Inl depthError) True h"
| "recordValuesEqual (Suc n) h =
     recordValuesEqualWith (recordValuesEqual n h) False h"

definition valuesEqual :: "heap \<Rightarrow> zvalue \<Rightarrow> zvalue \<Rightarrow> vm_error + bool" where
  "valuesEqual h a b =
     (case (a, b) of
        (VObject (Some p), VObject (Some q)) \<Rightarrow>
          if isDataBox h p \<and> isDataBox h q then
            (case recordValuesEqual (Suc kMaxValueNestingDepth) h (Some p) (Some q) [] of
               Inl e \<Rightarrow> Inl e | Inr (eq, _) \<Rightarrow> Inr eq)
          else Inr (p = q)
      | _ \<Rightarrow> valuesEqualPlain a b)"

text \<open>
  What the equality of primitive values means: two of them are equal exactly when they denote the
  same key. Numbers are compared as exact rationals, whatever their representation; a NaN denotes
  no key, as it equals nothing.
\<close>

definition rat_sign :: "rat \<Rightarrow> int" where
  "rat_sign r = (if r > 0 then 1 else if r < 0 then - 1 else 0)"

datatype key = KNil | KNum rat | KInf bool | KStr string | KBool bool

fun key_of :: "zvalue \<Rightarrow> key option" where
  "key_of VNil = Some KNil"
| "key_of (VInt i) = Some (KNum (of_int (sint i)))"
| "key_of (VDouble (Inf s)) = Some (KInf s)"
| "key_of (VDouble (Fin s q)) = (if 0 \<le> q then Some (KNum (f64_val (Fin s q))) else None)"
| "key_of (VString s) = Some (KStr s)"
| "key_of (VBool b) = Some (KBool b)"
| "key_of _ = None"

subsection \<open>Exact numeric comparison\<close>

declare of_int_floor_cancel [simp del] of_int_ceiling_cancel [simp del]

lemma floor_pos_cmp:
  fixes v :: rat
  assumes "0 < v"
  shows "(if j < \<lfloor>v\<rfloor> then - 1 else if \<lfloor>v\<rfloor> < j then 1 else if of_int \<lfloor>v\<rfloor> = v then 0 else - 1)
    = rat_sign (of_int j - v)"
proof -
  have a: "of_int \<lfloor>v\<rfloor> \<le> v" by simp
  have b: "v < of_int \<lfloor>v\<rfloor> + 1" by linarith
  consider "j < \<lfloor>v\<rfloor>" | "\<lfloor>v\<rfloor> < j" | "j = \<lfloor>v\<rfloor>" by linarith
  then show ?thesis
  proof cases
    case 1
    then have "(of_int j :: rat) < of_int \<lfloor>v\<rfloor>" by (simp only: of_int_less_iff)
    with a have "(of_int j :: rat) < v" by linarith
    then show ?thesis using 1 by (simp add: rat_sign_def)
  next
    case 2
    then have "of_int (\<lfloor>v\<rfloor> + 1) \<le> (of_int j :: rat)" by (simp only: of_int_le_iff)
    then show ?thesis using 2 b by (simp add: rat_sign_def)
  next
    case 3
    have "of_int \<lfloor>v\<rfloor> < v \<or> of_int \<lfloor>v\<rfloor> = v" by (simp add: le_less [symmetric])
    then show ?thesis using 3 by (auto simp: rat_sign_def)
  qed
qed

lemma ceil_neg_cmp:
  fixes v :: rat
  shows "(if j < \<lceil>v\<rceil> then - 1 else if \<lceil>v\<rceil> < j then 1 else if of_int \<lceil>v\<rceil> = v then 0 else 1)
    = rat_sign (of_int j - v)"
proof -
  have a: "v \<le> of_int \<lceil>v\<rceil>" by simp
  have b: "of_int \<lceil>v\<rceil> - 1 < v" by linarith
  consider "j < \<lceil>v\<rceil>" | "\<lceil>v\<rceil> < j" | "j = \<lceil>v\<rceil>" by linarith
  then show ?thesis
  proof cases
    case 1
    then have "of_int (j + 1) \<le> (of_int \<lceil>v\<rceil> :: rat)" by (simp only: of_int_le_iff)
    then show ?thesis using 1 b by (simp add: rat_sign_def)
  next
    case 2
    then have "(of_int \<lceil>v\<rceil> :: rat) < of_int j" by (simp only: of_int_less_iff)
    with a have "v < (of_int j :: rat)" by linarith
    then show ?thesis using 2 by (simp add: rat_sign_def)
  next
    case 3
    have "v < of_int \<lceil>v\<rceil> \<or> of_int \<lceil>v\<rceil> = v" using a by linarith
    then show ?thesis using 3 by (auto simp: rat_sign_def)
  qed
qed

lemma sint_rat_bounds:
  "- (2 ^ 63) \<le> (of_int (sint (i :: int64)) :: rat)" "(of_int (sint i) :: rat) < 2 ^ 63"
proof -
  have "(of_int (- (2 ^ 63)) :: rat) \<le> of_int (sint i)" "(of_int (sint i) :: rat) < of_int (2 ^ 63)"
    using sint_bounds [of i] by (simp_all only: of_int_le_iff of_int_less_iff INT64_MIN_def INT64_MAX_def)
  then show "- (2 ^ 63) \<le> (of_int (sint (i :: int64)) :: rat)" "(of_int (sint i) :: rat) < 2 ^ 63"
    by simp_all
qed

lemma compareIntAndDouble_exact:
  assumes "0 \<le> q"
  shows "compareIntAndDouble i (Fin s q) = rat_sign (of_int (sint i) - f64_val (Fin s q))"
proof (cases "q = 0")
  case True
  then show ?thesis
    using sint_eq_iff [of i 0] by (auto simp: compareIntAndDouble_def f64_zero_def rat_sign_def)
next
  case False
  with assms have q: "0 < q" by simp
  note i = sint_rat_bounds [of i]
  show ?thesis
  proof (cases s)
    case False
    show ?thesis
    proof (cases "2 ^ 63 \<le> q")
      case True
      then show ?thesis using False q i
        by (simp add: compareIntAndDouble_def f64_zero_def f64_le_def rat_sign_def)
    next
      case small: False
      have "0 \<le> \<lfloor>q\<rfloor>" using q by simp
      then show ?thesis using False q small
        by (simp add: compareIntAndDouble_def f64_zero_def f64_le_def f64_to_int_def Let_def
            flip: floor_pos_cmp [OF q])
    qed
  next
    case True
    show ?thesis
    proof (cases "2 ^ 63 < q")
      case big: True
      then show ?thesis using True q i
        by (simp add: compareIntAndDouble_def f64_zero_def rat_sign_def)
    next
      case small: False
      have c: "of_int \<lceil>- q\<rceil> \<le> (0::rat)" using q by simp
      have "f64_to_int (f64_ceil (Fin True q)) = \<lceil>- q\<rceil>"
        using c by (auto simp: f64_to_int_def Let_def)
      moreover have "rat_sign (of_int j + q) = (if j < \<lceil>- q\<rceil> then - 1
          else if \<lceil>- q\<rceil> < j then 1 else if of_int \<lceil>- q\<rceil> = - q then 0 else 1)" for j
        using ceil_neg_cmp [of j "- q"] by simp
      ultimately show ?thesis using True q small c
        by (simp add: compareIntAndDouble_def f64_zero_def Let_def)
    qed
  qed
qed

subsection \<open>Equality of primitive values\<close>

lemma rat_sign_zero [simp]: "rat_sign r = 0 \<longleftrightarrow> r = 0"
  by (auto simp: rat_sign_def)

lemma three_way_zero [simp]: "three_way i j = 0 \<longleftrightarrow> i = j"
  by (auto simp: three_way_def)

lemma compareIntAndDouble_Inf: "compareIntAndDouble i (Inf s) \<noteq> 0"
  by (simp add: compareIntAndDouble_def f64_zero_def f64_le_def)

lemma key_of_elim:
  assumes "key_of a = Some x"
  obtains (nil) "a = VNil" "x = KNil"
    | (int) i where "a = VInt i" "x = KNum (of_int (sint i))"
    | (inf) s where "a = VDouble (Inf s)" "x = KInf s"
    | (fin) s q where "a = VDouble (Fin s q)" "0 \<le> q" "x = KNum (f64_val (Fin s q))"
    | (str) s where "a = VString s" "x = KStr s"
    | (bool) b where "a = VBool b" "x = KBool b"
  using assms by (cases a rule: key_of.cases) (auto split: if_splits)

lemma numericEqual_fin:
  "0 \<le> q \<Longrightarrow> numericEqual (VInt i) (VDouble (Fin s q)) = Inr (of_int (sint i) = f64_val (Fin s q))"
  "0 \<le> q \<Longrightarrow> numericEqual (VDouble (Fin s q)) (VInt i) = Inr (f64_val (Fin s q) = of_int (sint i))"
  "numericEqual (VDouble (Fin s q)) (VDouble (Fin s' q')) = Inr (f64_val (Fin s q) = f64_val (Fin s' q'))"
  by (auto simp: compareIntAndDouble_exact simp del: f64_val.simps)

lemma numericEqual_other:
  "numericEqual (VInt i) (VInt j) = Inr (sint i = sint j)"
  "numericEqual (VInt i) (VDouble (Inf s)) = Inr False"
  "numericEqual (VDouble (Inf s)) (VInt i) = Inr False"
  "numericEqual (VDouble (Inf s)) (VDouble (Inf s')) = Inr (s = s')"
  "numericEqual (VDouble (Inf s)) (VDouble (Fin s' q')) = Inr False"
  "numericEqual (VDouble (Fin s' q')) (VDouble (Inf s)) = Inr False"
  by (auto simp: compareIntAndDouble_Inf)

lemma valuesEqualPlain_key:
  assumes "key_of a = Some x" and "key_of b = Some y"
  shows "valuesEqualPlain a b = Inr (x = y)"
  using assms
  by (elim key_of_elim)
    (simp_all add: numericEqual_fin numericEqual_other del: numericEqual.simps f64_val.simps)

lemma valuesEqual_key:
  assumes "key_of a = Some x" and "key_of b = Some y"
  shows "valuesEqual h a b = Inr (x = y)"
proof -
  have "valuesEqual h a b = valuesEqualPlain a b"
    using assms(1) by (cases a) (simp_all add: valuesEqual_def)
  then show ?thesis using valuesEqualPlain_key [OF assms] by simp
qed

subsection \<open>Object fields\<close>

definition layout_ok :: "runtime_type \<Rightarrow> bool" where
  "layout_ok t \<longleftrightarrow>
     length (rt_instanceFieldNames t) = rt_instanceFieldCount t \<and> distinct (rt_instanceFieldNames t) \<and>
     (\<forall>n i. rt_fieldIndex t n = Some i \<longleftrightarrow>
        i < rt_instanceFieldCount t \<and> rt_instanceFieldNames t ! i = n)"

lemma layout_ok_dom: "layout_ok t \<Longrightarrow> rt_fieldIndex t n \<noteq> None \<longleftrightarrow> n \<in> set (rt_instanceFieldNames t)"
  unfolding layout_ok_def in_set_conv_nth by (metis not_None_eq)

lemma addLayoutField_ok:
  assumes "layout_ok t"
  shows "layout_ok (addLayoutField f t)"
proof (cases "rf_isStatic f \<or> rt_fieldIndex t (rf_name f) \<noteq> None")
  case True
  then show ?thesis using assms by (auto simp: addLayoutField_def)
next
  case False
  then have new: "rf_name f \<notin> set (rt_instanceFieldNames t)" using layout_ok_dom [OF assms, of "rf_name f"] by auto
  then have "rt_instanceFieldNames t ! i \<noteq> rf_name f" if "i < rt_instanceFieldCount t" for i
    using that assms by (metis layout_ok_def nth_mem)
  then show ?thesis using False new assms
    by (auto simp: addLayoutField_def layout_ok_def nth_append less_Suc_eq)
qed

lemma fold_addLayoutField:
  "layout_ok t \<Longrightarrow> layout_ok (fold addLayoutField fs t) \<and>
     set (rt_instanceFieldNames (fold addLayoutField fs t)) =
       set (rt_instanceFieldNames t) \<union> {rf_name f | f. f \<in> set fs \<and> \<not> rf_isStatic f}"
proof (induction fs arbitrary: t)
  case (Cons f fs)
  have "set (rt_instanceFieldNames (addLayoutField f t)) =
      set (rt_instanceFieldNames t) \<union> (if rf_isStatic f then {} else {rf_name f})"
    using layout_ok_dom [OF Cons.prems, of "rf_name f"] by (auto simp: addLayoutField_def)
  then show ?case using Cons.IH [OF addLayoutField_ok [OF Cons.prems, of f]] by auto
qed simp

text \<open>The flat layout of a class numbers its instance fields without gaps or repetitions: every
  non-static field has a slot below the count, slots and names determine each other, and static
  fields have none of their own.\<close>

theorem buildRuntimeFieldIndex_layout:
  "layout_ok (buildRuntimeFieldIndex t) \<and>
   dom (rt_fieldIndex (buildRuntimeFieldIndex t)) =
     {rf_name f | f. f \<in> set (rt_fields t) \<and> \<not> rf_isStatic f}"
proof -
  let ?t0 = "t\<lparr>rt_instanceFieldCount := 0, rt_instanceFieldNames := [], rt_fieldIndex := Map.empty\<rparr>"
  have "layout_ok ?t0" by (simp add: layout_ok_def)
  from fold_addLayoutField [OF this, of "rt_fields t"]
  have ok: "layout_ok (buildRuntimeFieldIndex t)" and
    set: "set (rt_instanceFieldNames (buildRuntimeFieldIndex t)) =
      {rf_name f | f. f \<in> set (rt_fields t) \<and> \<not> rf_isStatic f}"
    by (simp_all add: buildRuntimeFieldIndex_def)
  then show ?thesis using layout_ok_dom [OF ok] by (auto simp: dom_def)
qed

lemma map_of_assocWrite: "map_of (assocWrite k v kvs) = (map_of kvs)(k \<mapsto> v)"
  by (induction k v kvs rule: assocWrite.induct) (auto simp: fun_eq_iff)

lemma growTo_nth:
  "i < length (growTo n xs) \<Longrightarrow> growTo n xs ! i = (if i < length xs then xs ! i else VNil)"
  by (auto simp: growTo_def nth_append)

lemma length_growTo: "length (growTo n xs) = max n (length xs)"
  by (auto simp: growTo_def)

text \<open>A written field reads back its value, and every other field that could be read before the
  write reads as before, whether it lives in a slot or in the overflow list.\<close>

theorem objectField_read_after_write:
  assumes "case ob_runtimeType b of None \<Rightarrow> True | Some t \<Rightarrow> layout_ok t"
  shows "objectFieldLookup (objectFieldWrite b n v) n = Some v \<and>
    (n' \<noteq> n \<longrightarrow> objectFieldLookup b n' \<noteq> None \<longrightarrow>
       objectFieldLookup (objectFieldWrite b n v) n' = objectFieldLookup b n')"
proof -
  have slot: "objectFieldSlot (objectFieldWrite b n v) = objectFieldSlot b"
    by (auto simp: objectFieldSlot_def objectFieldWrite_def fun_eq_iff split: option.splits)
  have inj: "objectFieldSlot b n = Some i \<Longrightarrow> objectFieldSlot b n' = Some i \<Longrightarrow> n' = n" for i
    using assms by (auto simp: objectFieldSlot_def layout_ok_def split: option.splits)
  show ?thesis
  proof (cases "objectFieldSlot b n")
    case None
    then show ?thesis
      by (auto simp: objectFieldLookup_def slot) 
        (auto simp: objectFieldWrite_def map_of_assocWrite split: option.splits)
  next
    case (Some i)
    then have w: "ob_fields (objectFieldWrite b n v) = (growTo (Suc i) (ob_fields b))[i := v]"
      "ob_extraFields (objectFieldWrite b n v) = ob_extraFields b"
      by (simp_all add: objectFieldWrite_def)
    have "objectFieldLookup (objectFieldWrite b n v) n = Some v"
      using Some by (simp add: objectFieldLookup_def slot w length_growTo)
    moreover have "objectFieldLookup (objectFieldWrite b n v) n' = objectFieldLookup b n'"
      if "n' \<noteq> n" "objectFieldLookup b n' \<noteq> None"
    proof (cases "objectFieldSlot b n'")
      case None
      then show ?thesis by (simp add: objectFieldLookup_def slot w)
    next
      case j: (Some j)
      then have "j < length (ob_fields b)" "j \<noteq> i"
        using that Some inj by (auto simp: objectFieldLookup_def split: if_splits)
      then show ?thesis using j
        by (simp add: objectFieldLookup_def slot w length_growTo growTo_nth nth_list_update_neq)
    qed
    ultimately show ?thesis by blast
  qed
qed

theorem objectField_read_after_write_witness:
  "objectFieldLookup (objectFieldWrite empty_object_box ''x'' (VInt 3)) ''x'' = Some (VInt 3)"
  using objectField_read_after_write [of empty_object_box "''x''" "VInt 3"]
  by (simp add: empty_object_box_def)

text \<open>Equality of primitive values is equality of what they denote: numbers compare as exact
  rationals across integer and double, and values of different kinds differ.\<close>

theorem valuesEqual_denotation:
  assumes "key_of a = Some x" and "key_of b = Some y"
  shows "valuesEqual h a b = Inr (x = y)"
  by (rule valuesEqual_key [OF assms])

theorem valuesEqual_denotation_witness:
  "valuesEqual Map.empty (VInt 2) (VDouble (Fin False 2)) = Inr True"
  using valuesEqual_denotation [of "VInt 2" "KNum 2" "VDouble (Fin False 2)" "KNum 2" Map.empty] by simp

end
