(* ===== verification/Vm_Map.thy ===== *)
theory Vm_Map
  imports Vm_Value
begin

text \<open>
  The runtime map (\<open>MapBox\<close> in \<^verbatim>\<open>include/zl/vm/value.hpp\<close> and \<^verbatim>\<open>src/vm/value.cpp\<close>): an
  insertion-ordered association list with a lazily built index of its string keys. The indexed
  lookup is shown to be the linear scan, and the operations to implement a finite map on the keys
  that primitive values denote. \<open>fallible_map\<close> is the contract clients of a map rely on; the map
  box is its interpretation.
\<close>

text \<open>
  The map box: an association list in insertion order with a cached index of its string keys.
  Every lookup may rebuild the cache, so it returns the box too. \<open>None\<close> is \<open>kNoEntry\<close>.
\<close>

primrec scanEntries ::
  "heap \<Rightarrow> zvalue \<Rightarrow> nat \<Rightarrow> (zvalue \<times> zvalue) list \<Rightarrow> vm_error + nat option"
where
  "scanEntries h key i [] = Inr None"
| "scanEntries h key i (kv # kvs) =
     (case valuesEqual h (fst kv) key of
        Inl e \<Rightarrow> Inl e
      | Inr eq \<Rightarrow> if eq then Inr (Some i) else scanEntries h key (Suc i) kvs)"

primrec indexStringKeys ::
  "nat \<Rightarrow> (zvalue \<times> zvalue) list \<Rightarrow> (string \<rightharpoonup> nat) \<Rightarrow> (string \<rightharpoonup> nat)"
where
  "indexStringKeys i [] ix = ix"
| "indexStringKeys i (kv # kvs) ix =
     indexStringKeys (Suc i) kvs
       (case fst kv of
          VString s \<Rightarrow> (case ix s of None \<Rightarrow> ix(s \<mapsto> i) | Some _ \<Rightarrow> ix)
        | _ \<Rightarrow> ix)"

definition rebuildKeyIndex :: "map_box \<Rightarrow> map_box" where
  "rebuildKeyIndex b =
     (if mb_stringKeyIndexValid b then b
      else b\<lparr>mb_stringKeyIndex := indexStringKeys 0 (mb_entries b) Map.empty,
             mb_stringKeyIndexValid := True\<rparr>)"

definition findEntryLocked :: "heap \<Rightarrow> map_box \<Rightarrow> zvalue \<Rightarrow> vm_error + (nat option \<times> map_box)" where
  "findEntryLocked h b key =
     (case key of
        VString needle \<Rightarrow>
          if 8 \<le> length (mb_entries b) then
            let b' = rebuildKeyIndex b
            in case mb_stringKeyIndex b' needle of
                 None \<Rightarrow> Inr (None, b')
               | Some i \<Rightarrow>
                   if i < length (mb_entries b') then
                     (case valuesEqual h (fst (mb_entries b' ! i)) key of
                        Inl e \<Rightarrow> Inl e
                      | Inr eq \<Rightarrow> Inr (if eq then Some i else None, b'))
                   else Inr (None, b')
          else (case scanEntries h key 0 (mb_entries b) of
                  Inl e \<Rightarrow> Inl e | Inr r \<Rightarrow> Inr (r, b))
      | _ \<Rightarrow> (case scanEntries h key 0 (mb_entries b) of
               Inl e \<Rightarrow> Inl e | Inr r \<Rightarrow> Inr (r, b)))"

definition findEntry :: "heap \<Rightarrow> map_box \<Rightarrow> zvalue \<Rightarrow> vm_error + (nat option \<times> map_box)" where
  "findEntry h b key = findEntryLocked h b key"

definition tryGetEntry :: "heap \<Rightarrow> map_box \<Rightarrow> zvalue \<Rightarrow> vm_error + (zvalue option \<times> map_box)" where
  "tryGetEntry h b key =
     (case findEntryLocked h b key of
        Inl e \<Rightarrow> Inl e
      | Inr (None, b') \<Rightarrow> Inr (None, b')
      | Inr (Some pos, b') \<Rightarrow> Inr (Some (snd (mb_entries b' ! pos)), b'))"

definition noteAppendedKeyLocked :: "zvalue \<Rightarrow> map_box \<Rightarrow> map_box" where
  "noteAppendedKeyLocked key b =
     (case key of
        VString s \<Rightarrow>
          if \<not> mb_stringKeyIndexValid b then b
          else (case mb_stringKeyIndex b s of
                  Some _ \<Rightarrow> b
                | None \<Rightarrow>
                    b\<lparr>mb_stringKeyIndex :=
                        (mb_stringKeyIndex b)(s \<mapsto> length (mb_entries b) - 1)\<rparr>)
      | _ \<Rightarrow> b)"

definition setEntry :: "heap \<Rightarrow> map_box \<Rightarrow> zvalue \<Rightarrow> zvalue \<Rightarrow> vm_error + map_box" where
  "setEntry h b key v =
     (case findEntryLocked h b key of
        Inl e \<Rightarrow> Inl e
      | Inr (Some pos, b') \<Rightarrow>
          Inr (b'\<lparr>mb_entries := (mb_entries b')[pos := (fst (mb_entries b' ! pos), v)]\<rparr>)
      | Inr (None, b') \<Rightarrow>
          Inr (noteAppendedKeyLocked key (b'\<lparr>mb_entries := mb_entries b' @ [(key, v)]\<rparr>)))"

definition invalidateKeyIndexLocked :: "map_box \<Rightarrow> map_box" where
  "invalidateKeyIndexLocked b =
     b\<lparr>mb_stringKeyIndexValid := False, mb_stringKeyIndex := Map.empty\<rparr>"

definition removeEntry :: "heap \<Rightarrow> map_box \<Rightarrow> zvalue \<Rightarrow> vm_error + (bool \<times> map_box)" where
  "removeEntry h b key =
     (case findEntryLocked h b key of
        Inl e \<Rightarrow> Inl e
      | Inr (None, b') \<Rightarrow> Inr (False, b')
      | Inr (Some pos, b') \<Rightarrow>
          Inr (True, invalidateKeyIndexLocked
                 (b'\<lparr>mb_entries := take pos (mb_entries b') @ drop (Suc pos) (mb_entries b')\<rparr>)))"

definition snapshotEntries :: "map_box \<Rightarrow> (zvalue \<times> zvalue) list" where
  "snapshotEntries b = mb_entries b"

text \<open>The invariant of the box and the finite map it stands for.\<close>

primrec posOf :: "key \<Rightarrow> (zvalue \<times> zvalue) list \<Rightarrow> nat option" where
  "posOf k [] = None"
| "posOf k (e # es) =
     (if key_of (fst e) = Some k then Some 0 else map_option Suc (posOf k es))"

definition key_index_ok :: "map_box \<Rightarrow> bool" where
  "key_index_ok b \<longleftrightarrow>
     (mb_stringKeyIndexValid b \<longrightarrow>
        mb_stringKeyIndex b = indexStringKeys 0 (mb_entries b) Map.empty)"

definition map_ok :: "map_box \<Rightarrow> bool" where
  "map_ok b \<longleftrightarrow>
     key_index_ok b \<and> (\<forall>kv \<in> set (mb_entries b). key_of (fst kv) \<noteq> None) \<and>
     distinct (map (key_of \<circ> fst) (mb_entries b))"

definition map_content :: "map_box \<Rightarrow> (key \<rightharpoonup> zvalue)" where
  "map_content b k = map_option (\<lambda>i. snd (mb_entries b ! i)) (posOf k (mb_entries b))"

text \<open>The contract of a map whose operations may raise, on the keys that \<open>norm\<close> accepts.\<close>

locale fallible_map =
  fixes find :: "'m \<Rightarrow> 'k \<Rightarrow> 'e + ('v option \<times> 'm)"
    and put :: "'m \<Rightarrow> 'k \<Rightarrow> 'v \<Rightarrow> 'e + 'm"
    and del :: "'m \<Rightarrow> 'k \<Rightarrow> 'e + (bool \<times> 'm)"
    and content :: "'m \<Rightarrow> 'n \<Rightarrow> 'v option"
    and norm :: "'k \<Rightarrow> 'n option"
    and invar :: "'m \<Rightarrow> bool"
  assumes find_spec: "invar m \<Longrightarrow> norm k = Some n \<Longrightarrow>
      \<exists>m'. find m k = Inr (content m n, m') \<and> invar m' \<and> content m' = content m"
    and put_spec: "invar m \<Longrightarrow> norm k = Some n \<Longrightarrow>
      \<exists>m'. put m k v = Inr m' \<and> invar m' \<and> content m' = (content m)(n := Some v)"
    and del_spec: "invar m \<Longrightarrow> norm k = Some n \<Longrightarrow>
      \<exists>m'. del m k = Inr (content m n \<noteq> None, m') \<and> invar m' \<and> content m' = (content m)(n := None)"
begin

lemma find_put:
  assumes "invar m" and "norm k = Some n" and "norm k' = Some n'" and "put m k v = Inr m1"
  shows "\<exists>m2. find m1 k' = Inr (if n' = n then Some v else content m n', m2)"
  using put_spec [OF assms(1,2), of v] find_spec [of m1, OF _ assms(3)] assms(4) by auto

lemma find_del:
  assumes "invar m" and "norm k = Some n" and "norm k' = Some n'" and "del m k = Inr (r, m1)"
  shows "\<exists>m2. find m1 k' = Inr (if n' = n then None else content m n', m2)"
  using del_spec [OF assms(1,2)] find_spec [of m1, OF _ assms(3)] assms(4) by auto

lemma put_put:
  assumes "invar m" and "norm k = Some n" and "norm k' = Some n" and "put m k v = Inr m1"
  shows "\<exists>m2. put m1 k' w = Inr m2 \<and> content m2 = (content m)(n := Some w)"
  using put_spec [OF assms(1,2), of v] put_spec [of m1, OF _ assms(3), of w] assms(4) by auto

end

lemma plus_fun_simps [simp]: "(+) (Suc i) = (\<lambda>x. Suc (i + x))" "(+) (0::nat) = (\<lambda>x. x)"
  by auto

lemma map_option_id [simp]: "map_option (\<lambda>x. x) r = r"
  by (cases r) auto

lemma posOf_Some:
  "posOf k es = Some i \<Longrightarrow> i < length es \<and> key_of (fst (es ! i)) = Some k"
  by (induction es arbitrary: i) (auto split: if_splits)

lemma posOf_None: "posOf k es = None \<longleftrightarrow> (\<forall>e \<in> set es. key_of (fst e) \<noteq> Some k)"
  by (induction es) auto

lemma posOf_keys: "map (key_of \<circ> fst) es = map (key_of \<circ> fst) es' \<Longrightarrow> posOf k es = posOf k es'"
proof (induction es arbitrary: es')
  case (Cons e es)
  then show ?case by (cases es') auto
qed simp

lemma posOf_append:
  "posOf k (es @ es') =
     (case posOf k es of Some i \<Rightarrow> Some i | None \<Rightarrow> map_option ((+) (length es)) (posOf k es'))"
  by (induction es) (auto split: option.splits simp: option.map_comp o_def)

lemma key_of_Some_KStr: "key_of v = Some (KStr s) \<longleftrightarrow> v = VString s"
  by (cases v rule: key_of.cases) auto

lemma scanEntries_posOf:
  assumes "key_of key = Some k" and "\<forall>kv \<in> set es. key_of (fst kv) \<noteq> None"
  shows "scanEntries h key i es = Inr (map_option ((+) i) (posOf k es))"
  using assms(2)
proof (induction es arbitrary: i)
  case (Cons e es)
  then obtain x where x: "key_of (fst e) = Some x" by auto
  then show ?case using Cons valuesEqual_key [OF x assms(1)]
    by (auto simp: option.map_comp o_def)
qed simp

lemma valuesEqual_string:
  "valuesEqual h v (VString s) = Inr (v = VString s)"
  by (cases v) (auto simp: valuesEqual_def split: option.splits)

lemma scanEntries_string:
  "scanEntries h (VString s) i es = Inr (map_option ((+) i) (posOf (KStr s) es))"
  by (induction es arbitrary: i)
    (auto simp: valuesEqual_string key_of_Some_KStr option.map_comp o_def)

lemma indexStringKeys_posOf:
  "indexStringKeys i es ix s =
     (case ix s of Some j \<Rightarrow> Some j | None \<Rightarrow> map_option ((+) i) (posOf (KStr s) es))"
proof (induction es arbitrary: i ix)
  case (Cons e es)
  then show ?case
    by (auto simp: key_of_Some_KStr option.map_comp o_def split: option.splits zvalue.splits)
qed (simp split: option.splits)

lemma index_posOf: "indexStringKeys 0 es Map.empty s = posOf (KStr s) es"
  by (simp add: indexStringKeys_posOf)

lemma rebuildKeyIndex_ok:
  assumes "key_index_ok b"
  shows "mb_stringKeyIndex (rebuildKeyIndex b) s = posOf (KStr s) (mb_entries b)"
    and "mb_entries (rebuildKeyIndex b) = mb_entries b"
    and "key_index_ok (rebuildKeyIndex b)"
  using assms by (auto simp: rebuildKeyIndex_def key_index_ok_def index_posOf)


lemma findEntryLocked_scan:
  assumes "key_index_ok b"
  shows "map_sum id fst (findEntryLocked h b key) = scanEntries h key 0 (mb_entries b)"
proof (cases "\<exists>s. key = VString s \<and> 8 \<le> length (mb_entries b)")
  case True
  then obtain s where s: "key = VString s" "8 \<le> length (mb_entries b)" by blast
  show ?thesis
  proof (cases "posOf (KStr s) (mb_entries b)")
    case None
    then show ?thesis using s assms
      by (simp add: findEntryLocked_def rebuildKeyIndex_ok scanEntries_string)
  next
    case (Some i)
    then have "i < length (mb_entries b)" "fst (mb_entries b ! i) = VString s"
      using posOf_Some key_of_Some_KStr by blast+
    then show ?thesis using s assms Some
      by (simp add: findEntryLocked_def rebuildKeyIndex_ok scanEntries_string valuesEqual_string Let_def)
  qed
next
  case False
  then show ?thesis
    by (auto simp: findEntryLocked_def split: zvalue.splits sum.splits)
qed

lemma findEntryLocked_box:
  assumes "findEntryLocked h b key = Inr (r, b')" and "key_index_ok b"
  shows "mb_entries b' = mb_entries b \<and> key_index_ok b'"
  using assms rebuildKeyIndex_ok [OF assms(2)]
  by (auto simp: findEntryLocked_def Let_def split: zvalue.splits sum.splits option.splits if_splits)

lemma map_ok_D:
  assumes "map_ok b"
  shows "key_index_ok b" "\<forall>kv \<in> set (mb_entries b). key_of (fst kv) \<noteq> None"
    "distinct (map (key_of \<circ> fst) (mb_entries b))"
  using assms by (simp_all add: map_ok_def)

lemma findEntryLocked_posOf:
  assumes "map_ok b" and "key_of key = Some k"
  obtains b' where "findEntryLocked h b key = Inr (posOf k (mb_entries b), b')"
    and "mb_entries b' = mb_entries b" and "map_ok b'"
proof -
  have "map_sum id fst (findEntryLocked h b key) = Inr (posOf k (mb_entries b))"
    using findEntryLocked_scan [OF map_ok_D(1) [OF assms(1)], of h key]
      scanEntries_posOf [OF assms(2) map_ok_D(2) [OF assms(1)], of h 0] by simp
  then obtain b' where b': "findEntryLocked h b key = Inr (posOf k (mb_entries b), b')"
    by (cases "findEntryLocked h b key") auto
  have "mb_entries b' = mb_entries b" "key_index_ok b'"
    using findEntryLocked_box [OF b' map_ok_D(1) [OF assms(1)]] by simp_all
  then show thesis using that [OF b'] assms(1) by (simp add: map_ok_def)
qed

lemma posOf_update_value:
  assumes "i < length es"
  shows "posOf k (es[i := (fst (es ! i), v)]) = posOf k es"
proof (rule posOf_keys)
  show "map (key_of \<circ> fst) (es[i := (fst (es ! i), v)]) = map (key_of \<circ> fst) es"
    using assms by (simp add: map_update list_update_same_conv)
qed

lemma posOf_inj:
  assumes "posOf k es = Some i" and "posOf k' es = Some i"
  shows "k = k'"
  using posOf_Some [OF assms(1)] posOf_Some [OF assms(2)] by simp

lemma setEntry_spec:
  assumes ok: "map_ok b" and k: "key_of key = Some k"
  shows "\<exists>b'. setEntry h b key v = Inr b' \<and> map_ok b' \<and>
    map_content b' = (map_content b)(k := Some v)"
proof -
  obtain b1 where f: "findEntryLocked h b key = Inr (posOf k (mb_entries b), b1)"
    and e: "mb_entries b1 = mb_entries b" and ok1: "map_ok b1"
    using findEntryLocked_posOf [OF ok k] by blast
  show ?thesis
  proof (cases "posOf k (mb_entries b)")
    case None
    let ?es = "mb_entries b @ [(key, v)]"
    let ?b2 = "b1\<lparr>mb_entries := ?es\<rparr>"
    let ?b' = "noteAppendedKeyLocked key ?b2"
    have ent: "mb_entries ?b' = ?es"
      by (auto simp: noteAppendedKeyLocked_def split: zvalue.splits option.splits)
    have idx: "key_index_ok ?b'"
    proof (cases "mb_stringKeyIndexValid b1")
      case True
      then have ix: "mb_stringKeyIndex b1 s = posOf (KStr s) (mb_entries b)" for s
        using map_ok_D(1) [OF ok1] e by (simp add: key_index_ok_def index_posOf)
      have "mb_stringKeyIndex ?b' s = posOf (KStr s) ?es" for s
        using ix None k
        by (auto simp: noteAppendedKeyLocked_def True posOf_append key_of_Some_KStr
            split: zvalue.splits option.splits)
      then show ?thesis by (simp add: key_index_ok_def ent index_posOf fun_eq_iff)
    next
      case False
      then show ?thesis
        by (auto simp: key_index_ok_def noteAppendedKeyLocked_def split: zvalue.splits)
    qed
    have "map_ok ?b'"
      using idx ent map_ok_D(2,3) [OF ok] None k by (auto simp: map_ok_def posOf_None)
    moreover have "map_content ?b' = (map_content b)(k := Some v)"
      using None k by (auto simp: map_content_def ent posOf_append fun_eq_iff nth_append
          dest: posOf_Some split: option.splits)
    ultimately show ?thesis using f None e by (simp add: setEntry_def)
  next
    case (Some i)
    let ?es = "(mb_entries b)[i := (fst (mb_entries b ! i), v)]"
    let ?b' = "b1\<lparr>mb_entries := ?es\<rparr>"
    have i: "i < length (mb_entries b)" using posOf_Some [OF Some] by simp
    have pos: "posOf k' ?es = posOf k' (mb_entries b)" for k'
      using i by (rule posOf_update_value)
    have keys: "map (key_of \<circ> fst) ?es = map (key_of \<circ> fst) (mb_entries b)"
      using i by (simp add: map_update list_update_same_conv)
    have "key_index_ok ?b'"
      using map_ok_D(1) [OF ok1] e by (simp add: key_index_ok_def index_posOf fun_eq_iff pos)
    moreover have "\<forall>kv \<in> set ?es. key_of (fst kv) \<noteq> None"
      using map_ok_D(2) [OF ok] i by (auto dest!: set_update_subset_insert [THEN subsetD])
    ultimately have "map_ok ?b'"
      using map_ok_D(3) [OF ok] by (simp add: map_ok_def keys)
    moreover have "map_content ?b' = (map_content b)(k := Some v)"
      using Some i by (auto simp: map_content_def pos fun_eq_iff nth_list_update
          dest: posOf_inj intro!: option.map_cong)
    ultimately show ?thesis using f Some e by (simp add: setEntry_def)
  qed
qed


lemma removeEntry_spec:
  assumes ok: "map_ok b" and k: "key_of key = Some k"
  shows "\<exists>b'. removeEntry h b key = Inr (map_content b k \<noteq> None, b') \<and> map_ok b' \<and>
    map_content b' = (map_content b)(k := None)"
proof -
  obtain b1 where f: "findEntryLocked h b key = Inr (posOf k (mb_entries b), b1)"
    and e: "mb_entries b1 = mb_entries b" and ok1: "map_ok b1"
    using findEntryLocked_posOf [OF ok k] by blast
  show ?thesis
  proof (cases "posOf k (mb_entries b)")
    case None
    then have "map_content b1 = (map_content b)(k := None)"
      by (auto simp: map_content_def e fun_eq_iff)
    then show ?thesis using f None ok1 by (simp add: removeEntry_def map_content_def)
  next
    case (Some i)
    define pre where "pre = take i (mb_entries b)"
    define post where "post = drop (Suc i) (mb_entries b)"
    define x where "x = mb_entries b ! i"
    have i: "i < length (mb_entries b)" and xk: "key_of (fst x) = Some k"
      using posOf_Some [OF Some] by (simp_all add: x_def)
    have split: "mb_entries b = pre @ x # post"
      using i by (simp add: pre_def post_def x_def id_take_nth_drop)
    have len: "length pre = i" using i by (simp add: pre_def)
    let ?b' = "invalidateKeyIndexLocked (b1\<lparr>mb_entries := pre @ post\<rparr>)"
    have ent: "mb_entries ?b' = pre @ post" by (simp add: invalidateKeyIndexLocked_def)
    have dist: "distinct (map (key_of \<circ> fst) (pre @ x # post))"
      using map_ok_D(3) [OF ok] by (simp add: split)
    have "map_ok ?b'"
      using map_ok_D(2) [OF ok] dist
      by (auto simp: map_ok_def key_index_ok_def invalidateKeyIndexLocked_def split)
    moreover have "map_content ?b' k' = ((map_content b)(k := None)) k'" for k'
    proof (cases "k' = k")
      case True
      have "posOf k (pre @ post) = None"
        using dist xk by (auto simp: posOf_None image_iff)
      then show ?thesis using True by (simp add: map_content_def ent)
    next
      case False
      then have "posOf k' (x # post) = map_option Suc (posOf k' post)" using xk by simp
      then show ?thesis using False
        by (auto simp: map_content_def ent split posOf_append nth_append option.map_comp o_def
            dest: posOf_Some split: option.splits)
    qed
    ultimately show ?thesis using f Some e
      by (auto simp: removeEntry_def map_content_def pre_def post_def)
  qed
qed

lemma tryGetEntry_spec:
  assumes ok: "map_ok b" and k: "key_of key = Some k"
  shows "\<exists>b'. tryGetEntry h b key = Inr (map_content b k, b') \<and> map_ok b' \<and>
    map_content b' = map_content b"
proof -
  obtain b1 where "findEntryLocked h b key = Inr (posOf k (mb_entries b), b1)"
    and "mb_entries b1 = mb_entries b" and "map_ok b1"
    using findEntryLocked_posOf [OF ok k] by blast
  then show ?thesis
    by (auto simp: tryGetEntry_def map_content_def fun_eq_iff split: option.splits)
qed

interpretation mapbox: fallible_map "tryGetEntry h" "setEntry h" "removeEntry h" map_content key_of map_ok
  for h
  by unfold_locales (rule tryGetEntry_spec setEntry_spec removeEntry_spec; assumption)+

text \<open>C30: the string-key index of a map is transparent: a lookup, indexed or not, and whether or not it
  has to rebuild the index, finds what the linear scan over the entries finds, errors included.\<close>

theorem map_lookup_is_scan:
  assumes "key_index_ok b"
  shows "map_sum id fst (findEntryLocked h b key) = scanEntries h key 0 (mb_entries b)"
  by (rule findEntryLocked_scan [OF assms])

theorem map_lookup_is_scan_witness:
  "key_index_ok empty_map_box \<and>
   map_sum id fst (findEntryLocked Map.empty empty_map_box (VString ''k'')) = Inr None"
  using map_lookup_is_scan [of empty_map_box Map.empty "VString ''k''"]
  by (simp add: key_index_ok_def empty_map_box_def)

text \<open>C40: on keys that are primitive values, a map box implements a finite map: setting an entry succeeds,
  keeps the invariant, and a later lookup of any key returns the new value for an equal key (numbers
  being equal across representations) and the old value otherwise.\<close>

theorem map_get_after_set:
  assumes "map_ok b" and "key_of k = Some n" and "key_of k' = Some n'"
  shows "\<exists>b1 b2. setEntry h b k v = Inr b1 \<and> map_ok b1 \<and>
    tryGetEntry h b1 k' = Inr (if n' = n then Some v else map_content b n', b2)"
  using mapbox.put_spec [OF assms(1,2), of h v] mapbox.find_put [OF assms, of h v] by blast

theorem map_get_after_set_witness:
  "\<exists>b1 b2. setEntry Map.empty empty_map_box (VInt 1) (VBool True) = Inr b1 \<and>
     tryGetEntry Map.empty b1 (VDouble (Fin False 1)) = Inr (Some (VBool True), b2)"
proof -
  have "map_ok empty_map_box" by (simp add: map_ok_def key_index_ok_def empty_map_box_def)
  from map_get_after_set [OF this, of "VInt 1" "KNum 1" "VDouble (Fin False 1)" "KNum 1" Map.empty "VBool True"]
  show ?thesis by auto
qed

text \<open>Removing an entry reports whether the key was there, keeps the invariant, and a later lookup
  finds nothing under an equal key and the old value under any other.\<close>

theorem map_get_after_remove:
  assumes "map_ok b" and "key_of k = Some n" and "key_of k' = Some n'"
  shows "\<exists>b1 b2. removeEntry h b k = Inr (map_content b n \<noteq> None, b1) \<and> map_ok b1 \<and>
    tryGetEntry h b1 k' = Inr (if n' = n then None else map_content b n', b2)"
  using mapbox.del_spec [OF assms(1,2), of h] mapbox.find_del [OF assms, of h] by blast

theorem map_get_after_remove_witness:
  "\<exists>b1 b2. removeEntry Map.empty empty_map_box (VInt 1) = Inr (False, b1) \<and>
     tryGetEntry Map.empty b1 (VInt 1) = Inr (None, b2)"
proof -
  have ok: "map_ok empty_map_box" by (simp add: map_ok_def key_index_ok_def empty_map_box_def)
  from map_get_after_remove [OF this, of "VInt 1" "KNum 1" "VInt 1" "KNum 1" Map.empty]
  show ?thesis by (auto simp: map_content_def empty_map_box_def)
qed

end
