(* ===== verification/Vm_Print.thy ===== *)
theory Vm_Print
  imports Vm_Map
begin

text \<open>
  The text of a value (\<open>valueToString\<close> and \<open>doubleToShortestString\<close> of \<^verbatim>\<open>src/vm/value.cpp\<close>). The
  shortest decimal digits of a double come from the C++ library (\<open>std::to_chars\<close>, or \<open>snprintf\<close>
  checked with \<open>strtod\<close>), so the function \<open>shortestDigits\<close> is a parameter: the digits and the
  decimal exponent of a magnitude, \<open>None\<close> where the library gives no spelling.
\<close>

type_synonym digit_source = "f64 \<Rightarrow> (string \<times> int) option"

definition hex_digit :: "nat \<Rightarrow> char" where
  "hex_digit n = (if n < 10 then char_of (48 + n) else char_of (87 + n))"

definition escapeChar :: "char \<Rightarrow> string" where
  "escapeChar c =
     (if code c = 92 then [char_of (92::nat), char_of (92::nat)]
      else if code c = 34 then [char_of (92::nat), char_of (34::nat)]
      else if code c = 10 then [char_of (92::nat), CHR ''n'']
      else if code c = 13 then [char_of (92::nat), CHR ''r'']
      else if code c = 9 then [char_of (92::nat), CHR ''t'']
      else if code c < 32 then
        [char_of (92::nat), CHR ''u'', CHR ''0'', CHR ''0'', hex_digit (code c div 16), hex_digit (code c mod 16)]
      else [c])"

definition escapeRecordString :: "string \<Rightarrow> string" where
  "escapeRecordString s = concat (map escapeChar s)"

text \<open>\<open>digits.erase (find_last_not_of ('0') + 1)\<close>; all zeros keeps one of them.\<close>

definition stripTrailingZeros :: "string \<Rightarrow> string" where
  "stripTrailingZeros ds =
     (let kept = rev (dropWhile (\<lambda>c. c = CHR ''0'') (rev ds))
      in if kept = [] then take 1 ds else kept)"

definition fixedDigits :: "string \<Rightarrow> int \<Rightarrow> string" where
  "fixedDigits ds point =
     (if point \<le> 0 then ''0.'' @ replicate (nat (- point)) CHR ''0'' @ ds
      else if length ds \<le> nat point then ds @ replicate (nat point - length ds) CHR ''0''
      else take (nat point) ds @ ''.'' @ drop (nat point) ds)"

definition scientificDigits :: "string \<Rightarrow> int \<Rightarrow> string" where
  "scientificDigits ds point =
     (if 1 < length ds then take 1 ds @ ''.'' @ drop 1 ds else ds) @
     ''e'' @ (if point - 1 < 0 then ''-'' else ''+'') @
     (if nat \<bar>point - 1\<bar> < 10 then ''0'' else []) @ nat_to_string (nat \<bar>point - 1\<bar>)"

text \<open>
  The branch for a failing digit source prints 17 digits through a stream; the source marks it
  unreachable, and the model returns no digits there.
\<close>

definition doubleToShortestString :: "digit_source \<Rightarrow> f64 \<Rightarrow> string" where
  "doubleToShortestString shortestDigits v =
     (if f64_eq v f64_zero then (if f64_signbit v then ''-0'' else ''0'')
      else
        case shortestDigits v of
          None \<Rightarrow> []
        | Some (digits, exponent) \<Rightarrow>
            let ds = stripTrailingZeros digits;
                point = exponent + 1;
                out = if - 4 < point \<and> point \<le> 17 then fixedDigits ds point
                      else scientificDigits ds point
            in if f64_lt v f64_zero then ''-'' @ out else out)"

definition int64_to_string :: "int64 \<Rightarrow> string" where
  "int64_to_string i =
     (if sint i < 0 then ''-'' @ nat_to_string (nat (- sint i)) else nat_to_string (nat (sint i)))"

definition formatDouble :: "digit_source \<Rightarrow> f64 \<Rightarrow> string" where
  "formatDouble shortestDigits d =
     (if \<not> f64_isfinite d then
        (if f64_isnan d then ''nan'' else if f64_lt d f64_zero then ''-inf'' else ''inf'')
      else doubleToShortestString shortestDigits d)"

text \<open>
  The formatter. \<open>active\<close> is the path of containers from the root; the nesting budget is
  \<open>kMaxValueNestingDepth - depth\<close>, so a container found with no budget left is the one whose depth
  check fails. \<open>fmt\<close> is the recursive call on an element, with one level less.
\<close>

definition quoteString :: "string \<Rightarrow> string" where
  "quoteString s = char_of (34::nat) # s @ [char_of (34::nat)]"

definition formatMembers ::
  "(zvalue \<Rightarrow> string) \<Rightarrow> object_box \<Rightarrow> runtime_type \<Rightarrow> string list"
where
  "formatMembers fmt b layout =
     concat (map (\<lambda>f.
       if rf_isStatic f then []
       else case objectFieldLookup b (rf_name f) of
         None \<Rightarrow> []
       | Some v \<Rightarrow>
           [rf_name f @ '': '' @
            (case v of VString s \<Rightarrow> quoteString (escapeRecordString s) | _ \<Rightarrow> fmt v)])
       (rt_fields layout))"

definition formatObject :: "(zvalue \<Rightarrow> string) \<Rightarrow> object_box \<Rightarrow> string" where
  "formatObject fmt b =
     (case (if ob_className b \<in> {''List'', ''Map'', ''Set''} then objectFieldLookup b ''__native''
            else None) of
        Some nativeField \<Rightarrow> fmt nativeField
      | None \<Rightarrow>
          (case ob_runtimeType b of
             Some layout \<Rightarrow>
               if rt_isDataType layout then
                 ob_className b @ '' { '' @ joinWith '', '' (formatMembers fmt b layout) @ ''}''
               else
                 ob_className b @ ''{'' @
                 joinWith '', '' (map (\<lambda>(k, v). k @ '': '' @ fmt v) (objectFieldForEach b)) @ ''}''
           | None \<Rightarrow>
               ob_className b @ ''{'' @
               joinWith '', '' (map (\<lambda>(k, v). k @ '': '' @ fmt v) (objectFieldForEach b)) @ ''}''))"

definition formatValueWith ::
  "(addr list \<Rightarrow> zvalue \<Rightarrow> string) \<Rightarrow> bool \<Rightarrow> digit_source \<Rightarrow> heap \<Rightarrow> bool \<Rightarrow> addr list \<Rightarrow> zvalue \<Rightarrow>
   string"
where
  "formatValueWith fmt exhausted shortestDigits h quoteStrings active v =
     (case v of
        VNil \<Rightarrow> ''nil''
      | VBool b \<Rightarrow> if b then ''true'' else ''false''
      | VInt i \<Rightarrow> int64_to_string i
      | VDouble d \<Rightarrow> formatDouble shortestDigits d
      | VString s \<Rightarrow> if quoteStrings then quoteString s else s
      | VList None \<Rightarrow> ''[]''
      | VList (Some a) \<Rightarrow>
          if a \<in> set active then ''[<cyclic>]''
          else if exhausted then ''[<...>]''
          else ''['' @ joinWith '', '' (map (fmt (a # active)) (lb_items (list_at h a))) @ '']''
      | VMap None \<Rightarrow> ''{}''
      | VMap (Some a) \<Rightarrow>
          if a \<in> set active then ''{<cyclic>}''
          else if exhausted then ''{<...>}''
          else
            ''{'' @
            joinWith '', '' (map (\<lambda>(k, x). fmt (a # active) k @ '': '' @ fmt (a # active) x)
              (snapshotEntries (map_at h a))) @ ''}''
      | VObject None \<Rightarrow> ''nil''
      | VObject (Some a) \<Rightarrow>
          let b = object_at h a
          in if a \<in> set active then ob_className b @ '' { <cyclic> }''
             else if exhausted then ob_className b @ '' { <...> }''
             else formatObject (fmt (a # active)) b
      | VClosure _ \<Rightarrow> ''<func>''
      | VTask r \<Rightarrow> if r = None then ''nil'' else ''<task>''
      | VThread r \<Rightarrow> if r = None then ''nil'' else ''<thread>''
      | VNativeHandle i \<Rightarrow> if i \<noteq> 0 then ''<native-handle>'' else ''nil''
      | VNativeBuffer data sz alive \<Rightarrow>
          if (data \<noteq> None \<or> sz = 0) \<and> alive then ''<native-buffer>'' else ''nil''
      | VNativeStruct data sz al alive \<Rightarrow>
          if (data \<noteq> None \<or> sz = 0) \<and> alive then ''<native-callback>'' else ''nil''
      | VNativeCallback i \<Rightarrow> if i \<noteq> 0 then ''<native-callback>'' else ''nil'')"

primrec formatValueInner ::
  "nat \<Rightarrow> digit_source \<Rightarrow> heap \<Rightarrow> bool \<Rightarrow> addr list \<Rightarrow> zvalue \<Rightarrow> string"
where
  "formatValueInner 0 shortestDigits h =
     formatValueWith (\<lambda>_ _. []) True shortestDigits h"
| "formatValueInner (Suc n) shortestDigits h =
     formatValueWith (formatValueInner n shortestDigits h True) False shortestDigits h"

definition valueToString :: "digit_source \<Rightarrow> heap \<Rightarrow> zvalue \<Rightarrow> string" where
  "valueToString shortestDigits h v =
     formatValueInner kMaxValueNestingDepth shortestDigits h False [] v"

lemma valueToString_string [simp]: "valueToString d h (VString s) = s"
  by (simp add: valueToString_def kMaxValueNestingDepth_def numeral_eq_Suc formatValueWith_def)

end
