(* ===== verification/Mir_Type.thy ===== *)
theory Mir_Type
  imports Zl_Prelude
begin

text \<open>
  MIR types and the arena that interns them (\<^verbatim>\<open>include/zl/mir/type.hpp\<close>, \<^verbatim>\<open>src/mir/type.cpp\<close>).
  A type refers to its parts by id; the arena gives structurally equal types one id. The hash of
  a type only selects a bucket of the index, which is a map here. Recursion through ids is bounded
  by fuel; an arena whose types refer to earlier ids only never runs out of it.

  The theory also holds the interface \<open>interner\<close>, which the arena and the constant pool of a
  function both provide.
\<close>

type_synonym type_id = nat

abbreviation (input) kNoType :: type_id where
  "kNoType \<equiv> 0"

datatype type_kind =
    TyVoid | TyNil | TyBool | TyInt | TyDouble | TyString | TyList | TyMap | TySet | TyArray
  | TyObject | TyTask | TyShared | TyOption | TyResult | TyFunction | TyUnion | TyTypeParam
  | TyUnknown | TyThread | TyChannel | TyMutex | TyRwLock | TyAtomic | TySemaphore | TyCondition
  | TyNativeHandle | TyNativeBuffer | TyNativeStruct | TyNativeCallback

fun typeName :: "type_kind \<Rightarrow> string" where
  "typeName TyVoid = ''void''"
| "typeName TyNil = ''nil''"
| "typeName TyBool = ''bool''"
| "typeName TyInt = ''int''"
| "typeName TyDouble = ''double''"
| "typeName TyString = ''string''"
| "typeName TyList = ''list''"
| "typeName TyMap = ''map''"
| "typeName TySet = ''set''"
| "typeName TyArray = ''array''"
| "typeName TyObject = ''object''"
| "typeName TyTask = ''Task''"
| "typeName TyShared = ''Shared''"
| "typeName TyOption = ''Option''"
| "typeName TyResult = ''Result''"
| "typeName TyFunction = ''func''"
| "typeName TyUnion = ''union''"
| "typeName TyTypeParam = ''typeparam''"
| "typeName TyUnknown = ''unknown''"
| "typeName TyThread = ''Thread''"
| "typeName TyChannel = ''Channel''"
| "typeName TyMutex = ''Mutex''"
| "typeName TyRwLock = ''RwLock''"
| "typeName TyAtomic = ''Atomic''"
| "typeName TySemaphore = ''Semaphore''"
| "typeName TyCondition = ''Condition''"
| "typeName TyNativeHandle = ''NativeHandle''"
| "typeName TyNativeBuffer = ''NativeBuffer''"
| "typeName TyNativeStruct = ''NativeStruct''"
| "typeName TyNativeCallback = ''NativeCallback''"

definition isPrimitiveKind :: "type_kind \<Rightarrow> bool" where
  "isPrimitiveKind k = (k \<in> {TyBool, TyInt, TyDouble, TyString})"

definition isReferenceKind :: "type_kind \<Rightarrow> bool" where
  "isReferenceKind k =
     (k \<in> {TyList, TyMap, TySet, TyArray, TyObject, TyTask, TyShared, TyOption, TyResult, TyFunction,
           TyThread, TyChannel, TyMutex, TyRwLock, TyAtomic, TySemaphore, TyCondition,
           TyNativeHandle, TyNativeBuffer, TyNativeStruct, TyNativeCallback})"

definition isNumericKind :: "type_kind \<Rightarrow> bool" where
  "isNumericKind k = (k = TyInt \<or> k = TyDouble)"

definition isCollectableKind :: "type_kind \<Rightarrow> bool" where
  "isCollectableKind k =
     (if k \<in> {TyNativeHandle, TyNativeBuffer, TyNativeStruct, TyNativeCallback} then False
      else isReferenceKind k)"

definition isNullableKind :: "type_kind \<Rightarrow> bool" where
  "isNullableKind k = (if k = TyString \<or> k = TyNil then True else isReferenceKind k)"

record function_signature =
  sg_parameterTypes :: "type_id list"
  sg_returnType :: type_id
  sg_isAsync :: bool
  sg_hasSignature :: bool

record mir_type =
  ty_kind :: type_kind
  ty_name :: string
  ty_arguments :: "type_id list"
  ty_fixedSize :: "int option"
  ty_signature :: function_signature

definition default_signature :: function_signature where
  "default_signature =
     \<lparr>sg_parameterTypes = [], sg_returnType = 0, sg_isAsync = False, sg_hasSignature = True\<rparr>"

definition default_type :: mir_type where
  "default_type =
     \<lparr>ty_kind = TyUnknown, ty_name = [], ty_arguments = [], ty_fixedSize = None,
      ty_signature = default_signature\<rparr>"

subsection \<open>Classification\<close>

definition isCollectionType :: "mir_type \<Rightarrow> bool" where
  "isCollectionType t =
     (case ty_kind t of
        TyList \<Rightarrow> True | TyMap \<Rightarrow> True | TySet \<Rightarrow> True | TyArray \<Rightarrow> True
      | TyObject \<Rightarrow> ty_name t = ''List'' \<or> ty_name t = ''Map'' \<or> ty_name t = ''Set''
      | _ \<Rightarrow> False)"

definition isOptionType :: "mir_type \<Rightarrow> bool" where
  "isOptionType t =
     (ty_kind t = TyOption \<or>
      ty_kind t = TyObject \<and> (ty_name t = ''Some'' \<or> ty_name t = ''None''))"

definition isResultType :: "mir_type \<Rightarrow> bool" where
  "isResultType t =
     (ty_kind t = TyResult \<or>
      ty_kind t = TyObject \<and> (ty_name t = ''Ok'' \<or> ty_name t = ''Err''))"

definition isSumType :: "mir_type \<Rightarrow> bool" where
  "isSumType t = (isOptionType t \<or> isResultType t)"

definition startsWith :: "string \<Rightarrow> string \<Rightarrow> bool" where
  "startsWith prefix s = (take (length prefix) s = prefix)"

definition isObjectNamed :: "mir_type \<Rightarrow> string \<Rightarrow> bool" where
  "isObjectNamed t name =
     (if ty_kind t \<noteq> TyObject then False
      else if ty_name t = name then True
      else startsWith (name @ ''<'') (ty_name t))"

definition isThreadType :: "mir_type \<Rightarrow> bool" where
  "isThreadType t = (ty_kind t = TyThread \<or> isObjectNamed t ''Thread'')"

definition isChannelType :: "mir_type \<Rightarrow> bool" where
  "isChannelType t = (ty_kind t = TyChannel \<or> isObjectNamed t ''Channel'')"

definition isMutexType :: "mir_type \<Rightarrow> bool" where
  "isMutexType t = (ty_kind t = TyMutex \<or> isObjectNamed t ''Mutex'')"

definition isRwLockType :: "mir_type \<Rightarrow> bool" where
  "isRwLockType t = (ty_kind t = TyRwLock \<or> isObjectNamed t ''RwLock'')"

definition isAtomicType :: "mir_type \<Rightarrow> bool" where
  "isAtomicType t = (ty_kind t = TyAtomic \<or> isObjectNamed t ''Atomic'')"

definition isSemaphoreType :: "mir_type \<Rightarrow> bool" where
  "isSemaphoreType t = (ty_kind t = TySemaphore \<or> isObjectNamed t ''Semaphore'')"

definition isConditionType :: "mir_type \<Rightarrow> bool" where
  "isConditionType t = (ty_kind t = TyCondition \<or> isObjectNamed t ''Condition'')"

definition isSharedType :: "mir_type \<Rightarrow> bool" where
  "isSharedType t = (ty_kind t = TyShared \<or> isObjectNamed t ''Shared'')"

definition isTaskType :: "mir_type \<Rightarrow> bool" where
  "isTaskType t = (ty_kind t = TyTask \<or> isObjectNamed t ''Task'')"

definition isSyncPrimitiveType :: "mir_type \<Rightarrow> bool" where
  "isSyncPrimitiveType t =
     (isSharedType t \<or> isAtomicType t \<or> isMutexType t \<or> isRwLockType t \<or>
      isSemaphoreType t \<or> isChannelType t \<or> isConditionType t)"

definition isThreadSafeCaptureType :: "mir_type \<Rightarrow> bool" where
  "isThreadSafeCaptureType t = isSyncPrimitiveType t"

definition isNativeHandleType :: "mir_type \<Rightarrow> bool" where
  "isNativeHandleType t =
     (ty_kind t = TyNativeHandle \<or> ty_kind t = TyObject \<and> ty_name t = ''NativeHandle'')"

definition isNativeResourceType :: "mir_type \<Rightarrow> bool" where
  "isNativeResourceType t =
     (isNativeHandleType t \<or> ty_kind t = TyNativeBuffer \<or> ty_kind t = TyNativeStruct \<or>
      ty_kind t = TyNativeCallback)"

definition soleArgument :: "mir_type \<Rightarrow> type_id" where
  "soleArgument t = (case ty_arguments t of [a] \<Rightarrow> a | _ \<Rightarrow> 0)"

definition channelElementFor :: "mir_type \<Rightarrow> type_id" where
  "channelElementFor t =
     (if ty_kind t = TyChannel then soleArgument t
      else if ty_kind t = TyObject \<and> (ty_name t = ''Channel'' \<or> startsWith ''Channel<'' (ty_name t))
      then soleArgument t
      else 0)"

definition taskPayloadFor :: "mir_type \<Rightarrow> type_id" where
  "taskPayloadFor t = (if \<not> isTaskType t then 0 else soleArgument t)"

definition sharedPayloadFor :: "mir_type \<Rightarrow> type_id" where
  "sharedPayloadFor t = (if \<not> isSharedType t then 0 else soleArgument t)"

definition optionPayloadFor :: "mir_type \<Rightarrow> type_id" where
  "optionPayloadFor t = (if \<not> isOptionType t then 0 else soleArgument t)"

definition resultPartsFor :: "mir_type \<Rightarrow> type_id \<times> type_id" where
  "resultPartsFor t =
     (if \<not> isResultType t then (0, 0)
      else case ty_arguments t of [a, b] \<Rightarrow> (a, b) | _ \<Rightarrow> (0, 0))"

definition sumAssignable :: "(type_id \<Rightarrow> type_id \<Rightarrow> bool) \<Rightarrow> mir_type \<Rightarrow> mir_type \<Rightarrow> bool" where
  "sumAssignable assignableArg from to =
     (if isOptionType from \<and> isOptionType to then
        let a = optionPayloadFor from; b = optionPayloadFor to
        in a \<noteq> 0 \<and> b \<noteq> 0 \<and> assignableArg a b
      else if isResultType from \<and> isResultType to then
        let (a, e) = resultPartsFor from; (a', e') = resultPartsFor to
        in a \<noteq> 0 \<and> a' \<noteq> 0 \<and> e \<noteq> 0 \<and> e' \<noteq> 0 \<and> assignableArg a a' \<and> assignableArg e e'
      else False)"

subsection \<open>The arena\<close>

record type_arena =
  ar_types :: "mir_type list"
  ar_renderings :: "string list"
  ar_index :: "mir_type \<rightharpoonup> type_id"

definition internPrimitive :: "type_kind \<Rightarrow> type_arena \<Rightarrow> type_arena" where
  "internPrimitive kind A =
     (let t = default_type\<lparr>ty_kind := kind\<rparr>
      in A\<lparr>ar_types := ar_types A @ [t],
           ar_renderings := ar_renderings A @ [typeName kind],
           ar_index := (ar_index A)(t \<mapsto> length (ar_types A))\<rparr>)"

text \<open>The constructor; the ids of the seven primitives are 1 to 7 in this order.\<close>

definition newTypeArena :: type_arena where
  "newTypeArena =
     fold internPrimitive [TyVoid, TyNil, TyBool, TyInt, TyDouble, TyString, TyUnknown]
       \<lparr>ar_types = [default_type], ar_renderings = [''<none>''], ar_index = Map.empty\<rparr>"

definition voidType :: type_id where "voidType = 1"
definition nilType :: type_id where "nilType = 2"
definition boolType :: type_id where "boolType = 3"
definition intType :: type_id where "intType = 4"
definition doubleType :: type_id where "doubleType = 5"
definition stringType :: type_id where "stringType = 6"
definition unknownType :: type_id where "unknownType = 7"

text \<open>\<open>std::sort\<close> followed by \<open>std::unique\<close> on the members of a union.\<close>

definition normalizeType :: "mir_type \<Rightarrow> mir_type" where
  "normalizeType t =
     (let t1 = if ty_kind t = TyUnion then t\<lparr>ty_arguments := remdups_adj (sort (ty_arguments t))\<rparr> else t
      in if ty_kind t1 = TyFunction then t1\<lparr>ty_name := []\<rparr> else t1)"

definition intern :: "type_arena \<Rightarrow> mir_type \<Rightarrow> type_id \<times> type_arena" where
  "intern A t =
     (let t' = normalizeType t
      in if ty_kind t = TyUnion \<and> length (ty_arguments t') = 1 then (hd (ty_arguments t'), A)
         else case ar_index A t' of
           Some i \<Rightarrow> (i, A)
         | None \<Rightarrow>
             (length (ar_types A),
              A\<lparr>ar_types := ar_types A @ [t'],
                ar_renderings := ar_renderings A @ [[]],
                ar_index := (ar_index A)(t' \<mapsto> length (ar_types A))\<rparr>))"

definition findType :: "type_arena \<Rightarrow> type_id \<Rightarrow> mir_type option" where
  "findType A i = (if i = kNoType \<or> length (ar_types A) \<le> i then None else Some (ar_types A ! i))"

definition nominalType :: "type_kind \<Rightarrow> string \<Rightarrow> type_id list \<Rightarrow> mir_type" where
  "nominalType k n args = default_type\<lparr>ty_kind := k, ty_name := n, ty_arguments := args\<rparr>"

definition objectType :: "type_arena \<Rightarrow> string \<Rightarrow> type_id list \<Rightarrow> type_id \<times> type_arena" where
  "objectType A className args = intern A (nominalType TyObject className args)"

definition listType :: "type_arena \<Rightarrow> type_id \<Rightarrow> type_id \<times> type_arena" where
  "listType A element = intern A (nominalType TyList [] [element])"

definition setType :: "type_arena \<Rightarrow> type_id \<Rightarrow> type_id \<times> type_arena" where
  "setType A element = intern A (nominalType TySet [] [element])"

definition mapType :: "type_arena \<Rightarrow> type_id \<Rightarrow> type_id \<Rightarrow> type_id \<times> type_arena" where
  "mapType A k v = intern A (nominalType TyMap [] [k, v])"

definition arrayType :: "type_arena \<Rightarrow> type_id \<Rightarrow> int option \<Rightarrow> type_id \<times> type_arena" where
  "arrayType A element sz = intern A ((nominalType TyArray [] [element])\<lparr>ty_fixedSize := sz\<rparr>)"

definition taskType :: "type_arena \<Rightarrow> type_id \<Rightarrow> type_id \<times> type_arena" where
  "taskType A payload = intern A (nominalType TyTask ''Task'' [payload])"

definition sharedType :: "type_arena \<Rightarrow> type_id \<Rightarrow> type_id \<times> type_arena" where
  "sharedType A payload = intern A (nominalType TyShared ''Shared'' [payload])"

definition optionType :: "type_arena \<Rightarrow> type_id \<Rightarrow> type_id \<times> type_arena" where
  "optionType A payload = intern A (nominalType TyOption ''Option'' [payload])"

definition resultType :: "type_arena \<Rightarrow> type_id \<Rightarrow> type_id \<Rightarrow> type_id \<times> type_arena" where
  "resultType A okType error = intern A (nominalType TyResult ''Result'' [okType, error])"

definition channelType :: "type_arena \<Rightarrow> type_id \<Rightarrow> type_id \<times> type_arena" where
  "channelType A element = intern A (nominalType TyChannel ''Channel'' [element])"

text \<open>
  \<open>threadType\<close>, \<open>mutexType\<close>, \<open>rwLockType\<close>, \<open>atomicType\<close>, \<open>semaphoreType\<close>, \<open>conditionType\<close>,
  \<open>nativeHandleType\<close>, \<open>nativeBufferType\<close> and \<open>nativeStructType\<close> differ in their kind only; each is
  named after it.
\<close>

definition builtinClassType :: "type_kind \<Rightarrow> type_arena \<Rightarrow> type_id \<times> type_arena" where
  "builtinClassType kind A = intern A (nominalType kind (typeName kind) [])"

definition nativeCallbackType :: "type_arena \<Rightarrow> function_signature \<Rightarrow> type_id \<times> type_arena" where
  "nativeCallbackType A sig =
     intern A ((nominalType TyNativeCallback ''NativeCallback'' [])\<lparr>ty_signature := sig\<rparr>)"

definition untypedNativeCallbackType :: "type_arena \<Rightarrow> type_id \<times> type_arena" where
  "untypedNativeCallbackType A =
     nativeCallbackType A (default_signature\<lparr>sg_hasSignature := False, sg_returnType := unknownType\<rparr>)"

definition functionType :: "type_arena \<Rightarrow> function_signature \<Rightarrow> type_id \<times> type_arena" where
  "functionType A sig = intern A ((nominalType TyFunction [] [])\<lparr>ty_signature := sig\<rparr>)"

definition unionType :: "type_arena \<Rightarrow> type_id list \<Rightarrow> type_id \<times> type_arena" where
  "unionType A members = intern A (nominalType TyUnion [] members)"

definition typeParam :: "type_arena \<Rightarrow> string \<Rightarrow> type_id \<times> type_arena" where
  "typeParam A name = intern A (nominalType TyTypeParam name [])"

text \<open>
  \<open>isNullable\<close> follows the members of a union, left to right, until one is nullable. \<open>None\<close> is
  running out of fuel.
\<close>

fun anyM :: "('a \<Rightarrow> bool option) \<Rightarrow> 'a list \<Rightarrow> bool option" where
  "anyM p [] = Some False"
| "anyM p (x # xs) =
     (case p x of None \<Rightarrow> None | Some b \<Rightarrow> if b then Some True else anyM p xs)"

primrec isNullable :: "nat \<Rightarrow> type_arena \<Rightarrow> type_id \<Rightarrow> bool option" where
  "isNullable 0 A i = None"
| "isNullable (Suc n) A i =
     (case findType A i of
        None \<Rightarrow> Some False
      | Some t \<Rightarrow>
          if ty_kind t = TyUnion then anyM (isNullable n A) (ty_arguments t)
          else Some (isNullableKind (ty_kind t)))"

text \<open>
  Rendering. Every case of the switch renders a list of parts in order (\<open>renderParts\<close>) and puts
  punctuation around them (\<open>renderFormat\<close>); the result is cached.
\<close>

definition renderParts :: "type_arena \<Rightarrow> mir_type \<Rightarrow> type_id list" where
  "renderParts A t =
     (if ty_kind t \<in> {TyObject, TyList, TySet, TyMap, TyArray, TyTask, TyShared, TyOption, TyResult,
                      TyUnion}
      then ty_arguments t
      else if ty_kind t = TyChannel then
        (case ty_arguments t of
           [e] \<Rightarrow> (case findType A e of
                    Some et \<Rightarrow> if ty_kind et = TyUnknown then [] else [e]
                  | None \<Rightarrow> [e])
         | args \<Rightarrow> args)
      else if ty_kind t \<in> {TyFunction, TyNativeCallback} \<and> sg_hasSignature (ty_signature t) then
        sg_parameterTypes (ty_signature t) @ [sg_returnType (ty_signature t)]
      else [])"

definition angle :: "string list \<Rightarrow> string" where
  "angle parts = ''<'' @ joinWith '','' parts @ ''>''"

definition renderSignature :: "string \<Rightarrow> string list \<Rightarrow> string" where
  "renderSignature what parts =
     what @ ''('' @ joinWith '','' (butlast parts) @ ''):'' @ last parts"

definition int_to_string :: "int \<Rightarrow> string" where
  "int_to_string i = (if i < 0 then ''-'' @ nat_to_string (nat (- i)) else nat_to_string (nat i))"

definition renderFormat :: "mir_type \<Rightarrow> string list \<Rightarrow> string" where
  "renderFormat t parts =
     (case ty_kind t of
        TyObject \<Rightarrow>
          (if ty_name t = [] then ''object'' else ty_name t) @
          (if ty_arguments t = [] then [] else angle parts)
      | TyList \<Rightarrow> typeName (ty_kind t) @ angle parts
      | TySet \<Rightarrow> typeName (ty_kind t) @ angle parts
      | TyMap \<Rightarrow> ''map'' @ angle parts
      | TyArray \<Rightarrow>
          (case ty_fixedSize t of
             Some n \<Rightarrow> ''array['' @ int_to_string n @ '']'' @ angle parts
           | None \<Rightarrow> ''array'' @ angle parts)
      | TyTask \<Rightarrow> ''Task'' @ angle parts
      | TyShared \<Rightarrow> ''Shared'' @ angle parts
      | TyChannel \<Rightarrow> (if parts = [] then ''Channel'' else ''Channel'' @ angle parts)
      | TyNativeCallback \<Rightarrow>
          (if sg_hasSignature (ty_signature t) then renderSignature ''NativeCallback'' parts
           else ''NativeCallback'')
      | TyOption \<Rightarrow> ''Option'' @ angle parts
      | TyResult \<Rightarrow> ''Result'' @ angle parts
      | TyUnion \<Rightarrow> joinWith ''|'' parts
      | TyFunction \<Rightarrow>
          (if sg_hasSignature (ty_signature t) then renderSignature ''func'' parts else ''func'')
      | TyTypeParam \<Rightarrow> ty_name t
      | k \<Rightarrow> typeName k)"

fun renderAll ::
  "(type_arena \<Rightarrow> type_id \<Rightarrow> (string \<times> type_arena) option) \<Rightarrow> type_arena \<Rightarrow> type_id list \<Rightarrow>
   (string list \<times> type_arena) option"
where
  "renderAll r A [] = Some ([], A)"
| "renderAll r A (i # is) =
     (case r A i of
        None \<Rightarrow> None
      | Some (s, A1) \<Rightarrow>
          (case renderAll r A1 is of
             None \<Rightarrow> None
           | Some (ss, A2) \<Rightarrow> Some (s # ss, A2)))"

primrec render :: "nat \<Rightarrow> type_arena \<Rightarrow> type_id \<Rightarrow> (string \<times> type_arena) option" where
  "render 0 A i = None"
| "render (Suc n) A i =
     (case findType A i of
        None \<Rightarrow> Some (''<invalid-type>'', A)
      | Some t \<Rightarrow>
          if ar_renderings A ! i \<noteq> [] then Some (ar_renderings A ! i, A)
          else
            (case renderAll (render n) A (renderParts A t) of
               None \<Rightarrow> None
             | Some (parts, A') \<Rightarrow>
                 let out = renderFormat t parts
                 in Some (out, A'\<lparr>ar_renderings := (ar_renderings A')[i := out]\<rparr>)))"

subsection \<open>The interface of an interner\<close>

locale interner =
  fixes get :: "'s \<Rightarrow> nat \<Rightarrow> 'b option"
    and put :: "'s \<Rightarrow> 'a \<Rightarrow> nat \<times> 's"
    and inv :: "'s \<Rightarrow> bool"
    and adm :: "'s \<Rightarrow> 'a \<Rightarrow> bool"
    and norm :: "'a \<Rightarrow> 'b"
  assumes put_inv: "inv s \<Longrightarrow> adm s x \<Longrightarrow> inv (snd (put s x))"
    and put_get: "inv s \<Longrightarrow> adm s x \<Longrightarrow> get (snd (put s x)) (fst (put s x)) = Some (norm x)"
    and put_keep: "inv s \<Longrightarrow> adm s x \<Longrightarrow> get s i = Some y \<Longrightarrow> get (snd (put s x)) i = Some y"
    and put_adm: "inv s \<Longrightarrow> adm s x \<Longrightarrow> adm s x' \<Longrightarrow> adm (snd (put s x)) x'"
    and put_found: "inv s \<Longrightarrow> adm s x \<Longrightarrow> get s i = Some (norm x) \<Longrightarrow> put s x = (i, s)"
begin

lemma get_inj:
  assumes "inv s" "adm s x" "get s i = Some (norm x)" "get s j = Some (norm x)"
  shows "i = j"
  using put_found [OF assms(1,2,3)] put_found [OF assms(1,2,4)] by simp

lemma put_again:
  assumes "inv s" "adm s x"
  shows "put (snd (put s x)) x = put s x"
  using put_found [OF put_inv [OF assms] put_adm [OF assms assms(2)] put_get [OF assms]] by simp

lemma put_same_iff:
  assumes "inv s" "adm s x" "adm s y"
  shows "fst (put (snd (put s x)) y) = fst (put s x) \<longleftrightarrow> norm x = norm y"
proof
  let ?s = "snd (put s x)"
  note s = put_inv [OF assms(1,2)] and y = put_adm [OF assms(1,2,3)]
  have x: "get ?s (fst (put s x)) = Some (norm x)" by (rule put_get [OF assms(1,2)])
  {
    assume "fst (put ?s y) = fst (put s x)"
    then show "norm x = norm y"
      using put_keep [OF s y x] put_get [OF s y] by simp
  next
    assume "norm x = norm y"
    then show "fst (put ?s y) = fst (put s x)" using put_found [OF s y] x by simp
  }
qed

lemma puts_keep:
  assumes "inv s" "\<forall>x \<in> set xs. adm s x" "get s i = Some y"
  shows "inv (foldl (\<lambda>s x. snd (put s x)) s xs) \<and> get (foldl (\<lambda>s x. snd (put s x)) s xs) i = Some y"
  using assms
proof (induction xs arbitrary: s)
  case (Cons x xs)
  then have "inv s" "adm s x" by simp_all
  from Cons.IH [OF put_inv [OF this]] this Cons.prems show ?case
    by (simp add: put_adm put_keep)
qed simp

end

subsection \<open>The arena is an interner\<close>

definition typeRefs :: "mir_type \<Rightarrow> type_id list" where
  "typeRefs t =
     ty_arguments t @ sg_parameterTypes (ty_signature t) @ [sg_returnType (ty_signature t)]"

definition arena_ok :: "type_arena \<Rightarrow> bool" where
  "arena_ok A \<longleftrightarrow>
     length (ar_renderings A) = length (ar_types A) \<and> ar_types A \<noteq> [] \<and>
     (\<forall>t i. ar_index A t = Some i \<longleftrightarrow> 0 < i \<and> i < length (ar_types A) \<and> ar_types A ! i = t) \<and>
     (\<forall>i < length (ar_types A). 0 < i \<longrightarrow> (\<forall>j \<in> set (typeRefs (ar_types A ! i)). j < i))"

definition internable :: "type_arena \<Rightarrow> mir_type \<Rightarrow> bool" where
  "internable A t \<longleftrightarrow>
     (\<forall>j \<in> set (typeRefs t). j < length (ar_types A)) \<and>
     \<not> (ty_kind t = TyUnion \<and> card (set (ty_arguments t)) = 1)"

lemma set_normalizeType: "set (typeRefs (normalizeType t)) = set (typeRefs t)"
  by (simp add: normalizeType_def typeRefs_def Let_def)

lemma distinct_remdups_adj_sorted: "sorted (xs :: nat list) \<Longrightarrow> distinct (remdups_adj xs)"
  by (induction xs rule: remdups_adj.induct) (auto simp: less_le)

lemma length_remdups_sort: "length (remdups_adj (sort xs)) = card (set (xs :: nat list))"
  using distinct_card [OF distinct_remdups_adj_sorted [of "sort xs"]] by simp

lemma intern_internable:
  assumes "internable A t"
  shows "intern A t =
    (case ar_index A (normalizeType t) of
       Some i \<Rightarrow> (i, A)
     | None \<Rightarrow> (length (ar_types A),
         A\<lparr>ar_types := ar_types A @ [normalizeType t], ar_renderings := ar_renderings A @ [[]],
           ar_index := (ar_index A)(normalizeType t \<mapsto> length (ar_types A))\<rparr>))"
proof -
  have "\<not> (ty_kind t = TyUnion \<and> length (ty_arguments (normalizeType t)) = 1)"
    using assms by (auto simp: internable_def normalizeType_def length_remdups_sort)
  then show ?thesis by (auto simp: intern_def Let_def)
qed

lemma arena_ok_index:
  "arena_ok A \<Longrightarrow> ar_index A t = Some i \<longleftrightarrow> findType A i = Some t"
  by (auto simp: arena_ok_def findType_def)

lemma arena_ok_append:
  assumes ok: "arena_ok A" and new: "ar_index A t = None"
    and refs: "\<forall>j \<in> set (typeRefs t). j < length (ar_types A)"
  shows "arena_ok (A\<lparr>ar_types := ar_types A @ [t], ar_renderings := ar_renderings A @ [r],
    ar_index := (ar_index A)(t \<mapsto> length (ar_types A))\<rparr>)" (is "arena_ok ?B")
proof -
  have fresh: "ar_types A ! i \<noteq> t" if "0 < i" "i < length (ar_types A)" for i
    using ok new that unfolding arena_ok_def by (metis option.simps(3))
  have pos: "0 < length (ar_types A)" using ok by (simp add: arena_ok_def)
  have idx: "ar_index A u = Some i \<longleftrightarrow> 0 < i \<and> i < length (ar_types A) \<and> ar_types A ! i = u" for u i
    using ok by (simp add: arena_ok_def)
  have "ar_index ?B u = Some i \<longleftrightarrow> 0 < i \<and> i < length (ar_types ?B) \<and> ar_types ?B ! i = u" for u i
  proof (cases "u = t")
    case True
    then show ?thesis using fresh pos by (auto simp: nth_append less_Suc_eq)
  next
    case False
    then show ?thesis using pos by (auto simp: nth_append less_Suc_eq idx)
  qed
  moreover have "\<forall>j \<in> set (typeRefs (ar_types ?B ! i)). j < i" if "i < length (ar_types ?B)" "0 < i" for i
    using that refs ok by (cases "i = length (ar_types A)") (auto simp: nth_append arena_ok_def)
  ultimately show ?thesis using ok by (simp add: arena_ok_def)
qed

lemma intern_ok: "arena_ok A \<Longrightarrow> internable A t \<Longrightarrow> arena_ok (snd (intern A t))"
  using arena_ok_append [of A "normalizeType t"]
  by (auto simp: intern_internable internable_def set_normalizeType split: option.split)

lemma findType_append:
  "findType A i = Some t \<Longrightarrow>
   findType (A\<lparr>ar_types := ar_types A @ us, ar_renderings := rs, ar_index := m\<rparr>) i = Some t"
  by (auto simp: findType_def nth_append split: if_splits)

lemma findType_new:
  "ar_types A \<noteq> [] \<Longrightarrow>
   findType (A\<lparr>ar_types := ar_types A @ [u], ar_renderings := rs, ar_index := m\<rparr>)
     (length (ar_types A)) = Some u"
  by (simp add: findType_def)

interpretation arena: interner findType intern arena_ok internable normalizeType
proof
  fix A :: type_arena and t t' :: mir_type and i :: nat and u
  assume ok: "arena_ok A" and t: "internable A t"
  show "arena_ok (snd (intern A t))" by (rule intern_ok [OF ok t])
  show "findType (snd (intern A t)) (fst (intern A t)) = Some (normalizeType t)"
    using ok by (auto simp: intern_internable [OF t] arena_ok_index [OF ok, symmetric] findType_new
        arena_ok_def split: option.split)
  show "findType A i = Some u \<Longrightarrow> findType (snd (intern A t)) i = Some u"
    by (auto simp: intern_internable [OF t] findType_append split: option.split)
  show "internable A t' \<Longrightarrow> internable (snd (intern A t)) t'"
    by (auto simp: intern_internable [OF t] less_SucI internable_def split: option.split)
  show "findType A i = Some (normalizeType t) \<Longrightarrow> intern A t = (i, A)"
    by (simp add: intern_internable [OF t] arena_ok_index [OF ok, symmetric])
qed

lemma fold_internPrimitive_ok:
  assumes "arena_ok A" "distinct ks" "\<forall>k \<in> set ks. ar_index A (default_type\<lparr>ty_kind := k\<rparr>) = None"
  shows "arena_ok (fold internPrimitive ks A)"
  using assms
proof (induction ks arbitrary: A)
  case (Cons k ks)
  have "ar_types A \<noteq> []" using Cons.prems(1) by (simp add: arena_ok_def)
  then have "arena_ok (internPrimitive k A)"
    unfolding internPrimitive_def Let_def using Cons.prems
    by (intro arena_ok_append) (auto simp: typeRefs_def default_type_def default_signature_def)
  moreover have "\<forall>k' \<in> set ks. ar_index (internPrimitive k A) (default_type\<lparr>ty_kind := k'\<rparr>) = None"
    using Cons.prems by (auto simp: internPrimitive_def Let_def default_type_def)
  ultimately show ?case using Cons.IH Cons.prems(2) by simp
qed simp

lemma newTypeArena_ok: "arena_ok newTypeArena"
  unfolding newTypeArena_def by (rule fold_internPrimitive_ok) (auto simp: arena_ok_def)



text \<open>An id never changes its meaning: whatever is interned later, a type found under an id stays
  there, and the arena stays well-formed.\<close>

theorem interning_keeps_ids:
  assumes "arena_ok A" "\<forall>t \<in> set ts. internable A t" "findType A i = Some u"
  shows "arena_ok (foldl (\<lambda>B t. snd (intern B t)) A ts) \<and>
    findType (foldl (\<lambda>B t. snd (intern B t)) A ts) i = Some u"
  by (rule arena.puts_keep [OF assms])

theorem interning_keeps_ids_witness:
  "findType (foldl (\<lambda>B t. snd (intern B t)) newTypeArena
     [nominalType TyList [] [intType], nominalType TyTask ''Task'' [boolType]]) 4 =
   Some (default_type\<lparr>ty_kind := TyInt\<rparr>)"
proof -
  have len: "length (ar_types newTypeArena) = 8" and int: "findType newTypeArena 4 = Some (default_type\<lparr>ty_kind := TyInt\<rparr>)"
    by code_simp+
  have "\<forall>t \<in> set [nominalType TyList [] [intType], nominalType TyTask ''Task'' [boolType]].
      internable newTypeArena t"
    by (simp add: internable_def len typeRefs_def nominalType_def default_type_def
        default_signature_def intType_def boolType_def)
  from interning_keeps_ids [OF newTypeArena_ok this int] show ?thesis by simp
qed

subsection \<open>Recursion through ids ends\<close>

lemma arena_ok_refs:
  "arena_ok A \<Longrightarrow> findType A i = Some t \<Longrightarrow> j \<in> set (typeRefs t) \<Longrightarrow> j < i"
  by (auto simp: arena_ok_def findType_def split: if_splits)

inductive nullable_in :: "type_arena \<Rightarrow> type_id \<Rightarrow> bool" for A where
  kind: "findType A i = Some t \<Longrightarrow> ty_kind t \<noteq> TyUnion \<Longrightarrow> isNullableKind (ty_kind t) \<Longrightarrow>
    nullable_in A i"
| member: "findType A i = Some t \<Longrightarrow> ty_kind t = TyUnion \<Longrightarrow> m \<in> set (ty_arguments t) \<Longrightarrow>
    nullable_in A m \<Longrightarrow> nullable_in A i"

inductive_simps nullable_in_simps: "nullable_in A i"

lemma anyM_total:
  assumes "\<forall>x \<in> set xs. f x = Some (P x)"
  shows "anyM f xs = Some (\<exists>x \<in> set xs. P x)"
  using assms by (induction xs) auto

text \<open>\<open>isNullable\<close> returns on every id of a well-formed arena, within as many nested calls as the
  id is large, and answers whether some member reached through unions has a nullable kind.\<close>

theorem isNullable_correct:
  assumes "arena_ok A" and "i < n"
  shows "isNullable n A i = Some (nullable_in A i)"
  using assms(2)
proof (induction n arbitrary: i)
  case (Suc n)
  show ?case
  proof (cases "findType A i")
    case None
    then show ?thesis by (simp add: nullable_in_simps [of A i])
  next
    case (Some t)
    show ?thesis
    proof (cases "ty_kind t = TyUnion")
      case True
      have "\<forall>m \<in> set (ty_arguments t). isNullable n A m = Some (nullable_in A m)"
        using Suc arena_ok_refs [OF assms(1) Some] by (fastforce simp: typeRefs_def)
      from anyM_total [OF this] show ?thesis using True Some
        by (auto simp: nullable_in_simps [of A i])
    next
      case False
      then show ?thesis using Some by (simp add: nullable_in_simps [of A i])
    qed
  qed
qed simp

theorem isNullable_correct_witness:
  "arena_ok newTypeArena \<and> isNullable 9 newTypeArena 6 = Some (nullable_in newTypeArena 6)"
  using isNullable_correct [of newTypeArena 6 9] newTypeArena_ok by simp

text \<open>The text of a type, with no cache: what \<open>render\<close> is meant to return.\<close>

function renderSpec :: "type_arena \<Rightarrow> type_id \<Rightarrow> string" where
  "renderSpec A i =
     (case findType A i of
        None \<Rightarrow> ''<invalid-type>''
      | Some t \<Rightarrow>
          renderFormat t (map (\<lambda>j. if j < i then renderSpec A j else []) (renderParts A t)))"
  by pat_completeness auto
termination
  by (relation "measure snd") auto

declare renderSpec.simps [simp del]

definition cache_ok :: "type_arena \<Rightarrow> bool" where
  "cache_ok A \<longleftrightarrow>
     (\<forall>i < length (ar_types A). 0 < i \<longrightarrow> ar_renderings A ! i \<noteq> [] \<longrightarrow>
        ar_renderings A ! i = renderSpec A i)"

definition same_types :: "type_arena \<Rightarrow> type_arena \<Rightarrow> bool" where
  "same_types A B \<longleftrightarrow> ar_types A = ar_types B \<and> ar_index A = ar_index B \<and>
     length (ar_renderings A) = length (ar_renderings B)"

lemma same_types_find: "same_types A B \<Longrightarrow> findType A = findType B"
  by (auto simp: same_types_def findType_def)

lemma same_types_spec: "same_types A B \<Longrightarrow> renderSpec A i = renderSpec B i"
proof (induction i rule: less_induct)
  case (less i)
  have "findType A = findType B" by (rule same_types_find [OF less.prems])
  moreover from this have "renderParts A = renderParts B"
    by (auto simp: renderParts_def split: list.split)
  ultimately show ?case
    by (simp add: renderSpec.simps [of _ i] less cong: if_cong option.case_cong)
qed

lemma same_types_ok: "same_types A B \<Longrightarrow> arena_ok A \<longleftrightarrow> arena_ok B"
  by (simp add: same_types_def arena_ok_def)

lemma set_renderParts: "set (renderParts A t) \<subseteq> set (typeRefs t)"
  by (cases "ty_arguments t"; cases "tl (ty_arguments t)")
    (auto simp: renderParts_def typeRefs_def split: option.splits if_splits)

lemma renderAll_correct:
  assumes step: "\<And>B j. j \<in> set is \<Longrightarrow> same_types A B \<Longrightarrow> cache_ok B \<Longrightarrow>
      \<exists>B'. r B j = Some (renderSpec A j, B') \<and> same_types A B' \<and> cache_ok B'"
    and "same_types A B" "cache_ok B"
  shows "\<exists>B'. renderAll r B is = Some (map (renderSpec A) is, B') \<and> same_types A B' \<and> cache_ok B'"
  using assms
proof (induction "is" arbitrary: B)
  case (Cons j js)
  from Cons.prems(1) [of j B] Cons.prems(2,3)
  obtain B1 where B1: "r B j = Some (renderSpec A j, B1)" "same_types A B1" "cache_ok B1" by auto
  from Cons.IH [OF _ B1(2,3)] Cons.prems(1) 
  obtain B2 where "renderAll r B1 js = Some (map (renderSpec A) js, B2)" "same_types A B2" "cache_ok B2"
    by (metis list.set_intros(2))
  then show ?case using B1 by simp
qed simp

lemma cache_write:
  assumes "cache_ok B" "same_types A B" "out = renderSpec A i"
  shows "cache_ok (B\<lparr>ar_renderings := (ar_renderings B)[i := out]\<rparr>) \<and>
    same_types A (B\<lparr>ar_renderings := (ar_renderings B)[i := out]\<rparr>)"
proof -
  let ?C = "B\<lparr>ar_renderings := (ar_renderings B)[i := out]\<rparr>"
  have "same_types B ?C" "same_types A ?C" using assms(2) by (simp_all add: same_types_def)
  then have spec: "renderSpec ?C j = renderSpec B j" "renderSpec B j = renderSpec A j" for j
    using same_types_spec assms(2) by metis+
  have "(ar_renderings B)[i := out] ! j = (if i = j \<and> j < length (ar_renderings B) then out else ar_renderings B ! j)" for j
    by (cases "i = j") (auto simp: nth_list_update_eq list_update_beyond)
  then show ?thesis using \<open>same_types A ?C\<close> assms(1,3) spec by (auto simp: cache_ok_def)
qed

lemma render_correct_aux:
  assumes "arena_ok A" "i < n" "same_types A B" "cache_ok B"
  shows "\<exists>B'. render n B i = Some (renderSpec A i, B') \<and> same_types A B' \<and> cache_ok B'"
  using assms(2-4)
proof (induction n arbitrary: i B)
  case (Suc n)
  have find: "findType A i = findType B i" using same_types_find [OF Suc.prems(2)] by simp
  show ?case
  proof (cases "findType B i")
    case None
    then show ?thesis using Suc.prems find by (simp add: renderSpec.simps [of A i])
  next
    case (Some t)
    then have bound: "0 < i" "i < length (ar_types B)" by (auto simp: findType_def split: if_splits)
    show ?thesis
    proof (cases "ar_renderings B ! i = []")
      case False
      then show ?thesis
        using Some Suc.prems bound same_types_spec [OF Suc.prems(2)] by (simp add: cache_ok_def)
    next
      case True
      have less: "j < i" if "j \<in> set (renderParts B t)" for j
        using that set_renderParts [of B t] arena_ok_refs [OF assms(1), of i t j] Some find by auto
      obtain B' where B': "renderAll (render n) B (renderParts B t) = Some (map (renderSpec A) (renderParts B t), B')"
          "same_types A B'" "cache_ok B'"
        using renderAll_correct [of "renderParts B t" A "render n" B] Suc.IH Suc.prems less
        by (meson less_Suc_eq_le order_less_le_trans)
      have "renderParts A = renderParts B"
        using same_types_find [OF Suc.prems(2)] by (auto simp: renderParts_def split: list.split)
      then have "renderSpec A i = renderFormat t (map (renderSpec A) (renderParts B t))"
        using Some find less by (simp add: renderSpec.simps [of A i] cong: map_cong)
      then show ?thesis using cache_write [OF B'(3,2), of _ i] B'(1) Some True by (simp add: Let_def)
    qed
  qed
qed simp

lemma renderSpec_append:
  assumes "arena_ok A" "findType A i \<noteq> None"
  shows "renderSpec (A\<lparr>ar_types := ar_types A @ [u], ar_renderings := rs, ar_index := m\<rparr>) i =
    renderSpec A i" (is "renderSpec ?B i = _")
  using assms(2)
proof (induction i rule: less_induct)
  case (less i)
  then obtain t where t: "findType A i = Some t" by auto
  have zero: "findType ?B 0 = None" "findType A 0 = None" by (simp_all add: findType_def)
  have small: "findType A j = None \<Longrightarrow> j < i \<Longrightarrow> j = 0" for j
    using t by (auto simp: findType_def split: if_splits)
  have same: "findType ?B j = findType A j" if "j < i" for j
    using small [OF _ that] findType_append [of A j, where us = "[u]" and rs = rs and m = m] zero by (cases "findType A j") auto
  have "\<forall>j \<in> set (typeRefs t). j < i" using arena_ok_refs [OF assms(1) t] by blast
  then have parts: "renderParts ?B t = renderParts A t"
    by (auto simp: renderParts_def typeRefs_def same split: list.split)
  have "renderSpec ?B j = renderSpec A j" if "j < i" for j
    using that less.IH [of j] small [of j] zero by (cases "j = 0") (auto simp: renderSpec.simps [of _ 0])
  then show ?case
    using t findType_append [OF t, where us = "[u]" and rs = rs and m = m] parts
    by (simp add: renderSpec.simps [of _ i] cong: if_cong)
qed

lemma intern_cache_ok:
  assumes "arena_ok A" "cache_ok A" "internable A t"
  shows "cache_ok (snd (intern A t))"
proof (cases "ar_index A (normalizeType t)")
  case None
  have "ar_renderings A ! i = renderSpec A i" "findType A i \<noteq> None"
    if "0 < i" "i < length (ar_types A)" "ar_renderings A ! i \<noteq> []" for i
    using that assms(2) by (auto simp: cache_ok_def findType_def)
  then show ?thesis
    using None assms(1) 
    by (auto simp: intern_internable [OF assms(3)] cache_ok_def nth_append arena_ok_def
        renderSpec_append [OF assms(1)] less_Suc_eq)
qed (simp add: intern_internable [OF assms(3)] assms(2))

lemma newTypeArena_cache: "cache_ok newTypeArena"
proof -
  have "ar_renderings newTypeArena ! i = renderSpec newTypeArena i" if "0 < i" "i < 8" for i
  proof -
    from that have "i \<in> {1, 2, 3, 4, 5, 6, 7}" by auto
    moreover have "\<forall>i \<in> {1, 2, 3, 4, 5, 6, 7}.
        ar_renderings newTypeArena ! i = renderSpec newTypeArena i"
      by code_simp
    ultimately show ?thesis by blast
  qed
  moreover have "length (ar_types newTypeArena) = 8" by code_simp
  ultimately show ?thesis by (simp add: cache_ok_def)
qed

text \<open>Rendering a type returns on every id of a well-formed arena, its cache is transparent (the
  text is the one computed from the types alone, whatever was rendered before), and a call leaves
  types and index alone and the cache consistent.\<close>

theorem render_correct:
  assumes "arena_ok A" "cache_ok A" "i < n"
  shows "\<exists>B. render n A i = Some (renderSpec A i, B) \<and> ar_types B = ar_types A \<and>
    ar_index B = ar_index A \<and> arena_ok B \<and> cache_ok B"
  using render_correct_aux [OF assms(1,3) _ assms(2)] same_types_ok [of A] assms(1)
  by (fastforce simp: same_types_def)

theorem render_correct_witness:
  "\<exists>B. render 8 newTypeArena intType = Some (''int'', B) \<and> cache_ok B"
proof -
  have "renderSpec newTypeArena intType = ''int''" by code_simp
  moreover have "intType < 8" by (simp add: intType_def)
  ultimately show ?thesis
    using render_correct [OF newTypeArena_ok newTypeArena_cache, of intType 8] by auto
qed

end
