(* ===== verification/Mir_Opcode.thy ===== *)
theory Mir_Opcode
  imports Mir_Type
begin

text \<open>
  The opcodes of MIR and the tables indexed by them (\<^verbatim>\<open>include/zl/mir/instruction.hpp\<close>,
  \<^verbatim>\<open>src/mir/instruction.cpp\<close>): the printed name, the shape (operand count, result, exceptions,
  side effects) and the predicates that group opcodes. The one enumeration of the source is split
  into three families, which keeps each datatype small: computation, memory and calls; tasks,
  threads and synchronisation; native resources and ownership.
\<close>

datatype core_op =
    O_Nop | O_Add | O_Sub | O_Mul | O_Div | O_Mod | O_Pow | O_Neg | O_BitAnd | O_BitOr
  | O_BitXor | O_BitNot | O_Shl | O_Shr | O_Ushr | O_Eq | O_Ne | O_Lt | O_Le | O_Gt | O_Ge
  | O_Not | O_And | O_Or | O_Widen | O_Refine | O_TypeTest | O_NullCheck | O_IsNull | O_Load
  | O_Store | O_FieldLoad | O_FieldStore | O_IndexLoad | O_IndexStore | O_StaticLoad
  | O_StaticStore | O_Alloc | O_Call | O_InvokeMethod | O_InvokeSuper | O_InvokeStatic
  | O_CallIndirect | O_CallNative | O_MakeClosure | O_NewCollection | O_RangeInBounds | O_Log

datatype sync_op =
    O_Await | O_TaskCreate | O_TaskSpawn | O_TaskBlock | O_TaskIgnore | O_TaskCancel
  | O_ThreadStart | O_ThreadJoin | O_ThreadIsAlive | O_ChannelCreate | O_ChannelSend
  | O_ChannelReceive | O_ChannelSize | O_ChannelSendAsync | O_ChannelReceiveAsync
  | O_MutexWithLock | O_RwLockWithRead | O_RwLockWithWrite | O_AtomicLoad | O_AtomicStore
  | O_AtomicAdd | O_AtomicLoadBool | O_AtomicStoreBool | O_AtomicLoadDouble
  | O_AtomicStoreDouble | O_AtomicLoadRef | O_AtomicStoreRef | O_SemaphoreAcquire
  | O_SemaphoreRelease | O_SemaphoreAvailable | O_SemaphoreSetPermits | O_SemaphoreTryAcquire
  | O_SemaphoreReleaseMany | O_ConditionWait | O_ConditionWaitFor | O_ConditionNotifyOne
  | O_ConditionNotifyAll | O_SharedCreate | O_SharedGet | O_SharedSet | O_SharedWithLock

datatype res_op =
    O_FfiCall | O_HandleBorrow | O_HandleConsume | O_HandleClose | O_CallbackRegister
  | O_CallbackInvoke | O_CallbackClose | O_Move | O_Borrow | O_EndBorrow | O_Drop

datatype opcode = Core core_op | Sync sync_op | Res res_op

primrec coreName :: "core_op \<Rightarrow> string" where
  "coreName O_Nop = ''nop''"
| "coreName O_Add = ''add''"
| "coreName O_Sub = ''sub''"
| "coreName O_Mul = ''mul''"
| "coreName O_Div = ''div''"
| "coreName O_Mod = ''mod''"
| "coreName O_Pow = ''pow''"
| "coreName O_Neg = ''neg''"
| "coreName O_BitAnd = ''bit_and''"
| "coreName O_BitOr = ''bit_or''"
| "coreName O_BitXor = ''bit_xor''"
| "coreName O_BitNot = ''bit_not''"
| "coreName O_Shl = ''shl''"
| "coreName O_Shr = ''shr''"
| "coreName O_Ushr = ''ushr''"
| "coreName O_Eq = ''eq''"
| "coreName O_Ne = ''ne''"
| "coreName O_Lt = ''lt''"
| "coreName O_Le = ''le''"
| "coreName O_Gt = ''gt''"
| "coreName O_Ge = ''ge''"
| "coreName O_Not = ''not''"
| "coreName O_And = ''and''"
| "coreName O_Or = ''or''"
| "coreName O_Widen = ''widen''"
| "coreName O_Refine = ''refine''"
| "coreName O_TypeTest = ''type_test''"
| "coreName O_NullCheck = ''null_check''"
| "coreName O_IsNull = ''is_null''"
| "coreName O_Load = ''load''"
| "coreName O_Store = ''store''"
| "coreName O_FieldLoad = ''field_load''"
| "coreName O_FieldStore = ''field_store''"
| "coreName O_IndexLoad = ''index_load''"
| "coreName O_IndexStore = ''index_store''"
| "coreName O_StaticLoad = ''static_load''"
| "coreName O_StaticStore = ''static_store''"
| "coreName O_Alloc = ''alloc''"
| "coreName O_Call = ''call''"
| "coreName O_InvokeMethod = ''invoke_method''"
| "coreName O_InvokeSuper = ''invoke_super''"
| "coreName O_InvokeStatic = ''invoke_static''"
| "coreName O_CallIndirect = ''call_indirect''"
| "coreName O_CallNative = ''call_native''"
| "coreName O_MakeClosure = ''make_closure''"
| "coreName O_NewCollection = ''new_collection''"
| "coreName O_RangeInBounds = ''range_in_bounds''"
| "coreName O_Log = ''log''"

primrec syncName :: "sync_op \<Rightarrow> string" where
  "syncName O_Await = ''await''"
| "syncName O_TaskCreate = ''task_create''"
| "syncName O_TaskSpawn = ''task_spawn''"
| "syncName O_TaskBlock = ''task_block''"
| "syncName O_TaskIgnore = ''task_ignore''"
| "syncName O_TaskCancel = ''task_cancel''"
| "syncName O_ThreadStart = ''thread_start''"
| "syncName O_ThreadJoin = ''thread_join''"
| "syncName O_ThreadIsAlive = ''thread_is_alive''"
| "syncName O_ChannelCreate = ''channel_create''"
| "syncName O_ChannelSend = ''channel_send''"
| "syncName O_ChannelReceive = ''channel_receive''"
| "syncName O_ChannelSize = ''channel_size''"
| "syncName O_ChannelSendAsync = ''channel_send_async''"
| "syncName O_ChannelReceiveAsync = ''channel_receive_async''"
| "syncName O_MutexWithLock = ''mutex_with_lock''"
| "syncName O_RwLockWithRead = ''rwlock_with_read''"
| "syncName O_RwLockWithWrite = ''rwlock_with_write''"
| "syncName O_AtomicLoad = ''atomic_load''"
| "syncName O_AtomicStore = ''atomic_store''"
| "syncName O_AtomicAdd = ''atomic_add''"
| "syncName O_AtomicLoadBool = ''atomic_load_bool''"
| "syncName O_AtomicStoreBool = ''atomic_store_bool''"
| "syncName O_AtomicLoadDouble = ''atomic_load_double''"
| "syncName O_AtomicStoreDouble = ''atomic_store_double''"
| "syncName O_AtomicLoadRef = ''atomic_load_ref''"
| "syncName O_AtomicStoreRef = ''atomic_store_ref''"
| "syncName O_SemaphoreAcquire = ''semaphore_acquire''"
| "syncName O_SemaphoreRelease = ''semaphore_release''"
| "syncName O_SemaphoreAvailable = ''semaphore_available''"
| "syncName O_SemaphoreSetPermits = ''semaphore_set_permits''"
| "syncName O_SemaphoreTryAcquire = ''semaphore_try_acquire''"
| "syncName O_SemaphoreReleaseMany = ''semaphore_release_many''"
| "syncName O_ConditionWait = ''condition_wait''"
| "syncName O_ConditionWaitFor = ''condition_wait_for''"
| "syncName O_ConditionNotifyOne = ''condition_notify_one''"
| "syncName O_ConditionNotifyAll = ''condition_notify_all''"
| "syncName O_SharedCreate = ''shared_create''"
| "syncName O_SharedGet = ''shared_get''"
| "syncName O_SharedSet = ''shared_set''"
| "syncName O_SharedWithLock = ''shared_with_lock''"

primrec resName :: "res_op \<Rightarrow> string" where
  "resName O_FfiCall = ''ffi_call''"
| "resName O_HandleBorrow = ''handle_borrow''"
| "resName O_HandleConsume = ''handle_consume''"
| "resName O_HandleClose = ''handle_close''"
| "resName O_CallbackRegister = ''callback_register''"
| "resName O_CallbackInvoke = ''callback_invoke''"
| "resName O_CallbackClose = ''callback_close''"
| "resName O_Move = ''move''"
| "resName O_Borrow = ''borrow''"
| "resName O_EndBorrow = ''end_borrow''"
| "resName O_Drop = ''drop''"

primrec opcodeName :: "opcode \<Rightarrow> string" where
  "opcodeName (Core op) = coreName op"
| "opcodeName (Sync op) = syncName op"
| "opcodeName (Res op) = resName op"

datatype terminator_kind =
  TkNone | TkReturn | TkJump | TkBranch | TkSwitch | TkThrow | TkUnreachable

primrec terminatorKindName :: "terminator_kind \<Rightarrow> string" where
  "terminatorKindName TkNone = ''none''"
| "terminatorKindName TkReturn = ''return''"
| "terminatorKindName TkJump = ''jump''"
| "terminatorKindName TkBranch = ''branch''"
| "terminatorKindName TkSwitch = ''switch''"
| "terminatorKindName TkThrow = ''throw''"
| "terminatorKindName TkUnreachable = ''unreachable''"

record opcode_shape =
  sh_operandCount :: nat
  sh_variadicOperands :: bool
  sh_producesResult :: bool
  sh_optionalResult :: bool
  sh_mayThrow :: bool
  sh_hasSideEffects :: bool

definition setOpcodeShape :: "nat \<Rightarrow> bool \<Rightarrow> bool \<Rightarrow> bool \<Rightarrow> bool \<Rightarrow> opcode_shape" where
  "setOpcodeShape operands variadic result throws effects =
     \<lparr>sh_operandCount = operands, sh_variadicOperands = variadic, sh_producesResult = result,
      sh_optionalResult = False, sh_mayThrow = throws, sh_hasSideEffects = effects\<rparr>"

primrec coreShape :: "core_op \<Rightarrow> opcode_shape" where
  "coreShape O_Nop = setOpcodeShape 0 False False False False"
| "coreShape O_Add = setOpcodeShape 2 False True False False"
| "coreShape O_Sub = setOpcodeShape 2 False True False False"
| "coreShape O_Mul = setOpcodeShape 2 False True False False"
| "coreShape O_Div = setOpcodeShape 2 False True True False"
| "coreShape O_Mod = setOpcodeShape 2 False True True False"
| "coreShape O_Pow = setOpcodeShape 2 False True False False"
| "coreShape O_Neg = setOpcodeShape 1 False True False False"
| "coreShape O_BitAnd = setOpcodeShape 2 False True False False"
| "coreShape O_BitOr = setOpcodeShape 2 False True False False"
| "coreShape O_BitXor = setOpcodeShape 2 False True False False"
| "coreShape O_BitNot = setOpcodeShape 1 False True False False"
| "coreShape O_Shl = setOpcodeShape 2 False True False False"
| "coreShape O_Shr = setOpcodeShape 2 False True False False"
| "coreShape O_Ushr = setOpcodeShape 2 False True False False"
| "coreShape O_Eq = setOpcodeShape 2 False True False False"
| "coreShape O_Ne = setOpcodeShape 2 False True False False"
| "coreShape O_Lt = setOpcodeShape 2 False True False False"
| "coreShape O_Le = setOpcodeShape 2 False True False False"
| "coreShape O_Gt = setOpcodeShape 2 False True False False"
| "coreShape O_Ge = setOpcodeShape 2 False True False False"
| "coreShape O_Not = setOpcodeShape 1 False True False False"
| "coreShape O_And = setOpcodeShape 2 False True False False"
| "coreShape O_Or = setOpcodeShape 2 False True False False"
| "coreShape O_Widen = setOpcodeShape 1 False True False False"
| "coreShape O_Refine = setOpcodeShape 1 False True True False"
| "coreShape O_TypeTest = setOpcodeShape 1 False True False False"
| "coreShape O_NullCheck = setOpcodeShape 1 False True True False"
| "coreShape O_IsNull = setOpcodeShape 1 False True False False"
| "coreShape O_Load = setOpcodeShape 0 False True False False"
| "coreShape O_Store = setOpcodeShape 1 False False False True"
| "coreShape O_FieldLoad = setOpcodeShape 1 False True True False"
| "coreShape O_FieldStore = setOpcodeShape 2 False False True True"
| "coreShape O_IndexLoad = setOpcodeShape 2 False True True False"
| "coreShape O_IndexStore = setOpcodeShape 3 False False True True"
| "coreShape O_StaticLoad = setOpcodeShape 0 False True False False"
| "coreShape O_StaticStore = setOpcodeShape 1 False False False True"
| "coreShape O_Alloc = setOpcodeShape 0 False True False False"
| "coreShape O_Call = setOpcodeShape 0 True True True True"
| "coreShape O_InvokeMethod = setOpcodeShape 1 True True True True"
| "coreShape O_InvokeSuper = setOpcodeShape 1 True True True True"
| "coreShape O_InvokeStatic = setOpcodeShape 0 True True True True"
| "coreShape O_CallIndirect = setOpcodeShape 1 True True True True"
| "coreShape O_CallNative = setOpcodeShape 0 True True True True"
| "coreShape O_MakeClosure = setOpcodeShape 0 True True False False"
| "coreShape O_NewCollection = setOpcodeShape 0 False True False False"
| "coreShape O_RangeInBounds = setOpcodeShape 3 False True True False"
| "coreShape O_Log = setOpcodeShape 1 False False False True"

primrec syncShape :: "sync_op \<Rightarrow> opcode_shape" where
  "syncShape O_Await = setOpcodeShape 1 False True True True"
| "syncShape O_TaskCreate = setOpcodeShape 1 False True False False"
| "syncShape O_TaskSpawn = setOpcodeShape 1 False True True True"
| "syncShape O_TaskBlock = setOpcodeShape 1 False True True True"
| "syncShape O_TaskIgnore = setOpcodeShape 1 False False True True"
| "syncShape O_TaskCancel = setOpcodeShape 1 False False True True"
| "syncShape O_ThreadStart = setOpcodeShape 1 False True True True"
| "syncShape O_ThreadJoin = setOpcodeShape 1 False False True True"
| "syncShape O_ThreadIsAlive = setOpcodeShape 1 False True True True"
| "syncShape O_ChannelCreate = setOpcodeShape 1 False True True True"
| "syncShape O_ChannelSend = setOpcodeShape 2 False False True True"
| "syncShape O_ChannelReceive = setOpcodeShape 1 False True True True"
| "syncShape O_ChannelSize = setOpcodeShape 1 False True True True"
| "syncShape O_ChannelSendAsync = setOpcodeShape 2 False True True True"
| "syncShape O_ChannelReceiveAsync = setOpcodeShape 1 False True True True"
| "syncShape O_MutexWithLock = setOpcodeShape 2 False True True True"
| "syncShape O_RwLockWithRead = setOpcodeShape 2 False True True True"
| "syncShape O_RwLockWithWrite = setOpcodeShape 2 False True True True"
| "syncShape O_AtomicLoad = setOpcodeShape 1 False True True True"
| "syncShape O_AtomicStore = setOpcodeShape 2 False False True True"
| "syncShape O_AtomicAdd = setOpcodeShape 2 False True True True"
| "syncShape O_AtomicLoadBool = setOpcodeShape 1 False True True True"
| "syncShape O_AtomicStoreBool = setOpcodeShape 2 False False True True"
| "syncShape O_AtomicLoadDouble = setOpcodeShape 1 False True True True"
| "syncShape O_AtomicStoreDouble = setOpcodeShape 2 False False True True"
| "syncShape O_AtomicLoadRef = setOpcodeShape 1 False True True True"
| "syncShape O_AtomicStoreRef = setOpcodeShape 2 False False True True"
| "syncShape O_SemaphoreAcquire = setOpcodeShape 1 False False True True"
| "syncShape O_SemaphoreRelease = setOpcodeShape 1 False False True True"
| "syncShape O_SemaphoreAvailable = setOpcodeShape 1 False True True True"
| "syncShape O_SemaphoreSetPermits = setOpcodeShape 2 False False True True"
| "syncShape O_SemaphoreTryAcquire = setOpcodeShape 1 False True True True"
| "syncShape O_SemaphoreReleaseMany = setOpcodeShape 2 False False True True"
| "syncShape O_ConditionWait = setOpcodeShape 1 False False True True"
| "syncShape O_ConditionWaitFor = setOpcodeShape 2 False True True True"
| "syncShape O_ConditionNotifyOne = setOpcodeShape 1 False False True True"
| "syncShape O_ConditionNotifyAll = setOpcodeShape 1 False False True True"
| "syncShape O_SharedCreate = setOpcodeShape 1 False True False False"
| "syncShape O_SharedGet = setOpcodeShape 1 False True True True"
| "syncShape O_SharedSet = setOpcodeShape 2 False False True True"
| "syncShape O_SharedWithLock = setOpcodeShape 2 False True True True"

primrec resShape :: "res_op \<Rightarrow> opcode_shape" where
  "resShape O_FfiCall = setOpcodeShape 0 True True True True"
| "resShape O_HandleBorrow = setOpcodeShape 1 False True True False"
| "resShape O_HandleConsume = setOpcodeShape 1 False True True True"
| "resShape O_HandleClose = setOpcodeShape 1 False False True True"
| "resShape O_CallbackRegister = setOpcodeShape 1 False True True True"
| "resShape O_CallbackInvoke = setOpcodeShape 1 True True True True"
| "resShape O_CallbackClose = setOpcodeShape 1 False False True True"
| "resShape O_Move = setOpcodeShape 0 False True False True"
| "resShape O_Borrow = setOpcodeShape 1 False False False True"
| "resShape O_EndBorrow = setOpcodeShape 0 False False False True"
| "resShape O_Drop = setOpcodeShape 0 True False False True"

primrec opcodeShapeRow :: "opcode \<Rightarrow> opcode_shape" where
  "opcodeShapeRow (Core op) = coreShape op"
| "opcodeShapeRow (Sync op) = syncShape op"
| "opcodeShapeRow (Res op) = resShape op"

definition opcodeShape :: "opcode \<Rightarrow> opcode_shape" where
  "opcodeShape op =
     (if op \<in> {Core O_Call, Core O_InvokeMethod, Core O_InvokeSuper, Core O_InvokeStatic,
               Core O_CallIndirect, Core O_CallNative, Sync O_Await, Sync O_TaskBlock,
               Sync O_MutexWithLock, Sync O_RwLockWithRead, Sync O_RwLockWithWrite,
               Sync O_SharedWithLock, Res O_FfiCall, Res O_CallbackInvoke}
      then (opcodeShapeRow op)\<lparr>sh_optionalResult := True\<rparr>
      else opcodeShapeRow op)"

definition opcodeUsesSlot :: "opcode \<Rightarrow> bool" where
  "opcodeUsesSlot op =
     (op \<in> {Core O_Load, Core O_Store, Res O_Move, Res O_Borrow, Res O_EndBorrow, Res O_Drop})"

definition opcodeIsCall :: "opcode \<Rightarrow> bool" where
  "opcodeIsCall op =
     (op \<in> {Core O_Call, Core O_InvokeMethod, Core O_InvokeSuper, Core O_InvokeStatic,
            Core O_CallIndirect, Core O_CallNative})"

definition opcodeIsSuspension :: "opcode \<Rightarrow> bool" where
  "opcodeIsSuspension op = (op = Sync O_Await)"

definition opcodeIsThreadBoundary :: "opcode \<Rightarrow> bool" where
  "opcodeIsThreadBoundary op = (op = Sync O_TaskSpawn \<or> op = Sync O_ThreadStart)"

definition opcodeIsBlocking :: "opcode \<Rightarrow> bool" where
  "opcodeIsBlocking op =
     (op \<in> {Sync O_TaskBlock, Sync O_ThreadJoin, Sync O_ChannelSend, Sync O_ChannelReceive,
            Sync O_MutexWithLock, Sync O_RwLockWithRead, Sync O_RwLockWithWrite,
            Sync O_SemaphoreAcquire, Sync O_ConditionWait, Sync O_ConditionWaitFor,
            Sync O_SharedWithLock})"

definition opcodeIsScopedLock :: "opcode \<Rightarrow> bool" where
  "opcodeIsScopedLock op =
     (op \<in> {Sync O_MutexWithLock, Sync O_RwLockWithRead, Sync O_RwLockWithWrite,
            Sync O_SharedWithLock})"

definition opcodeIsFfi :: "opcode \<Rightarrow> bool" where
  "opcodeIsFfi op =
     (op \<in> {Res O_FfiCall, Res O_HandleBorrow, Res O_HandleConsume, Res O_HandleClose,
            Res O_CallbackRegister, Res O_CallbackInvoke, Res O_CallbackClose})"

definition opcodeRequiresRuntimeCheck :: "opcode \<Rightarrow> bool" where
  "opcodeRequiresRuntimeCheck op =
     (op \<in> {Sync O_Await, Sync O_TaskSpawn, Sync O_TaskBlock, Sync O_TaskIgnore,
            Sync O_TaskCancel, Sync O_ThreadStart, Sync O_ThreadJoin, Sync O_ThreadIsAlive,
            Sync O_ChannelCreate, Sync O_ChannelSend, Sync O_ChannelReceive,
            Sync O_ChannelSize, Sync O_ChannelSendAsync, Sync O_ChannelReceiveAsync,
            Sync O_MutexWithLock, Sync O_RwLockWithRead, Sync O_RwLockWithWrite,
            Sync O_AtomicLoad, Sync O_AtomicStore, Sync O_AtomicAdd, Sync O_AtomicLoadBool,
            Sync O_AtomicStoreBool, Sync O_AtomicLoadDouble, Sync O_AtomicStoreDouble,
            Sync O_AtomicLoadRef, Sync O_AtomicStoreRef, Sync O_SemaphoreAcquire,
            Sync O_SemaphoreRelease, Sync O_SemaphoreAvailable, Sync O_SemaphoreSetPermits,
            Sync O_SemaphoreTryAcquire, Sync O_SemaphoreReleaseMany, Sync O_ConditionWait,
            Sync O_ConditionWaitFor, Sync O_ConditionNotifyOne, Sync O_ConditionNotifyAll,
            Sync O_SharedGet, Sync O_SharedSet, Sync O_SharedWithLock, Res O_FfiCall,
            Res O_HandleBorrow, Res O_HandleConsume, Res O_HandleClose, Res O_CallbackRegister,
            Res O_CallbackInvoke, Res O_CallbackClose})"

end
