(* ===== verification/Mir_Core.thy ===== *)
theory Mir_Core
  imports Mir_Opcode Zl_Double "HOL-Library.Product_Lexorder"
begin

text \<open>
  The data model of MIR (\<^verbatim>\<open>include/zl/mir/value.hpp\<close>, \<^verbatim>\<open>instruction.hpp\<close>, \<^verbatim>\<open>function.hpp\<close>) and the
  operations of \<^verbatim>\<open>src/mir/function.cpp\<close> on it: lookups by id, the edge list, the constant pool.
  Ids are natural numbers with 0 reserved for "none" as in the source; the source's ids are 32 bits
  wide and are assumed not to run out. A \<open>Constant\<close> is a tagged union whose inactive members are
  never read; the datatype has the active one only. Two doubles are the same constant when their
  bits are, which is equality of \<open>f64\<close> (a NaN payload is not modelled).
\<close>

record source_location =
  sl_file :: string
  sl_line :: nat
  sl_column :: nat

definition validLocation :: "source_location \<Rightarrow> bool" where
  "validLocation l = (sl_line l \<noteq> 0)"

definition describeLocation :: "source_location \<Rightarrow> string" where
  "describeLocation l =
     (if sl_file l \<noteq> [] then sl_file l @ '':'' else []) @ ''line '' @ nat_to_string (sl_line l) @
     (if sl_column l \<noteq> 0 then '':'' @ nat_to_string (sl_column l) else [])"

datatype ownership_kind = OwnGC | OwnOWNED | OwnBORROW | OwnSHARED

fun ownershipName :: "ownership_kind \<Rightarrow> string" where
  "ownershipName OwnGC = ''gc''"
| "ownershipName OwnOWNED = ''owned''"
| "ownershipName OwnBORROW = ''borrow''"
| "ownershipName OwnSHARED = ''shared''"

subsection \<open>Constants and operands\<close>

type_synonym temp_id = nat
type_synonym slot_id = nat
type_synonym param_id = nat
type_synonym block_id = nat
type_synonym const_id = nat
type_synonym function_id = nat
type_synonym static_id = nat
type_synonym block_param_id = nat

datatype mir_constant =
    CBool bool
  | CInt int64
  | CDouble f64
  | CString string
  | CNil
  | CEnumMember string string

fun constKindName :: "mir_constant \<Rightarrow> string" where
  "constKindName (CBool _) = ''bool''"
| "constKindName (CInt _) = ''int''"
| "constKindName (CDouble _) = ''double''"
| "constKindName (CString _) = ''string''"
| "constKindName CNil = ''nil''"
| "constKindName (CEnumMember _ _) = ''enum''"

datatype operand_kind = OkNone | OkConst | OkTemp | OkParam | OkBlockParam | OkStatic

fun operandKindName :: "operand_kind \<Rightarrow> string" where
  "operandKindName OkNone = ''none''"
| "operandKindName OkConst = ''const''"
| "operandKindName OkTemp = ''temp''"
| "operandKindName OkParam = ''param''"
| "operandKindName OkBlockParam = ''block-param''"
| "operandKindName OkStatic = ''static''"

record operand =
  op_kind :: operand_kind
  op_type :: type_id
  op_index :: nat

definition noOperand :: operand where
  "noOperand = \<lparr>op_kind = OkNone, op_type = 0, op_index = 0\<rparr>"

definition constOperand :: "const_id \<Rightarrow> type_id \<Rightarrow> operand" where
  "constOperand i t = \<lparr>op_kind = OkConst, op_type = t, op_index = i\<rparr>"

definition tempOperand :: "temp_id \<Rightarrow> type_id \<Rightarrow> operand" where
  "tempOperand i t = \<lparr>op_kind = OkTemp, op_type = t, op_index = i\<rparr>"

definition paramOperand :: "param_id \<Rightarrow> type_id \<Rightarrow> operand" where
  "paramOperand i t = \<lparr>op_kind = OkParam, op_type = t, op_index = i\<rparr>"

definition blockParamOperand :: "block_param_id \<Rightarrow> type_id \<Rightarrow> operand" where
  "blockParamOperand i t = \<lparr>op_kind = OkBlockParam, op_type = t, op_index = i\<rparr>"

definition isNoneOperand :: "operand \<Rightarrow> bool" where
  "isNoneOperand o' = (op_kind o' = OkNone)"

text \<open>A \<open>ValueId\<close> names an SSA value: a temp, a parameter or a block parameter.\<close>

type_synonym value_id = "operand_kind \<times> nat"

definition validValue :: "value_id \<Rightarrow> bool" where
  "validValue v = (fst v \<noteq> OkNone)"

definition valueOf :: "operand \<Rightarrow> value_id" where
  "valueOf o' =
     (if op_kind o' \<in> {OkParam, OkTemp, OkBlockParam} then (op_kind o', op_index o')
      else (OkNone, 0))"

subsection \<open>Instructions and terminators\<close>

datatype native_abi_tag = AbiI64 | AbiF64 | AbiBool | AbiHandle | AbiBufferView | AbiStructView | AbiCallback

fun nativeAbiTagName :: "native_abi_tag \<Rightarrow> string" where
  "nativeAbiTagName AbiI64 = ''i64''"
| "nativeAbiTagName AbiF64 = ''f64''"
| "nativeAbiTagName AbiBool = ''bool''"
| "nativeAbiTagName AbiHandle = ''handle''"
| "nativeAbiTagName AbiBufferView = ''buffer''"
| "nativeAbiTagName AbiStructView = ''struct''"
| "nativeAbiTagName AbiCallback = ''callback''"

datatype native_ownership = NoNone | NoBorrowed | NoOwned | NoConsumed

fun nativeOwnershipName :: "native_ownership \<Rightarrow> string" where
  "nativeOwnershipName NoNone = ''none''"
| "nativeOwnershipName NoBorrowed = ''borrowed''"
| "nativeOwnershipName NoOwned = ''owned''"
| "nativeOwnershipName NoConsumed = ''consumed''"

record call_target =
  ct_function :: function_id
  ct_className :: string
  ct_methodName :: string
  ct_nativeName :: string
  ct_nativeId :: int
  ct_argumentTypes :: "type_id list"
  ct_resultType :: type_id
  ct_isAsync :: bool
  ct_nativeParamOwnership :: "native_ownership list"
  ct_nativeReturnOwnership :: native_ownership
  ct_ffiLibrary :: string
  ct_ffiSymbol :: string
  ct_ffiParamTags :: "native_abi_tag list"
  ct_ffiReturnTag :: native_abi_tag
  ct_ffiParamOwnership :: "native_ownership list"
  ct_ffiReturnOwnership :: native_ownership

record instruction =
  in_opcode :: opcode
  in_result :: temp_id
  in_resultType :: type_id
  in_operands :: "operand list"
  in_name :: string
  in_target :: call_target
  in_className :: string
  in_typeArguments :: "type_id list"
  in_testedType :: type_id
  in_slot :: slot_id
  in_location :: source_location

record terminator =
  te_kind :: terminator_kind
  te_value :: operand
  te_target :: block_id
  te_elseBlock :: block_id
  te_cases :: "(int64 \<times> block_id) list"
  te_edgeArguments :: "operand list list"
  te_location :: source_location

definition successors :: "terminator \<Rightarrow> block_id list" where
  "successors t =
     (case te_kind t of
        TkJump \<Rightarrow> filter (\<lambda>b. b \<noteq> 0) [te_target t]
      | TkBranch \<Rightarrow> filter (\<lambda>b. b \<noteq> 0) [te_target t, te_elseBlock t]
      | TkSwitch \<Rightarrow> filter (\<lambda>b. b \<noteq> 0) (map snd (te_cases t) @ [te_target t])
      | _ \<Rightarrow> [])"

definition argumentsFor :: "terminator \<Rightarrow> nat \<Rightarrow> operand list" where
  "argumentsFor t i = (if i < length (te_edgeArguments t) then te_edgeArguments t ! i else [])"

subsection \<open>Functions and modules\<close>

datatype block_kind = BkNormal | BkCatch | BkCleanup

fun blockKindName :: "block_kind \<Rightarrow> string" where
  "blockKindName BkNormal = ''normal''"
| "blockKindName BkCatch = ''catch''"
| "blockKindName BkCleanup = ''cleanup''"

record exception_handler =
  eh_catchType :: type_id
  eh_block :: block_id
  eh_catchSlot :: slot_id
  eh_isFinally :: bool

datatype edge_kind = EkNormal | EkUnwind

record cf_edge =
  ed_from :: block_id
  ed_to :: block_id
  ed_kind :: edge_kind

record block_parameter =
  bp_id :: block_param_id
  bp_name :: string
  bp_type :: type_id

record basic_block =
  bb_id :: block_id
  bb_kind :: block_kind
  bb_parameters :: "block_parameter list"
  bb_instructions :: "instruction list"
  bb_terminator :: terminator
  bb_exceptionHandlers :: "exception_handler list"
  bb_location :: source_location

datatype exception_behavior = EbUnknown | EbNoThrow | EbMayThrow

fun exceptionBehaviorName :: "exception_behavior \<Rightarrow> string" where
  "exceptionBehaviorName EbUnknown = ''unknown''"
| "exceptionBehaviorName EbNoThrow = ''nothrow''"
| "exceptionBehaviorName EbMayThrow = ''maythrow''"

record mir_slot =
  so_name :: string
  so_type :: type_id
  so_isMutable :: bool
  so_isCatchBinding :: bool
  so_ownership :: ownership_kind
  so_borrowSource :: string

record mir_parameter =
  pa_name :: string
  pa_type :: type_id
  pa_ownership :: ownership_kind
  pa_borrowSource :: string

record capture_spec =
  cs_name :: string
  cs_storage :: string
  cs_type :: type_id
  cs_usesThis :: bool

record mir_function =
  fn_id :: function_id
  fn_name :: string
  fn_ownerClass :: string
  fn_simpleName :: string
  fn_parameters :: "mir_parameter list"
  fn_hasThisParameter :: bool
  fn_returnType :: type_id
  fn_slots :: "mir_slot list"
  fn_blocks :: "basic_block list"
  fn_entryBlock :: block_id
  fn_edges :: "cf_edge list"
  fn_isAsync :: bool
  fn_isNative :: bool
  fn_exceptionBehavior :: exception_behavior
  fn_captures :: "capture_spec list"
  fn_incomplete :: bool

record field_layout =
  fl_name :: string
  fl_type :: type_id
  fl_ownership :: ownership_kind
  fl_isStatic :: bool

record class_layout =
  cl_name :: string
  cl_parent :: string
  cl_interfaces :: "string list"
  cl_fields :: "field_layout list"
  cl_isData :: bool
  cl_isEnum :: bool
  cl_enumMembers :: "string list"

record interface_method =
  im_name :: string
  im_parameterTypes :: "type_id list"
  im_returnType :: type_id

record interface_info =
  ii_name :: string
  ii_bases :: "string list"
  ii_methods :: "interface_method list"

record static_field =
  sf_id :: static_id
  sf_className :: string
  sf_name :: string
  sf_type :: type_id
  sf_initializer :: function_id

record mir_module =
  mo_types :: type_arena
  mo_functions :: "mir_function list"
  mo_statics :: "static_field list"
  mo_classes :: "class_layout list"
  mo_interfaces :: "interface_info list"
  mo_constants :: "mir_constant list"
  mo_constantIndex :: "mir_constant \<rightharpoonup> const_id"
  mo_entryPoint :: function_id

definition blockById :: "mir_function \<Rightarrow> block_id \<Rightarrow> basic_block option" where
  "blockById f i = (if i = 0 then None else find (\<lambda>b. bb_id b = i) (fn_blocks f))"

definition parameterById :: "mir_function \<Rightarrow> param_id \<Rightarrow> mir_parameter option" where
  "parameterById f i = (if i < length (fn_parameters f) then Some (fn_parameters f ! i) else None)"

text \<open>The tables of a module and the slots of a function number their entries from 1.\<close>

definition nth_from_1 :: "'a list \<Rightarrow> nat \<Rightarrow> 'a option" where
  "nth_from_1 xs i = (if i = 0 \<or> length xs < i then None else Some (xs ! (i - 1)))"

definition slotById :: "mir_function \<Rightarrow> slot_id \<Rightarrow> mir_slot option" where
  "slotById f i = nth_from_1 (fn_slots f) i"

definition blockParameter :: "mir_function \<Rightarrow> block_param_id \<Rightarrow> block_parameter option" where
  "blockParameter f i =
     (if i = 0 then None
      else find (\<lambda>p. bp_id p = i) (concat (map bb_parameters (fn_blocks f))))"

definition blockOfParameter :: "mir_function \<Rightarrow> block_param_id \<Rightarrow> basic_block option" where
  "blockOfParameter f i =
     (if i = 0 then None
      else find (\<lambda>b. \<exists>p \<in> set (bb_parameters b). bp_id p = i) (fn_blocks f))"

definition nextBlockParameterId :: "mir_function \<Rightarrow> block_param_id" where
  "nextBlockParameterId f =
     fold (\<lambda>b next. fold (\<lambda>p next. if next \<le> bp_id p then bp_id p + 1 else next) (bb_parameters b) next)
       (fn_blocks f) 1"

definition declaredName :: "mir_function \<Rightarrow> string" where
  "declaredName f = takeWhile (\<lambda>c. c \<noteq> CHR ''('') (fn_simpleName f)"

definition blockEdges :: "basic_block \<Rightarrow> cf_edge list" where
  "blockEdges b =
     map (\<lambda>s. \<lparr>ed_from = bb_id b, ed_to = s, ed_kind = EkNormal\<rparr>) (successors (bb_terminator b)) @
     map (\<lambda>h. \<lparr>ed_from = bb_id b, ed_to = eh_block h, ed_kind = EkUnwind\<rparr>)
       (filter (\<lambda>h. eh_block h \<noteq> 0) (bb_exceptionHandlers b))"

definition edgeKey :: "cf_edge \<Rightarrow> nat \<times> nat \<times> nat" where
  "edgeKey e = (ed_from e, (case ed_kind e of EkNormal \<Rightarrow> 0 | EkUnwind \<Rightarrow> 1), ed_to e)"

definition rebuildEdges :: "mir_function \<Rightarrow> mir_function" where
  "rebuildEdges f = f\<lparr>fn_edges := sort_key edgeKey (concat (map blockEdges (fn_blocks f)))\<rparr>"

definition classField :: "class_layout \<Rightarrow> string \<Rightarrow> field_layout option" where
  "classField c n = find (\<lambda>f. fl_name f = n) (cl_fields c)"

definition functionById :: "mir_module \<Rightarrow> function_id \<Rightarrow> mir_function option" where
  "functionById m i = nth_from_1 (mo_functions m) i"

definition classLayout :: "mir_module \<Rightarrow> string \<Rightarrow> class_layout option" where
  "classLayout m n = find (\<lambda>c. cl_name c = n) (mo_classes m)"

definition interfaceMethod :: "interface_info \<Rightarrow> string \<Rightarrow> interface_method option" where
  "interfaceMethod i n = find (\<lambda>m. im_name m = n) (ii_methods i)"

definition interfaceInfo :: "mir_module \<Rightarrow> string \<Rightarrow> interface_info option" where
  "interfaceInfo m n = find (\<lambda>i. ii_name i = n) (mo_interfaces m)"

definition constantById :: "mir_module \<Rightarrow> const_id \<Rightarrow> mir_constant option" where
  "constantById m i = nth_from_1 (mo_constants m) i"

definition staticField :: "mir_module \<Rightarrow> static_id \<Rightarrow> static_field option" where
  "staticField m i = nth_from_1 (mo_statics m) i"

definition internConstant :: "mir_module \<Rightarrow> mir_constant \<Rightarrow> const_id \<times> mir_module" where
  "internConstant m v =
     (case mo_constantIndex m v of
        Some i \<Rightarrow> (i, m)
      | None \<Rightarrow>
          (let i = Suc (length (mo_constants m))
           in (i, m\<lparr>mo_constants := mo_constants m @ [v],
                    mo_constantIndex := (mo_constantIndex m)(v \<mapsto> i)\<rparr>)))"

subsection \<open>The constant pool is an interner\<close>

definition pool_ok :: "mir_module \<Rightarrow> bool" where
  "pool_ok m \<longleftrightarrow> (\<forall>v i. mo_constantIndex m v = Some i \<longleftrightarrow> constantById m i = Some v)"

lemma constantById_append:
  "constantById (m\<lparr>mo_constants := mo_constants m @ [v], mo_constantIndex := x\<rparr>) i =
     (if i = Suc (length (mo_constants m)) then Some v else constantById m i)"
  by (auto simp: constantById_def nth_from_1_def nth_append)

lemma constantById_fresh: "constantById m (Suc (length (mo_constants m))) = None"
  by (simp add: constantById_def nth_from_1_def)

interpretation pool: interner constantById internConstant pool_ok "\<lambda>_ _. True" id
proof
  fix m v w i
  assume ok: "pool_ok m"
  show "pool_ok (snd (internConstant m v))"
  proof (cases "mo_constantIndex m v")
    case None
    have "constantById m j \<noteq> Some v" for j using ok None unfolding pool_ok_def by (metis option.simps(3))
    then show ?thesis using ok None constantById_fresh [of m]
      by (auto simp: internConstant_def pool_ok_def constantById_append)
  qed (simp add: internConstant_def ok)
  show "constantById (snd (internConstant m v)) (fst (internConstant m v)) = Some (id v)"
    using ok by (auto simp: internConstant_def Let_def constantById_append pool_ok_def split: option.split)
  show "constantById m i = Some w \<Longrightarrow> constantById (snd (internConstant m v)) i = Some w"
    using constantById_fresh [of m]
    by (auto simp: internConstant_def Let_def constantById_append split: option.split)
  show "constantById m i = Some (id v) \<Longrightarrow> internConstant m v = (i, m)"
  proof -
    assume "constantById m i = Some (id v)"
    then have "mo_constantIndex m v = Some i" using ok by (simp add: pool_ok_def)
    then show ?thesis by (simp add: internConstant_def)
  qed
qed simp

text \<open>Interning a constant a second time, after any other constants were interned, gives the first
  id again; the id finds exactly that constant.\<close>

theorem internConstant_stable:
  assumes "pool_ok m" and "internConstant m v = (i, m')"
    and "m'' = foldl (\<lambda>m w. snd (internConstant m w)) m' ws"
  shows "internConstant m'' v = (i, m'') \<and> constantById m'' i = Some v \<and> pool_ok m''"
proof -
  have i: "constantById m' i = Some v" and ok: "pool_ok m'"
    using pool.put_get [OF assms(1), of v] pool.put_inv [OF assms(1), of v] assms(2) by simp_all
  then have "pool_ok m'' \<and> constantById m'' i = Some v"
    unfolding assms(3) using pool.puts_keep [of m' ws] by simp
  then show ?thesis using pool.put_found [of m''] by simp
qed

definition empty_module :: mir_module where
  "empty_module =
     \<lparr>mo_types = newTypeArena, mo_functions = [], mo_statics = [], mo_classes = [],
      mo_interfaces = [], mo_constants = [], mo_constantIndex = Map.empty, mo_entryPoint = 0\<rparr>"

lemma empty_module_pool: "pool_ok empty_module"
  by (simp add: pool_ok_def empty_module_def constantById_def nth_from_1_def)

theorem internConstant_stable_witness:
  "\<exists>m i m'. pool_ok m \<and> internConstant m (CInt 7) = (i, m') \<and>
     fst (internConstant (foldl (\<lambda>m w. snd (internConstant m w)) m' [CBool True]) (CInt 7)) = i"
proof -
  obtain i m' where eq: "internConstant empty_module (CInt 7) = (i, m')" by fastforce
  from internConstant_stable [OF empty_module_pool eq refl, of "[CBool True]"] eq empty_module_pool
  show ?thesis by (intro exI [of _ empty_module] exI [of _ i] exI [of _ m']) simp
qed

subsection \<open>Edges\<close>

lemma set_successors:
  "s \<in> set (successors t) \<Longrightarrow> s \<noteq> 0"
  by (auto simp: successors_def split: terminator_kind.splits if_splits)

text \<open>The rebuilt edge list holds exactly the successor edges of the terminators and the unwind
  edges of the handlers, in the deterministic order by source, kind and target, and depends on the
  blocks only.\<close>

theorem rebuildEdges_correct:
  "sorted (map edgeKey (fn_edges (rebuildEdges f))) \<and>
   fn_edges (rebuildEdges (rebuildEdges f)) = fn_edges (rebuildEdges f) \<and>
   (e \<in> set (fn_edges (rebuildEdges f)) \<longleftrightarrow>
     (\<exists>b \<in> set (fn_blocks f). ed_from e = bb_id b \<and> ed_to e \<noteq> 0 \<and>
        (case ed_kind e of
           EkNormal \<Rightarrow> ed_to e \<in> set (successors (bb_terminator b))
         | EkUnwind \<Rightarrow> ed_to e \<in> eh_block ` set (bb_exceptionHandlers b))))"
proof -
  have mem: "e \<in> set (blockEdges b) \<longleftrightarrow> ed_from e = bb_id b \<and> ed_to e \<noteq> 0 \<and>
        (case ed_kind e of
           EkNormal \<Rightarrow> ed_to e \<in> set (successors (bb_terminator b))
         | EkUnwind \<Rightarrow> ed_to e \<in> eh_block ` set (bb_exceptionHandlers b))" for b
    by (cases e) (auto simp: blockEdges_def dest: set_successors split: edge_kind.split)
  show ?thesis by (simp add: rebuildEdges_def mem)
qed

lemma fold_next_id:
  "n \<le> fold (\<lambda>p next. if next \<le> bp_id p then bp_id p + 1 else next) ps n \<and>
   (\<forall>p \<in> set ps. bp_id p < fold (\<lambda>p next. if next \<le> bp_id p then bp_id p + 1 else next) ps n)"
proof (induction ps arbitrary: n)
  case (Cons p ps)
  let ?n = "if n \<le> bp_id p then bp_id p + 1 else n"
  have "n \<le> ?n" "bp_id p < ?n" by auto
  then show ?case using Cons.IH [of ?n] by (simp only: fold_Cons o_apply set_ConsD list.set) force
qed simp

lemma nextBlockParameterId_fresh:
  assumes "b \<in> set (fn_blocks f)" "p \<in> set (bb_parameters b)"
  shows "bp_id p < nextBlockParameterId f"
proof -
  let ?step = "\<lambda>b next. fold (\<lambda>p next. if next \<le> bp_id p then bp_id p + 1 else next) (bb_parameters b) next"
  have "n \<le> fold ?step bs n \<and> (\<forall>b \<in> set bs. \<forall>p \<in> set (bb_parameters b). bp_id p < fold ?step bs n)" for bs n
  proof (induction bs arbitrary: n)
    case (Cons b bs)
    from Cons.IH [of "?step b n"] fold_next_id [of n "bb_parameters b"] show ?case
      by (simp only: fold_Cons o_apply list.set) force
  qed simp
  then show ?thesis using assms unfolding nextBlockParameterId_def by blast
qed

end
