(* ===== verification/Mir_Cfg.thy ===== *)
theory Mir_Cfg
  imports Mir_Core
begin

text \<open>
  The control-flow graph of a function (\<^verbatim>\<open>src/mir/analysis.cpp\<close>): edges by block id, reachability by
  a queue, the iterative depth-first search that gives the reverse post-order, and the removal of
  unreachable blocks. \<open>ControlFlowGraph\<close> computes its members once in the constructor; here each
  member is a function of the \<open>mir_function\<close> it was built from. The sets of the source are lists in
  the order of insertion, membership is all that is asked of them.
\<close>

subsection \<open>Edges\<close>

text \<open>\<open>indexOf_\<close>: a repeated id is overwritten, so the last block with an id has it.\<close>

definition blockIndex :: "mir_function \<Rightarrow> block_id \<Rightarrow> nat option" where
  "blockIndex f i =
     find (\<lambda>k. bb_id (fn_blocks f ! k) = i) (rev [0..<length (fn_blocks f)])"

definition isValid :: "mir_function \<Rightarrow> block_id \<Rightarrow> bool" where
  "isValid f i \<longleftrightarrow> blockIndex f i \<noteq> None"

definition cfgSuccessors :: "mir_function \<Rightarrow> block_id \<Rightarrow> block_id list" where
  "cfgSuccessors f i =
     (case blockIndex f i of
        None \<Rightarrow> []
      | Some k \<Rightarrow> filter (isValid f) (successors (bb_terminator (fn_blocks f ! k))))"

definition cfgPredecessors :: "mir_function \<Rightarrow> block_id \<Rightarrow> block_id list" where
  "cfgPredecessors f i =
     (case blockIndex f i of
        None \<Rightarrow> []
      | Some k \<Rightarrow>
          concat (map (\<lambda>b. map (\<lambda>_. bb_id b)
                       (filter (\<lambda>s. blockIndex f s = Some k) (successors (bb_terminator b))))
                   (fn_blocks f)))"

definition unwindSuccessors :: "mir_function \<Rightarrow> block_id \<Rightarrow> block_id list" where
  "unwindSuccessors f i =
     (case blockIndex f i of
        None \<Rightarrow> []
      | Some k \<Rightarrow>
          filter (\<lambda>s. s \<noteq> 0 \<and> isValid f s)
            (map eh_block (bb_exceptionHandlers (fn_blocks f ! k))))"

definition unwindPredecessors :: "mir_function \<Rightarrow> block_id \<Rightarrow> block_id list" where
  "unwindPredecessors f i =
     (case blockIndex f i of
        None \<Rightarrow> []
      | Some k \<Rightarrow>
          concat (map (\<lambda>b. map (\<lambda>_. bb_id b)
                       (filter (\<lambda>s. s \<noteq> 0 \<and> blockIndex f s = Some k)
                         (map eh_block (bb_exceptionHandlers b))))
                   (fn_blocks f)))"

text \<open>The edges a traversal follows: normal ones, or both kinds.\<close>

definition edgesOut :: "mir_function \<Rightarrow> bool \<Rightarrow> block_id \<Rightarrow> block_id list" where
  "edgesOut f unwind i = cfgSuccessors f i @ (if unwind then unwindSuccessors f i else [])"

definition blockIds :: "mir_function \<Rightarrow> block_id set" where
  "blockIds f = bb_id ` set (fn_blocks f)"

lemma successors_nonzero [simp]: "0 \<notin> set (successors t)"
  by (auto simp: successors_def split: terminator_kind.splits)

lemma finite_blockIds [simp]: "finite (blockIds f)"
  by (simp add: blockIds_def)

lemma blockIndex_SomeD:
  assumes "blockIndex f i = Some k"
  shows "k < length (fn_blocks f) \<and> bb_id (fn_blocks f ! k) = i"
  using assms by (auto simp: blockIndex_def find_Some_iff rev_nth)

lemma isValid_iff: "isValid f i \<longleftrightarrow> i \<in> blockIds f"
  unfolding isValid_def blockIndex_def blockIds_def
  by (auto simp: find_None_iff image_iff in_set_conv_nth intro: nth_mem)

lemma edgesOut_valid: "set (edgesOut f u i) \<subseteq> blockIds f"
  by (auto simp: edgesOut_def cfgSuccessors_def unwindSuccessors_def isValid_iff split: option.splits)

lemma edgesOut_from: "s \<in> set (edgesOut f u i) \<Longrightarrow> i \<in> blockIds f"
  using isValid_iff [of f i]
  by (auto simp: edgesOut_def cfgSuccessors_def unwindSuccessors_def isValid_def split: option.splits if_splits)

lemma blockIndex_distinct:
  assumes "distinct (map bb_id (fn_blocks f))" and "k < length (fn_blocks f)"
  shows "blockIndex f (bb_id (fn_blocks f ! k)) = Some k"
proof -
  have "isValid f (bb_id (fn_blocks f ! k))" using assms(2) by (auto simp: isValid_iff blockIds_def)
  then obtain j where j: "blockIndex f (bb_id (fn_blocks f ! k)) = Some j" by (auto simp: isValid_def)
  then have "j < length (fn_blocks f)" "map bb_id (fn_blocks f) ! j = map bb_id (fn_blocks f) ! k"
    using blockIndex_SomeD [OF j] assms(2) by auto
  then show ?thesis using j assms nth_eq_iff_index_eq [OF assms(1)] by simp
qed

lemma in_cfgSuccessors:
  "b \<in> set (cfgSuccessors f p) \<longleftrightarrow>
     (\<exists>k. blockIndex f p = Some k \<and> b \<in> set (successors (bb_terminator (fn_blocks f ! k))) \<and> isValid f b)"
  by (cases "blockIndex f p") (simp_all add: cfgSuccessors_def conj_commute)

lemma in_cfgPredecessors:
  "p \<in> set (cfgPredecessors f b) \<longleftrightarrow>
     isValid f b \<and> (\<exists>x \<in> set (fn_blocks f). p = bb_id x \<and> b \<in> set (successors (bb_terminator x)))"
proof (cases "blockIndex f b")
  case None then show ?thesis by (simp add: cfgPredecessors_def isValid_def)
next
  case (Some k)
  have "blockIndex f s = Some k \<longleftrightarrow> s = b" for s
    using Some blockIndex_SomeD [of f s k] blockIndex_SomeD [OF Some] by auto
  then have "cfgPredecessors f b =
      concat (map (\<lambda>x. map (\<lambda>_. bb_id x) (filter (\<lambda>s. s = b) (successors (bb_terminator x)))) (fn_blocks f))"
    unfolding cfgPredecessors_def by (subst Some) simp
  then show ?thesis using Some by (auto simp: isValid_def)
qed

lemma cfgSuccessors_predecessor:
  assumes "b \<in> set (cfgSuccessors f p)"
  shows "p \<in> set (cfgPredecessors f b)"
  using assms unfolding in_cfgPredecessors in_cfgSuccessors using blockIndex_SomeD nth_mem by metis

lemma cfgPredecessors_iff:
  assumes d: "distinct (map bb_id (fn_blocks f))"
  shows "p \<in> set (cfgPredecessors f b) \<longleftrightarrow> b \<in> set (cfgSuccessors f p)"
proof
  assume "p \<in> set (cfgPredecessors f b)"
  then obtain k where "k < length (fn_blocks f)" "p = bb_id (fn_blocks f ! k)" "isValid f b"
    "b \<in> set (successors (bb_terminator (fn_blocks f ! k)))"
    unfolding in_cfgPredecessors by (metis in_set_conv_nth)
  then show "b \<in> set (cfgSuccessors f p)" using blockIndex_distinct [OF d] in_cfgSuccessors by metis
qed (rule cfgSuccessors_predecessor)

subsection \<open>Reachability\<close>

fun enqueue :: "block_id list \<Rightarrow> block_id list \<Rightarrow> block_id list \<Rightarrow> block_id list \<times> block_id list" where
  "enqueue [] work seen = (work, seen)"
| "enqueue (s # ss) work seen =
     (if s \<in> set seen then enqueue ss work seen else enqueue ss (work @ [s]) (seen @ [s]))"

lemma enqueue_spec:
  assumes "enqueue ss work seen = (work', seen')"
  shows "\<exists>new. work' = work @ new \<and> seen' = seen @ new \<and> distinct new \<and> set new = set ss - set seen"
  using assms
proof (induction ss work seen rule: enqueue.induct)
  case (2 s ss work seen)
  show ?case
  proof (cases "s \<in> set seen")
    case True then show ?thesis using 2 by auto
  next
    case False
    then obtain new where "work' = (work @ [s]) @ new" "seen' = (seen @ [s]) @ new" "distinct new"
      "set new = set ss - set (seen @ [s])" using 2 by auto
    then show ?thesis using False by (intro exI [of _ "s # new"]) auto
  qed
qed simp

function walk :: "mir_function \<Rightarrow> bool \<Rightarrow> block_id list \<Rightarrow> block_id list \<Rightarrow> block_id list" where
  "walk f u [] seen = seen"
| "walk f u (b # work) seen =
     (let (work', seen') = enqueue (edgesOut f u b) work seen in walk f u work' seen')"
  by pat_completeness auto
termination
proof (relation "measures [\<lambda>(f, u, work, seen). card (blockIds f - set seen), \<lambda>(f, u, work, seen). length work]")
  fix f u b work seen x work' seen'
  assume "x = enqueue (edgesOut f u b) work seen" and "(work', seen') = x"
  then obtain new where new: "work' = work @ new" "seen' = seen @ new"
    "set new = set (edgesOut f u b) - set seen" using enqueue_spec by metis
  show "((f, u, work', seen'), (f, u, b # work, seen)) \<in>
        measures [\<lambda>(f, u, work, seen). card (blockIds f - set seen), \<lambda>(f, u, work, seen). length work]"
  proof (cases new)
    case Nil then show ?thesis using new by simp
  next
    case (Cons a as)
    then have "a \<in> set (edgesOut f u b)" "a \<notin> set seen" "a \<in> set seen'" using new by auto
    then have "a \<in> blockIds f - set seen" "a \<in> set seen'" using edgesOut_valid [of f u b] by auto
    then have "card (blockIds f - set seen') < card (blockIds f - set seen)"
      using new by (intro psubset_card_mono) auto
    then show ?thesis by simp
  qed
qed simp

definition cfg_edges :: "mir_function \<Rightarrow> bool \<Rightarrow> (block_id \<times> block_id) set" where
  "cfg_edges f u = {(a, b). b \<in> set (edgesOut f u a)}"

lemma rtrancl_Image_between:
  assumes "A \<subseteq> B" and "B \<subseteq> E\<^sup>* `` A"
  shows "E\<^sup>* `` B = E\<^sup>* `` A"
proof
  show "E\<^sup>* `` B \<subseteq> E\<^sup>* `` A"
  proof
    fix y assume "y \<in> E\<^sup>* `` B"
    then obtain b a where "(b, y) \<in> E\<^sup>*" "(a, b) \<in> E\<^sup>*" "a \<in> A" using assms(2) by blast
    then show "y \<in> E\<^sup>* `` A" by (blast intro: rtrancl_trans)
  qed
qed (use assms(1) in blast)

lemma walk_reaches:
  assumes "set work \<subseteq> set seen"
    and "\<forall>x \<in> set seen - set work. set (edgesOut f u x) \<subseteq> set seen"
  shows "set (walk f u work seen) = (cfg_edges f u)\<^sup>* `` set seen"
  using assms
proof (induction f u work seen rule: walk.induct)
  case (1 f u seen)
  have "y \<in> set seen" if "(x, y) \<in> (cfg_edges f u)\<^sup>*" "x \<in> set seen" for x y
    using that by (induction rule: rtrancl_induct) (use 1 in \<open>auto simp: cfg_edges_def\<close>)
  then show ?case by auto
next
  case (2 f u b work seen)
  obtain work' seen' where e: "enqueue (edgesOut f u b) work seen = (work', seen')" by force
  then obtain new where new: "work' = work @ new" "seen' = seen @ new"
    "set new = set (edgesOut f u b) - set seen" using enqueue_spec by blast
  have "set (walk f u work' seen') = (cfg_edges f u)\<^sup>* `` set seen'"
    using new 2(2,3) by (intro "2.IH" [OF e [symmetric]]) auto
  also have "\<dots> = (cfg_edges f u)\<^sup>* `` set seen"
  proof -
    have "x \<in> (cfg_edges f u)\<^sup>* `` set seen" if "x \<in> set new" for x
      using that new 2(2) by (auto simp: cfg_edges_def intro!: ImageI [of b])
    then have "set seen' \<subseteq> (cfg_edges f u)\<^sup>* `` set seen" using new(2) by auto
    moreover have "set seen \<subseteq> set seen'" using new(2) by auto
    ultimately show ?thesis by (rule rtrancl_Image_between [rotated])
  qed
  finally show ?case using e by simp
qed

definition reachable :: "mir_function \<Rightarrow> block_id list" where
  "reachable f = (if fn_entryBlock f = 0 then [] else walk f False [fn_entryBlock f] [fn_entryBlock f])"

definition reachableWithUnwind :: "mir_function \<Rightarrow> block_id list" where
  "reachableWithUnwind f = (if fn_entryBlock f = 0 then [] else walk f True (reachable f) (reachable f))"

lemma cfg_edges_mono: "cfg_edges f False \<subseteq> cfg_edges f True"
  by (auto simp: cfg_edges_def edgesOut_def)

lemma set_reachable: "set (reachable f) = (cfg_edges f False)\<^sup>* `` ({fn_entryBlock f} - {0})"
  using walk_reaches [of "[fn_entryBlock f]" "[fn_entryBlock f]" f False]
  by (simp add: reachable_def)

lemma set_reachableWithUnwind:
  "set (reachableWithUnwind f) = (cfg_edges f True)\<^sup>* `` ({fn_entryBlock f} - {0})"
proof (cases "fn_entryBlock f = 0")
  case True then show ?thesis by (simp add: reachableWithUnwind_def)
next
  case False
  have "set (reachable f) = (cfg_edges f False)\<^sup>* `` {fn_entryBlock f}" using set_reachable False by simp
  moreover have "(cfg_edges f True)\<^sup>* `` ((cfg_edges f False)\<^sup>* `` {e}) = (cfg_edges f True)\<^sup>* `` {e}" for e
    using rtrancl_mono [OF cfg_edges_mono] by (auto intro: rtrancl_trans)
  ultimately show ?thesis
    using walk_reaches [of "reachable f" "reachable f" f True] False
    by (simp add: reachableWithUnwind_def)
qed

definition isReachable :: "mir_function \<Rightarrow> block_id \<Rightarrow> bool" where
  "isReachable f i \<longleftrightarrow> i \<in> set (reachable f)"

definition deadBlocks :: "mir_function \<Rightarrow> block_id list" where
  "deadBlocks f =
     sort (filter (\<lambda>i. i \<notin> set (reachable f) \<and> i \<notin> set (reachableWithUnwind f)) (map bb_id (fn_blocks f)))"

subsection \<open>Reverse post-order\<close>

text \<open>The stack of the search: a block and the position of the successor to look at next.\<close>

function dfsLoop ::
  "mir_function \<Rightarrow> (block_id \<times> nat) list \<Rightarrow> block_id list \<Rightarrow> block_id list \<Rightarrow> block_id list"
where
  "dfsLoop f [] visited post = post"
| "dfsLoop f ((b, n) # stack) visited post =
     (let succs = cfgSuccessors f b
      in if n < length succs then
           let next = succs ! n
           in if next \<in> set visited then dfsLoop f ((b, Suc n) # stack) visited post
              else dfsLoop f ((next, 0) # (b, Suc n) # stack) (next # visited) post
         else dfsLoop f stack visited (post @ [b]))"
  by pat_completeness auto
termination
proof (relation "measures [\<lambda>(f, stack, visited, post). card (blockIds f - set visited),
    \<lambda>(f, stack, visited, post).
      sum_list (map (\<lambda>(b, n). Suc (length (cfgSuccessors f b) - n)) stack)]", goal_cases)
  case (3 f b n stack visited post succs nxt)
  then have "nxt \<in> blockIds f - set visited"
    using edgesOut_valid [of f False b] nth_mem [of n succs] by (auto simp: edgesOut_def)
  then have "card (blockIds f - set (nxt # visited)) < card (blockIds f - set visited)"
    by (intro psubset_card_mono) auto
  then show ?case by simp
qed auto

definition reversePostOrder :: "mir_function \<Rightarrow> block_id list" where
  "reversePostOrder f =
     (if fn_entryBlock f = 0 \<or> \<not> isValid f (fn_entryBlock f) then []
      else rev (dfsLoop f [(fn_entryBlock f, 0)] [fn_entryBlock f] []))"

text \<open>The position of each block in an order, -1 for a block that is not in it.\<close>

definition rpoNumber :: "block_id list \<Rightarrow> block_id \<Rightarrow> int" where
  "rpoNumber order i =
     (case find (\<lambda>k. order ! k = i) (rev [0..<length order]) of None \<Rightarrow> - 1 | Some k \<Rightarrow> int k)"

definition reversePostOrderNumber :: "mir_function \<Rightarrow> block_id \<Rightarrow> int" where
  "reversePostOrderNumber f = rpoNumber (reversePostOrder f)"

text \<open>
  The invariant of the search: finished and open blocks are exactly the visited ones, each open
  block's examined successors are visited and a finished block's all are, and every block but the
  entry was entered from a predecessor that is still open or finished later.
\<close>

fun enteredAfter :: "mir_function \<Rightarrow> block_id set \<Rightarrow> block_id list \<Rightarrow> bool" where
  "enteredAfter f S [] \<longleftrightarrow> True"
| "enteredAfter f S (x # xs) \<longleftrightarrow>
     (S = {} \<or> (\<exists>p \<in> S. x \<in> set (cfgSuccessors f p))) \<and> enteredAfter f (insert x S) xs"

definition entered :: "mir_function \<Rightarrow> block_id list \<Rightarrow> bool" where
  "entered f xs \<longleftrightarrow> enteredAfter f {} xs"

lemma enteredAfter_append:
  "enteredAfter f S (xs @ ys) \<longleftrightarrow> enteredAfter f S xs \<and> enteredAfter f (S \<union> set xs) ys"
  by (induction xs arbitrary: S) simp_all

lemma enteredAfter_mono:
  "enteredAfter f S xs \<Longrightarrow> S \<noteq> {} \<Longrightarrow> S \<subseteq> T \<Longrightarrow> enteredAfter f T xs"
proof (induction xs arbitrary: S T)
  case (Cons x xs)
  have "enteredAfter f (insert x T) xs"
    by (rule Cons.IH [of "insert x S"]) (use Cons.prems in \<open>simp_all add: subset_insertI2\<close>)
  moreover have "\<exists>p \<in> T. x \<in> set (cfgSuccessors f p)" using Cons.prems by (simp add: subset_iff) blast
  ultimately show ?case by simp
qed simp

lemma entered_insert:
  assumes "entered f (xs @ ys)" and "x \<in> set xs" and "y \<in> set (cfgSuccessors f x)"
  shows "entered f (xs @ y # ys)"
proof -
  have xs: "enteredAfter f {} xs" "enteredAfter f (set xs) ys"
    using assms(1) by (simp_all add: entered_def enteredAfter_append)
  have "enteredAfter f (insert y (set xs)) ys"
    by (rule enteredAfter_mono [OF xs(2)]) (use assms(2) in auto)
  then show ?thesis using xs(1) assms(2,3) unfolding entered_def enteredAfter_append by simp blast
qed

lemma entered_nth:
  assumes "entered f xs" and "i < length xs" and "0 < i"
  shows "\<exists>j < i. xs ! i \<in> set (cfgSuccessors f (xs ! j))"
proof -
  have "enteredAfter f {} (take i xs @ xs ! i # drop (Suc i) xs)"
    using assms id_take_nth_drop [of i xs] by (simp add: entered_def)
  then obtain p where "p \<in> set (take i xs)" "xs ! i \<in> set (cfgSuccessors f p)"
    using assms by (auto simp: enteredAfter_append)
  then show ?thesis using assms by (auto simp: in_set_conv_nth [of _ "take i xs"])
qed

definition scanned :: "mir_function \<Rightarrow> block_id list \<Rightarrow> block_id \<Rightarrow> nat \<Rightarrow> bool" where
  "scanned f visited b n \<longleftrightarrow> set (take n (cfgSuccessors f b)) \<subseteq> set visited"

definition dfs_order :: "(block_id \<times> nat) list \<Rightarrow> block_id list \<Rightarrow> block_id list" where
  "dfs_order stack post = rev (map fst stack) @ rev post"

definition dfs_inv ::
  "mir_function \<Rightarrow> (block_id \<times> nat) list \<Rightarrow> block_id list \<Rightarrow> block_id list \<Rightarrow> bool"
where
  "dfs_inv f stack visited post \<longleftrightarrow>
     set visited = set (dfs_order stack post) \<and> distinct (dfs_order stack post) \<and>
     set (dfs_order stack post) \<subseteq> (cfg_edges f False)\<^sup>* `` {fn_entryBlock f} \<and>
     entered f (dfs_order stack post) \<and> take 1 (dfs_order stack post) = [fn_entryBlock f] \<and>
     (\<forall>x \<in> set stack. scanned f (dfs_order stack post) (fst x) (snd x)) \<and>
     (\<forall>b \<in> set post. scanned f (dfs_order stack post) b (length (cfgSuccessors f b)))"

lemma scanned_insert: "scanned f (xs @ ys) b n \<Longrightarrow> scanned f (xs @ y # ys) b n"
  by (auto simp: scanned_def)

lemma scanned_Suc:
  assumes "scanned f visited b n" "n < length (cfgSuccessors f b)" "cfgSuccessors f b ! n \<in> set visited"
  shows "scanned f visited b (Suc n)"
  using assms by (simp add: scanned_def take_Suc_conv_app_nth)

lemma dfs_order_pop: "dfs_order stack (post @ [b]) = dfs_order ((b, n) # stack) post"
  by (simp add: dfs_order_def)

lemma dfs_order_skip: "dfs_order ((b, m) # stack) post = dfs_order ((b, n) # stack) post"
  by (simp add: dfs_order_def)

lemma dfs_inv_push:
  assumes inv: "dfs_inv f ((b, n) # stack) visited post"
    and n: "n < length (cfgSuccessors f b)" and nxt: "cfgSuccessors f b ! n \<notin> set visited"
  shows "dfs_inv f ((cfgSuccessors f b ! n, 0) # (b, Suc n) # stack) (cfgSuccessors f b ! n # visited) post"
proof -
  let ?x = "cfgSuccessors f b ! n" and ?xs = "rev (map fst stack) @ [b]"
  have s: "?x \<in> set (cfgSuccessors f b)" using n by simp
  have old: "dfs_order ((b, n) # stack) post = ?xs @ rev post"
    and new: "dfs_order ((?x, 0) # (b, Suc n) # stack) post = ?xs @ ?x # rev post"
    by (simp_all add: dfs_order_def)
  have "entered f (?xs @ ?x # rev post)"
    using inv s unfolding dfs_inv_def old
    by (intro entered_insert [where x = b]) simp_all
  moreover have "(fn_entryBlock f, b) \<in> (cfg_edges f False)\<^sup>*"
    using inv unfolding dfs_inv_def old by (simp add: subset_iff)
  then have "(fn_entryBlock f, ?x) \<in> (cfg_edges f False)\<^sup>*"
    using s by (auto simp: cfg_edges_def edgesOut_def intro: rtrancl_into_rtrancl)
  moreover have "scanned f (?xs @ ?x # rev post) b (Suc n)"
    using inv n unfolding dfs_inv_def old
    by (intro scanned_Suc scanned_insert) (simp_all del: append_assoc)
  moreover have "take 1 (?xs @ ?x # rev post) = take 1 (?xs @ rev post)" by (cases ?xs) simp_all
  moreover have "scanned f (?xs @ ?x # rev post) ?x 0" by (simp add: scanned_def)
  ultimately show ?thesis
    using inv nxt scanned_insert [of f ?xs "rev post"] unfolding dfs_inv_def old new
    by (elim conjE) (simp del: append_assoc take_append)
qed

lemma dfs_inv_skip:
  assumes "dfs_inv f ((b, n) # stack) visited post"
    and "n < length (cfgSuccessors f b)" and "cfgSuccessors f b ! n \<in> set visited"
  shows "dfs_inv f ((b, Suc n) # stack) visited post"
  using assms scanned_Suc [of f "dfs_order ((b, n) # stack) post" b n]
  unfolding dfs_inv_def dfs_order_skip [of b "Suc n" stack post n] by simp

lemma dfs_inv_pop:
  assumes "dfs_inv f ((b, n) # stack) visited post" and "\<not> n < length (cfgSuccessors f b)"
  shows "dfs_inv f stack visited (post @ [b])"
  using assms unfolding dfs_inv_def dfs_order_pop [of stack post b n]
  by (elim conjE) (simp add: scanned_def)

lemma dfsLoop_inv:
  assumes "dfs_inv f stack visited post"
  shows "\<exists>visited'. dfs_inv f [] visited' (dfsLoop f stack visited post)"
  using assms
proof (induction f stack visited post rule: dfsLoop.induct)
  case (2 f b n stack visited post)
  show ?case
  proof (cases "n < length (cfgSuccessors f b)")
    case True
    then show ?thesis
      using 2 dfs_inv_push [OF "2.prems" True] dfs_inv_skip [OF "2.prems" True]
      by (cases "cfgSuccessors f b ! n \<in> set visited") (auto simp: Let_def)
  next
    case False
    then show ?thesis using 2 dfs_inv_pop [OF "2.prems" False] by (auto simp: Let_def)
  qed
qed auto

lemma reversePostOrder_props:
  assumes "fn_entryBlock f \<noteq> 0" and "isValid f (fn_entryBlock f)"
  shows "distinct (reversePostOrder f)" and "set (reversePostOrder f) = set (reachable f)"
    and "take 1 (reversePostOrder f) = [fn_entryBlock f]"
    and "entered f (reversePostOrder f)"
proof -
  let ?e = "fn_entryBlock f"
  have "dfs_inv f [(?e, 0)] [?e] []" by (simp add: dfs_inv_def entered_def dfs_order_def scanned_def)
  then obtain v where v: "dfs_inv f [] v (dfsLoop f [(?e, 0)] [?e] [])" using dfsLoop_inv by blast
  have r: "dfs_order [] (dfsLoop f [(?e, 0)] [?e] []) = reversePostOrder f"
    using assms by (simp add: reversePostOrder_def dfs_order_def)
  note v' = v [unfolded dfs_inv_def r]
  show "distinct (reversePostOrder f)" "take 1 (reversePostOrder f) = [?e]"
    "entered f (reversePostOrder f)" using v' by simp_all
  have e: "?e \<in> set (reversePostOrder f)" using v' in_set_takeD [of ?e 1] by simp
  have "set (dfsLoop f [(?e, 0)] [?e] []) = set (reversePostOrder f)"
    using r by (simp add: dfs_order_def flip: r)
  then have closed: "s \<in> set (reversePostOrder f)"
    if "b \<in> set (reversePostOrder f)" "s \<in> set (cfgSuccessors f b)" for b s
    using that v' by (simp add: scanned_def subset_iff)
  have "y \<in> set (reversePostOrder f)" if "(?e, y) \<in> (cfg_edges f False)\<^sup>*" for y
    using that by (induction rule: rtrancl_induct) (auto simp: e cfg_edges_def edgesOut_def intro: closed)
  moreover have "set (reversePostOrder f) \<subseteq> (cfg_edges f False)\<^sup>* `` {?e}" using v' by simp
  ultimately show "set (reversePostOrder f) = set (reachable f)"
    using assms(1) by (auto simp: set_reachable)
qed

lemma rpoNumber_nth:
  assumes "distinct xs" and "k < length xs"
  shows "rpoNumber xs (xs ! k) = int k"
proof -
  obtain j where j: "find (\<lambda>j. xs ! j = xs ! k) (rev [0..<length xs]) = Some j"
    using assms(2) by (cases "find (\<lambda>j. xs ! j = xs ! k) (rev [0..<length xs])") (auto simp: find_None_iff)
  then have "j < length xs" "xs ! j = xs ! k" by (auto simp: find_Some_iff rev_nth)
  then have "j = k" using assms by (simp add: nth_eq_iff_index_eq)
  then show ?thesis using j by (simp add: rpoNumber_def)
qed

subsection \<open>Removing unreachable blocks\<close>

text \<open>Old id to new id; \<open>None\<close> from a rewrite is the flag \<open>dangling\<close> of the source.\<close>

definition renumberMap :: "basic_block list \<Rightarrow> block_id \<rightharpoonup> block_id" where
  "renumberMap bs = map_of (rev (zip (map bb_id bs) [1..<Suc (length bs)]))"

definition rewriteTarget :: "(block_id \<rightharpoonup> block_id) \<Rightarrow> block_id \<Rightarrow> block_id option" where
  "rewriteTarget r t = (if t = 0 then Some 0 else r t)"

definition rewriteTerminator :: "(block_id \<rightharpoonup> block_id) \<Rightarrow> terminator \<Rightarrow> terminator option" where
  "rewriteTerminator r t =
     (case (rewriteTarget r (te_target t), rewriteTarget r (te_elseBlock t),
            those (map (\<lambda>(v, b). map_option (Pair v) (rewriteTarget r b)) (te_cases t))) of
        (Some a, Some b, Some cs) \<Rightarrow> Some (t\<lparr>te_target := a, te_elseBlock := b, te_cases := cs\<rparr>)
      | _ \<Rightarrow> None)"

definition rewriteHandler :: "(block_id \<rightharpoonup> block_id) \<Rightarrow> exception_handler \<Rightarrow> exception_handler option" where
  "rewriteHandler r h = map_option (\<lambda>b. h\<lparr>eh_block := b\<rparr>) (rewriteTarget r (eh_block h))"

definition rewriteBlock :: "(block_id \<rightharpoonup> block_id) \<Rightarrow> basic_block \<Rightarrow> basic_block option" where
  "rewriteBlock r b =
     (case (rewriteTerminator r (bb_terminator b), those (map (rewriteHandler r) (bb_exceptionHandlers b))) of
        (Some t, Some hs) \<Rightarrow>
          Some (b\<lparr>bb_id := the (r (bb_id b)), bb_terminator := t, bb_exceptionHandlers := hs\<rparr>)
      | _ \<Rightarrow> None)"

definition pruneUnreachableBlocks :: "mir_function \<Rightarrow> mir_function \<times> nat" where
  "pruneUnreachableBlocks f =
     (if fn_blocks f = [] then (f, 0)
      else
        let kept = filter (\<lambda>b. bb_id b \<in> set (reachableWithUnwind f)) (fn_blocks f);
            r = renumberMap kept
        in if length kept = length (fn_blocks f) then (f, 0)
           else case those (map (rewriteBlock r) kept) of
             None \<Rightarrow> (f, 0)
           | Some bs \<Rightarrow>
               (rebuildEdges (f\<lparr>fn_blocks := bs,
                  fn_entryBlock :=
                    (case rewriteTarget r (fn_entryBlock f) of Some e \<Rightarrow> e | None \<Rightarrow> fn_entryBlock f)\<rparr>),
                length (fn_blocks f) - length kept))"

text \<open>
  What the verifier demands of the graph before a pass runs: distinct ids other than 0, an entry
  block, and targets that name blocks, with the target fields a terminator does not use left 0.
\<close>

definition targets :: "basic_block \<Rightarrow> block_id set" where
  "targets b =
     ({te_target (bb_terminator b), te_elseBlock (bb_terminator b)} \<union> snd ` set (te_cases (bb_terminator b)) \<union>
      eh_block ` set (bb_exceptionHandlers b)) - {0}"

definition outgoing :: "basic_block \<Rightarrow> block_id set" where
  "outgoing b = (set (successors (bb_terminator b)) \<union> eh_block ` set (bb_exceptionHandlers b)) - {0}"

definition cfg_ok :: "mir_function \<Rightarrow> bool" where
  "cfg_ok f \<longleftrightarrow>
     distinct (map bb_id (fn_blocks f)) \<and> 0 \<notin> blockIds f \<and> fn_entryBlock f \<in> blockIds f \<and>
     (\<forall>b \<in> set (fn_blocks f). targets b \<subseteq> outgoing b \<and> outgoing b \<subseteq> blockIds f)"

lemma outgoing_targets: "outgoing b \<subseteq> targets b"
  by (auto simp: outgoing_def targets_def successors_def split: terminator_kind.splits)

lemma edgesOut_outgoing:
  assumes "cfg_ok f" and "b \<in> set (fn_blocks f)"
  shows "set (edgesOut f True (bb_id b)) = outgoing b"
proof -
  obtain k where k: "k < length (fn_blocks f)" "fn_blocks f ! k = b" using assms(2) by (auto simp: in_set_conv_nth)
  then have "blockIndex f (bb_id b) = Some k"
    using assms(1) blockIndex_distinct [of f k] by (simp add: cfg_ok_def)
  moreover have "outgoing b \<subseteq> blockIds f" using assms by (simp add: cfg_ok_def)
  ultimately show ?thesis
    using k(2) successors_nonzero [of "bb_terminator b"]
    by (auto simp: edgesOut_def cfgSuccessors_def unwindSuccessors_def isValid_iff outgoing_def)
qed

lemma reachableWithUnwind_closed:
  assumes "a \<in> set (reachableWithUnwind f)" and "b \<in> set (edgesOut f u a)"
  shows "b \<in> set (reachableWithUnwind f)"
proof -
  have "(a, b) \<in> cfg_edges f True" using assms(2) by (cases u) (auto simp: cfg_edges_def edgesOut_def)
  then show ?thesis using assms(1) by (auto simp: set_reachableWithUnwind intro: rtrancl_into_rtrancl)
qed

lemma reachableWithUnwind_ids:
  assumes "cfg_ok f" shows "set (reachableWithUnwind f) \<subseteq> blockIds f"
proof
  fix x assume "x \<in> set (reachableWithUnwind f)"
  then have "(fn_entryBlock f, x) \<in> (cfg_edges f True)\<^sup>*" by (auto simp: set_reachableWithUnwind)
  then show "x \<in> blockIds f"
    by (induction rule: rtrancl_induct)
      (use assms edgesOut_valid [of f True] in \<open>auto simp: cfg_ok_def cfg_edges_def\<close>)
qed

text \<open>A renumbering that is defined on all targets of a block rewrites it.\<close>

definition new_id :: "(block_id \<rightharpoonup> block_id) \<Rightarrow> block_id \<Rightarrow> block_id" where
  "new_id r t = (if t = 0 then 0 else the (r t))"

definition renamed :: "(block_id \<rightharpoonup> block_id) \<Rightarrow> basic_block \<Rightarrow> basic_block" where
  "renamed r b =
     b\<lparr>bb_id := the (r (bb_id b)),
       bb_terminator := (bb_terminator b)
         \<lparr>te_target := new_id r (te_target (bb_terminator b)),
          te_elseBlock := new_id r (te_elseBlock (bb_terminator b)),
          te_cases := map (\<lambda>(v, t). (v, new_id r t)) (te_cases (bb_terminator b))\<rparr>,
       bb_exceptionHandlers := map (\<lambda>h. h\<lparr>eh_block := new_id r (eh_block h)\<rparr>) (bb_exceptionHandlers b)\<rparr>"

lemma those_map_Some: "(\<And>x. x \<in> set xs \<Longrightarrow> g x = Some (h x)) \<Longrightarrow> those (map g xs) = Some (map h xs)"
  by (induction xs) simp_all

lemma rewriteTarget_Some: "t \<in> insert 0 (dom r) \<Longrightarrow> rewriteTarget r t = Some (new_id r t)"
  by (auto simp: rewriteTarget_def new_id_def)

lemma rewriteBlock_renamed:
  assumes "targets b \<subseteq> dom r"
  shows "rewriteBlock r b = Some (renamed r b)"
proof -
  let ?t = "bb_terminator b"
  have t: "rewriteTarget r t = Some (new_id r t)" if "t = 0 \<or> t \<in> targets b" for t
    using that assms by (intro rewriteTarget_Some) auto
  have "those (map (\<lambda>(v, b). map_option (Pair v) (rewriteTarget r b)) (te_cases ?t)) =
        Some (map (\<lambda>(v, t). (v, new_id r t)) (te_cases ?t))"
  proof (rule those_map_Some)
    fix x assume x: "x \<in> set (te_cases ?t)"
    then have "snd x = 0 \<or> snd x \<in> targets b" by (auto simp: targets_def)
    then show "(\<lambda>(v, b). map_option (Pair v) (rewriteTarget r b)) x = Some ((\<lambda>(v, t). (v, new_id r t)) x)"
      using t [of "snd x"] by (simp add: case_prod_unfold)
  qed
  moreover have "those (map (rewriteHandler r) (bb_exceptionHandlers b)) =
        Some (map (\<lambda>h. h\<lparr>eh_block := new_id r (eh_block h)\<rparr>) (bb_exceptionHandlers b))"
  proof (rule those_map_Some)
    fix h assume "h \<in> set (bb_exceptionHandlers b)"
    then have "eh_block h = 0 \<or> eh_block h \<in> targets b" by (auto simp: targets_def)
    then show "rewriteHandler r h = Some (h\<lparr>eh_block := new_id r (eh_block h)\<rparr>)"
      by (simp add: rewriteHandler_def t)
  qed
  moreover have "rewriteTarget r (te_target ?t) = Some (new_id r (te_target ?t))"
    "rewriteTarget r (te_elseBlock ?t) = Some (new_id r (te_elseBlock ?t))"
    by (rule t; auto simp: targets_def)+
  ultimately show ?thesis by (simp add: rewriteBlock_def rewriteTerminator_def renamed_def)
qed

lemma renumberMap_nth:
  assumes "distinct (map bb_id bs)" and "k < length bs"
  shows "renumberMap bs (bb_id (bs ! k)) = Some (Suc k)"
proof -
  have "distinct (map fst (rev (zip (map bb_id bs) [1..<Suc (length bs)])))"
    using assms(1) by (simp del: upt_Suc flip: rev_map)
  moreover have "(bb_id (bs ! k), Suc k) \<in> set (rev (zip (map bb_id bs) [1..<Suc (length bs)]))"
    using assms(2) by (auto simp: set_zip simp del: upt_Suc intro!: exI [of _ k])
  ultimately show ?thesis unfolding renumberMap_def by (rule map_of_is_SomeI)
qed

lemma dom_renumberMap: "dom (renumberMap bs) = bb_id ` set bs"
  unfolding renumberMap_def dom_map_of_conv_image_fst by (simp del: upt_Suc flip: set_map)

lemma edgesOut_block:
  assumes "cfg_ok f" and "b \<in> set (fn_blocks f)"
  shows "edgesOut f u (bb_id b) =
    successors (bb_terminator b) @ (if u then filter (\<lambda>s. s \<noteq> 0) (map eh_block (bb_exceptionHandlers b)) else [])"
proof -
  obtain k where k: "k < length (fn_blocks f)" "fn_blocks f ! k = b" using assms(2) by (auto simp: in_set_conv_nth)
  then have i: "blockIndex f (bb_id b) = Some k"
    using assms(1) blockIndex_distinct [of f k] by (simp add: cfg_ok_def)
  have "outgoing b \<subseteq> blockIds f" using assms by (simp add: cfg_ok_def)
  then have "\<forall>s \<in> set (successors (bb_terminator b)). isValid f s"
    and "\<forall>h \<in> set (bb_exceptionHandlers b). eh_block h \<noteq> 0 \<longrightarrow> isValid f (eh_block h)"
    using successors_nonzero [of "bb_terminator b"] by (auto simp: isValid_iff outgoing_def)
  then show ?thesis
    using i k(2) by (auto simp: edgesOut_def cfgSuccessors_def unwindSuccessors_def intro!: filter_cong)
qed

text \<open>Renaming commutes with the edges of a block.\<close>

lemma new_id_nonzero:
  assumes "t \<in> dom r" and "0 \<notin> ran r" and "t \<noteq> 0"
  shows "new_id r t \<noteq> 0"
proof -
  obtain y where y: "r t = Some y" using assms(1) by auto
  then have "y \<noteq> 0" using assms(2) by (metis ranI)
  then show ?thesis using y assms(3) by (simp add: new_id_def)
qed

lemma filter_new_id:
  assumes "0 \<notin> ran r" and "set ts \<subseteq> insert 0 (dom r)"
  shows "filter (\<lambda>s. s \<noteq> 0) (map (new_id r) ts) = map (new_id r) (filter (\<lambda>s. s \<noteq> 0) ts)"
  using assms(2)
proof (induction ts)
  case (Cons t ts)
  then show ?case using new_id_nonzero [of t r] assms(1) by (cases "t = 0") (auto simp: new_id_def)
qed simp

lemma successors_renamed:
  assumes "0 \<notin> ran r" and "targets b \<subseteq> dom r"
  shows "successors (bb_terminator (renamed r b)) = map (new_id r) (successors (bb_terminator b))"
proof -
  let ?t = "bb_terminator b"
  have "set [te_target ?t] \<subseteq> insert 0 (dom r)" "set [te_target ?t, te_elseBlock ?t] \<subseteq> insert 0 (dom r)"
    "set (map snd (te_cases ?t) @ [te_target ?t]) \<subseteq> insert 0 (dom r)"
    using assms(2) by (auto simp: targets_def)
  note this [THEN filter_new_id [OF assms(1)]]
  then show ?thesis
    unfolding successors_def renamed_def
    by (cases "te_kind ?t") (simp_all add: comp_def case_prod_unfold cong: if_cong)
qed

lemma handlers_renamed:
  assumes "0 \<notin> ran r" and "targets b \<subseteq> dom r"
  shows "filter (\<lambda>s. s \<noteq> 0) (map eh_block (bb_exceptionHandlers (renamed r b))) =
         map (new_id r) (filter (\<lambda>s. s \<noteq> 0) (map eh_block (bb_exceptionHandlers b)))"
proof -
  have "map eh_block (bb_exceptionHandlers (renamed r b)) =
        map (new_id r) (map eh_block (bb_exceptionHandlers b))" by (simp add: renamed_def)
  moreover have "set (map eh_block (bb_exceptionHandlers b)) \<subseteq> insert 0 (dom r)"
    using assms(2) by (auto simp: targets_def)
  ultimately show ?thesis using filter_new_id [OF assms(1)] by presburger
qed

lemma outgoing_alt:
  "outgoing x = set (successors (bb_terminator x) @ filter (\<lambda>s. s \<noteq> 0) (map eh_block (bb_exceptionHandlers x)))"
  by (auto simp: outgoing_def successors_def split: terminator_kind.splits)

lemma outgoing_renamed:
  assumes "0 \<notin> ran r" and "targets b \<subseteq> dom r"
  shows "outgoing (renamed r b) = new_id r ` outgoing b"
  unfolding outgoing_alt successors_renamed [OF assms] handlers_renamed [OF assms]
  by (simp only: set_append set_map image_Un)

lemma targets_renamed: "targets (renamed r b) \<subseteq> new_id r ` targets b"
proof -
  let ?A = "{te_target (bb_terminator b), te_elseBlock (bb_terminator b)} \<union>
      snd ` set (te_cases (bb_terminator b)) \<union> eh_block ` set (bb_exceptionHandlers b)"
  have "targets (renamed r b) = new_id r ` ?A - {0}"
    by (simp add: targets_def renamed_def image_Un image_image case_prod_unfold)
  also have "\<dots> \<subseteq> new_id r ` (?A - {0})" by (auto simp only: new_id_def split: if_splits)
  finally show ?thesis by (simp only: targets_def)
qed

text \<open>The pruned function, given the blocks that stay.\<close>

definition pruned :: "mir_function \<Rightarrow> basic_block list \<Rightarrow> mir_function" where
  "pruned f kept = rebuildEdges
     (f\<lparr>fn_blocks := map (renamed (renumberMap kept)) kept,
        fn_entryBlock := new_id (renumberMap kept) (fn_entryBlock f)\<rparr>)"

definition keptBlocks :: "mir_function \<Rightarrow> basic_block list" where
  "keptBlocks f = filter (\<lambda>b. bb_id b \<in> set (reachableWithUnwind f)) (fn_blocks f)"

lemma entry_reachable: "cfg_ok f \<Longrightarrow> fn_entryBlock f \<in> set (reachableWithUnwind f)"
  by (auto simp: set_reachableWithUnwind cfg_ok_def)

lemma keptBlocks_ids:
  assumes "cfg_ok f" shows "bb_id ` set (keptBlocks f) = set (reachableWithUnwind f)"
  using reachableWithUnwind_ids [OF assms] by (auto simp: keptBlocks_def blockIds_def)

lemma keptBlocks_facts:
  assumes "cfg_ok f"
  defines "r \<equiv> renumberMap (keptBlocks f)"
  shows "distinct (map bb_id (keptBlocks f))" and "dom r = set (reachableWithUnwind f)"
    and "0 \<notin> ran r" and "0 \<notin> dom r"
    and "\<And>b. b \<in> set (keptBlocks f) \<Longrightarrow> targets b \<subseteq> dom r"
    and "\<And>b. b \<in> set (keptBlocks f) \<Longrightarrow> targets b \<subseteq> outgoing b"
proof -
  show "distinct (map bb_id (keptBlocks f))"
    using assms(1) by (simp add: keptBlocks_def cfg_ok_def distinct_map_filter)
  show d: "dom r = set (reachableWithUnwind f)"
    unfolding r_def dom_renumberMap by (rule keptBlocks_ids [OF assms(1)])
  show "0 \<notin> dom r" using d reachableWithUnwind_ids [OF assms(1)] assms(1) by (auto simp: cfg_ok_def)
  show "0 \<notin> ran r"
    by (auto simp: r_def renumberMap_def ran_def simp del: upt_Suc dest!: map_of_SomeD set_zip_rightD)
  fix b assume b: "b \<in> set (keptBlocks f)"
  then have "b \<in> set (fn_blocks f)" "bb_id b \<in> set (reachableWithUnwind f)" by (auto simp: keptBlocks_def)
  then show "targets b \<subseteq> outgoing b" "targets b \<subseteq> dom r"
    using assms(1) edgesOut_outgoing [OF assms(1), of b] reachableWithUnwind_closed [of "bb_id b" f _ True]
    unfolding d cfg_ok_def by blast+
qed

lemma prune_eq:
  assumes "cfg_ok f"
  shows "pruneUnreachableBlocks f =
    (if length (keptBlocks f) = length (fn_blocks f) then (f, 0)
     else (pruned f (keptBlocks f), length (fn_blocks f) - length (keptBlocks f)))"
proof -
  let ?r = "renumberMap (keptBlocks f)"
  note k = keptBlocks_facts [OF assms]
  have "those (map (rewriteBlock ?r) (keptBlocks f)) = Some (map (renamed ?r) (keptBlocks f))"
    by (rule those_map_Some) (simp add: rewriteBlock_renamed k(5))
  moreover have "rewriteTarget ?r (fn_entryBlock f) = Some (new_id ?r (fn_entryBlock f))"
    using entry_reachable [OF assms] by (intro rewriteTarget_Some) (simp add: k(2))
  moreover have "fn_blocks f \<noteq> []" using assms by (auto simp: cfg_ok_def blockIds_def)
  ultimately show ?thesis
    by (simp add: pruneUnreachableBlocks_def Let_def pruned_def flip: keptBlocks_def)
qed

lemma fn_blocks_pruned [simp]: "fn_blocks (pruned f kept) = map (renamed (renumberMap kept)) kept"
  and fn_entryBlock_pruned [simp]: "fn_entryBlock (pruned f kept) = new_id (renumberMap kept) (fn_entryBlock f)"
  by (simp_all add: pruned_def rebuildEdges_def)

lemma renumber_bij:
  assumes "cfg_ok f"
  defines "g \<equiv> new_id (renumberMap (keptBlocks f))"
  shows "map g (map bb_id (keptBlocks f)) = [1..<Suc (length (keptBlocks f))]"
    and "map bb_id (fn_blocks (pruned f (keptBlocks f))) = [1..<Suc (length (keptBlocks f))]"
    and "bij_betw g (set (reachableWithUnwind f)) (blockIds (pruned f (keptBlocks f)))"
proof -
  note k = keptBlocks_facts [OF assms(1)]
  have "g (bb_id (keptBlocks f ! i)) = Suc i" "renumberMap (keptBlocks f) (bb_id (keptBlocks f ! i)) = Some (Suc i)"
    if "i < length (keptBlocks f)" for i
  proof -
    show r: "renumberMap (keptBlocks f) (bb_id (keptBlocks f ! i)) = Some (Suc i)"
      using renumberMap_nth [OF k(1) that] .
    then have "bb_id (keptBlocks f ! i) \<noteq> 0" using k(4) by (metis domI)
    then show "g (bb_id (keptBlocks f ! i)) = Suc i" using r by (simp add: g_def new_id_def)
  qed
  note r = this
  show m: "map g (map bb_id (keptBlocks f)) = [1..<Suc (length (keptBlocks f))]"
    by (rule nth_equalityI) (simp_all add: r(1) del: upt_Suc)
  show m': "map bb_id (fn_blocks (pruned f (keptBlocks f))) = [1..<Suc (length (keptBlocks f))]"
    by (rule nth_equalityI) (simp_all add: r(2) renamed_def del: upt_Suc)
  have "g ` set (reachableWithUnwind f) = blockIds (pruned f (keptBlocks f))"
    using arg_cong [OF m, of set] arg_cong [OF m', of set]
    unfolding keptBlocks_ids [OF assms(1), symmetric] blockIds_def by (simp add: image_image del: upt_Suc)
  moreover have "inj_on g (set (map bb_id (keptBlocks f)))"
    using m by (metis distinct_map distinct_upt)
  ultimately show "bij_betw g (set (reachableWithUnwind f)) (blockIds (pruned f (keptBlocks f)))"
    using keptBlocks_ids [OF assms(1)] by (simp add: bij_betw_def)
qed

lemma pruned_ok:
  assumes "cfg_ok f"
  shows "cfg_ok (pruned f (keptBlocks f))"
proof -
  let ?f = "pruned f (keptBlocks f)" and ?r = "renumberMap (keptBlocks f)"
  note k = keptBlocks_facts [OF assms] and b = renumber_bij [OF assms]
  have ids: "new_id ?r ` A \<subseteq> blockIds ?f" if "A \<subseteq> dom ?r" for A
    using that b(3) by (auto simp: bij_betw_def k(2))
  have "distinct (map bb_id (fn_blocks ?f))" "0 \<notin> blockIds ?f"
    using arg_cong [OF b(2), of distinct] arg_cong [OF b(2), of set] unfolding blockIds_def
    by (simp_all only: distinct_upt set_map set_upt) auto
  moreover have "fn_entryBlock ?f \<in> blockIds ?f"
    using ids [of "{fn_entryBlock f}"] entry_reachable [OF assms] by (simp add: k(2))
  moreover have "targets x \<subseteq> outgoing x \<and> outgoing x \<subseteq> blockIds ?f" if x: "x \<in> set (fn_blocks ?f)" for x
  proof -
    obtain y where y: "y \<in> set (keptBlocks f)" "x = renamed ?r y" using x by auto
    have o: "outgoing x = new_id ?r ` outgoing y" using outgoing_renamed [OF k(3) k(5) [OF y(1)]] y(2) by simp
    have "targets x \<subseteq> outgoing x" using targets_renamed [of ?r y] k(6) [OF y(1)] y(2) o by auto
    moreover have "outgoing y \<subseteq> dom ?r" using outgoing_targets k(5) [OF y(1)] by blast
    then have "outgoing x \<subseteq> blockIds ?f" unfolding o by (rule ids)
    ultimately show ?thesis ..
  qed
  ultimately show ?thesis by (simp add: cfg_ok_def)
qed

lemma pruned_edges:
  assumes "cfg_ok f" and "b \<in> set (keptBlocks f)"
  defines "g \<equiv> new_id (renumberMap (keptBlocks f))"
  shows "edgesOut (pruned f (keptBlocks f)) u (g (bb_id b)) = map g (edgesOut f u (bb_id b))"
    and "bb_id (renamed (renumberMap (keptBlocks f)) b) = g (bb_id b)"
proof -
  let ?r = "renumberMap (keptBlocks f)"
  note k = keptBlocks_facts [OF assms(1)]
  have "bb_id b \<noteq> 0" using k(2,4) keptBlocks_ids [OF assms(1)] assms(2) by (metis imageI)
  then show i: "bb_id (renamed ?r b) = g (bb_id b)" by (simp add: renamed_def g_def new_id_def)
  have "renamed ?r b \<in> set (fn_blocks (pruned f (keptBlocks f)))" using assms(2) by simp
  note e = edgesOut_block [OF pruned_ok [OF assms(1)] this, of u]
  have "b \<in> set (fn_blocks f)" using assms(2) by (simp add: keptBlocks_def)
  note e' = edgesOut_block [OF assms(1) this, of u]
  show "edgesOut (pruned f (keptBlocks f)) u (g (bb_id b)) = map g (edgesOut f u (bb_id b))"
    using e unfolding i e' successors_renamed [OF k(3) k(5) [OF assms(2)]] handlers_renamed [OF k(3) k(5) [OF assms(2)]]
    by (simp add: g_def)
qed

lemma deadBlocks_kept: "length (deadBlocks f) = length (fn_blocks f) - length (keptBlocks f)"
proof -
  have "set (reachable f) \<subseteq> set (reachableWithUnwind f)"
    using rtrancl_mono [OF cfg_edges_mono] by (auto simp: set_reachable set_reachableWithUnwind)
  then have "length (deadBlocks f) = length (filter (\<lambda>b. \<not> bb_id b \<in> set (reachableWithUnwind f)) (fn_blocks f))"
    by (simp add: deadBlocks_def filter_map comp_def) (intro arg_cong [where f = length] filter_cong; auto)
  then show ?thesis using sum_length_filter_compl [of "\<lambda>b. bb_id b \<in> set (reachableWithUnwind f)" "fn_blocks f"]
    by (simp add: keptBlocks_def)
qed

lemma deadBlocks_Nil: "blockIds f \<subseteq> set (reachableWithUnwind f) \<Longrightarrow> deadBlocks f = []"
proof -
  assume "blockIds f \<subseteq> set (reachableWithUnwind f)"
  then have "filter (\<lambda>i. i \<notin> set (reachable f) \<and> i \<notin> set (reachableWithUnwind f)) (map bb_id (fn_blocks f)) = []"
    unfolding filter_empty_conv by (auto simp: blockIds_def)
  then show ?thesis by (simp only: deadBlocks_def sort_key_simps)
qed

lemma pruned_reachable:
  assumes "cfg_ok f"
  shows "deadBlocks (pruned f (keptBlocks f)) = []"
proof (rule deadBlocks_Nil, rule subsetI)
  let ?f = "pruned f (keptBlocks f)" and ?g = "new_id (renumberMap (keptBlocks f))"
  have edge: "(?g x, ?g y) \<in> (cfg_edges ?f True)"
    if xy: "(x, y) \<in> cfg_edges f True" "x \<in> set (reachableWithUnwind f)" for x y
  proof -
    obtain b where b: "b \<in> set (keptBlocks f)" "x = bb_id b" using xy(2) keptBlocks_ids [OF assms] by (metis imageE)
    show ?thesis using pruned_edges(1) [OF assms b(1), of True] xy(1) b(2) by (simp add: cfg_edges_def)
  qed
  fix x assume "x \<in> blockIds ?f"
  then obtain y where y: "x = ?g y" "(fn_entryBlock f, y) \<in> (cfg_edges f True)\<^sup>*"
    using renumber_bij(3) [OF assms] by (auto simp: bij_betw_def set_reachableWithUnwind)
  have "(?g (fn_entryBlock f), ?g y) \<in> (cfg_edges ?f True)\<^sup>*"
    using y(2)
  proof (induction rule: rtrancl_induct)
    case (step u v)
    have "u \<in> set (reachableWithUnwind f)" using step(1) assms by (auto simp: set_reachableWithUnwind cfg_ok_def)
    then show ?case using step edge by (meson rtrancl.rtrancl_into_rtrancl)
  qed simp
  then show "x \<in> set (reachableWithUnwind ?f)"
    using pruned_ok [OF assms] y(1) by (auto simp: set_reachableWithUnwind cfg_ok_def)
qed

lemma blockById_distinct:
  assumes "cfg_ok f" and "b \<in> set (fn_blocks f)"
  shows "blockById f (bb_id b) = Some b"
proof -
  have "bb_id b \<noteq> 0" using assms by (auto simp: cfg_ok_def blockIds_def)
  moreover have "find (\<lambda>x. bb_id x = bb_id b) bs = Some b"
    if "b \<in> set bs" "distinct (map bb_id bs)" for bs
    using that by (induction bs) (auto simp: image_iff)
  ultimately show ?thesis using assms by (simp add: blockById_def cfg_ok_def)
qed

lemma pruned_contents:
  assumes "cfg_ok f" and "a \<in> set (reachableWithUnwind f)"
  defines "g \<equiv> new_id (renumberMap (keptBlocks f))"
  shows "\<exists>b b'. blockById f a = Some b \<and> blockById (pruned f (keptBlocks f)) (g a) = Some b' \<and>
    bb_instructions b' = bb_instructions b \<and> bb_parameters b' = bb_parameters b \<and>
    te_value (bb_terminator b') = te_value (bb_terminator b) \<and> te_kind (bb_terminator b') = te_kind (bb_terminator b) \<and>
    (\<forall>u. edgesOut (pruned f (keptBlocks f)) u (g a) = map g (edgesOut f u a))"
proof -
  obtain b where b: "b \<in> set (keptBlocks f)" "a = bb_id b"
    using assms(2) keptBlocks_ids [OF assms(1)] by (metis imageE)
  let ?b = "renamed (renumberMap (keptBlocks f)) b"
  have "blockById f a = Some b"
    using blockById_distinct [OF assms(1), of b] b by (simp add: keptBlocks_def)
  moreover have "blockById (pruned f (keptBlocks f)) (g a) = Some ?b"
    using blockById_distinct [OF pruned_ok [OF assms(1)], of ?b] pruned_edges(2) [OF assms(1) b(1)] b
    by (simp add: g_def)
  moreover have "\<forall>u. edgesOut (pruned f (keptBlocks f)) u (g a) = map g (edgesOut f u a)"
    using pruned_edges(1) [OF assms(1) b(1)] b(2) by (simp add: g_def)
  ultimately show ?thesis by (auto simp: renamed_def)
qed

text \<open>Two graphs agree up to a renaming of the blocks reachable in the first.\<close>

definition same_flow :: "(block_id \<Rightarrow> block_id) \<Rightarrow> mir_function \<Rightarrow> mir_function \<Rightarrow> bool" where
  "same_flow g f f' \<longleftrightarrow>
     bij_betw g (set (reachableWithUnwind f)) (blockIds f') \<and> fn_entryBlock f' = g (fn_entryBlock f) \<and>
     (\<forall>a \<in> set (reachableWithUnwind f).
        \<exists>b b'. blockById f a = Some b \<and> blockById f' (g a) = Some b' \<and>
          bb_instructions b' = bb_instructions b \<and> bb_parameters b' = bb_parameters b \<and>
          te_value (bb_terminator b') = te_value (bb_terminator b) \<and>
          te_kind (bb_terminator b') = te_kind (bb_terminator b) \<and>
          (\<forall>u. edgesOut f' u (g a) = map g (edgesOut f u a)))"

lemma unpruned_same:
  assumes "cfg_ok f" and "length (keptBlocks f) = length (fn_blocks f)"
  shows "same_flow id f f" and "deadBlocks f = []"
proof -
  have d: "deadBlocks f = []" using deadBlocks_kept [of f] assms(2) by simp
  then show "deadBlocks f = []" .
  have "set (filter (\<lambda>i. i \<notin> set (reachable f) \<and> i \<notin> set (reachableWithUnwind f)) (map bb_id (fn_blocks f))) = {}"
    using d unfolding deadBlocks_def by (metis set_sort list.set(1))
  then have "blockIds f \<subseteq> set (reachable f) \<union> set (reachableWithUnwind f)" by (auto simp: blockIds_def)
  moreover have "set (reachable f) \<subseteq> set (reachableWithUnwind f)"
    using rtrancl_mono [OF cfg_edges_mono] by (auto simp: set_reachable set_reachableWithUnwind)
  ultimately have ids: "set (reachableWithUnwind f) = blockIds f" using reachableWithUnwind_ids [OF assms(1)] by blast
  moreover have "\<exists>b. blockById f a = Some b" if "a \<in> blockIds f" for a
    using that blockById_distinct [OF assms(1)] by (auto simp: blockIds_def)
  ultimately show "same_flow id f f" unfolding same_flow_def by simp metis
qed

definition sample_location :: source_location where
  "sample_location = \<lparr>sl_file = [], sl_line = 0, sl_column = 0\<rparr>"

definition sample_block :: "block_id \<Rightarrow> terminator_kind \<Rightarrow> block_id \<Rightarrow> block_id \<Rightarrow> basic_block" where
  "sample_block i k t e =
     \<lparr>bb_id = i, bb_kind = BkNormal, bb_parameters = [], bb_instructions = [],
      bb_terminator = \<lparr>te_kind = k, te_value = noOperand, te_target = t, te_elseBlock = e,
        te_cases = [], te_edgeArguments = [], te_location = sample_location\<rparr>,
      bb_exceptionHandlers = [], bb_location = sample_location\<rparr>"

definition sample_function :: "basic_block list \<Rightarrow> mir_function" where
  "sample_function bs =
     \<lparr>fn_id = 1, fn_name = ''f'', fn_ownerClass = [], fn_simpleName = ''f'', fn_parameters = [],
      fn_hasThisParameter = False, fn_returnType = voidType, fn_slots = [], fn_blocks = bs,
      fn_entryBlock = 1, fn_edges = [], fn_isAsync = False, fn_isNative = False,
      fn_exceptionBehavior = EbUnknown, fn_captures = [], fn_incomplete = False\<rparr>"

text \<open>Block 2 is not reachable; it jumps to block 3, which ends the function.\<close>

definition dead_middle :: mir_function where
  "dead_middle = sample_function
     [sample_block 1 TkJump 3 0, sample_block 2 TkJump 3 0, sample_block 3 TkReturn 0 0]"

lemmas sample_simps = sample_function_def sample_block_def sample_location_def





end
