(* ===== verification/Mir_Dominators.thy ===== *)
theory Mir_Dominators
  imports Mir_Cfg
begin

text \<open>
  Dominators (\<open>computeDominators\<close>, \<open>dominates\<close> and \<open>computeDominanceFrontiers\<close> of
  \<^verbatim>\<open>src/mir/analysis.cpp\<close>). The loops of the source may run forever on an arbitrary table, so they
  are partial functions into \<open>option\<close>; that they return, and what, is proved from the laws of the
  reverse post-order, which the locale \<open>rpo_graph\<close> states. The table \<open>immediateDominators_\<close> is a
  function from block ids, 0 where no dominator is known.
\<close>

type_synonym idom_table = "block_id \<Rightarrow> block_id"

partial_function (option) climb :: "(block_id \<Rightarrow> int) \<Rightarrow> idom_table \<Rightarrow> block_id \<Rightarrow> block_id \<Rightarrow> block_id option" where
  "climb num s a b = (if num b < num a then climb num s (s a) b else Some a)"

partial_function (option) intersect :: "(block_id \<Rightarrow> int) \<Rightarrow> idom_table \<Rightarrow> block_id \<Rightarrow> block_id \<Rightarrow> block_id option" where
  "intersect num s a b =
     (if a = b then Some a
      else Option.bind (climb num s a b) (\<lambda>a'. Option.bind (climb num s b a') (\<lambda>b'. intersect num s a' b')))"

fun mergePreds :: "(block_id \<Rightarrow> int) \<Rightarrow> idom_table \<Rightarrow> block_id list \<Rightarrow> block_id \<Rightarrow> block_id option" where
  "mergePreds num s [] acc = Some acc"
| "mergePreds num s (p # ps) acc =
     (if s p = 0 then mergePreds num s ps acc
      else if acc = 0 then mergePreds num s ps p
      else case intersect num s p acc of None \<Rightarrow> None | Some c \<Rightarrow> mergePreds num s ps c)"

fun domPass ::
  "(block_id \<Rightarrow> int) \<Rightarrow> (block_id \<Rightarrow> block_id list) \<Rightarrow> block_id list \<Rightarrow> idom_table \<Rightarrow> bool \<Rightarrow> (idom_table \<times> bool) option"
where
  "domPass num preds [] s changed = Some (s, changed)"
| "domPass num preds (b # bs) s changed =
     (case mergePreds num s (preds b) 0 of
        None \<Rightarrow> None
      | Some y \<Rightarrow>
          if y \<noteq> 0 \<and> s b \<noteq> y then domPass num preds bs (s(b := y)) True
          else domPass num preds bs s changed)"

partial_function (option) domLoop ::
  "(block_id \<Rightarrow> int) \<Rightarrow> (block_id \<Rightarrow> block_id list) \<Rightarrow> block_id list \<Rightarrow> idom_table \<Rightarrow> idom_table option"
where
  "domLoop num preds bs s =
     Option.bind (domPass num preds bs s False)
       (\<lambda>(s', changed). if changed then domLoop num preds bs s' else Some s')"

definition computeDominators :: "mir_function \<Rightarrow> idom_table option" where
  "computeDominators f =
     (if reversePostOrder f = [] then Some (\<lambda>_. 0)
      else domLoop (rpoNumber (reversePostOrder f)) (cfgPredecessors f) (tl (reversePostOrder f))
             ((\<lambda>_. 0)(fn_entryBlock f := fn_entryBlock f)))"

definition immediateDominator :: "mir_function \<Rightarrow> idom_table \<Rightarrow> block_id \<Rightarrow> block_id" where
  "immediateDominator f s i = (if \<not> isValid f i then 0 else if s i = i then 0 else s i)"

partial_function (option) dominatesLoop ::
  "mir_function \<Rightarrow> idom_table \<Rightarrow> block_id \<Rightarrow> block_id \<Rightarrow> bool option"
where
  "dominatesLoop f s a current =
     (if current = 0 then Some False
      else let next = immediateDominator f s current
           in if next = a then Some True
              else if next = 0 \<or> next = current then Some False
              else dominatesLoop f s a next)"

definition dominates :: "mir_function \<Rightarrow> idom_table \<Rightarrow> block_id \<Rightarrow> block_id \<Rightarrow> bool option" where
  "dominates f s a b =
     (if \<not> isValid f a \<or> \<not> isValid f b then Some False
      else if a = b then Some True
      else dominatesLoop f s a b)"

definition strictlyDominates :: "mir_function \<Rightarrow> idom_table \<Rightarrow> block_id \<Rightarrow> block_id \<Rightarrow> bool option" where
  "strictlyDominates f s a b = (if a = b then Some False else dominates f s a b)"

subsection \<open>The dominator tree under construction\<close>

definition up :: "block_id \<Rightarrow> idom_table \<Rightarrow> (block_id \<times> block_id) set" where
  "up e s = {(x, s x) | x. x \<noteq> e \<and> s x \<noteq> 0}"

lemma up_iff: "(x, y) \<in> up e s \<longleftrightarrow> x \<noteq> e \<and> s x \<noteq> 0 \<and> y = s x"
  by (auto simp: up_def)

lemma up_linear:
  assumes "(x, y) \<in> (up e s)\<^sup>*" and "(x, z) \<in> (up e s)\<^sup>*"
  shows "(y, z) \<in> (up e s)\<^sup>* \<or> (z, y) \<in> (up e s)\<^sup>*"
  using assms by (rule single_valued_confluent [rotated]) (auto simp: single_valued_def up_iff)

lemma up_step: "x \<noteq> e \<Longrightarrow> s x \<noteq> 0 \<Longrightarrow> (x, z) \<in> (up e s)\<^sup>* \<longleftrightarrow> x = z \<or> (s x, z) \<in> (up e s)\<^sup>*"
  by (auto simp: up_iff elim: converse_rtranclE intro: converse_rtrancl_into_rtrancl)

lemma up_above:
  assumes "x \<noteq> a" and "x \<noteq> e \<Longrightarrow> s x \<noteq> 0"
  shows "(x, a) \<in> (up e s)\<^sup>* \<longleftrightarrow> x \<noteq> e \<and> (s x, a) \<in> (up e s)\<^sup>*"
proof (cases "x = e")
  case True then show ?thesis using assms(1) by (auto elim: converse_rtranclE simp: up_iff)
next
  case False then show ?thesis using assms up_step [of x e s a] by simp
qed

text \<open>
  What dominators need of the order in which blocks are visited: no block twice, the entry first,
  and every other block after one of its predecessors.
\<close>

locale rpo_graph =
  fixes nodes :: "block_id list" and preds :: "block_id \<Rightarrow> block_id list" and e :: block_id
  assumes distinct_nodes: "distinct nodes"
    and nonzero: "0 \<notin> set nodes"
    and entry_first: "nodes \<noteq> [] \<Longrightarrow> hd nodes = e"
    and earlier_pred: "0 < i \<Longrightarrow> i < length nodes \<Longrightarrow> \<exists>j < i. nodes ! j \<in> set (preds (nodes ! i))"
begin

definition num :: "block_id \<Rightarrow> int" where
  "num = rpoNumber nodes"

definition tree :: "idom_table \<Rightarrow> bool" where
  "tree s \<longleftrightarrow> e \<in> set nodes \<and> s e = e \<and>
     (\<forall>x. s x \<noteq> 0 \<longrightarrow> x \<in> set nodes \<and> s (s x) \<noteq> 0 \<and> (x \<noteq> e \<longrightarrow> num (s x) < num x))"

lemma num_nth: "i < length nodes \<Longrightarrow> num (nodes ! i) = int i"
  using rpoNumber_nth [OF distinct_nodes] by (simp add: num_def)

lemma num_inj: "x \<in> set nodes \<Longrightarrow> y \<in> set nodes \<Longrightarrow> num x = num y \<Longrightarrow> x = y"
  by (auto simp: in_set_conv_nth num_nth)

lemma num_nonneg: "x \<in> set nodes \<Longrightarrow> 0 \<le> num x"
  by (auto simp: in_set_conv_nth num_nth)

lemma num_entry: "e \<in> set nodes \<Longrightarrow> num e = 0"
  using entry_first num_nth [of 0] by (cases nodes) auto

lemma num_pos: "x \<in> set nodes \<Longrightarrow> x \<noteq> e \<Longrightarrow> 0 < num x"
proof -
  assume x: "x \<in> set nodes" "x \<noteq> e"
  then obtain i where "i < length nodes" "x = nodes ! i" by (auto simp: in_set_conv_nth)
  then show ?thesis using x entry_first num_nth [of i] by (cases i; cases nodes) auto
qed

lemma tree_up:
  assumes "tree s" and "(x, y) \<in> (up e s)\<^sup>*" and "s x \<noteq> 0"
  shows "s y \<noteq> 0 \<and> (x = y \<or> num y < num x)"
  using assms(2,3)
proof (induction rule: rtrancl_induct)
  case (step y z)
  then show ?case using assms(1) unfolding tree_def up_iff by (metis order.strict_trans)
qed simp

lemma tree_up_num:
  assumes "tree s" and "(x, y) \<in> (up e s)\<^sup>*" and "s x \<noteq> 0"
  shows "num y \<le> num x"
  using tree_up [OF assms] by auto

lemma tree_antisym:
  assumes "tree s" "s x \<noteq> 0" "(x, y) \<in> (up e s)\<^sup>*" "num x \<le> num y"
  shows "x = y"
  using tree_up [OF assms(1,3,2)] assms(4) by auto

lemma climb_correct:
  assumes "tree s" and "s a \<noteq> 0" and "b \<in> set nodes"
  shows "\<exists>a'. climb num s a b = Some a' \<and> (a, a') \<in> (up e s)\<^sup>* \<and> num a' \<le> num b \<and>
    (\<forall>z. (a, z) \<in> (up e s)\<^sup>* \<and> num z \<le> num b \<longrightarrow> (a', z) \<in> (up e s)\<^sup>*)"
  using assms(2)
proof (induction "nat (num a)" arbitrary: a rule: less_induct)
  case less
  show ?case
  proof (cases "num b < num a")
    case False then show ?thesis by (subst climb.simps) auto
  next
    case True
    then have a: "a \<noteq> e" using num_nonneg [OF assms(3)] num_entry assms(1) by (auto simp: tree_def)
    then have s: "s (s a) \<noteq> 0" "num (s a) < num a" "0 \<le> num (s a)"
      using less.prems assms(1) num_nonneg by (auto simp: tree_def)
    obtain a' where a': "climb num s (s a) b = Some a'" "(s a, a') \<in> (up e s)\<^sup>*" "num a' \<le> num b"
      "\<forall>z. (s a, z) \<in> (up e s)\<^sup>* \<and> num z \<le> num b \<longrightarrow> (a', z) \<in> (up e s)\<^sup>*"
      using less.hyps [of "s a"] s by (auto simp: nat_less_iff)
    have "climb num s a b = Some a'" using True a'(1) by (subst climb.simps) simp
    then show ?thesis using a' True up_step [of a e s, OF a less.prems] by auto
  qed
qed

lemma intersect_correct:
  assumes "tree s" and "s a \<noteq> 0" and "s b \<noteq> 0"
  shows "\<exists>c. intersect num s a b = Some c \<and>
    (\<forall>z. (c, z) \<in> (up e s)\<^sup>* \<longleftrightarrow> (a, z) \<in> (up e s)\<^sup>* \<and> (b, z) \<in> (up e s)\<^sup>*)"
  using assms(2,3)
proof (induction "nat (num a + num b)" arbitrary: a b rule: less_induct)
  case less
  have n: "a \<in> set nodes" "b \<in> set nodes" using less.prems assms(1) by (auto simp: tree_def)
  show ?case
  proof (cases "a = b")
    case True then show ?thesis by (subst intersect.simps) simp
  next
    case False
    obtain a' where a': "climb num s a b = Some a'" "(a, a') \<in> (up e s)\<^sup>*" "num a' \<le> num b"
      "\<And>z. (a, z) \<in> (up e s)\<^sup>* \<Longrightarrow> num z \<le> num b \<Longrightarrow> (a', z) \<in> (up e s)\<^sup>*"
      using climb_correct [OF assms(1) less.prems(1) n(2)] by blast
    have sa: "s a' \<noteq> 0" "a = a' \<or> num a' < num a" using tree_up [OF assms(1) a'(2) less.prems(1)] by auto
    then have na: "a' \<in> set nodes" using assms(1) by (auto simp: tree_def)
    obtain b' where b': "climb num s b a' = Some b'" "(b, b') \<in> (up e s)\<^sup>*" "num b' \<le> num a'"
      "\<And>z. (b, z) \<in> (up e s)\<^sup>* \<Longrightarrow> num z \<le> num a' \<Longrightarrow> (b', z) \<in> (up e s)\<^sup>*"
      using climb_correct [OF assms(1) less.prems(2) na] by blast
    have sb: "s b' \<noteq> 0" "b = b' \<or> num b' < num b" using tree_up [OF assms(1) b'(2) less.prems(2)] by auto
    then have nb: "b' \<in> set nodes" using assms(1) by (auto simp: tree_def)
    have "num a' + num b' < num a + num b"
      using sa(2) sb(2) False a'(3) b'(3) num_inj [OF n] by fastforce
    moreover have "0 \<le> num a' + num b'" using num_nonneg na nb by (simp add: add_nonneg_nonneg)
    ultimately obtain c where c: "intersect num s a' b' = Some c"
      "\<And>z. (c, z) \<in> (up e s)\<^sup>* \<longleftrightarrow> (a', z) \<in> (up e s)\<^sup>* \<and> (b', z) \<in> (up e s)\<^sup>*"
      using less.hyps [of a' b'] sa(1) sb(1) by (auto simp: nat_less_iff)
    have "intersect num s a b = Some c" using False a'(1) b'(1) c(1) by (subst intersect.simps) simp
    moreover have "(a', z) \<in> (up e s)\<^sup>* \<and> (b', z) \<in> (up e s)\<^sup>* \<longleftrightarrow>
        (a, z) \<in> (up e s)\<^sup>* \<and> (b, z) \<in> (up e s)\<^sup>*" for z
    proof
      assume "(a, z) \<in> (up e s)\<^sup>* \<and> (b, z) \<in> (up e s)\<^sup>*"
      moreover then have "num z \<le> num b" using tree_up_num [OF assms(1)] less.prems(2) by blast
      ultimately have "(a', z) \<in> (up e s)\<^sup>*" "(b, z) \<in> (up e s)\<^sup>*" using a'(4) by auto
      moreover then have "num z \<le> num a'" using tree_up_num [OF assms(1)] sa(1) by blast
      ultimately show "(a', z) \<in> (up e s)\<^sup>* \<and> (b', z) \<in> (up e s)\<^sup>*" using b'(4) by auto
    qed (use a'(2) b'(2) in \<open>auto intro: rtrancl_trans\<close>)
    ultimately show ?thesis using c(2) by auto
  qed
qed


lemma tree_nonzero: "tree s \<Longrightarrow> s c \<noteq> 0 \<Longrightarrow> c \<noteq> 0"
  using nonzero unfolding tree_def by metis

lemma intersect_some:
  assumes "tree s" "s a \<noteq> 0" "s b \<noteq> 0" "intersect num s a b = Some c"
  shows "s c \<noteq> 0 \<and> c \<noteq> 0"
proof -
  have "(a, c) \<in> (up e s)\<^sup>*" using intersect_correct [OF assms(1-3)] assms(4) by auto
  then have "s c \<noteq> 0" using tree_up [OF assms(1) _ assms(2)] by blast
  then show ?thesis using tree_nonzero [OF assms(1)] by blast
qed

definition known :: "idom_table \<Rightarrow> block_id \<Rightarrow> block_id set" where
  "known s b = {p \<in> set (preds b). s p \<noteq> 0}"

lemma mergePreds_acc:
  assumes "tree s" and "s acc \<noteq> 0"
  shows "\<exists>c. mergePreds num s ps acc = Some c \<and> c \<noteq> 0 \<and> s c \<noteq> 0 \<and>
    (\<forall>z. (c, z) \<in> (up e s)\<^sup>* \<longleftrightarrow>
       (acc, z) \<in> (up e s)\<^sup>* \<and> (\<forall>p \<in> set ps. s p \<noteq> 0 \<longrightarrow> (p, z) \<in> (up e s)\<^sup>*))"
  using assms(2)
proof (induction ps arbitrary: acc)
  case Nil then show ?case using tree_nonzero [OF assms(1)] by auto
next
  case (Cons p ps)
  have acc: "acc \<noteq> 0" using tree_nonzero [OF assms(1) Cons.prems] .
  show ?case
  proof (cases "s p = 0")
    case True then show ?thesis using Cons.IH [OF Cons.prems] by auto
  next
    case False
    obtain d where d: "intersect num s p acc = Some d"
      "\<And>z. (d, z) \<in> (up e s)\<^sup>* \<longleftrightarrow> (p, z) \<in> (up e s)\<^sup>* \<and> (acc, z) \<in> (up e s)\<^sup>*"
      using intersect_correct [OF assms(1) False Cons.prems] by blast
    then have "s d \<noteq> 0" using intersect_some [OF assms(1) False Cons.prems] by blast
    from Cons.IH [OF this] show ?thesis using d False acc by auto
  qed
qed

lemma mergePreds_correct:
  assumes "tree s" and "known s b \<noteq> {}"
  shows "\<exists>y. mergePreds num s (preds b) 0 = Some y \<and> y \<noteq> 0 \<and> s y \<noteq> 0 \<and>
    (\<forall>z. (y, z) \<in> (up e s)\<^sup>* \<longleftrightarrow> (\<forall>p \<in> known s b. (p, z) \<in> (up e s)\<^sup>*))"
proof -
  have "\<exists>y. mergePreds num s ps 0 = Some y \<and> y \<noteq> 0 \<and> s y \<noteq> 0 \<and>
      (\<forall>z. (y, z) \<in> (up e s)\<^sup>* \<longleftrightarrow> (\<forall>p \<in> set ps. s p \<noteq> 0 \<longrightarrow> (p, z) \<in> (up e s)\<^sup>*))"
    if "\<exists>p \<in> set ps. s p \<noteq> 0" for ps
    using that
  proof (induction ps)
    case (Cons p ps)
    then show ?case using mergePreds_acc [OF assms(1), of p ps] by (cases "s p = 0") auto
  qed simp
  from this [of "preds b"] show ?thesis using assms(2) unfolding known_def by blast
qed

subsection \<open>One update of the table\<close>

lemma up_before:
  assumes "tree s" "s u \<noteq> 0" "(u, v) \<in> (up e s)\<^sup>*" "num b \<le> num v"
  shows "(u, v) \<in> (up e (s(b := y)))\<^sup>*"
  using assms(3,4,2)
proof (induction rule: converse_rtrancl_induct)
  case (step x z)
  have "s z \<noteq> 0" "num z < num x" using step(1,5) assms(1) by (auto simp: up_iff tree_def)
  moreover have "num v \<le> num z" using tree_up_num [OF assms(1) step(2) \<open>s z \<noteq> 0\<close>] .
  ultimately have "x \<noteq> b" using step(4) by auto
  then have "(x, z) \<in> up e (s(b := y))" using step(1) by (auto simp: up_iff)
  then show ?case using step.IH [OF step(4) \<open>s z \<noteq> 0\<close>] by (rule converse_rtrancl_into_rtrancl)
qed simp

lemma up_aside:
  assumes "(u, b) \<notin> (up e s)\<^sup>*"
  shows "(u, v) \<in> (up e (s(b := y)))\<^sup>* \<longleftrightarrow> (u, v) \<in> (up e s)\<^sup>*"
proof
  assume "(u, v) \<in> (up e s)\<^sup>*"
  then show "(u, v) \<in> (up e (s(b := y)))\<^sup>*"
  proof (induction rule: rtrancl_induct)
    case (step x z)
    then have "x \<noteq> b" using assms by auto
    then have "(x, z) \<in> up e (s(b := y))" using step(2) by (auto simp: up_iff)
    then show ?case using step.IH by (rule rtrancl_into_rtrancl [rotated])
  qed simp
next
  assume "(u, v) \<in> (up e (s(b := y)))\<^sup>*"
  then show "(u, v) \<in> (up e s)\<^sup>*"
  proof (induction rule: rtrancl_induct)
    case (step x z)
    then have "x \<noteq> b" using assms by auto
    then have "(x, z) \<in> up e s" using step(2) by (auto simp: up_iff)
    then show ?case using step.IH by (rule rtrancl_into_rtrancl [rotated])
  qed simp
qed

lemma up_after:
  assumes "tree s" "s u \<noteq> 0" "b \<noteq> e" "s b \<noteq> 0 \<Longrightarrow> (s b, y) \<in> (up e s)\<^sup>*"
    and "(u, v) \<in> (up e (s(b := y)))\<^sup>*"
  shows "(u, v) \<in> (up e s)\<^sup>*"
proof (cases "s b = 0")
  case True
  then have "(u, b) \<notin> (up e s)\<^sup>*" using tree_up [OF assms(1) _ assms(2)] by blast
  then show ?thesis using up_aside assms(5) by blast
next
  case False
  then have "(b, y) \<in> (up e s)\<^sup>*" using up_step [of b e s y] assms(3,4) by blast
  moreover have "(x, s x) \<in> (up e s)\<^sup>*" if "x \<noteq> e" "s x \<noteq> 0" for x
    using that by (intro r_into_rtrancl) (simp add: up_iff)
  ultimately have "up e (s(b := y)) \<subseteq> (up e s)\<^sup>*" by (auto simp: up_iff split: if_splits)
  then show ?thesis using assms(5) by (metis rtrancl_subset_rtrancl subsetD)
qed


text \<open>Blocks a path from the entry reaches without entering \<open>a\<close>.\<close>

inductive around :: "block_id \<Rightarrow> block_id \<Rightarrow> bool" for a where
  around_entry: "e \<noteq> a \<Longrightarrow> around a e"
| around_step: "around a p \<Longrightarrow> p \<in> set (preds b) \<Longrightarrow> b \<in> set nodes \<Longrightarrow> b \<noteq> a \<Longrightarrow> around a b"

definition parent :: "block_id \<Rightarrow> block_id" where
  "parent c = (SOME p. p \<in> set (preds c) \<and> p \<in> set nodes \<and> num p < num c)"

lemma parent_props:
  assumes "c \<in> set nodes" "c \<noteq> e"
  shows "parent c \<in> set (preds c)" "parent c \<in> set nodes" "num (parent c) < num c"
proof -
  obtain i where i: "i < length nodes" "c = nodes ! i" using assms(1) by (auto simp: in_set_conv_nth)
  then have "0 < i" using num_pos [OF assms] num_nth by auto
  then obtain j where "j < i" "nodes ! j \<in> set (preds c)" using earlier_pred i by blast
  then have "\<exists>p. p \<in> set (preds c) \<and> p \<in> set nodes \<and> num p < num c"
    using i num_nth by (intro exI [of _ "nodes ! j"]) auto
  then show "parent c \<in> set (preds c)" "parent c \<in> set nodes" "num (parent c) < num c"
    unfolding parent_def by (metis (mono_tags, lifting) someI_ex)+
qed

text \<open>
  The invariant of a pass about to treat position \<open>i\<close>: the table is a tree; all earlier positions
  are known and a known block's parent is; common ancestors of a block's known predecessors are
  ancestors of its entry in the table; the table stays below the parent's chain, in full for the
  blocks already treated and from \<open>i\<close> down for the others; and no dominator is skipped.
\<close>

definition dom_local :: "int \<Rightarrow> idom_table \<Rightarrow> block_id \<Rightarrow> bool" where
  "dom_local i s c \<longleftrightarrow>
     s (parent c) \<noteq> 0 \<and>
     (\<forall>z. (\<forall>p \<in> known s c. (p, z) \<in> (up e s)\<^sup>*) \<longrightarrow> (s c, z) \<in> (up e s)\<^sup>*) \<and>
     (\<forall>a. (s c, a) \<in> (up e s)\<^sup>* \<and> (num c < i \<or> i \<le> num a) \<longrightarrow> (parent c, a) \<in> (up e s)\<^sup>*) \<and>
     (\<forall>a. around a (s c) \<longrightarrow> c \<noteq> a \<longrightarrow> around a c)"

definition dom_inv :: "int \<Rightarrow> idom_table \<Rightarrow> bool" where
  "dom_inv i s \<longleftrightarrow> tree s \<and>
     (\<forall>c \<in> set nodes. num c < i \<longrightarrow> s c \<noteq> 0) \<and> (\<forall>c. c \<noteq> e \<and> s c \<noteq> 0 \<longrightarrow> dom_local i s c)"

lemma dom_invD:
  assumes "dom_inv i s"
  shows "tree s" and "\<And>c. c \<in> set nodes \<Longrightarrow> num c < i \<Longrightarrow> s c \<noteq> 0"
    and "\<And>c. c \<noteq> e \<Longrightarrow> s c \<noteq> 0 \<Longrightarrow> s (parent c) \<noteq> 0"
    and "\<And>c z. c \<noteq> e \<Longrightarrow> s c \<noteq> 0 \<Longrightarrow> (\<And>p. p \<in> known s c \<Longrightarrow> (p, z) \<in> (up e s)\<^sup>*) \<Longrightarrow> (s c, z) \<in> (up e s)\<^sup>*"
    and "\<And>c a. c \<noteq> e \<Longrightarrow> s c \<noteq> 0 \<Longrightarrow> (s c, a) \<in> (up e s)\<^sup>* \<Longrightarrow> num c < i \<or> i \<le> num a \<Longrightarrow> (parent c, a) \<in> (up e s)\<^sup>*"
    and "\<And>c a. c \<noteq> e \<Longrightarrow> s c \<noteq> 0 \<Longrightarrow> around a (s c) \<Longrightarrow> c \<noteq> a \<Longrightarrow> around a c"
  using assms unfolding dom_inv_def dom_local_def by blast+

lemma around_up:
  assumes "dom_inv i s" "(p, y) \<in> (up e s)\<^sup>*" "around a y" "\<not> around a p"
  shows "(p, a) \<in> (up e s)\<^sup>* \<and> (a, y) \<in> (up e s)\<^sup>* \<and> a \<noteq> y"
  using assms(2,3,4)
proof (induction rule: converse_rtrancl_induct)
  case (step x z)
  show ?case
  proof (cases "around a z")
    case True
    then have "x = a" using step(1,5) dom_invD(6) [OF assms(1), of x a] by (auto simp: up_iff)
    moreover have "a \<noteq> y" using step(4) by (cases rule: around.cases) auto
    ultimately show ?thesis using step(1,2) by (auto intro: converse_rtrancl_into_rtrancl)
  next
    case False
    then show ?thesis using step by (auto intro: converse_rtrancl_into_rtrancl)
  qed
qed simp

text \<open>\<open>y\<close> is the nearest common ancestor of the known predecessors of the block at position \<open>i\<close>.\<close>

definition merged :: "int \<Rightarrow> idom_table \<Rightarrow> block_id \<Rightarrow> block_id \<Rightarrow> bool" where
  "merged i s b y \<longleftrightarrow> dom_inv i s \<and> b \<in> set nodes \<and> b \<noteq> e \<and> num b = i \<and> s y \<noteq> 0 \<and>
     (\<forall>z. (y, z) \<in> (up e s)\<^sup>* \<longleftrightarrow> (\<forall>p \<in> known s b. (p, z) \<in> (up e s)\<^sup>*))"

lemma mergedD:
  assumes "merged i s b y"
  shows "dom_inv i s" "b \<in> set nodes" "b \<noteq> e" "num b = i" "s y \<noteq> 0"
    and "\<And>z. (y, z) \<in> (up e s)\<^sup>* \<longleftrightarrow> (\<forall>p \<in> known s b. (p, z) \<in> (up e s)\<^sup>*)"
  using assms unfolding merged_def by blast+

lemma merged_parent:
  assumes "merged i s b y"
  shows "parent b \<in> known s b" "num (parent b) < i" "s (parent b) \<noteq> 0" "(parent b, y) \<in> (up e s)\<^sup>*" "num y < i"
proof -
  note M = mergedD [OF assms]
  show p: "parent b \<in> known s b" "num (parent b) < i"
    using parent_props [OF M(2,3)] dom_invD(2) [OF M(1)] M(4) by (auto simp: known_def)
  then show "s (parent b) \<noteq> 0" by (simp add: known_def)
  show y: "(parent b, y) \<in> (up e s)\<^sup>*" using M(6) [of y] p(1) by auto
  show "num y < i" using tree_up_num [OF dom_invD(1) [OF M(1)] y] p by (auto simp: known_def)
qed

lemma merged_paths:
  assumes "merged i s b y"
  shows "\<And>u v. s u \<noteq> 0 \<Longrightarrow> num u < i \<Longrightarrow> (u, v) \<in> (up e (s(b := y)))\<^sup>* \<longleftrightarrow> (u, v) \<in> (up e s)\<^sup>*"
    and "\<And>u v. s u \<noteq> 0 \<Longrightarrow> (u, v) \<in> (up e (s(b := y)))\<^sup>* \<Longrightarrow> (u, v) \<in> (up e s)\<^sup>*"
    and "\<And>u v. s u \<noteq> 0 \<Longrightarrow> (u, v) \<in> (up e s)\<^sup>* \<Longrightarrow> i \<le> num v \<Longrightarrow> (u, v) \<in> (up e (s(b := y)))\<^sup>*"
    and "tree (s(b := y))"
    and "\<And>c. known s c \<subseteq> known (s(b := y)) c"
proof -
  note M = mergedD [OF assms] and P = merged_parent [OF assms]
  note t = dom_invD(1) [OF M(1)]
  have sy: "(s b, y) \<in> (up e s)\<^sup>*" if "s b \<noteq> 0" using dom_invD(4) [OF M(1,3) that] M(6) [of y] by auto
  have yn: "y \<noteq> 0" using tree_nonzero [OF t M(5)] .
  show "(u, v) \<in> (up e (s(b := y)))\<^sup>* \<longleftrightarrow> (u, v) \<in> (up e s)\<^sup>*" if "s u \<noteq> 0" "num u < i" for u v
    using that tree_up_num [OF t, of u b] M(4) by (intro up_aside) auto
  show "(u, v) \<in> (up e s)\<^sup>*" if "s u \<noteq> 0" "(u, v) \<in> (up e (s(b := y)))\<^sup>*" for u v
    using up_after [OF t that(1) M(3) sy that(2)] .
  show "(u, v) \<in> (up e (s(b := y)))\<^sup>*" if "s u \<noteq> 0" "(u, v) \<in> (up e s)\<^sup>*" "i \<le> num v" for u v
    using up_before [OF t that(1,2)] that(3) M(4) by auto
  show "tree (s(b := y))" using t M(2-5) P(5) yn by (auto simp: tree_def)
  show "known s c \<subseteq> known (s(b := y)) c" for c using yn by (auto simp: known_def)
qed

lemma merged_keeps_dominators:
  assumes "merged i s b y" "around a y" "b \<noteq> a"
  shows "around a b"
proof (rule ccontr)
  note M = mergedD [OF assms(1)] and P = merged_parent [OF assms(1)]
  assume n: "\<not> around a b"
  have "\<not> around a p" if "p \<in> known s b" for p
    using that n assms(3) M(2) around_step [of a p b] by (auto simp: known_def)
  then have "(p, a) \<in> (up e s)\<^sup>* \<and> (a, y) \<in> (up e s)\<^sup>* \<and> a \<noteq> y" if "p \<in> known s b" for p
    using around_up [OF M(1) _ assms(2)] M(6) [of y] that by blast
  then have "(y, a) \<in> (up e s)\<^sup>*" "(a, y) \<in> (up e s)\<^sup>*" "a \<noteq> y" using M(6) P(1) by blast+
  then show False
    using tree_up [OF dom_invD(1) [OF M(1)], of y a] tree_up_num [OF dom_invD(1) [OF M(1)], of a y] M(5) by auto
qed

lemma merged_self:
  assumes "merged i s b y"
  shows "dom_local (i + 1) (s(b := y)) b"
proof -
  let ?s = "s(b := y)"
  note M = mergedD [OF assms] and P = merged_parent [OF assms] and U = merged_paths [OF assms]
  have "(y, z) \<in> (up e ?s)\<^sup>*" if z: "\<forall>p \<in> known ?s b. (p, z) \<in> (up e ?s)\<^sup>*" for z
  proof -
    have "(p, z) \<in> (up e s)\<^sup>*" if "p \<in> known s b" for p
      using that z U(5) U(2) [of p z] by (auto simp: known_def)
    then show ?thesis using M(6) U(1) [OF M(5) P(5)] by blast
  qed
  moreover have "(parent b, a) \<in> (up e ?s)\<^sup>*" if "(y, a) \<in> (up e ?s)\<^sup>*" for a
    using that U(1) [OF M(5) P(5)] U(1) [OF P(3,2)] P(4) by (auto intro: rtrancl_trans)
  moreover have "parent b \<noteq> b" using P(2) M(4) by auto
  ultimately show ?thesis using P(3) merged_keeps_dominators [OF assms] by (auto simp: dom_local_def)
qed

lemma merged_common:
  assumes "merged i s b y" "c \<noteq> e" "c \<noteq> b" "s c \<noteq> 0"
    and z: "\<forall>p \<in> known (s(b := y)) c. (p, z) \<in> (up e (s(b := y)))\<^sup>*"
  shows "(s c, z) \<in> (up e (s(b := y)))\<^sup>*"
proof (cases "(s c, b) \<in> (up e s)\<^sup>*")
  note M = mergedD [OF assms(1)] and U = merged_paths [OF assms(1)]
  note I = dom_invD [OF M(1)]
  have sc: "s (s c) \<noteq> 0" "c \<in> set nodes" using I(1) assms(2,4) by (auto simp: tree_def)
  have zs: "(s c, z) \<in> (up e s)\<^sup>*"
  proof (rule I(4) [OF assms(2,4)])
    fix p assume p: "p \<in> known s c"
    then have "(p, z) \<in> (up e (s(b := y)))\<^sup>*" using z U(5) by blast
    then show "(p, z) \<in> (up e s)\<^sup>*" using p U(2) by (simp add: known_def)
  qed
  {
    case False then show ?thesis using up_aside zs by blast
  next
    case True
    have pc: "s (parent c) \<noteq> 0" "parent c \<in> known s c"
      using I(3) [OF assms(2,4)] parent_props [OF sc(2) assms(2)] by (auto simp: known_def)
    have "(parent c, b) \<in> (up e s)\<^sup>*" using I(5) [OF assms(2,4) True] M(4) by simp
    then have "(parent c, b) \<in> (up e (s(b := y)))\<^sup>*" using U(3) pc(1) M(4) by simp
    moreover have "(parent c, z) \<in> (up e (s(b := y)))\<^sup>*" using z pc(2) U(5) by blast
    ultimately consider "(b, z) \<in> (up e (s(b := y)))\<^sup>*" | "(z, b) \<in> (up e (s(b := y)))\<^sup>*" using up_linear by blast
    then show ?thesis
    proof cases
      case 1
      then show ?thesis using U(3) [OF sc(1) True] M(4) by (auto intro: rtrancl_trans)
    next
      case 2
      have "s z \<noteq> 0" using tree_up [OF I(1) zs sc(1)] by simp
      then have "(s(b := y)) z \<noteq> 0" using tree_nonzero [OF I(1) M(5)] by simp
      then have "num b \<le> num z" using tree_up_num [OF U(4) 2] by blast
      then show ?thesis using U(3) [OF sc(1) zs] M(4) by simp
    qed
  }
qed

lemma merged_other:
  assumes "merged i s b y" "c \<noteq> e" "c \<noteq> b" "s c \<noteq> 0"
  shows "dom_local (i + 1) (s(b := y)) c"
proof -
  note M = mergedD [OF assms(1)] and U = merged_paths [OF assms(1)]
  note I = dom_invD [OF M(1)]
  have sc: "s (s c) \<noteq> 0" "c \<in> set nodes" using I(1) assms(2,4) by (auto simp: tree_def)
  have pc: "s (parent c) \<noteq> 0" "num (parent c) < num c"
    using I(3) [OF assms(2,4)] parent_props [OF sc(2) assms(2)] by auto
  have "(parent c, a) \<in> (up e (s(b := y)))\<^sup>*"
    if a: "(s c, a) \<in> (up e (s(b := y)))\<^sup>*" "num c < i + 1 \<or> i + 1 \<le> num a" for a
  proof -
    have "(s c, a) \<in> (up e s)\<^sup>*" using U(2) sc(1) a(1) by blast
    moreover have "num c \<noteq> i" using num_inj [OF sc(2) M(2)] assms(3) M(4) by auto
    ultimately have "(parent c, a) \<in> (up e s)\<^sup>*" "num c < i \<or> i \<le> num a" using I(5) [OF assms(2,4)] a(2) by auto
    then show ?thesis using U(1) [OF pc(1)] U(3) [OF pc(1)] pc(2) by fastforce
  qed
  then show ?thesis
    using pc(1) assms(3) merged_common [OF assms] I(6) [OF assms(2,4)] tree_nonzero [OF I(1) M(5)]
    by (auto simp: dom_local_def)
qed

lemma update_inv:
  assumes "merged i s b y"
  shows "dom_inv (i + 1) (s(b := y))"
proof -
  note M = mergedD [OF assms] and yn = tree_nonzero [OF dom_invD(1) [OF mergedD(1) [OF assms]] mergedD(5) [OF assms]]
  have "(s(b := y)) c \<noteq> 0" if "c \<in> set nodes" "num c < i + 1" for c
    using that dom_invD(2) [OF M(1), of c] num_inj [OF that(1) M(2)] M(4) yn by (cases "num c < i") auto
  moreover have "dom_local (i + 1) (s(b := y)) c" if "c \<noteq> e" "(s(b := y)) c \<noteq> 0" for c
    using that merged_self [OF assms] merged_other [OF assms] by (cases "c = b") auto
  ultimately show ?thesis using merged_paths(4) [OF assms] by (simp add: dom_inv_def)
qed


text \<open>Every change of the table brings an entry closer to the root.\<close>

definition weight :: "idom_table \<Rightarrow> nat" where
  "weight s = (\<Sum>x \<in> set nodes. if s x = 0 then length nodes else nat (num (s x)))"

lemma weight_update:
  assumes "merged i s b y" "s b \<noteq> y"
  shows "weight (s(b := y)) < weight s"
proof -
  note M = mergedD [OF assms(1)] and P = merged_parent [OF assms(1)]
  note I = dom_invD [OF M(1)]
  have y: "y \<in> set nodes" "y \<noteq> 0" using I(1) M(5) tree_nonzero [OF I(1) M(5)] unfolding tree_def by blast+
  obtain k where k: "k < length nodes" "b = nodes ! k" using M(2) by (auto simp: in_set_conv_nth)
  then have "num b = int k" by (simp add: num_nth)
  then have "nat (num y) < length nodes" using P(5) M(4) k(1) num_nonneg [OF y(1)] by linarith
  moreover have "nat (num y) < nat (num (s b))" if sb: "s b \<noteq> 0"
  proof -
    have "(s b, y) \<in> (up e s)\<^sup>*" using I(4) [OF M(3) sb] M(6) [of y] by auto
    moreover have "s (s b) \<noteq> 0" using I(1) sb unfolding tree_def by blast
    ultimately show ?thesis using tree_up [OF I(1), of "s b" y] assms(2) num_nonneg [OF y(1)] by linarith
  qed
  ultimately have lt: "nat (num y) < (if s b = 0 then length nodes else nat (num (s b)))" by simp
  show ?thesis
    unfolding weight_def
  proof (rule sum_strict_mono_ex1)
    show "\<forall>x \<in> set nodes. (if (s(b := y)) x = 0 then length nodes else nat (num ((s(b := y)) x)))
        \<le> (if s x = 0 then length nodes else nat (num (s x)))"
      using lt y(2) by (auto split: if_splits)
    show "\<exists>x \<in> set nodes. (if (s(b := y)) x = 0 then length nodes else nat (num ((s(b := y)) x)))
        < (if s x = 0 then length nodes else nat (num (s x)))"
      by (rule bexI [OF _ M(2)]) (use lt y(2) in simp)
  qed simp
qed

lemma merged_exists:
  assumes "dom_inv (int i) s" "0 < i" "i < length nodes"
  shows "\<exists>y. mergePreds num s (preds (nodes ! i)) 0 = Some y \<and> y \<noteq> 0 \<and> merged (int i) s (nodes ! i) y"
proof -
  let ?b = "nodes ! i"
  have b: "?b \<in> set nodes" "num ?b = int i" using assms num_nth by auto
  then have be: "?b \<noteq> e" using num_entry assms(2) by auto
  have "parent ?b \<in> known s ?b"
    using parent_props [OF b(1) be] dom_invD(2) [OF assms(1)] b(2) by (auto simp: known_def)
  then obtain y where y: "mergePreds num s (preds ?b) 0 = Some y" "y \<noteq> 0" "s y \<noteq> 0"
    "\<forall>z. (y, z) \<in> (up e s)\<^sup>* \<longleftrightarrow> (\<forall>p \<in> known s ?b. (p, z) \<in> (up e s)\<^sup>*)"
    using mergePreds_correct [OF dom_invD(1) [OF assms(1)], of ?b] by blast
  then show ?thesis using assms(1) b be unfolding merged_def by blast
qed

definition settled :: "idom_table \<Rightarrow> block_id \<Rightarrow> bool" where
  "settled s b \<longleftrightarrow> (\<forall>p \<in> known s b. (p, s b) \<in> (up e s)\<^sup>*)"

lemma domPass_correct:
  assumes "dom_inv (int i) s" "0 < i" "i \<le> length nodes"
  shows "\<exists>s' changed'. domPass num preds (drop i nodes) s changed = Some (s', changed') \<and>
    dom_inv (int (length nodes)) s' \<and> weight s' \<le> weight s \<and>
    (\<not> changed' \<longrightarrow> \<not> changed \<and> s' = s \<and> (\<forall>b \<in> set (drop i nodes). settled s b)) \<and>
    (changed' \<longrightarrow> changed \<or> weight s' < weight s)"
  using assms
proof (induction "length nodes - i" arbitrary: i s changed)
  case 0 then show ?case by simp
next
  case (Suc n)
  let ?b = "nodes ! i"
  have i: "i < length nodes" using Suc.hyps(2) by simp
  then have d: "drop i nodes = ?b # drop (Suc i) nodes" by (simp add: Cons_nth_drop_Suc)
  obtain y where y: "mergePreds num s (preds ?b) 0 = Some y" "y \<noteq> 0" "merged (int i) s ?b y"
    using merged_exists [OF Suc.prems(1,2) i] by blast
  let ?s = "s(?b := y)"
  have inv: "dom_inv (int (Suc i)) ?s" using update_inv [OF y(3)] by (simp add: add.commute)
  have n: "n = length nodes - Suc i" "Suc i \<le> length nodes" using Suc.hyps(2) i by auto
  show ?case
  proof (cases "s ?b = y")
    case True
    then have s: "?s = s" by auto
    have "settled s ?b" using True mergedD(6) [OF y(3), of y] by (auto simp: settled_def)
    then show ?thesis using Suc.hyps(1) [OF n(1) inv _ n(2), of changed] True y(1) unfolding d s by auto
  next
    case False
    have "weight ?s < weight s" using weight_update [OF y(3) False] .
    then show ?thesis using Suc.hyps(1) [OF n(1) inv _ n(2), of True] False y(1,2) unfolding d by fastforce
  qed
qed

lemma dom_inv_restart:
  assumes "dom_inv (int (length nodes)) s"
  shows "dom_inv 1 s"
proof -
  have "num c < int (length nodes)" if "s c \<noteq> 0" for c
  proof -
    have "c \<in> set nodes" using that dom_invD(1) [OF assms] by (auto simp: tree_def)
    then show ?thesis by (auto simp: in_set_conv_nth num_nth)
  qed
  moreover have "num c < int (length nodes)" if "c \<in> set nodes" for c
    using that by (auto simp: in_set_conv_nth num_nth)
  ultimately show ?thesis using assms unfolding dom_inv_def dom_local_def by meson
qed

lemma domLoop_correct:
  assumes "dom_inv 1 s" "nodes \<noteq> []"
  shows "\<exists>s'. domLoop num preds (drop 1 nodes) s = Some s' \<and> dom_inv (int (length nodes)) s' \<and>
    (\<forall>b \<in> set (drop 1 nodes). settled s' b)"
  using assms(1)
proof (induction "weight s" arbitrary: s rule: less_induct)
  case less
  have "dom_inv (int 1) s" "1 \<le> length nodes" using less.prems assms(2) by (auto simp: Suc_le_eq)
  then obtain s' c where p: "domPass num preds (drop 1 nodes) s False = Some (s', c)"
    "dom_inv (int (length nodes)) s'" "\<not> c \<longrightarrow> s' = s \<and> (\<forall>b \<in> set (drop 1 nodes). settled s b)"
    "c \<longrightarrow> weight s' < weight s" using domPass_correct [of 1 s False] by auto
  show ?case
  proof (cases c)
    case True
    then show ?thesis
      using less.hyps [of s'] p dom_inv_restart [OF p(2)] by (subst domLoop.simps) auto
  next
    case False
    then show ?thesis using p by (subst domLoop.simps) auto
  qed
qed

lemma around_nodes: "around a x \<Longrightarrow> e \<in> set nodes \<Longrightarrow> x \<in> set nodes"
  by (cases rule: around.cases) auto

lemma settled_exact:
  assumes inv: "dom_inv (int (length nodes)) s" and fx: "\<forall>b \<in> set (drop 1 nodes). settled s b"
    and x: "x \<in> set nodes"
  shows "(x, a) \<in> (up e s)\<^sup>* \<longleftrightarrow> \<not> around a x"
proof
  note I = dom_invD [OF inv]
  have e: "e \<in> set nodes" using I(1) by (simp add: tree_def)
  have root: "(e, v) \<in> (up e s)\<^sup>* \<Longrightarrow> v = e" for v by (auto elim: converse_rtranclE simp: up_iff)
  have all: "s v \<noteq> 0" if "v \<in> set nodes" for v using I(2) [OF that] that by (auto simp: in_set_conv_nth num_nth)
  have tl: "b \<in> set (drop 1 nodes)" if "b \<in> set nodes" "b \<noteq> e" for b
    using that entry_first by (cases nodes) auto
  have "around a v \<Longrightarrow> (v, a) \<notin> (up e s)\<^sup>*" for v
  proof (induction rule: around.induct)
    case around_entry then show ?case using root by blast
  next
    case (around_step p b)
    have "p \<in> set nodes" using around_nodes around_step(1) e by blast
    then have p: "p \<in> known s b" using all around_step(2) by (simp add: known_def)
    show ?case
    proof (cases "b = e")
      case False
      then have "(p, s b) \<in> (up e s)\<^sup>*" using fx tl around_step(3) p by (auto simp: settled_def)
      then show ?thesis
        using around_step(4,5) up_step [of b e s a] False all [OF around_step(3)] by (auto intro: rtrancl_trans)
    qed (use root around_step in blast)
  qed
  then show "(x, a) \<in> (up e s)\<^sup>* \<Longrightarrow> \<not> around a x" by blast
  have "around a v" if "v \<in> set nodes" "(v, a) \<notin> (up e s)\<^sup>*" for v
    using that
  proof (induction "nat (num v)" arbitrary: v rule: less_induct)
    case less
    show ?case
    proof (cases "v = e")
      case True then show ?thesis using less.prems around_entry [of a] by (cases "e = a") auto
    next
      case False
      have s: "s v \<noteq> 0" using all less.prems(1) .
      then have "s v \<in> set nodes" "num (s v) < num v" using I(1) False by (auto simp: tree_def)
      moreover then have "0 \<le> num (s v)" using num_nonneg by blast
      ultimately have "around a (s v)"
        using less.hyps [of "s v"] less.prems(2) up_step [of v e s a] False s by auto
      then show ?thesis using I(6) [OF False s] less.prems(2) by auto
    qed
  qed
  then show "\<not> around a x \<Longrightarrow> (x, a) \<in> (up e s)\<^sup>*" using x by blast
qed

lemma initial_inv: "nodes \<noteq> [] \<Longrightarrow> dom_inv 1 ((\<lambda>_. 0)(e := e))"
proof -
  assume "nodes \<noteq> []"
  then have e: "e \<in> set nodes" using entry_first hd_in_set by metis
  then have "e \<noteq> 0" using nonzero by metis
  moreover have "c = e" if "c \<in> set nodes" "num c < 1" for c using that num_pos by fastforce
  ultimately show ?thesis using e by (auto simp: dom_inv_def tree_def)
qed

lemma domLoop_exact:
  assumes "nodes \<noteq> []"
  shows "\<exists>s. domLoop (rpoNumber nodes) preds (tl nodes) ((\<lambda>_. 0)(e := e)) = Some s \<and>
    s e = e \<and>
    (\<forall>x. s x \<noteq> 0 \<longrightarrow> x \<in> set nodes) \<and>
    (\<forall>x \<in> set nodes. s x \<in> set nodes \<and> (x \<noteq> e \<longrightarrow> rpoNumber nodes (s x) < rpoNumber nodes x) \<and>
       (\<forall>a. (x, a) \<in> (up e s)\<^sup>* \<longleftrightarrow> \<not> around a x))"
proof -
  obtain s where s: "domLoop num preds (drop 1 nodes) ((\<lambda>_. 0)(e := e)) = Some s"
    "dom_inv (int (length nodes)) s" "\<forall>b \<in> set (drop 1 nodes). settled s b"
    using domLoop_correct [OF initial_inv assms] assms by blast
  have t: "tree s" using dom_invD(1) [OF s(2)] .
  have "s x \<noteq> 0" if "x \<in> set nodes" for x
    using dom_invD(2) [OF s(2) that] that by (auto simp: in_set_conv_nth num_nth)
  then show ?thesis
    using s t settled_exact [OF s(2,3)] unfolding num_def [symmetric] tree_def by (auto simp: drop_Suc)
qed

end

subsection \<open>The search provides the order\<close>

lemma reachable_nonzero: "0 \<notin> set (reachable f)"
proof
  assume "0 \<in> set (reachable f)"
  then have "(fn_entryBlock f, 0) \<in> (cfg_edges f False)\<^sup>*" "fn_entryBlock f \<noteq> 0" by (auto simp: set_reachable)
  then obtain p where "(p, 0) \<in> cfg_edges f False" by (metis rtranclE)
  then show False by (simp add: cfg_edges_def edgesOut_def in_cfgSuccessors)
qed

interpretation cfg: rpo_graph "reversePostOrder f" "cfgPredecessors f" "fn_entryBlock f" for f
proof (cases "fn_entryBlock f = 0 \<or> \<not> isValid f (fn_entryBlock f)")
  case True
  then have "reversePostOrder f = []" by (simp add: reversePostOrder_def)
  then show "rpo_graph (reversePostOrder f) (cfgPredecessors f) (fn_entryBlock f)"
    by (simp add: rpo_graph_def)
next
  case False
  then have r: "distinct (reversePostOrder f)" "set (reversePostOrder f) = set (reachable f)"
    "take 1 (reversePostOrder f) = [fn_entryBlock f]" "entered f (reversePostOrder f)"
    using reversePostOrder_props by blast+
  show "rpo_graph (reversePostOrder f) (cfgPredecessors f) (fn_entryBlock f)"
  proof
    show "hd (reversePostOrder f) = fn_entryBlock f" using r(3) by (cases "reversePostOrder f") auto
    show "\<exists>j<i. reversePostOrder f ! j \<in> set (cfgPredecessors f (reversePostOrder f ! i))"
      if "0 < i" "i < length (reversePostOrder f)" for i
      using entered_nth [OF r(4) that(2,1)] cfgSuccessors_predecessor by blast
  qed (use r reachable_nonzero in auto)
qed

text \<open>The paths of normal flow from the entry, last block first.\<close>

inductive flow_path :: "mir_function \<Rightarrow> block_id list \<Rightarrow> bool" for f where
  flow_entry: "flow_path f [fn_entryBlock f]"
| flow_step: "flow_path f (x # xs) \<Longrightarrow> y \<in> set (cfgSuccessors f x) \<Longrightarrow> flow_path f (y # x # xs)"

definition on_every_path :: "mir_function \<Rightarrow> block_id \<Rightarrow> block_id \<Rightarrow> bool" where
  "on_every_path f a b \<longleftrightarrow> (\<forall>xs. flow_path f xs \<longrightarrow> hd xs = b \<longrightarrow> a \<in> set xs)"

lemma cfg_ok_order:
  assumes "cfg_ok f"
  shows "reversePostOrder f \<noteq> []" and "set (reversePostOrder f) = set (reachable f)"
    and "fn_entryBlock f \<noteq> 0" and "distinct (map bb_id (fn_blocks f))"
proof -
  have e: "fn_entryBlock f \<noteq> 0" "isValid f (fn_entryBlock f)"
    using assms unfolding cfg_ok_def isValid_iff by metis+
  note r = reversePostOrder_props [OF e]
  show "fn_entryBlock f \<noteq> 0" "set (reversePostOrder f) = set (reachable f)" using e r by auto
  show "reversePostOrder f \<noteq> []" using r(3) by auto
  show "distinct (map bb_id (fn_blocks f))" using assms by (simp add: cfg_ok_def)
qed

lemma flow_path_reachable:
  assumes "flow_path f xs" "fn_entryBlock f \<noteq> 0" shows "hd xs \<in> set (reachable f)"
  using assms
proof (induction rule: flow_path.induct)
  case (flow_step x xs y)
  then have "(x, y) \<in> cfg_edges f False" by (simp add: cfg_edges_def edgesOut_def)
  then show ?case using flow_step by (auto simp: set_reachable intro: rtrancl_into_rtrancl)
qed (simp add: set_reachable)

lemma around_path:
  assumes "cfg_ok f"
  shows "cfg.around f a b \<longleftrightarrow> (\<exists>xs. flow_path f xs \<and> hd xs = b \<and> a \<notin> set xs)"
proof
  note o = cfg_ok_order [OF assms]
  show "\<exists>xs. flow_path f xs \<and> hd xs = b \<and> a \<notin> set xs" if "cfg.around f a b"
    using that
  proof (induction rule: cfg.around.induct)
    case around_entry
    then show ?case by (intro exI [of _ "[fn_entryBlock f]"]) (auto intro: flow_entry)
  next
    case (around_step p b)
    then obtain xs where xs: "flow_path f xs" "hd xs = p" "a \<notin> set xs" by blast
    then obtain ys where "xs = p # ys" by (cases rule: flow_path.cases) auto
    then show ?case
      using xs around_step(2,4) flow_step [of f p ys b] cfgPredecessors_iff [OF o(4)]
      by (intro exI [of _ "b # xs"]) auto
  qed
  have "cfg.around f a (hd xs)" if "flow_path f xs" "a \<notin> set xs" for xs
    using that
  proof (induction rule: flow_path.induct)
    case flow_entry then show ?case by (auto intro: cfg.around_entry)
  next
    case (flow_step x xs y)
    have "y \<in> set (reversePostOrder f)"
      using flow_path_reachable [OF flow_path.flow_step [OF flow_step(1,2)]] o(2,3) by simp
    then show ?case
      using flow_step cfgSuccessors_predecessor [OF flow_step(2)] by (auto intro: cfg.around_step)
  qed
  then show "\<exists>xs. flow_path f xs \<and> hd xs = b \<and> a \<notin> set xs \<Longrightarrow> cfg.around f a b" by blast
qed

lemma on_every_path_around: "cfg_ok f \<Longrightarrow> on_every_path f a b \<longleftrightarrow> \<not> cfg.around f a b"
  using around_path by (auto simp: on_every_path_def)

lemma computeDominators_exact:
  assumes "cfg_ok f"
  shows "\<exists>s. computeDominators f = Some s \<and> s (fn_entryBlock f) = fn_entryBlock f \<and>
    (\<forall>x. s x \<noteq> 0 \<longrightarrow> x \<in> set (reachable f)) \<and>
    (\<forall>x \<in> set (reachable f). s x \<in> set (reachable f) \<and>
       (x \<noteq> fn_entryBlock f \<longrightarrow> reversePostOrderNumber f (s x) < reversePostOrderNumber f x) \<and>
       (\<forall>a. (x, a) \<in> (up (fn_entryBlock f) s)\<^sup>* \<longleftrightarrow> on_every_path f a x))"
  using cfg.domLoop_exact [OF cfg_ok_order(1) [OF assms]] cfg_ok_order(1,2) [OF assms]
  by (simp only: computeDominators_def reversePostOrderNumber_def on_every_path_around [OF assms] if_False)

lemma dominatesLoop_correct:
  assumes s: "s (fn_entryBlock f) = fn_entryBlock f"
    and desc: "\<And>x. x \<in> set (reachable f) \<Longrightarrow> x \<noteq> fn_entryBlock f \<Longrightarrow>
      s x \<in> set (reachable f) \<and> reversePostOrderNumber f (s x) < reversePostOrderNumber f x"
    and valid: "\<And>x. x \<in> set (reachable f) \<Longrightarrow> isValid f x" and a: "a \<noteq> 0"
    and x: "x \<in> set (reachable f)"
  shows "dominatesLoop f s a x =
    Some (x \<noteq> fn_entryBlock f \<and> (s x, a) \<in> (up (fn_entryBlock f) s)\<^sup>*)"
  using x
proof (induction "nat (reversePostOrderNumber f x + 1)" arbitrary: x rule: less_induct)
  case less
  have x0: "x \<noteq> 0" using less.prems reachable_nonzero by metis
  show ?case
  proof (cases "x = fn_entryBlock f")
    case True
    then show ?thesis using a s x0 by (subst dominatesLoop.simps) (simp add: immediateDominator_def)
  next
    case False
    note d = desc [OF less.prems False]
    then have sx: "s x \<noteq> 0" "s x \<noteq> x" using reachable_nonzero by (metis, auto)
    then have n: "immediateDominator f s x = s x" using valid less.prems by (simp add: immediateDominator_def)
    show ?thesis
    proof (cases "s x = a")
      case True
      then show ?thesis using x0 False n by (subst dominatesLoop.simps) simp
    next
      case sa: False
      have "-1 \<le> rpoNumber xs y" for xs y by (simp add: rpoNumber_def split: option.split)
      then have "nat (reversePostOrderNumber f (s x) + 1) < nat (reversePostOrderNumber f x + 1)"
        using d reversePostOrderNumber_def by (metis add_le_cancel_right add_strict_right_mono neg_le_iff_le
            nat_less_eq_zless add.left_inverse)
      then have "dominatesLoop f s a (s x) = Some (s x \<noteq> fn_entryBlock f \<and> (s (s x), a) \<in> (up (fn_entryBlock f) s)\<^sup>*)"
        using less.hyps d by blast
      moreover have "(s x, a) \<in> (up (fn_entryBlock f) s)\<^sup>* \<longleftrightarrow>
          s x \<noteq> fn_entryBlock f \<and> (s (s x), a) \<in> (up (fn_entryBlock f) s)\<^sup>*"
        using desc [of "s x"] d reachable_nonzero sa by (intro up_above) metis+
      ultimately show ?thesis using x0 False n sx sa by (subst dominatesLoop.simps) (simp add: Let_def)
    qed
  qed
qed

text \<open>C1: on a well-formed graph the dominator computation terminates, and its answers are the textbook
  ones: for a block the entry reaches, \<open>dominates\<close> returns, and says yes exactly when every path of
  normal flow from the entry to the second block passes through the first.\<close>

theorem dominators_correct:
  assumes "cfg_ok f"
  shows "\<exists>s. computeDominators f = Some s \<and>
    (\<forall>a \<in> blockIds f. \<forall>b \<in> set (reachable f). dominates f s a b = Some (on_every_path f a b))"
proof -
  obtain s where s: "computeDominators f = Some s" "s (fn_entryBlock f) = fn_entryBlock f"
    "\<forall>x \<in> set (reachable f). s x \<in> set (reachable f) \<and>
       (x \<noteq> fn_entryBlock f \<longrightarrow> reversePostOrderNumber f (s x) < reversePostOrderNumber f x) \<and>
       (\<forall>a. (x, a) \<in> (up (fn_entryBlock f) s)\<^sup>* \<longleftrightarrow> on_every_path f a x)"
    using computeDominators_exact [OF assms] by blast
  have v: "isValid f x" if "x \<in> set (reachable f)" for x
    using that reachableWithUnwind_ids [OF assms] rtrancl_mono [OF cfg_edges_mono]
    by (auto simp: set_reachable set_reachableWithUnwind isValid_iff)
  have "dominates f s a b = Some (on_every_path f a b)" if ab: "a \<in> blockIds f" "b \<in> set (reachable f)" for a b
  proof (cases "a = b")
    case True
    then have "on_every_path f a b" using s(3) ab(2) by blast
    then show ?thesis using True ab v by (simp add: dominates_def)
  next
    case False
    have "a \<noteq> 0" using ab(1) assms unfolding cfg_ok_def by metis
    then have "dominatesLoop f s a b = Some (b \<noteq> fn_entryBlock f \<and> (s b, a) \<in> (up (fn_entryBlock f) s)\<^sup>*)"
      using dominatesLoop_correct [of s f a b] s(2,3) v ab(2) by blast
    moreover have "(b, a) \<in> (up (fn_entryBlock f) s)\<^sup>* \<longleftrightarrow>
        b \<noteq> fn_entryBlock f \<and> (s b, a) \<in> (up (fn_entryBlock f) s)\<^sup>*"
      using s(3) ab(2) reachable_nonzero False by (intro up_above) metis+
    ultimately show ?thesis using s(3) ab v False by (simp add: dominates_def isValid_iff)
  qed
  then show ?thesis using s(1) by blast
qed

text \<open>A branch at block 1 whose arms meet in block 4.\<close>

definition diamond :: mir_function where
  "diamond = sample_function
     [sample_block 1 TkBranch 2 3, sample_block 2 TkJump 4 0, sample_block 3 TkJump 4 0,
      sample_block 4 TkReturn 0 0]"

lemma diamond_ok: "cfg_ok diamond"
  by (auto simp: cfg_ok_def diamond_def sample_simps targets_def outgoing_def successors_def blockIds_def)

theorem dominators_correct_witness:
  "cfg_ok diamond \<and>
   (\<exists>s. computeDominators diamond = Some s \<and> dominates diamond s 1 4 = Some (on_every_path diamond 1 4) \<and>
        dominates diamond s 2 4 = Some (on_every_path diamond 2 4))"
proof -
  have "1 \<in> blockIds diamond" "2 \<in> blockIds diamond"
    by (simp_all add: blockIds_def diamond_def sample_simps)
  moreover have "4 \<in> set (reachable diamond)" by code_simp
  ultimately show ?thesis using dominators_correct [OF diamond_ok] diamond_ok by blast
qed

subsection \<open>Dominance frontiers\<close>

definition dominatorTreeChildren :: "mir_function \<Rightarrow> idom_table \<Rightarrow> block_id \<Rightarrow> block_id list" where
  "dominatorTreeChildren f s i =
     (if \<not> isValid f i then []
      else remdups_adj (sort (filter
             (\<lambda>b. immediateDominator f s b = i \<and> immediateDominator f s b \<noteq> 0 \<and> immediateDominator f s b \<noteq> b)
             (map bb_id (fn_blocks f)))))"

fun frontierWalk ::
  "nat \<Rightarrow> mir_function \<Rightarrow> idom_table \<Rightarrow> block_id \<Rightarrow> block_id \<Rightarrow> block_id \<Rightarrow>
   (block_id \<Rightarrow> block_id list) \<Rightarrow> (block_id \<Rightarrow> block_id list)"
where
  "frontierWalk 0 f s stop b runner df = df"
| "frontierWalk (Suc guard) f s stop b runner df =
     (if runner = 0 \<or> runner = stop then df
      else
        let df' = (if b \<in> set (df runner) then df else df(runner := df runner @ [b]));
            next = immediateDominator f s runner
        in if next = runner then df' else frontierWalk guard f s stop b next df')"

definition frontierOfBlock ::
  "mir_function \<Rightarrow> idom_table \<Rightarrow> block_id \<Rightarrow> (block_id \<Rightarrow> block_id list) \<Rightarrow> (block_id \<Rightarrow> block_id list)"
where
  "frontierOfBlock f s b df =
     (if \<not> isReachable f b then df
      else
        let ps = remdups_adj (sort (cfgPredecessors f b)); stop = immediateDominator f s b
        in if length ps < 2 then df
           else fold (\<lambda>p df. if stop = 0 \<or> \<not> isReachable f p then df
                            else frontierWalk (length (fn_blocks f) + 2) f s stop b p df) ps df)"

definition computeDominanceFrontiers :: "mir_function \<Rightarrow> idom_table \<Rightarrow> block_id \<Rightarrow> block_id list" where
  "computeDominanceFrontiers f s =
     (\<lambda>i. remdups_adj (sort (fold (frontierOfBlock f s) (map bb_id (fn_blocks f)) (\<lambda>_. []) i)))"

definition dominanceFrontier :: "mir_function \<Rightarrow> idom_table \<Rightarrow> block_id \<Rightarrow> block_id list" where
  "dominanceFrontier f s i = (if isValid f i then computeDominanceFrontiers f s i else [])"

text \<open>The exact table, as \<open>computeDominators_exact\<close> gives it.\<close>

definition exact_idoms :: "mir_function \<Rightarrow> idom_table \<Rightarrow> bool" where
  "exact_idoms f s \<longleftrightarrow> s (fn_entryBlock f) = fn_entryBlock f \<and>
     (\<forall>x \<in> set (reachable f). s x \<in> set (reachable f) \<and> isValid f x \<and>
       0 \<le> reversePostOrderNumber f x \<and> reversePostOrderNumber f x < int (length (fn_blocks f)) \<and>
       (x \<noteq> fn_entryBlock f \<longrightarrow> reversePostOrderNumber f (s x) < reversePostOrderNumber f x) \<and>
       (\<forall>a. (x, a) \<in> (up (fn_entryBlock f) s)\<^sup>* \<longleftrightarrow> on_every_path f a x))"

lemma reachable_valid:
  assumes "cfg_ok f" "x \<in> set (reachable f)" shows "x \<in> blockIds f"
  using assms(2) reachableWithUnwind_ids [OF assms(1)] rtrancl_mono [OF cfg_edges_mono]
  by (auto simp: set_reachable set_reachableWithUnwind)

lemma reachable_number:
  assumes "cfg_ok f" "x \<in> set (reachable f)"
  shows "0 \<le> reversePostOrderNumber f x \<and> reversePostOrderNumber f x < int (length (fn_blocks f))"
proof -
  have d: "distinct (reversePostOrder f)" by (rule cfg.distinct_nodes)
  obtain i where i: "i < length (reversePostOrder f)" "x = reversePostOrder f ! i"
    using assms cfg_ok_order(2) [OF assms(1)] by (metis in_set_conv_nth)
  have "set (reversePostOrder f) \<subseteq> blockIds f" using reachable_valid [OF assms(1)] cfg_ok_order(2) [OF assms(1)] by blast
  then have "card (set (reversePostOrder f)) \<le> card (blockIds f)" by (intro card_mono) auto
  also have "\<dots> \<le> length (fn_blocks f)" unfolding blockIds_def by (metis card_length length_map set_map)
  finally have "length (reversePostOrder f) \<le> length (fn_blocks f)" using distinct_card [OF d] by simp
  then show ?thesis using i rpoNumber_nth [OF d i(1)] by (simp add: reversePostOrderNumber_def)
qed

lemma exact_idoms_computed:
  assumes "cfg_ok f" shows "\<exists>s. computeDominators f = Some s \<and> exact_idoms f s"
  using computeDominators_exact [OF assms] reachable_number [OF assms] reachable_valid [OF assms]
  unfolding exact_idoms_def isValid_iff by blast

lemma exact_step:
  assumes "exact_idoms f s" "x \<in> set (reachable f)" "x \<noteq> fn_entryBlock f"
  shows "immediateDominator f s x = s x" "s x \<noteq> 0" "s x \<noteq> x" "s x \<in> set (reachable f)"
    and "reversePostOrderNumber f (s x) < reversePostOrderNumber f x"
proof -
  show x: "s x \<noteq> x" "s x \<in> set (reachable f)" "reversePostOrderNumber f (s x) < reversePostOrderNumber f x"
    using assms unfolding exact_idoms_def by force+
  then show "s x \<noteq> 0" using reachable_nonzero by metis
  then show "immediateDominator f s x = s x" using assms x unfolding exact_idoms_def immediateDominator_def by auto
qed

lemma exact_up:
  assumes "exact_idoms f s" "x \<in> set (reachable f)" "(x, y) \<in> (up (fn_entryBlock f) s)\<^sup>*"
  shows "y \<in> set (reachable f) \<and> (x = y \<or> reversePostOrderNumber f y < reversePostOrderNumber f x)"
  using assms(3)
proof (induction rule: rtrancl_induct)
  case (step y z)
  then show ?case using exact_step(4,5) [OF assms(1), of y] by (auto simp: up_iff)
qed (simp add: assms(2))

lemma exact_above:
  assumes "exact_idoms f s" "x \<in> set (reachable f)"
  shows "(x, a) \<in> (up (fn_entryBlock f) s)\<^sup>* \<longleftrightarrow>
    x = a \<or> x \<noteq> fn_entryBlock f \<and> (s x, a) \<in> (up (fn_entryBlock f) s)\<^sup>*"
  using up_above [of x a "fn_entryBlock f" s] exact_step(2) [OF assms] by auto

text \<open>The walk adds the block to every member of the chain from the runner up to, and without, \<open>stop\<close>.\<close>

lemma frontierWalk_members:
  assumes ex: "exact_idoms f s" and r: "runner \<in> set (reachable f)"
    and stop: "(runner, stop) \<in> (up (fn_entryBlock f) s)\<^sup>*"
    and guard: "reversePostOrderNumber f runner < int guard"
  shows "y \<in> set (frontierWalk guard f s stop b runner df x) \<longleftrightarrow>
    y \<in> set (df x) \<or>
    y = b \<and> (runner, x) \<in> (up (fn_entryBlock f) s)\<^sup>* \<and> (stop, x) \<notin> (up (fn_entryBlock f) s)\<^sup>*"
  using r stop guard
proof (induction guard arbitrary: runner df)
  case 0
  then show ?case using ex unfolding exact_idoms_def by force
next
  case (Suc guard)
  let ?U = "(up (fn_entryBlock f) s)\<^sup>*"
  have r0: "runner \<noteq> 0" using Suc.prems(1) reachable_nonzero by metis
  show ?case
  proof (cases "runner = stop")
    case True then show ?thesis by auto
  next
    case False
    then have re: "runner \<noteq> fn_entryBlock f" "(s runner, stop) \<in> ?U"
      using exact_above [OF ex Suc.prems(1)] Suc.prems(2) by auto
    note st = exact_step [OF ex Suc.prems(1) re(1)]
    let ?df = "if b \<in> set (df runner) then df else df(runner := df runner @ [b])"
    have "y \<in> set (frontierWalk guard f s stop b (s runner) ?df x) \<longleftrightarrow>
        y \<in> set (?df x) \<or> y = b \<and> (s runner, x) \<in> ?U \<and> (stop, x) \<notin> ?U"
      using st(5) Suc.prems(3) by (intro Suc.IH [OF st(4) re(2)]) simp
    moreover have "(stop, runner) \<notin> ?U"
      using exact_up [OF ex _ _, of stop runner] exact_up [OF ex Suc.prems(1,2)] False by auto
    moreover have "(runner, x) \<in> ?U \<longleftrightarrow> runner = x \<or> (s runner, x) \<in> ?U"
      using exact_above [OF ex Suc.prems(1)] re(1) by blast
    moreover have "frontierWalk (Suc guard) f s stop b runner df = frontierWalk guard f s stop b (s runner) ?df"
      using r0 False st(1,3) by (simp add: Let_def)
    ultimately show ?thesis by auto
  qed
qed

lemma fold_members:
  assumes "\<And>p df. p \<in> set ps \<Longrightarrow> y \<in> set (g p df x) \<longleftrightarrow> y \<in> set (df x) \<or> Q p"
  shows "y \<in> set (fold g ps df x) \<longleftrightarrow> y \<in> set (df x) \<or> (\<exists>p \<in> set ps. Q p)"
  using assms by (induction ps arbitrary: df) auto

lemma on_every_path_pred:
  assumes "on_every_path f a b" "a \<noteq> b" "b \<in> set (cfgSuccessors f p)"
  shows "on_every_path f a p"
  unfolding on_every_path_def
proof (intro allI impI)
  fix xs assume xs: "flow_path f xs" "hd xs = p"
  then obtain ys where "xs = p # ys" by (cases rule: flow_path.cases) auto
  then show "a \<in> set xs" using xs assms flow_step [of f p ys b] unfolding on_every_path_def by force
qed

lemma sole_predecessor:
  assumes "cfg_ok f" "exact_idoms f s" "b \<in> set (reachable f)" "b \<noteq> fn_entryBlock f"
    and p: "set (cfgPredecessors f b) = {p}" "p \<in> set (reachable f)"
  shows "p = s b"
proof -
  let ?U = "(up (fn_entryBlock f) s)\<^sup>*"
  obtain i where i: "i < length (reversePostOrder f)" "b = reversePostOrder f ! i"
    using assms(3) cfg_ok_order(2) [OF assms(1)] by (metis in_set_conv_nth)
  have "i \<noteq> 0" using i assms(4) cfg.entry_first [of f] cfg_ok_order(1) [OF assms(1)] by (metis hd_conv_nth)
  then obtain j where "j < i" "p = reversePostOrder f ! j" using cfg.earlier_pred [of i f] i p(1) by auto
  then have pb: "p \<noteq> b" using i cfg.distinct_nodes [of f] by (auto simp: nth_eq_iff_index_eq)
  have succ: "b \<in> set (cfgSuccessors f x) \<longleftrightarrow> x = p" for x
    using cfgPredecessors_iff [OF cfg_ok_order(4) [OF assms(1)]] p(1) by blast
  have "on_every_path f p b"
    unfolding on_every_path_def
  proof (intro allI impI)
    fix xs assume "flow_path f xs" "hd xs = b"
    then show "p \<in> set xs" using assms(4) succ by (cases rule: flow_path.cases) auto
  qed
  then have "(b, p) \<in> ?U" using assms(2,3) unfolding exact_idoms_def by blast
  then have bp: "(s b, p) \<in> ?U" using exact_above [OF assms(2,3), of p] pb by auto
  have "(b, s b) \<in> ?U" using exact_above [OF assms(2,3), of "s b"] assms(4) by auto
  then have "on_every_path f (s b) p"
    using assms(2,3) on_every_path_pred [of f "s b" b p] succ exact_step(3) [OF assms(2-4)] unfolding exact_idoms_def by blast
  then have "(p, s b) \<in> ?U" using assms(2) p(2) unfolding exact_idoms_def by blast
  then show ?thesis using exact_up [OF assms(2) p(2)] exact_up [OF assms(2) exact_step(4) [OF assms(2-4)] bp] by fastforce
qed

lemma frontierOfBlock_members:
  assumes "cfg_ok f" "exact_idoms f s"
  shows "y \<in> set (frontierOfBlock f s b df x) \<longleftrightarrow> y \<in> set (df x) \<or>
    y = b \<and> b \<in> set (reachable f) \<and> b \<noteq> fn_entryBlock f \<and>
    (\<exists>p \<in> set (cfgPredecessors f b). p \<in> set (reachable f) \<and> (p, x) \<in> (up (fn_entryBlock f) s)\<^sup>*) \<and>
    (s b, x) \<notin> (up (fn_entryBlock f) s)\<^sup>*" (is "_ \<longleftrightarrow> _ \<or> ?R")
proof (cases "b \<in> set (reachable f) \<and> b \<noteq> fn_entryBlock f")
  case False
  then have "immediateDominator f s b = 0" if "b \<in> set (reachable f)"
    using that assms(2) unfolding exact_idoms_def immediateDominator_def by auto
  then have "frontierOfBlock f s b df = df"
    by (auto simp: frontierOfBlock_def isReachable_def Let_def fold_id [unfolded id_def])
  then show ?thesis using False by auto
next
  case True
  let ?U = "(up (fn_entryBlock f) s)\<^sup>*" and ?ps = "remdups_adj (sort (cfgPredecessors f b))"
  note st = exact_step [OF assms(2) conjunct1 [OF True] conjunct2 [OF True]]
  have ps: "set ?ps = set (cfgPredecessors f b)" by simp
  show ?thesis
  proof (cases "length ?ps < 2")
    case short: True
    have "p = s b" if p: "p \<in> set (cfgPredecessors f b)" "p \<in> set (reachable f)" for p
    proof (rule sole_predecessor [OF assms])
      show "set (cfgPredecessors f b) = {p}"
        using short p(1) unfolding ps [symmetric] by (cases ?ps rule: remdups_adj.cases) auto
    qed (use True p in auto)
    then show ?thesis using True short by (auto simp: frontierOfBlock_def isReachable_def Let_def)
  next
    case False
    have up: "(p, s b) \<in> ?U" if p: "p \<in> set (cfgPredecessors f b)" "p \<in> set (reachable f)" for p
    proof -
      have "(b, s b) \<in> ?U" using exact_above [OF assms(2), of b "s b"] True by auto
      then have "on_every_path f (s b) b" using assms(2) True unfolding exact_idoms_def by blast
      then have "on_every_path f (s b) p"
        using on_every_path_pred st(3) p(1) cfgPredecessors_iff [OF cfg_ok_order(4) [OF assms(1)]] by blast
      then show ?thesis using assms(2) p(2) unfolding exact_idoms_def by blast
    qed
    let ?g = "\<lambda>p df. if s b = 0 \<or> \<not> isReachable f p then df
        else frontierWalk (length (fn_blocks f) + 2) f s (s b) b p df"
    have "y \<in> set (?g p df' x) \<longleftrightarrow> y \<in> set (df' x) \<or>
        y = b \<and> p \<in> set (reachable f) \<and> (p, x) \<in> ?U \<and> (s b, x) \<notin> ?U" if "p \<in> set ?ps" for p df'
    proof (cases "p \<in> set (reachable f)")
      case r: True
      have "reversePostOrderNumber f p < int (length (fn_blocks f) + 2)"
        using reachable_number [OF assms(1) r] by simp
      then show ?thesis
        using frontierWalk_members [OF assms(2) r up [OF _ r]] that st(2) r
        by (simp add: ps isReachable_def del: frontierWalk.simps)
    qed (simp add: isReachable_def)
    then have "y \<in> set (fold ?g ?ps df x) \<longleftrightarrow> y \<in> set (df x) \<or>
        (\<exists>p \<in> set ?ps. y = b \<and> p \<in> set (reachable f) \<and> (p, x) \<in> ?U \<and> (s b, x) \<notin> ?U)" by (rule fold_members)
    moreover have "frontierOfBlock f s b df = fold ?g ?ps df"
      using True False st(1) by (simp add: frontierOfBlock_def isReachable_def Let_def)
    ultimately show ?thesis using True unfolding ps by auto
  qed
qed

text \<open>C26: the dominance frontiers are the textbook ones: for blocks the entry reaches, a block other than the
  entry is in the frontier of \<open>x\<close> exactly when \<open>x\<close> dominates one of its reachable predecessors and
  does not strictly dominate the block itself.\<close>

theorem dominanceFrontier_correct:
  assumes "cfg_ok f" "computeDominators f = Some s"
    and "x \<in> set (reachable f)" "y \<in> set (reachable f)" "y \<noteq> fn_entryBlock f"
  shows "y \<in> set (dominanceFrontier f s x) \<longleftrightarrow>
    (\<exists>p \<in> set (cfgPredecessors f y). p \<in> set (reachable f) \<and> on_every_path f x p) \<and>
    \<not> (x \<noteq> y \<and> on_every_path f x y)"
proof -
  let ?U = "(up (fn_entryBlock f) s)\<^sup>*"
  have ex: "exact_idoms f s" using exact_idoms_computed [OF assms(1)] assms(2) by auto
  have "y \<in> set (dominanceFrontier f s x) \<longleftrightarrow>
      y \<in> set (fold (frontierOfBlock f s) (map bb_id (fn_blocks f)) (\<lambda>_. []) x)"
    using reachable_valid [OF assms(1,3)] by (simp add: dominanceFrontier_def computeDominanceFrontiers_def isValid_iff)
  also have "\<dots> \<longleftrightarrow> (\<exists>p \<in> set (cfgPredecessors f y). p \<in> set (reachable f) \<and> (p, x) \<in> ?U) \<and> (s y, x) \<notin> ?U"
    using fold_members [of _ y "frontierOfBlock f s" x, OF frontierOfBlock_members [OF assms(1) ex]]
      assms(4,5) reachable_valid [OF assms(1,4)] by (auto simp: blockIds_def)
  also have "(s y, x) \<in> ?U \<longleftrightarrow> x \<noteq> y \<and> on_every_path f x y"
    using exact_above [OF ex assms(4), of x] exact_up [OF ex exact_step(4) [OF ex assms(4,5)], of x]
      exact_step(3,5) [OF ex assms(4,5)] assms(4,5) ex unfolding exact_idoms_def by auto
  finally show ?thesis using ex unfolding exact_idoms_def by blast
qed

theorem dominanceFrontier_correct_witness:
  "\<exists>s. computeDominators diamond = Some s \<and>
    (4 \<in> set (dominanceFrontier diamond s 2) \<longleftrightarrow>
      (\<exists>p \<in> set (cfgPredecessors diamond 4). p \<in> set (reachable diamond) \<and> on_every_path diamond 2 p) \<and>
      \<not> (2 \<noteq> (4::nat) \<and> on_every_path diamond 2 4))"
proof -
  obtain s where s: "computeDominators diamond = Some s" using exact_idoms_computed [OF diamond_ok] by blast
  have "2 \<in> set (reachable diamond)" "4 \<in> set (reachable diamond)" "4 \<noteq> fn_entryBlock diamond" by code_simp+
  from dominanceFrontier_correct [OF diamond_ok s this] show ?thesis using s by blast
qed

end
