(* ===== verification/Vm_Task.thy ===== *)
theory Vm_Task
  imports Vm_Print
begin

text \<open>
  Tasks (\<^verbatim>\<open>src/vm/runtime_task.cpp\<close>, \<^verbatim>\<open>src/vm/runtime_exception.cpp\<close>): the life cycle of a task, the
  continuations that wait for it, and the cascade of cancellation to the tasks it spawned.

  Every member function takes the task's lock for its whole effect on the task and runs
  continuations after releasing it, so an operation is one step, and a continuation is an opaque
  number: running it appends it to a log, and the parameter \<open>raises\<close> says which continuations throw.
  Tasks live in a store; a \<open>weak_ptr\<close> is an id, dead when the store has no task under it. The
  operations of all threads are a sequence of steps on one \<open>task_world\<close>.
\<close>

datatype task_status = Pending | Running | Succeeded | Failed | Cancelled

definition isTerminalStatus :: "task_status \<Rightarrow> bool" where
  "isTerminalStatus s \<longleftrightarrow> s = Succeeded \<or> s = Failed \<or> s = Cancelled"

text \<open>
  A C++ exception in flight: a thrown ZL object, one with a \<open>what\<close> text, or anything else.
  \<open>NewThrown\<close> carries an object that was allocated for the throw.
\<close>

datatype task_exception = ZlThrown "addr option" | NewThrown object_box | StdException string | OtherException

record stored_exception =
  se_managed :: "addr option"
  se_native :: "task_exception option"
  se_message :: string

definition emptyStored :: stored_exception where
  "emptyStored = \<lparr>se_managed = None, se_native = None, se_message = []\<rparr>"

definition storedPresent :: "stored_exception \<Rightarrow> bool" where
  "storedPresent e \<longleftrightarrow> se_managed e \<noteq> None \<or> se_native e \<noteq> None"

definition captureException :: "digit_source \<Rightarrow> heap \<Rightarrow> task_exception \<Rightarrow> stored_exception" where
  "captureException dg h x =
     (case x of
        ZlThrown (Some a) \<Rightarrow>
          \<lparr>se_managed = Some a, se_native = None,
           se_message =
             (case objectFieldLookup (object_at h a) ''message'' of
                Some v \<Rightarrow> valueToString dg h v | None \<Rightarrow> ob_className (object_at h a))\<rparr>
      | ZlThrown None \<Rightarrow> \<lparr>se_managed = None, se_native = None, se_message = ''ZL exception''\<rparr>
      | StdException what \<Rightarrow> \<lparr>se_managed = None, se_native = Some x, se_message = what\<rparr>
      | _ \<Rightarrow> \<lparr>se_managed = None, se_native = Some x, se_message = ''unknown exception''\<rparr>)"

definition rethrowStored :: "stored_exception \<Rightarrow> task_exception" where
  "rethrowStored e =
     (case se_managed e of
        Some a \<Rightarrow> ZlThrown (Some a)
      | None \<Rightarrow>
          (case se_native e of
             Some x \<Rightarrow> x
           | None \<Rightarrow> StdException ''cannot rethrow an empty stored failure''))"

definition storedRoots :: "stored_exception \<Rightarrow> zvalue list" where
  "storedRoots e = (case se_managed e of Some a \<Rightarrow> [VObject (Some a)] | None \<Rightarrow> [])"

type_synonym task_id = nat
type_synonym continuation = nat

record runtime_task =
  rk_status :: task_status
  rk_result :: "zvalue option"
  rk_error :: stored_exception
  rk_cancellationRequested :: bool
  rk_failureObserved :: bool
  rk_valueTypeName :: string
  rk_operationRoots :: "zvalue list"
  rk_continuations :: "continuation list"
  rk_cancellationContinuations :: "continuation list"
  rk_spawnedChildren :: "task_id list"

definition newTask :: "string \<Rightarrow> zvalue list \<Rightarrow> runtime_task" where
  "newTask tn roots =
     \<lparr>rk_status = Pending, rk_result = None, rk_error = emptyStored, rk_cancellationRequested = False,
      rk_failureObserved = False, rk_valueTypeName = tn, rk_operationRoots = roots,
      rk_continuations = [], rk_cancellationContinuations = [], rk_spawnedChildren = []\<rparr>"

definition isTerminal :: "runtime_task \<Rightarrow> bool" where
  "isTerminal t \<longleftrightarrow> isTerminalStatus (rk_status t)"

text \<open>
  The continuations an operation runs: those waiting for the end of the task and those waiting
  for its cancellation. An outcome is the exception thrown, if any, the task, and what was run.
\<close>

datatype waiting = OnEnd | OnCancel

type_synonym outcome = "task_exception option \<times> runtime_task \<times> (waiting \<times> continuation) list"

definition firstError ::
  "(continuation \<Rightarrow> task_exception option) \<Rightarrow> continuation list \<Rightarrow> task_exception option"
where
  "firstError raises cs =
     (case find (\<lambda>c. raises c \<noteq> None) cs of Some c \<Rightarrow> raises c | None \<Rightarrow> None)"

definition start :: "runtime_task \<Rightarrow> outcome" where
  "start t =
     (if rk_status t \<noteq> Pending then (Some (StdException ''task can only start from Pending state''), t, [])
      else (None, t\<lparr>rk_status := Running\<rparr>, []))"

definition alreadyTerminal :: task_exception where
  "alreadyTerminal = StdException ''task is already terminal''"

text \<open>The end of a task: its queues are swapped out and its operands released.\<close>

definition settle :: "runtime_task \<Rightarrow> runtime_task" where
  "settle t = t\<lparr>rk_continuations := [], rk_cancellationContinuations := [], rk_operationRoots := []\<rparr>"

definition succeed ::
  "(continuation \<Rightarrow> task_exception option) \<Rightarrow> zvalue \<Rightarrow> runtime_task \<Rightarrow> outcome"
where
  "succeed raises v t =
     (if isTerminalStatus (rk_status t) then (Some alreadyTerminal, t, [])
      else (firstError raises (rk_continuations t),
            settle (t\<lparr>rk_result := Some v, rk_status := Succeeded\<rparr>),
            map (Pair OnEnd) (rk_continuations t)))"

definition fail ::
  "digit_source \<Rightarrow> heap \<Rightarrow> (continuation \<Rightarrow> task_exception option) \<Rightarrow> task_exception option \<Rightarrow>
   runtime_task \<Rightarrow> outcome"
where
  "fail dg h raises x t =
     (case x of
        None \<Rightarrow> (Some (StdException ''failed task requires an exception''), t, [])
      | Some e \<Rightarrow>
          if isTerminalStatus (rk_status t) then (Some alreadyTerminal, t, [])
          else (firstError raises (rk_continuations t),
                settle (t\<lparr>rk_error := captureException dg h e, rk_status := Failed\<rparr>),
                map (Pair OnEnd) (rk_continuations t)))"

text \<open>\<open>cancel\<close> up to the cascade to the children, which is \<open>cancelTask\<close> below.\<close>

definition cancelSelf :: "(continuation \<Rightarrow> task_exception option) \<Rightarrow> runtime_task \<Rightarrow> outcome" where
  "cancelSelf raises t =
     (if isTerminalStatus (rk_status t) then (Some alreadyTerminal, t, [])
      else (firstError raises (rk_continuations t @ rk_cancellationContinuations t),
            settle (t\<lparr>rk_status := Cancelled, rk_cancellationRequested := True\<rparr>),
            map (Pair OnEnd) (rk_continuations t) @ map (Pair OnCancel) (rk_cancellationContinuations t)))"

definition ignoresRequest :: "runtime_task \<Rightarrow> bool" where
  "ignoresRequest t \<longleftrightarrow> isTerminalStatus (rk_status t) \<or> rk_cancellationRequested t"

definition requestSelf :: "runtime_task \<Rightarrow> outcome" where
  "requestSelf t =
     (if ignoresRequest t then (None, t, [])
      else (None, t\<lparr>rk_cancellationRequested := True, rk_cancellationContinuations := []\<rparr>,
            map (Pair OnCancel) (rk_cancellationContinuations t)))"

definition ignore :: "runtime_task \<Rightarrow> outcome" where
  "ignore t = (None, t\<lparr>rk_failureObserved := True\<rparr>, [])"

text \<open>An empty \<open>std::function\<close> is \<open>None\<close>; a continuation run at once throws to the caller.\<close>

definition onCancellation ::
  "(continuation \<Rightarrow> task_exception option) \<Rightarrow> continuation option \<Rightarrow> runtime_task \<Rightarrow> outcome"
where
  "onCancellation raises k t =
     (case k of
        None \<Rightarrow> (None, t, [])
      | Some c \<Rightarrow>
          if rk_status t = Cancelled \<or> rk_cancellationRequested t then (raises c, t, [(OnCancel, c)])
          else if \<not> isTerminalStatus (rk_status t) then
            (None, t\<lparr>rk_cancellationContinuations := rk_cancellationContinuations t @ [c]\<rparr>, [])
          else (None, t, []))"

definition andThen ::
  "(continuation \<Rightarrow> task_exception option) \<Rightarrow> continuation option \<Rightarrow> runtime_task \<Rightarrow> outcome"
where
  "andThen raises k t =
     (case k of
        None \<Rightarrow> (None, t, [])
      | Some c \<Rightarrow>
          if isTerminalStatus (rk_status t) then (raises c, t, [(OnEnd, c)])
          else (None, t\<lparr>rk_continuations := rk_continuations t @ [c]\<rparr>, []))"

definition cancellationException :: task_exception where
  "cancellationException =
     NewThrown (objectFieldWrite (empty_object_box\<lparr>ob_className := ''CancellationException''\<rparr>)
       ''message'' (VString ''task was cancelled''))"

text \<open>\<open>observe\<close> blocks until the task has ended: \<open>None\<close>.\<close>

definition observe :: "runtime_task \<Rightarrow> ((task_exception + zvalue) \<times> runtime_task) option" where
  "observe t =
     (case rk_status t of
        Succeeded \<Rightarrow> map_option (\<lambda>v. (Inr v, t)) (rk_result t)
      | Failed \<Rightarrow> Some (Inl (rethrowStored (rk_error t)), t\<lparr>rk_failureObserved := True\<rparr>)
      | Cancelled \<Rightarrow> Some (Inl cancellationException, t\<lparr>rk_failureObserved := True\<rparr>)
      | _ \<Rightarrow> None)"

definition appendGCRoots :: "runtime_task \<Rightarrow> zvalue list \<Rightarrow> zvalue list" where
  "appendGCRoots t roots =
     roots @ (case rk_result t of Some v \<Rightarrow> [v] | None \<Rightarrow> []) @ rk_operationRoots t @ storedRoots (rk_error t)"

text \<open>What destroying a task reports on standard error.\<close>

definition unobservedFailure :: "runtime_task \<Rightarrow> string option" where
  "unobservedFailure t =
     (if rk_status t \<noteq> Failed \<or> rk_failureObserved t \<or> \<not> storedPresent (rk_error t) then None
      else Some (''unobserved task failure: '' @ se_message (rk_error t)))"

subsection \<open>All tasks\<close>

text \<open>The store numbers tasks in the order of their creation; a destroyed task leaves a hole.\<close>

record task_world =
  tw_slots :: "runtime_task option list"
  tw_ran :: "(task_id \<times> waiting \<times> continuation) list"

definition emptyWorld :: task_world where
  "emptyWorld = \<lparr>tw_slots = [], tw_ran = []\<rparr>"

definition taskAt :: "task_world \<Rightarrow> task_id \<Rightarrow> runtime_task option" where
  "taskAt w i = (if i < length (tw_slots w) then tw_slots w ! i else None)"

definition setTask :: "task_id \<Rightarrow> runtime_task \<Rightarrow> task_world \<Rightarrow> task_world" where
  "setTask i t w = w\<lparr>tw_slots := (tw_slots w)[i := Some t]\<rparr>"

definition onTask ::
  "task_id \<Rightarrow> (runtime_task \<Rightarrow> outcome) \<Rightarrow> task_world \<Rightarrow> task_exception option \<times> task_world"
where
  "onTask i f w =
     (case taskAt w i of
        None \<Rightarrow> (None, w)
      | Some t \<Rightarrow>
          (let (x, t', cs) = f t
           in (x, setTask i t' (w\<lparr>tw_ran := tw_ran w @ map (Pair i) cs\<rparr>))))"

text \<open>
  A cancellation request takes the task's own lock, runs its observers, and goes on to the children
  that are still alive, depth first: the list holds the requests still to be made.
\<close>

definition wantsRequest :: "task_world \<Rightarrow> task_id \<Rightarrow> bool" where
  "wantsRequest w i = (case taskAt w i of None \<Rightarrow> False | Some t \<Rightarrow> \<not> ignoresRequest t)"

definition liveChildren :: "task_world \<Rightarrow> task_id \<Rightarrow> task_id list" where
  "liveChildren w i =
     (case taskAt w i of
        None \<Rightarrow> [] | Some t \<Rightarrow> filter (\<lambda>c. taskAt w c \<noteq> None) (rk_spawnedChildren t))"

lemma taskAt_setTask:
  "taskAt w i = Some t \<Longrightarrow> taskAt (setTask i t' w) j = (if j = i then Some t' else taskAt w j)"
  by (auto simp: taskAt_def setTask_def split: if_splits)

lemma taskAt_ran [simp]: "taskAt (w\<lparr>tw_ran := r\<rparr>) i = taskAt w i"
  by (simp add: taskAt_def)

lemma finite_wants: "finite {i. wantsRequest w i}"
proof (rule finite_subset)
  show "{i. wantsRequest w i} \<subseteq> {..<length (tw_slots w)}"
    by (auto simp: wantsRequest_def taskAt_def split: if_splits)
qed simp

lemma taskAt_onTask:
  "taskAt (snd (onTask i f w)) j = (if j = i then map_option (\<lambda>t. fst (snd (f t))) (taskAt w i) else taskAt w j)"
  by (auto simp: onTask_def case_prod_unfold Let_def taskAt_setTask split: option.split)

lemma wants_request:
  assumes "wantsRequest w i"
  shows "wantsRequest (snd (onTask i requestSelf w)) j \<longleftrightarrow> wantsRequest w j \<and> j \<noteq> i"
  using assms by (auto simp: wantsRequest_def taskAt_onTask requestSelf_def ignoresRequest_def split: option.splits)

function requestAll :: "task_world \<Rightarrow> task_id list \<Rightarrow> task_world" where
  "requestAll w [] = w"
| "requestAll w (i # is) =
     (if wantsRequest w i
      then let w' = snd (onTask i requestSelf w) in requestAll w' (liveChildren w' i @ is)
      else requestAll w is)"
  by pat_completeness auto
termination
proof (relation "measures [\<lambda>(w, is). card {i. wantsRequest w i}, \<lambda>(w, is). length is]", goal_cases)
  case (2 w i "is" w')
  then have "{j. wantsRequest w' j} \<subset> {j. wantsRequest w j}" by (auto simp: wants_request)
  then have "card {j. wantsRequest w' j} < card {j. wantsRequest w j}"
    using finite_wants psubset_card_mono by blast
  then show ?case by simp
qed auto

definition propagateCancellationToChildren :: "task_world \<Rightarrow> task_id \<Rightarrow> task_world" where
  "propagateCancellationToChildren w i = requestAll w (liveChildren w i)"

definition requestCancellation :: "task_id \<Rightarrow> task_world \<Rightarrow> task_world" where
  "requestCancellation i w = requestAll w [i]"

definition cancelTask ::
  "(continuation \<Rightarrow> task_exception option) \<Rightarrow> task_id \<Rightarrow> task_world \<Rightarrow> task_exception option \<times> task_world"
where
  "cancelTask raises i w =
     (case taskAt w i of
        None \<Rightarrow> (None, w)
      | Some t \<Rightarrow>
          let (x, w') = onTask i (cancelSelf raises) w
          in if isTerminalStatus (rk_status t) then (x, w') else (x, propagateCancellationToChildren w' i))"

definition addSpawnedChild :: "task_id \<Rightarrow> task_id \<Rightarrow> task_world \<Rightarrow> task_world" where
  "addSpawnedChild i child w =
     (case (taskAt w i, taskAt w child) of
        (Some t, Some _) \<Rightarrow>
          if child = i then w
          else
            let w' = setTask i (t\<lparr>rk_spawnedChildren := rk_spawnedChildren t @ [child]\<rparr>) w
            in if rk_cancellationRequested t \<or> rk_status t = Cancelled then requestCancellation child w' else w'
      | _ \<Rightarrow> w)"

definition createTask :: "string \<Rightarrow> zvalue list \<Rightarrow> task_world \<Rightarrow> task_world" where
  "createTask tn roots w = w\<lparr>tw_slots := tw_slots w @ [Some (newTask tn roots)]\<rparr>"

definition destroyTask :: "task_id \<Rightarrow> task_world \<Rightarrow> task_world" where
  "destroyTask i w = w\<lparr>tw_slots := (tw_slots w)[i := None]\<rparr>"

definition observeTask :: "task_id \<Rightarrow> task_world \<Rightarrow> (task_exception + zvalue) option \<times> task_world" where
  "observeTask i w =
     (case taskAt w i of
        None \<Rightarrow> (None, w)
      | Some t \<Rightarrow>
          (case observe t of None \<Rightarrow> (None, w) | Some (r, t') \<Rightarrow> (Some r, setTask i t' w)))"

text \<open>The operations as the steps of a program over tasks.\<close>

datatype task_op =
    TCreate string "zvalue list"
  | TStart task_id
  | TSucceed task_id zvalue
  | TFail task_id heap "task_exception option"
  | TCancel task_id
  | TRequest task_id
  | TIgnore task_id
  | TSpawn task_id task_id
  | TThen task_id "continuation option"
  | TOnCancel task_id "continuation option"
  | TObserve task_id
  | TDestroy task_id

fun execOp :: "digit_source \<Rightarrow> (continuation \<Rightarrow> task_exception option) \<Rightarrow> task_op \<Rightarrow> task_world \<Rightarrow> task_world" where
  "execOp dg raises (TCreate tn roots) w = createTask tn roots w"
| "execOp dg raises (TStart i) w = snd (onTask i start w)"
| "execOp dg raises (TSucceed i v) w = snd (onTask i (succeed raises v) w)"
| "execOp dg raises (TFail i h x) w = snd (onTask i (fail dg h raises x) w)"
| "execOp dg raises (TCancel i) w = snd (cancelTask raises i w)"
| "execOp dg raises (TRequest i) w = requestCancellation i w"
| "execOp dg raises (TIgnore i) w = snd (onTask i ignore w)"
| "execOp dg raises (TSpawn i c) w = addSpawnedChild i c w"
| "execOp dg raises (TThen i k) w = snd (onTask i (andThen raises k) w)"
| "execOp dg raises (TOnCancel i k) w = snd (onTask i (onCancellation raises k) w)"
| "execOp dg raises (TObserve i) w = snd (observeTask i w)"
| "execOp dg raises (TDestroy i) w = destroyTask i w"

text \<open>
  The registrations an operation makes on a task that exists, and the worlds a program reaches,
  with all registrations made on the way.
\<close>

definition registers :: "task_world \<Rightarrow> task_op \<Rightarrow> (task_id \<times> waiting \<times> continuation) list" where
  "registers w op =
     (case op of
        TThen i (Some c) \<Rightarrow> if taskAt w i \<noteq> None then [(i, OnEnd, c)] else []
      | TOnCancel i (Some c) \<Rightarrow> if taskAt w i \<noteq> None then [(i, OnCancel, c)] else []
      | _ \<Rightarrow> [])"

inductive reaches ::
  "digit_source \<Rightarrow> (continuation \<Rightarrow> task_exception option) \<Rightarrow>
   (task_id \<times> waiting \<times> continuation) list \<Rightarrow> task_world \<Rightarrow> bool"
  for dg raises
where
  reaches_empty: "reaches dg raises [] emptyWorld"
| reaches_step: "reaches dg raises regs w \<Longrightarrow>
    reaches dg raises (regs @ registers w op) (execOp dg raises op w)"

subsection \<open>One task\<close>

definition task_ok :: "runtime_task \<Rightarrow> bool" where
  "task_ok t \<longleftrightarrow>
     (isTerminal t \<longrightarrow> rk_continuations t = [] \<and> rk_cancellationContinuations t = [] \<and> rk_operationRoots t = []) \<and>
     (rk_result t \<noteq> None \<longleftrightarrow> rk_status t = Succeeded) \<and>
     (rk_status t \<noteq> Failed \<longrightarrow> rk_error t = emptyStored) \<and>
     (rk_status t = Cancelled \<longrightarrow> rk_cancellationRequested t) \<and>
     (rk_cancellationRequested t \<longrightarrow> rk_cancellationContinuations t = [])"

text \<open>What never changes back: the end of a task with its result or failure, and a cancellation request.\<close>

definition evolves :: "runtime_task \<Rightarrow> runtime_task \<Rightarrow> bool" where
  "evolves t t' \<longleftrightarrow>
     (isTerminal t \<longrightarrow> rk_status t' = rk_status t \<and> rk_result t' = rk_result t \<and> rk_error t' = rk_error t) \<and>
     (rk_cancellationRequested t \<longrightarrow> rk_cancellationRequested t') \<and>
     set (rk_spawnedChildren t) \<subseteq> set (rk_spawnedChildren t')"

text \<open>
  The books of a task: how often a continuation was registered (\<open>reg\<close>) and was run (\<open>runs\<close>), per
  kind. Those waiting for the end run when it comes, those waiting for a cancellation when it is
  requested.
\<close>

definition booked ::
  "(waiting \<times> continuation \<Rightarrow> nat) \<Rightarrow> (waiting \<times> continuation \<Rightarrow> nat) \<Rightarrow> runtime_task \<Rightarrow> bool"
where
  "booked reg runs t \<longleftrightarrow>
     (\<forall>c. reg (OnEnd, c) = count_list (rk_continuations t) c + runs (OnEnd, c) \<and>
          (\<not> isTerminal t \<longrightarrow> runs (OnEnd, c) = 0) \<and>
          (rk_cancellationRequested t \<longrightarrow> runs (OnCancel, c) = reg (OnCancel, c)) \<and>
          (\<not> rk_cancellationRequested t \<longrightarrow> runs (OnCancel, c) = 0) \<and>
          (\<not> rk_cancellationRequested t \<and> \<not> isTerminal t \<longrightarrow>
             reg (OnCancel, c) = count_list (rk_cancellationContinuations t) c))"

definition adds :: "('a \<Rightarrow> nat) \<Rightarrow> 'a list \<Rightarrow> 'a \<Rightarrow> nat" where
  "adds n xs x = n x + count_list xs x"

text \<open>An operation on one task that keeps all this and makes the registrations \<open>new\<close>.\<close>

definition sound_op :: "(waiting \<times> continuation) list \<Rightarrow> (runtime_task \<Rightarrow> outcome) \<Rightarrow> bool" where
  "sound_op new f \<longleftrightarrow>
     (\<forall>t x t' cs. f t = (x, t', cs) \<longrightarrow> task_ok t \<longrightarrow>
        task_ok t' \<and> evolves t t' \<and> rk_spawnedChildren t' = rk_spawnedChildren t \<and>
        (\<forall>reg runs. booked reg runs t \<longrightarrow> booked (adds reg new) (adds runs cs) t'))"

lemmas task_defs = task_ok_def evolves_def booked_def adds_def isTerminal_def isTerminalStatus_def settle_def

lemma count_map_Pair [simp]: "count_list (map (Pair k) cs) (k', c) = (if k = k' then count_list cs c else 0)"
  by (induction cs) auto

lemma sound_start: "sound_op [] start"
  by (auto simp: sound_op_def start_def task_defs split: if_splits)

lemma sound_ignore: "sound_op [] ignore"
  by (auto simp: sound_op_def ignore_def task_defs)

lemma sound_succeed: "sound_op [] (succeed raises v)"
  by (auto simp: sound_op_def succeed_def task_defs split: if_splits)

lemma sound_fail: "sound_op [] (fail dg h raises x)"
  by (auto simp: sound_op_def fail_def task_defs split: if_splits option.splits)

lemma sound_cancel: "sound_op [] (cancelSelf raises)"
  by (auto simp: sound_op_def cancelSelf_def task_defs split: if_splits) metis

lemma sound_request: "sound_op [] requestSelf"
  by (auto simp: sound_op_def requestSelf_def ignoresRequest_def task_defs split: if_splits)

lemma sound_andThen: "sound_op (case k of None \<Rightarrow> [] | Some c \<Rightarrow> [(OnEnd, c)]) (andThen raises k)"
  by (auto simp: sound_op_def andThen_def task_defs split: if_splits option.splits)

lemma sound_onCancellation: "sound_op (case k of None \<Rightarrow> [] | Some c \<Rightarrow> [(OnCancel, c)]) (onCancellation raises k)"
  by (auto simp: sound_op_def onCancellation_def task_defs split: if_splits option.splits)

lemma sound_observe:
  assumes "observe t = Some (r, t')" "task_ok t"
  shows "task_ok t'" "evolves t t'" "rk_spawnedChildren t' = rk_spawnedChildren t"
    "booked reg runs t \<Longrightarrow> booked reg runs t'" "rk_cancellationRequested t' = rk_cancellationRequested t"
    "isTerminal t'"
  using assms by (auto simp: observe_def task_defs split: task_status.splits)

subsection \<open>The world\<close>

definition booked_in :: "(task_id \<times> waiting \<times> continuation) list \<Rightarrow> task_world \<Rightarrow> task_id \<Rightarrow> runtime_task \<Rightarrow> bool" where
  "booked_in regs w i t \<longleftrightarrow>
     booked (\<lambda>kc. count_list regs (i, kc)) (\<lambda>kc. count_list (tw_ran w) (i, kc)) t"

definition world_ok :: "(task_id \<times> waiting \<times> continuation) list \<Rightarrow> task_world \<Rightarrow> bool" where
  "world_ok regs w \<longleftrightarrow>
     (\<forall>i t. taskAt w i = Some t \<longrightarrow>
        task_ok t \<and> booked_in regs w i t \<and> (\<forall>c \<in> set (rk_spawnedChildren t). c < length (tw_slots w))) \<and>
     (\<forall>i kc. (i, kc) \<in> set regs \<union> set (tw_ran w) \<longrightarrow> i < length (tw_slots w))"

text \<open>
  Cancellation has reached every child: a child of a task whose cancellation was requested has
  ended or has a request itself. \<open>todo\<close> holds the requests still to be made.
\<close>

definition cascaded :: "task_id set \<Rightarrow> task_world \<Rightarrow> bool" where
  "cascaded todo w \<longleftrightarrow>
     (\<forall>i t. taskAt w i = Some t \<longrightarrow> rk_cancellationRequested t \<longrightarrow>
        (\<forall>c \<in> set (rk_spawnedChildren t). wantsRequest w c \<longrightarrow> c \<in> todo))"

definition world_evolves :: "task_world \<Rightarrow> task_world \<Rightarrow> bool" where
  "world_evolves w w' \<longleftrightarrow>
     (\<forall>i t t'. taskAt w i = Some t \<longrightarrow> taskAt w' i = Some t' \<longrightarrow> evolves t t') \<and>
     (\<forall>i. taskAt w' i \<noteq> None \<longrightarrow> taskAt w i \<noteq> None \<or> length (tw_slots w) \<le> i) \<and>
     length (tw_slots w) \<le> length (tw_slots w')"

lemma evolves_refl [simp]: "evolves t t"
  by (simp add: evolves_def)

lemma evolves_trans: "evolves t u \<Longrightarrow> evolves u v \<Longrightarrow> evolves t v"
  by (auto simp: evolves_def isTerminal_def)

lemma length_setTask [simp]: "length (tw_slots (setTask i t w)) = length (tw_slots w)"
  by (simp add: setTask_def)

lemma length_onTask [simp]: "length (tw_slots (snd (onTask i f w))) = length (tw_slots w)"
  by (auto simp: onTask_def case_prod_unfold Let_def split: option.split)

lemma ran_onTask:
  "tw_ran (snd (onTask i f w)) =
     tw_ran w @ (case taskAt w i of None \<Rightarrow> [] | Some t \<Rightarrow> map (Pair i) (snd (snd (f t))))"
  by (auto simp: onTask_def case_prod_unfold Let_def setTask_def split: option.split)

lemma count_Pair_map [simp]: "count_list (map (Pair i) xs) (j, x) = (if i = j then count_list xs x else 0)"
  by (induction xs) auto

lemma taskAt_length: "taskAt w i = Some t \<Longrightarrow> i < length (tw_slots w)"
  by (simp add: taskAt_def split: if_splits)

lemma onTask_ok:
  assumes "world_ok regs w" "sound_op new f"
  shows "world_ok (regs @ (if taskAt w i = None then [] else map (Pair i) new)) (snd (onTask i f w))"
proof (cases "taskAt w i")
  case None
  then show ?thesis using assms(1) by (simp add: onTask_def)
next
  case (Some t)
  let ?w = "snd (onTask i f w)" and ?regs = "regs @ map (Pair i) new"
  obtain x t' cs where f: "f t = (x, t', cs)" using prod_cases3 by blast
  have t: "task_ok t" "booked_in regs w i t" using assms(1) Some by (auto simp: world_ok_def)
  have s: "task_ok t'" "rk_spawnedChildren t' = rk_spawnedChildren t"
    "booked (adds (\<lambda>kc. count_list regs (i, kc)) new) (adds (\<lambda>kc. count_list (tw_ran w) (i, kc)) cs) t'"
    using assms(2) f t unfolding sound_op_def booked_in_def by blast+
  have "booked_in ?regs ?w i t'"
    using s(3) by (simp add: booked_in_def booked_def adds_def ran_onTask Some f)
  moreover have "booked_in ?regs ?w j u" if "j \<noteq> i" "taskAt w j = Some u" for j u
    using that assms(1) by (simp add: booked_in_def ran_onTask Some f world_ok_def)
  moreover have "i < length (tw_slots w)" using taskAt_length [OF Some] .
  ultimately show ?thesis
    using assms(1) Some s f unfolding world_ok_def taskAt_onTask ran_onTask
    by (auto split: if_splits)
qed

lemma onTask_evolves:
  assumes "sound_op new f" "world_ok regs w"
  shows "world_evolves w (snd (onTask i f w))"
proof -
  have "evolves t (fst (snd (f t)))" if "taskAt w i = Some t" for t
  proof -
    obtain x t' cs where "f t = (x, t', cs)" using prod_cases3 by blast
    moreover have "task_ok t" using that assms(2) by (simp add: world_ok_def)
    ultimately show ?thesis using assms(1) unfolding sound_op_def by auto
  qed
  then show ?thesis by (auto simp: world_evolves_def taskAt_onTask split: if_splits)
qed

lemma world_evolves_refl [simp]: "world_evolves w w"
  by (simp add: world_evolves_def)

lemma world_evolves_trans:
  assumes "world_evolves u v" "world_evolves v w"
  shows "world_evolves u w"
proof -
  have "evolves t t'" if a: "taskAt u i = Some t" "taskAt w i = Some t'" for i t t'
  proof -
    have "i < length (tw_slots v)" using a(1) taskAt_length assms(1) unfolding world_evolves_def by fastforce
    then obtain s where "taskAt v i = Some s" using assms(2) a(2) unfolding world_evolves_def by fastforce
    then show ?thesis using assms a unfolding world_evolves_def by (meson evolves_trans)
  qed
  moreover have "taskAt u i \<noteq> None \<or> length (tw_slots u) \<le> i" if "taskAt w i \<noteq> None" for i
    using that assms unfolding world_evolves_def by (meson order_trans)
  ultimately show ?thesis using assms by (auto simp: world_evolves_def)
qed

lemma evolves_wants:
  assumes "world_evolves w w'" "i < length (tw_slots w)" "wantsRequest w' i"
  shows "wantsRequest w i"
proof -
  obtain t' where t': "taskAt w' i = Some t'" "\<not> ignoresRequest t'"
    using assms(3) by (auto simp: wantsRequest_def split: option.splits)
  then obtain t where "taskAt w i = Some t" "evolves t t'"
    using assms(1,2) unfolding world_evolves_def by fastforce
  then show ?thesis using t'
    by (auto simp: wantsRequest_def evolves_def ignoresRequest_def isTerminal_def)
qed

lemma requestAll_ok:
  assumes "world_ok regs w"
  shows "world_ok regs (requestAll w is) \<and> world_evolves w (requestAll w is)"
  using assms
proof (induction w "is" rule: requestAll.induct)
  case (2 w i "is")
  show ?case
  proof (cases "wantsRequest w i")
    case True
    let ?w = "snd (onTask i requestSelf w)"
    have "world_ok regs ?w" using onTask_ok [OF 2(3) sound_request, of i] by (simp split: if_splits)
    then have "world_ok regs (requestAll ?w (liveChildren ?w i @ is)) \<and>
        world_evolves ?w (requestAll ?w (liveChildren ?w i @ is))" using 2(1) True by blast
    then show ?thesis
      using True onTask_evolves [OF sound_request 2(3)] world_evolves_trans by (simp add: Let_def) blast
  qed (use 2 in simp)
qed simp

lemma requestAll_cascaded:
  assumes "world_ok regs w" "cascaded (set is) w"
  shows "cascaded {} (requestAll w is)"
  using assms
proof (induction w "is" rule: requestAll.induct)
  case (2 w i "is")
  show ?case
  proof (cases "wantsRequest w i")
    case True
    let ?w = "snd (onTask i requestSelf w)"
    have ok: "world_ok regs ?w" using onTask_ok [OF 2(3) sound_request, of i] by (simp split: if_splits)
    have "cascaded (set (liveChildren ?w i @ is)) ?w"
      unfolding cascaded_def
    proof (intro allI impI ballI)
      fix j t c
      assume t: "taskAt ?w j = Some t" "rk_cancellationRequested t" "c \<in> set (rk_spawnedChildren t)" "wantsRequest ?w c"
      then have c: "wantsRequest w c" "c \<noteq> i" using wants_request [OF True] by auto
      have live: "taskAt ?w c \<noteq> None" using t(4) unfolding wantsRequest_def by (auto split: option.splits)
      show "c \<in> set (liveChildren ?w i @ is)"
      proof (cases "j = i")
        case True then show ?thesis using t c live by (simp add: liveChildren_def)
      next
        case False
        then have "taskAt w j = Some t" using t(1) by (simp add: taskAt_onTask)
        then show ?thesis using 2(4) t(2,3) c unfolding cascaded_def by auto
      qed
    qed
    then show ?thesis using 2(1) True ok by (simp add: Let_def)
  next
    case False
    then have "cascaded (set is) w" using 2(4) unfolding cascaded_def by auto
    then show ?thesis using 2(2,3) False by simp
  qed
qed simp

definition keeps_request :: "(runtime_task \<Rightarrow> outcome) \<Rightarrow> bool" where
  "keeps_request f \<longleftrightarrow> (\<forall>t. rk_cancellationRequested (fst (snd (f t))) \<longrightarrow> rk_cancellationRequested t)"

lemma onTask_cascaded:
  assumes "world_ok regs w" "cascaded {} w" "sound_op new f"
    and keeps: "keeps_request f"
  shows "cascaded {} (snd (onTask i f w))"
  unfolding cascaded_def
proof (intro allI impI ballI)
  let ?w = "snd (onTask i f w)"
  fix j t' c
  assume t': "taskAt ?w j = Some t'" "rk_cancellationRequested t'" "c \<in> set (rk_spawnedChildren t')" "wantsRequest ?w c"
  obtain t where t: "taskAt w j = Some t" "rk_cancellationRequested t" "c \<in> set (rk_spawnedChildren t)"
  proof (cases "j = i")
    case True
    then obtain t where t: "taskAt w i = Some t" "t' = fst (snd (f t))" using t'(1) by (auto simp: taskAt_onTask)
    obtain x u cs where "f t = (x, u, cs)" using prod_cases3 by blast
    then have "rk_spawnedChildren t' = rk_spawnedChildren t"
      using assms(1,3) t unfolding sound_op_def world_ok_def by (metis fst_conv snd_conv)
    then show ?thesis using that [of t] t t' keeps True by (auto simp: keeps_request_def)
  next
    case False then show ?thesis using that t' by (auto simp: taskAt_onTask)
  qed
  then have "c < length (tw_slots w)" using assms(1) unfolding world_ok_def by blast
  then have "wantsRequest w c" using evolves_wants [OF onTask_evolves [OF assms(3,1)] _ t'(4)] by blast
  then show "c \<in> {}" using assms(2) t unfolding cascaded_def by blast
qed

text \<open>All three at once, for one step of a program.\<close>

definition good_step ::
  "(task_id \<times> waiting \<times> continuation) list \<Rightarrow> task_world \<Rightarrow> (task_id \<times> waiting \<times> continuation) list \<Rightarrow> task_world \<Rightarrow> bool"
where
  "good_step regs w new w' \<longleftrightarrow> world_ok (regs @ new) w' \<and> cascaded {} w' \<and> world_evolves w w'"

lemma good_onTask:
  assumes "world_ok regs w" "cascaded {} w" "sound_op new f"
    and "keeps_request f"
  shows "good_step regs w (if taskAt w i = None then [] else map (Pair i) new) (snd (onTask i f w))"
  using onTask_ok [OF assms(1,3)] onTask_cascaded [OF assms] onTask_evolves [OF assms(3,1)]
  by (auto simp: good_step_def)

lemma good_onTask_Nil:
  assumes "world_ok regs w" "cascaded {} w" "sound_op [] f" "keeps_request f"
  shows "good_step regs w [] (snd (onTask i f w))"
  using good_onTask [OF assms, of i] by (cases "taskAt w i") simp_all

lemma keeps_request:
  "keeps_request start" "keeps_request ignore" "keeps_request (succeed raises v)"
  "keeps_request (fail dg h raises x)" "keeps_request (andThen raises k)"
  "keeps_request (onCancellation raises k)"
  by (auto simp: keeps_request_def start_def ignore_def succeed_def fail_def andThen_def onCancellation_def settle_def
      split: if_splits option.splits)

lemma taskAt_create:
  "taskAt (createTask tn roots w) i = (if i = length (tw_slots w) then Some (newTask tn roots) else taskAt w i)"
  by (auto simp: taskAt_def createTask_def nth_append)

lemma taskAt_destroy: "taskAt (destroyTask i w) j = (if j = i then None else taskAt w j)"
  by (auto simp: taskAt_def destroyTask_def)

lemma good_create:
  assumes "world_ok regs w" "cascaded {} w"
  shows "good_step regs w [] (createTask tn roots w)"
proof -
  let ?w = "createTask tn roots w" and ?n = "length (tw_slots w)"
  have c: "length (tw_slots ?w) = Suc ?n" "tw_ran ?w = tw_ran w" by (simp_all add: createTask_def)
  have "count_list regs (?n, kc) = 0" "count_list (tw_ran w) (?n, kc) = 0" for kc
    using assms(1) unfolding world_ok_def count_list_0_iff by blast+
  then have "booked_in regs ?w ?n (newTask tn roots)"
    by (simp add: booked_in_def booked_def newTask_def c)
  moreover have "task_ok (newTask tn roots)" by (simp add: task_ok_def newTask_def isTerminal_def isTerminalStatus_def)
  ultimately have "world_ok regs ?w"
    using assms(1) unfolding world_ok_def taskAt_create c booked_in_def
    by (auto simp: newTask_def less_Suc_eq split: if_splits)
  moreover have "cascaded {} ?w"
    unfolding cascaded_def
  proof (intro allI impI ballI)
    fix j t d
    assume t: "taskAt ?w j = Some t" "rk_cancellationRequested t" "d \<in> set (rk_spawnedChildren t)" "wantsRequest ?w d"
    then have j: "taskAt w j = Some t" by (auto simp: taskAt_create newTask_def split: if_splits)
    then have "d < ?n" using assms(1) t(3) unfolding world_ok_def by blast
    then have "wantsRequest w d" using t(4) by (simp add: wantsRequest_def taskAt_create)
    then show "d \<in> {}" using assms(2) j t unfolding cascaded_def by blast
  qed
  moreover have "world_evolves w ?w"
    by (auto simp: world_evolves_def taskAt_create c taskAt_length split: if_splits dest: taskAt_length)
  ultimately show ?thesis by (simp add: good_step_def)
qed

lemma good_destroy:
  assumes "world_ok regs w" "cascaded {} w"
  shows "good_step regs w [] (destroyTask i w)"
proof -
  have d: "length (tw_slots (destroyTask i w)) = length (tw_slots w)" "tw_ran (destroyTask i w) = tw_ran w"
    by (simp_all add: destroyTask_def)
  have "wantsRequest w c" if "wantsRequest (destroyTask i w) c" for c
    using that by (auto simp: wantsRequest_def taskAt_destroy split: if_splits)
  then show ?thesis
    using assms unfolding good_step_def world_ok_def cascaded_def world_evolves_def taskAt_destroy d booked_in_def
    by (auto split: if_splits)
qed

definition observeStep :: "runtime_task \<Rightarrow> outcome" where
  "observeStep t = (case observe t of None \<Rightarrow> (None, t, []) | Some (r, t') \<Rightarrow> (None, t', []))"

lemma good_observe:
  assumes "world_ok regs w" "cascaded {} w"
  shows "good_step regs w [] (snd (observeTask i w))"
proof -
  have "snd (observeTask i w) = snd (onTask i observeStep w) \<or> snd (observeTask i w) = w"
    by (auto simp: observeTask_def onTask_def observeStep_def Let_def split: option.split)
  moreover have "sound_op [] observeStep"
    unfolding sound_op_def
  proof (intro allI impI)
    fix t x t' cs assume f: "observeStep t = (x, t', cs)" and ok: "task_ok t"
    have cs: "cs = []" using f by (auto simp: observeStep_def split: option.splits)
    have adds: "adds n [] = n" for n :: "waiting \<times> continuation \<Rightarrow> nat" by (simp add: adds_def fun_eq_iff)
    show "task_ok t' \<and> evolves t t' \<and> rk_spawnedChildren t' = rk_spawnedChildren t \<and>
        (\<forall>reg runs. booked reg runs t \<longrightarrow> booked (adds reg []) (adds runs cs) t')"
    proof (cases "observe t")
      case None then show ?thesis using f ok by (auto simp: adds observeStep_def)
    next
      case (Some p)
      then obtain r where "observe t = Some (r, t')" using f by (cases p) (auto simp: observeStep_def)
      then show ?thesis using sound_observe [OF _ ok] by (simp add: cs adds)
    qed
  qed
  moreover have "keeps_request observeStep"
    by (auto simp: keeps_request_def observe_def observeStep_def split: option.splits task_status.splits)
  ultimately show ?thesis
    using good_onTask [OF assms, of "[]" observeStep i] assms by (auto simp: good_step_def split: if_splits)
qed

lemma good_requestAll:
  assumes "world_ok regs w'" "cascaded (set is) w'" "world_evolves w w'"
  shows "good_step regs w [] (requestAll w' is)"
  using requestAll_ok [OF assms(1)] requestAll_cascaded [OF assms(1,2)] assms(3) world_evolves_trans
  by (auto simp: good_step_def)

lemma cascaded_mono: "cascaded A w \<Longrightarrow> A \<subseteq> B \<Longrightarrow> cascaded B w"
  unfolding cascaded_def by blast

lemma good_cancel:
  assumes "world_ok regs w" "cascaded {} w"
  shows "good_step regs w [] (snd (cancelTask raises i w))"
proof (cases "taskAt w i")
  case None then show ?thesis using assms by (simp add: cancelTask_def good_step_def)
next
  case (Some t)
  let ?w = "snd (onTask i (cancelSelf raises) w)"
  have ok: "world_ok regs ?w" "world_evolves w ?w"
    using onTask_ok [OF assms(1) sound_cancel, of i] onTask_evolves [OF sound_cancel assms(1)] Some by auto
  have w: "snd (cancelTask raises i w) =
      (if isTerminalStatus (rk_status t) then ?w else requestAll ?w (liveChildren ?w i))"
    by (simp add: cancelTask_def Some case_prod_unfold Let_def propagateCancellationToChildren_def)
  have c: "cascaded (set (liveChildren ?w i)) ?w"
    unfolding cascaded_def
  proof (intro allI impI ballI)
    fix j u d
    assume u: "taskAt ?w j = Some u" "rk_cancellationRequested u" "d \<in> set (rk_spawnedChildren u)" "wantsRequest ?w d"
    show "d \<in> set (liveChildren ?w i)"
    proof (cases "j = i")
      case True
      then show ?thesis using u by (auto simp: liveChildren_def wantsRequest_def split: option.splits)
    next
      case False
      then have j: "taskAt w j = Some u" using u(1) by (simp add: taskAt_onTask)
      then have "d < length (tw_slots w)" using assms(1) u(3) unfolding world_ok_def by blast
      then have "wantsRequest w d" using evolves_wants [OF ok(2) _ u(4)] by blast
      then show ?thesis using assms(2) j u(2,3) unfolding cascaded_def by blast
    qed
  qed
  show ?thesis
  proof (cases "isTerminalStatus (rk_status t)")
    case True
    then have "?w = setTask i t w" by (simp add: onTask_def Some cancelSelf_def Let_def)
    also have "\<dots> = w"
      using Some by (auto simp: setTask_def taskAt_def list_update_same_conv split: if_splits)
    finally show ?thesis using assms True w by (simp add: good_step_def)
  next
    case False
    then show ?thesis using w good_requestAll [OF ok(1) c ok(2)] by simp
  qed
qed

lemma good_spawn:
  assumes "world_ok regs w" "cascaded {} w"
  shows "good_step regs w [] (addSpawnedChild i c w)"
proof (cases "taskAt w i = None \<or> taskAt w c = None \<or> c = i")
  case True
  then have "addSpawnedChild i c w = w" by (auto simp: addSpawnedChild_def split: option.split)
  then show ?thesis using assms by (simp add: good_step_def)
next
  case False
  then obtain t u where t: "taskAt w i = Some t" "taskAt w c = Some u" "c \<noteq> i" by auto
  let ?t = "t\<lparr>rk_spawnedChildren := rk_spawnedChildren t @ [c]\<rparr>"
  let ?w = "setTask i ?t w"
  have at: "taskAt ?w j = (if j = i then Some ?t else taskAt w j)" for j using taskAt_setTask [OF t(1)] .
  have ran: "tw_ran ?w = tw_ran w" by (simp add: setTask_def)
  have "task_ok ?t" "booked_in regs w i ?t"
    using assms(1) t(1) by (auto simp: world_ok_def task_ok_def booked_in_def booked_def isTerminal_def)
  then have ok: "world_ok regs ?w"
    using assms(1) t taskAt_length [OF t(2)] unfolding world_ok_def at booked_in_def ran
    by (auto split: if_splits)
  have ev: "world_evolves w ?w"
    using t(1) by (auto simp: world_evolves_def at evolves_def split: if_splits)
  have wants: "wantsRequest ?w d \<longleftrightarrow> wantsRequest w d" for d
    using t(1) by (simp add: wantsRequest_def at ignoresRequest_def)
  have "cascaded (if rk_cancellationRequested t then {c} else {}) ?w"
    using assms(2) t(1) unfolding cascaded_def at wants by (auto split: if_splits)
  moreover have "rk_cancellationRequested t" if "rk_status t = Cancelled"
    using assms(1) t(1) that unfolding world_ok_def task_ok_def by blast
  moreover have "addSpawnedChild i c w =
      (if rk_cancellationRequested t \<or> rk_status t = Cancelled then requestAll ?w [c] else ?w)"
    using t by (simp add: addSpawnedChild_def Let_def requestCancellation_def)
  ultimately show ?thesis
    using good_requestAll [OF ok _ ev, of "[c]"] ok ev by (auto simp: good_step_def split: if_splits)
qed

lemma good_execOp:
  assumes "world_ok regs w" "cascaded {} w"
  shows "good_step regs w (registers w op) (execOp dg raises op w)"
proof (cases op)
  case (TCreate tn roots) then show ?thesis using good_create [OF assms] by (simp add: registers_def)
next
  case (TStart i)
  then show ?thesis using good_onTask_Nil [OF assms sound_start keeps_request(1)] by (simp add: registers_def)
next
  case (TSucceed i v)
  then show ?thesis using good_onTask_Nil [OF assms sound_succeed keeps_request(3)] by (simp add: registers_def)
next
  case (TFail i h x)
  then show ?thesis using good_onTask_Nil [OF assms sound_fail keeps_request(4)] by (simp add: registers_def)
next
  case (TCancel i) then show ?thesis using good_cancel [OF assms] by (simp add: registers_def)
next
  case (TRequest i)
  then show ?thesis using good_requestAll [OF assms(1) cascaded_mono [OF assms(2)], of "[i]" w]
    by (simp add: registers_def requestCancellation_def)
next
  case (TIgnore i)
  then show ?thesis using good_onTask_Nil [OF assms sound_ignore keeps_request(2)] by (simp add: registers_def)
next
  case (TSpawn i c) then show ?thesis using good_spawn [OF assms] by (simp add: registers_def)
next
  case (TThen i k)
  then show ?thesis using good_onTask [OF assms sound_andThen [of k] keeps_request(5) [of raises k], of i]
    by (cases k; cases "taskAt w i") (simp_all add: registers_def)
next
  case (TOnCancel i k)
  then show ?thesis using good_onTask [OF assms sound_onCancellation [of k] keeps_request(6) [of raises k], of i]
    by (cases k; cases "taskAt w i") (simp_all add: registers_def)
next
  case (TObserve i) then show ?thesis using good_observe [OF assms] by (simp add: registers_def)
next
  case (TDestroy i) then show ?thesis using good_destroy [OF assms] by (simp add: registers_def)
qed

lemma reaches_ok:
  assumes "reaches dg raises regs w"
  shows "world_ok regs w \<and> cascaded {} w"
  using assms
proof (induction rule: reaches.induct)
  case reaches_empty
  show ?case by (simp add: world_ok_def cascaded_def emptyWorld_def taskAt_def)
next
  case (reaches_step regs w op)
  then show ?case using good_execOp [of regs w op dg raises] by (simp add: good_step_def)
qed

text \<open>C36: in every world a program reaches, whatever the order in which threads operate on tasks: a task has
  a result exactly when it succeeded, an ended task holds no continuations and no operands, a
  cancelled one was asked to cancel, and the end of a task is final: after any further operation it
  has the same status, result and failure.\<close>

theorem task_lifecycle:
  assumes "reaches dg raises regs w" and "taskAt w i = Some t"
  shows "task_ok t \<and>
    (\<forall>op t'. isTerminal t \<longrightarrow> taskAt (execOp dg raises op w) i = Some t' \<longrightarrow>
       rk_status t' = rk_status t \<and> rk_result t' = rk_result t \<and> rk_error t' = rk_error t)"
proof -
  have ok: "world_ok regs w" "cascaded {} w" using reaches_ok [OF assms(1)] by auto
  have "world_evolves w (execOp dg raises op w)" for op
    using good_execOp [OF ok] by (simp add: good_step_def)
  then have "evolves t t'" if "taskAt (execOp dg raises op w) i = Some t'" for op t'
    using that assms(2) unfolding world_evolves_def by blast
  then show ?thesis using ok(1) assms(2) unfolding world_ok_def evolves_def by blast
qed

text \<open>C33: a continuation waiting for the end of a task runs exactly once per registration, and not before
  the task has ended; one waiting for a cancellation runs exactly once per registration when the
  cancellation was requested and never otherwise.\<close>

theorem continuations_run_once:
  assumes "reaches dg raises regs w" and "taskAt w i = Some t"
  shows "count_list (tw_ran w) (i, OnEnd, c) = (if isTerminal t then count_list regs (i, OnEnd, c) else 0) \<and>
    count_list (tw_ran w) (i, OnCancel, c) =
      (if rk_cancellationRequested t then count_list regs (i, OnCancel, c) else 0)"
proof -
  have "task_ok t" "booked_in regs w i t"
    using reaches_ok [OF assms(1)] assms(2) unfolding world_ok_def by blast+
  then show ?thesis by (auto simp: booked_in_def booked_def task_ok_def)
qed

text \<open>Descendants of a task: its children, and the children of those that have not ended.\<close>

inductive descendant :: "task_world \<Rightarrow> task_id \<Rightarrow> task_id \<Rightarrow> bool" for w i where
  descendant_child: "taskAt w i = Some t \<Longrightarrow> c \<in> set (rk_spawnedChildren t) \<Longrightarrow> descendant w i c"
| descendant_step: "descendant w i j \<Longrightarrow> taskAt w j = Some t \<Longrightarrow> \<not> isTerminal t \<Longrightarrow>
    c \<in> set (rk_spawnedChildren t) \<Longrightarrow> descendant w i c"


definition sample_ops :: "task_op list" where
  "sample_ops = [TCreate ''int'' [], TCreate ''int'' [], TSpawn 0 1, TOnCancel 1 (Some 7), TThen 0 (Some 8), TCancel 0]"

fun runOps :: "task_op list \<Rightarrow> (task_id \<times> waiting \<times> continuation) list \<times> task_world \<Rightarrow>
  (task_id \<times> waiting \<times> continuation) list \<times> task_world" where
  "runOps [] s = s"
| "runOps (op # ops) (regs, w) =
     runOps ops (regs @ registers w op, execOp (\<lambda>_. None) (\<lambda>_. None) op w)"

definition sample_world :: task_world where
  "sample_world = snd (runOps sample_ops ([], emptyWorld))"

lemma runOps_reaches:
  "runOps ops (regs, w) = (r, v) \<Longrightarrow> reaches (\<lambda>_. None) (\<lambda>_. None) regs w \<Longrightarrow> reaches (\<lambda>_. None) (\<lambda>_. None) r v"
proof (induction ops arbitrary: regs w)
  case (Cons op ops)
  then show ?case using reaches_step [OF Cons.prems(2), of op] by simp
qed simp

lemma sample_reaches: "reaches (\<lambda>_. None) (\<lambda>_. None) [(1, OnCancel, 7), (0, OnEnd, 8)] sample_world"
proof (rule runOps_reaches [OF _ reaches_empty])
  have "fst (runOps sample_ops ([], emptyWorld)) = [(1, OnCancel, 7), (0, OnEnd, 8)]" by code_simp
  then show "runOps sample_ops ([], emptyWorld) = ([(1, OnCancel, 7), (0, OnEnd, 8)], sample_world)"
    by (simp add: sample_world_def prod_eq_iff)
qed

lemma sample_tasks:
  "map_option rk_status (taskAt sample_world 0) = Some Cancelled"
  "map_option rk_cancellationRequested (taskAt sample_world 0) = Some True"
  "map_option rk_cancellationRequested (taskAt sample_world 1) = Some True"
  "map_option rk_spawnedChildren (taskAt sample_world 0) = Some [1]"
  by code_simp+

theorem task_lifecycle_witness:
  "\<exists>t. taskAt sample_world 0 = Some t \<and> isTerminal t \<and> task_ok t"
proof -
  obtain t where t: "taskAt sample_world 0 = Some t" "rk_status t = Cancelled" using sample_tasks(1) by auto
  then show ?thesis using task_lifecycle [OF sample_reaches t(1)]
    by (simp add: isTerminal_def isTerminalStatus_def)
qed

theorem continuations_run_once_witness:
  "count_list (tw_ran sample_world) (0, OnEnd, 8) = 1 \<and> count_list (tw_ran sample_world) (1, OnCancel, 7) = 1"
proof -
  obtain t u where t: "taskAt sample_world 0 = Some t" "rk_status t = Cancelled"
    "taskAt sample_world 1 = Some u" "rk_cancellationRequested u" using sample_tasks by auto
  then show ?thesis
    using continuations_run_once [OF sample_reaches t(1), of 8] continuations_run_once [OF sample_reaches t(3), of 7]
    by (simp add: isTerminal_def isTerminalStatus_def)
qed


end
