(* ===== verification/Vm_Gc.thy ===== *)
theory Vm_Gc
  imports Vm_Task
begin

text \<open>
  The tracing collector (\<^verbatim>\<open>src/vm/gc.cpp\<close>, \<^verbatim>\<open>include/zl/vm/gc.hpp\<close>): tracing from the roots, the
  sweep of the registry, box recycling through free lists and counted protection of roots.

  The registry holds addresses; the contents are in the heap of \<open>Vm_Value\<close>. Tasks are traced but
  not owned by the collector. Programs (\<open>Chunk\<close>) contribute their constants and static fields and
  are named by number. A stack of the source is a list whose head is its back. A box from the free
  list keeps its address; a new one gets the address the allocator supplies, a parameter. The
  clock (\<open>collectNs\<close>) is not modelled.
\<close>

subsection \<open>Tracing\<close>

record gc_program =
  gp_constants :: "zvalue list"
  gp_staticStorage :: "nat option"

record static_entry =
  st_value :: zvalue
  st_failure :: stored_exception

record gc_memory =
  gm_heap :: heap
  gm_programs :: "nat \<Rightarrow> gc_program"
  gm_statics :: "nat \<Rightarrow> static_entry option list"

definition identity :: "zvalue \<Rightarrow> addr option" where
  "identity v =
     (case v of
        VList r \<Rightarrow> r | VMap r \<Rightarrow> r | VObject r \<Rightarrow> r | VClosure r \<Rightarrow> r | VTask r \<Rightarrow> r | _ \<Rightarrow> None)"

definition task_at :: "heap \<Rightarrow> addr \<Rightarrow> task_roots" where
  "task_at h a = (case h a of Some (BTask b) \<Rightarrow> b | _ \<Rightarrow> \<lparr>tk_result = None, tk_operationRoots = [], tk_errorValue = None\<rparr>)"

definition closure_at :: "heap \<Rightarrow> addr \<Rightarrow> closure_box" where
  "closure_at h a = (case h a of Some (BClosure b) \<Rightarrow> b | _ \<Rightarrow> empty_closure_box)"

definition taskValues :: "addr option list \<Rightarrow> zvalue list" where
  "taskValues ts = map VTask (filter (\<lambda>r. r \<noteq> None) ts)"

definition channelChildren :: "channel_state \<Rightarrow> zvalue list" where
  "channelChildren c =
     ch_items c @
     concat (map (\<lambda>p. ps_value p # taskValues [ps_task p]) (ch_pendingSends c)) @
     taskValues (ch_pendingReceives c)"

definition objectChildren :: "object_box \<Rightarrow> zvalue list" where
  "objectChildren b =
     map snd (objectFieldForEach b) @
     (case ob_atomicRefState b of Some v \<Rightarrow> [v] | None \<Rightarrow> []) @
     (case ob_channelState b of Some c \<Rightarrow> channelChildren c | None \<Rightarrow> [])"

definition taskChildren :: "task_roots \<Rightarrow> zvalue list" where
  "taskChildren t =
     (case tk_result t of Some v \<Rightarrow> [v] | None \<Rightarrow> []) @ tk_operationRoots t @
     (case tk_errorValue t of Some a \<Rightarrow> [VObject (Some a)] | None \<Rightarrow> [])"

text \<open>The values and the programs a value pushes, in the order they are pushed.\<close>

definition appendValueChildren :: "heap \<Rightarrow> zvalue \<Rightarrow> zvalue list \<times> nat option list" where
  "appendValueChildren h v =
     (case v of
        VList (Some a) \<Rightarrow> (lb_items (list_at h a), [])
      | VMap (Some a) \<Rightarrow> (concat (map (\<lambda>(k, x). [k, x]) (mb_entries (map_at h a))), [])
      | VObject (Some a) \<Rightarrow> (objectChildren (object_at h a), [])
      | VClosure (Some a) \<Rightarrow>
          (map snd (cb_captured (closure_at h a)),
           case cb_chunk (closure_at h a) of Some q \<Rightarrow> [Some q] | None \<Rightarrow> [])
      | VTask (Some a) \<Rightarrow> (taskChildren (task_at h a), [])
      | _ \<Rightarrow> ([], []))"

definition staticRoots :: "static_entry option list \<Rightarrow> zvalue list" where
  "staticRoots es =
     concat (map (\<lambda>e. case e of None \<Rightarrow> [] | Some s \<Rightarrow> st_value s # storedRoots (st_failure s)) es)"

record marker =
  mk_marked :: "addr list"
  mk_programs :: "nat list"
  mk_statics :: "nat list"

definition newMarker :: marker where
  "newMarker = \<lparr>mk_marked = [], mk_programs = [], mk_statics = []\<rparr>"

text \<open>One step of the loop of \<open>Marker::trace\<close>: its two stacks and the marker.\<close>

definition traceValue ::
  "gc_memory \<Rightarrow> zvalue \<Rightarrow> zvalue list \<Rightarrow> nat option list \<Rightarrow> marker \<Rightarrow> zvalue list \<times> nat option list \<times> marker"
where
  "traceValue M v work progs mk =
     (case identity v of
        None \<Rightarrow> (work, progs, mk)
      | Some a \<Rightarrow>
          if a \<in> set (mk_marked mk) then (work, progs, mk)
          else
            (let (vs, ps) = appendValueChildren (gm_heap M) v
             in (rev vs @ work, rev ps @ progs, mk\<lparr>mk_marked := a # mk_marked mk\<rparr>)))"

definition traceProgram ::
  "gc_memory \<Rightarrow> nat option \<Rightarrow> nat option list \<Rightarrow> marker \<Rightarrow> zvalue list \<times> nat option list \<times> marker"
where
  "traceProgram M p progs mk =
     (case p of
        None \<Rightarrow> ([], progs, mk)
      | Some q \<Rightarrow>
          if q \<in> set (mk_programs mk) then ([], progs, mk)
          else
            let mk' = mk\<lparr>mk_programs := q # mk_programs mk\<rparr>;
                cs = gp_constants (gm_programs M q)
            in case gp_staticStorage (gm_programs M q) of
                 None \<Rightarrow> (rev cs, progs, mk')
               | Some s \<Rightarrow>
                   if s \<in> set (mk_statics mk) then (rev cs, progs, mk')
                   else (rev (cs @ staticRoots (gm_statics M s)), progs,
                         mk'\<lparr>mk_statics := s # mk_statics mk\<rparr>))"

partial_function (option) traceLoop ::
  "gc_memory \<Rightarrow> zvalue list \<Rightarrow> nat option list \<Rightarrow> marker \<Rightarrow> marker option"
where
  "traceLoop M work progs mk =
     (case work of
        v # work' \<Rightarrow> (case traceValue M v work' progs mk of (w, p, m) \<Rightarrow> traceLoop M w p m)
      | [] \<Rightarrow>
          (case progs of
             q # progs' \<Rightarrow> (case traceProgram M q progs' mk of (w, p, m) \<Rightarrow> traceLoop M w p m)
           | [] \<Rightarrow> Some mk))"

record gc_roots =
  gr_values :: "zvalue list"
  gr_programs :: "nat option list"

definition trace :: "gc_memory \<Rightarrow> gc_roots \<Rightarrow> marker \<Rightarrow> marker option" where
  "trace M R mk = traceLoop M (rev (gr_values R)) (rev (gr_programs R)) mk"

definition appendExceptionRoots :: "task_exception option \<Rightarrow> zvalue list \<Rightarrow> zvalue list" where
  "appendExceptionRoots x roots =
     roots @ (case x of Some (ZlThrown (Some a)) \<Rightarrow> [VObject (Some a)] | _ \<Rightarrow> [])"

subsection \<open>Tracing marks what is live\<close>

text \<open>The handle that fits the box at an address, and values whose handle fits.\<close>

definition handle :: "heap \<Rightarrow> addr \<Rightarrow> zvalue" where
  "handle h a =
     (case h a of
        Some (BList _) \<Rightarrow> VList (Some a) | Some (BMap _) \<Rightarrow> VMap (Some a) | Some (BObject _) \<Rightarrow> VObject (Some a)
      | Some (BClosure _) \<Rightarrow> VClosure (Some a) | Some (BTask _) \<Rightarrow> VTask (Some a) | None \<Rightarrow> VNil)"

definition typed :: "heap \<Rightarrow> zvalue \<Rightarrow> bool" where
  "typed h v \<longleftrightarrow> (\<forall>a. identity v = Some a \<longrightarrow> h a = None \<or> v = handle h a)"

abbreviation boxValues :: "heap \<Rightarrow> addr \<Rightarrow> zvalue list" where
  "boxValues h a \<equiv> fst (appendValueChildren h (handle h a))"

abbreviation boxPrograms :: "heap \<Rightarrow> addr \<Rightarrow> nat option list" where
  "boxPrograms h a \<equiv> snd (appendValueChildren h (handle h a))"

definition programValues :: "gc_memory \<Rightarrow> nat \<Rightarrow> zvalue list" where
  "programValues M q =
     gp_constants (gm_programs M q) @
     (case gp_staticStorage (gm_programs M q) of None \<Rightarrow> [] | Some s \<Rightarrow> staticRoots (gm_statics M s))"

definition memory_typed :: "gc_memory \<Rightarrow> bool" where
  "memory_typed M \<longleftrightarrow>
     (\<forall>a. \<forall>v \<in> set (boxValues (gm_heap M) a). typed (gm_heap M) v) \<and>
     (\<forall>q. \<forall>v \<in> set (programValues M q). typed (gm_heap M) v)"

text \<open>What the roots reach: boxes (\<open>Inl\<close>) and programs (\<open>Inr\<close>).\<close>

inductive live :: "gc_memory \<Rightarrow> zvalue set \<Rightarrow> nat option set \<Rightarrow> addr + nat \<Rightarrow> bool" for M V P where
  live_value: "v \<in> V \<Longrightarrow> identity v = Some a \<Longrightarrow> live M V P (Inl a)"
| live_program: "Some q \<in> P \<Longrightarrow> live M V P (Inr q)"
| live_box_value: "live M V P (Inl a) \<Longrightarrow> v \<in> set (boxValues (gm_heap M) a) \<Longrightarrow> identity v = Some b \<Longrightarrow> live M V P (Inl b)"
| live_box_program: "live M V P (Inl a) \<Longrightarrow> Some q \<in> set (boxPrograms (gm_heap M) a) \<Longrightarrow> live M V P (Inr q)"
| live_program_value: "live M V P (Inr q) \<Longrightarrow> v \<in> set (programValues M q) \<Longrightarrow> identity v = Some b \<Longrightarrow> live M V P (Inl b)"

lemma empty_children:
  "h a = None \<Longrightarrow> identity v = Some a \<Longrightarrow> appendValueChildren h v = ([], [])"
  by (cases v)
    (auto simp: identity_def appendValueChildren_def list_at_def map_at_def object_at_def closure_at_def task_at_def
      empty_list_box_def empty_map_box_def empty_object_box_def empty_closure_box_def objectChildren_def
      objectFieldForEach_def taskChildren_def)

lemma typed_children:
  assumes "typed h v" "identity v = Some a"
  shows "appendValueChildren h v = appendValueChildren h (handle h a)"
proof (cases "h a = None")
  case True
  then show ?thesis using empty_children [of h a v, OF True assms(2)] by (simp add: handle_def appendValueChildren_def)
next
  case False then show ?thesis using assms unfolding typed_def by metis
qed

text \<open>\<open>pending\<close> addresses are marked or wait on the stack.\<close>

definition pending :: "zvalue list \<Rightarrow> marker \<Rightarrow> addr set" where
  "pending work mk = set (mk_marked mk) \<union> {a. \<exists>v \<in> set work. identity v = Some a}"

definition covered :: "zvalue list \<Rightarrow> marker \<Rightarrow> zvalue list \<Rightarrow> bool" where
  "covered work mk vs \<longleftrightarrow> (\<forall>v \<in> set vs. \<forall>a. identity v = Some a \<longrightarrow> a \<in> pending work mk)"

definition trace_inv ::
  "gc_memory \<Rightarrow> zvalue set \<Rightarrow> nat option set \<Rightarrow> zvalue list \<Rightarrow> nat option list \<Rightarrow> marker \<Rightarrow> bool"
where
  "trace_inv M V P work progs mk \<longleftrightarrow>
     (\<forall>v \<in> set work. typed (gm_heap M) v) \<and>
     (\<forall>a \<in> pending work mk. live M V P (Inl a)) \<and>
     (\<forall>q. q \<in> set (mk_programs mk) \<or> Some q \<in> set progs \<longrightarrow> live M V P (Inr q)) \<and>
     (\<forall>v \<in> V. covered work mk [v]) \<and>
     (\<forall>q. Some q \<in> P \<longrightarrow> q \<in> set (mk_programs mk) \<or> Some q \<in> set progs) \<and>
     (\<forall>a \<in> set (mk_marked mk). covered work mk (boxValues (gm_heap M) a) \<and>
        (\<forall>q. Some q \<in> set (boxPrograms (gm_heap M) a) \<longrightarrow> q \<in> set (mk_programs mk) \<or> Some q \<in> set progs)) \<and>
     (\<forall>s \<in> set (mk_statics mk). covered work mk (staticRoots (gm_statics M s))) \<and>
     (\<forall>q \<in> set (mk_programs mk). covered work mk (programValues M q))"

lemma covered_mono:
  assumes "covered work mk vs" "pending work mk \<subseteq> pending work' mk'"
  shows "covered work' mk' vs"
  using assms unfolding covered_def by blast

lemma trace_inv_value:
  assumes inv: "trace_inv M V P (v # work) progs mk" and M: "memory_typed M"
    and step: "traceValue M v work progs mk = (w, p, mk')"
  shows "trace_inv M V P w p mk'"
proof (cases "\<exists>a. identity v = Some a \<and> a \<notin> set (mk_marked mk)")
  case False
  then have s: "w = work" "p = progs" "mk' = mk" using step by (auto simp: traceValue_def split: option.splits if_splits)
  have "pending (v # work) mk = pending work mk" using False by (auto simp: pending_def)
  then show ?thesis using inv unfolding s trace_inv_def covered_def by auto
next
  case True
  then obtain a where a: "identity v = Some a" "a \<notin> set (mk_marked mk)" by blast
  have tv: "typed (gm_heap M) v" using inv by (simp add: trace_inv_def)
  let ?vs = "boxValues (gm_heap M) a" and ?ps = "boxPrograms (gm_heap M) a"
  have s: "w = rev ?vs @ work" "p = rev ?ps @ progs" "mk' = mk\<lparr>mk_marked := a # mk_marked mk\<rparr>"
    using step a by (simp_all add: traceValue_def typed_children [OF tv a(1)] case_prod_unfold Let_def)
  have live: "live M V P (Inl a)" using inv a(1) by (auto simp: trace_inv_def pending_def)
  have p: "pending w mk' = pending (v # work) mk \<union> {b. \<exists>u \<in> set ?vs. identity u = Some b}"
    using a(1) by (auto simp: pending_def s)
  have cov: "covered w mk' vs" if "covered (v # work) mk vs" for vs using covered_mono [OF that] p by blast
  have "\<forall>u \<in> set w. typed (gm_heap M) u" using inv M by (auto simp: s trace_inv_def memory_typed_def)
  moreover have "\<forall>b \<in> pending w mk'. live M V P (Inl b)"
    using inv live live_box_value unfolding p trace_inv_def by blast
  moreover have "live M V P (Inr q)" if "q \<in> set (mk_programs mk') \<or> Some q \<in> set p" for q
    using that inv live live_box_program unfolding s trace_inv_def by fastforce
  moreover have "covered w mk' ?vs" unfolding covered_def p by blast
  ultimately show ?thesis using inv cov unfolding trace_inv_def s(2,3) by auto
qed

lemma trace_inv_program:
  assumes inv: "trace_inv M V P [] (r # progs) mk" and M: "memory_typed M"
    and step: "traceProgram M r progs mk = (w, p, mk')"
  shows "trace_inv M V P w p mk'"
proof (cases "\<exists>q. r = Some q \<and> q \<notin> set (mk_programs mk)")
  case False
  then have s: "w = []" "p = progs" "mk' = mk" using step by (auto simp: traceProgram_def split: option.splits if_splits)
  have "q \<in> set (mk_programs mk) \<or> Some q \<in> set (r # progs) \<longleftrightarrow> q \<in> set (mk_programs mk) \<or> Some q \<in> set progs" for q
    using False by auto
  then show ?thesis using inv unfolding trace_inv_def s by (simp only: list.set(1))
next
  case True
  then obtain q where q: "r = Some q" "q \<notin> set (mk_programs mk)" by blast
  have live: "live M V P (Inr q)" using inv q(1) by (simp add: trace_inv_def)
  have s: "p = progs" "mk_marked mk' = mk_marked mk" "mk_programs mk' = q # mk_programs mk"
    "set w \<subseteq> set (programValues M q)"
    "set (mk_statics mk') \<subseteq> set (mk_statics mk) \<union> set_option (gp_staticStorage (gm_programs M q))"
    using step q by (auto simp: traceProgram_def programValues_def Let_def split: option.splits if_splits)
  have sub: "pending [] mk \<subseteq> pending w mk'" by (auto simp: pending_def s(2))
  have cov: "covered w mk' vs" if "covered [] mk vs" for vs using covered_mono [OF that sub] .
  have own: "covered w mk' (programValues M q)"
  proof (cases "gp_staticStorage (gm_programs M q)")
    case None
    then show ?thesis using step q
      by (auto simp: traceProgram_def programValues_def Let_def covered_def pending_def)
  next
    case (Some st)
    show ?thesis
    proof (cases "st \<in> set (mk_statics mk)")
      case True
      then have "covered w mk' (staticRoots (gm_statics M st))" using cov inv by (auto simp: trace_inv_def)
      then show ?thesis using step q Some True
        by (auto simp: traceProgram_def programValues_def Let_def covered_def pending_def)
    next
      case False
      then show ?thesis using step q Some
        by (auto simp: traceProgram_def programValues_def Let_def covered_def pending_def)
    qed
  qed
  have "\<forall>v \<in> set w. typed (gm_heap M) v" using s(4) M by (auto simp: memory_typed_def)
  moreover have "live M V P (Inl b)" if b: "b \<in> pending w mk'" for b
  proof -
    consider "b \<in> pending [] mk" | u where "u \<in> set (programValues M q)" "identity u = Some b"
      using b s(2,4) by (auto simp: pending_def)
    then show ?thesis
    proof cases
      case 1 then show ?thesis using inv by (simp add: trace_inv_def)
    next
      case 2 then show ?thesis using live by (rule live_program_value [rotated])
    qed
  qed
  moreover have "covered w mk' (staticRoots (gm_statics M st))" if "st \<in> set (mk_statics mk')" for st
  proof (cases "st \<in> set (mk_statics mk)")
    case True then show ?thesis using inv cov by (simp add: trace_inv_def)
  next
    case False
    then have "gp_staticStorage (gm_programs M q) = Some st" using that s(5) by (cases "gp_staticStorage (gm_programs M q)") auto
    then show ?thesis using own by (auto simp: programValues_def covered_def)
  qed
  ultimately show ?thesis using inv cov own live q s(1-3) unfolding trace_inv_def by auto
qed

text \<open>
  The trace ends: it looks into each box once and visits each program once. Programs are finitely
  many, since they are named by roots and by closures in the heap.
\<close>

definition program_universe :: "gc_memory \<Rightarrow> nat option list \<Rightarrow> marker \<Rightarrow> nat set" where
  "program_universe M progs mk = {q. Some q \<in> set progs \<or> (\<exists>a. Some q \<in> set (boxPrograms (gm_heap M) a))}"

lemma finite_program_universe:
  assumes "finite (dom (gm_heap M))"
  shows "finite (program_universe M progs mk)"
proof -
  have "boxPrograms (gm_heap M) a = []" if "a \<notin> dom (gm_heap M)" for a
    using that by (simp add: handle_def domIff appendValueChildren_def)
  then have "{q. \<exists>a. Some q \<in> set (boxPrograms (gm_heap M) a)} \<subseteq>
      (\<Union>a \<in> dom (gm_heap M). the ` set (boxPrograms (gm_heap M) a))" by force
  then have "finite {q. \<exists>a. Some q \<in> set (boxPrograms (gm_heap M) a)}"
    by (rule finite_subset) (use assms in simp)
  moreover have "{q. Some q \<in> set progs} \<subseteq> the ` set progs" by force
  then have "finite {q. Some q \<in> set progs}" by (rule finite_subset) simp
  ultimately show ?thesis by (simp add: program_universe_def Collect_disj_eq)
qed

definition trace_weight :: "gc_memory \<Rightarrow> nat set \<Rightarrow> marker \<Rightarrow> nat" where
  "trace_weight M Q mk = card (dom (gm_heap M) - set (mk_marked mk)) + card (Q - set (mk_programs mk))"

lemma traceValue_weight:
  assumes "finite (dom (gm_heap M))" "typed (gm_heap M) v"
    and "traceValue M v work progs mk = (w, p, mk')"
  shows "trace_weight M Q mk' < trace_weight M Q mk \<or>
    trace_weight M Q mk' = trace_weight M Q mk \<and> length w = length work \<and> length p = length progs"
    and "set p \<subseteq> set progs \<union> (\<Union>a. set (boxPrograms (gm_heap M) a))"
proof -
  show "set p \<subseteq> set progs \<union> (\<Union>a. set (boxPrograms (gm_heap M) a))"
    using assms(3) typed_children [OF assms(2)]
    by (auto simp: traceValue_def case_prod_unfold Let_def split: option.splits if_splits)
  show "trace_weight M Q mk' < trace_weight M Q mk \<or>
    trace_weight M Q mk' = trace_weight M Q mk \<and> length w = length work \<and> length p = length progs"
  proof (cases "\<exists>a. identity v = Some a \<and> a \<notin> set (mk_marked mk)")
    case False
    then show ?thesis using assms(3) by (auto simp: traceValue_def split: option.splits if_splits)
  next
    case True
    then obtain a where a: "identity v = Some a" "a \<notin> set (mk_marked mk)" by blast
    then have mk': "mk' = mk\<lparr>mk_marked := a # mk_marked mk\<rparr>"
      using assms(3) by (simp add: traceValue_def case_prod_unfold Let_def)
    show ?thesis
    proof (cases "a \<in> dom (gm_heap M)")
      case True
      then have "dom (gm_heap M) - set (mk_marked mk') \<subset> dom (gm_heap M) - set (mk_marked mk)" using a mk' by auto
      then have "card (dom (gm_heap M) - set (mk_marked mk')) < card (dom (gm_heap M) - set (mk_marked mk))"
        using assms(1) by (intro psubset_card_mono) auto
      then show ?thesis by (simp add: trace_weight_def mk')
    next
      case False
      then have "appendValueChildren (gm_heap M) v = ([], [])" using empty_children [of "gm_heap M" a v] a by (auto simp: domIff)
      moreover have "dom (gm_heap M) - set (mk_marked mk') = dom (gm_heap M) - set (mk_marked mk)" using False mk' by auto
      ultimately show ?thesis using assms(3) a by (simp add: traceValue_def trace_weight_def mk')
    qed
  qed
qed

lemma traceProgram_weight:
  assumes "finite Q" "r \<in> Some ` Q \<union> {None}" "traceProgram M r progs mk = (w, p, mk')"
  shows "trace_weight M Q mk' < trace_weight M Q mk \<or>
    trace_weight M Q mk' = trace_weight M Q mk \<and> w = []" and "p = progs"
proof -
  show "p = progs" using assms(3) by (auto simp: traceProgram_def Let_def split: option.splits if_splits)
  show "trace_weight M Q mk' < trace_weight M Q mk \<or> trace_weight M Q mk' = trace_weight M Q mk \<and> w = []"
  proof (cases "\<exists>q. r = Some q \<and> q \<notin> set (mk_programs mk)")
    case False
    then show ?thesis using assms(3) by (auto simp: traceProgram_def split: option.splits if_splits)
  next
    case True
    then obtain q where q: "r = Some q" "q \<notin> set (mk_programs mk)" "q \<in> Q" using assms(2) by auto
    then have "mk_programs mk' = q # mk_programs mk" "mk_marked mk' = mk_marked mk"
      using assms(3) by (auto simp: traceProgram_def Let_def split: option.splits if_splits)
    moreover have "card (Q - insert q (set (mk_programs mk))) < card (Q - set (mk_programs mk))"
      using assms(1) q by (intro psubset_card_mono) auto
    ultimately show ?thesis by (simp add: trace_weight_def)
  qed
qed

lemma traceLoop_correct:
  assumes fin: "finite (dom (gm_heap M))" "finite Q" and M: "memory_typed M"
    and Q: "\<And>a q. Some q \<in> set (boxPrograms (gm_heap M) a) \<Longrightarrow> q \<in> Q"
    and inv: "trace_inv M V P work progs mk" "set progs \<subseteq> Some ` Q \<union> {None}"
  shows "\<exists>mk'. traceLoop M work progs mk = Some mk' \<and> trace_inv M V P [] [] mk'"
  using inv
proof (induction "(trace_weight M Q mk, length work + length progs)" arbitrary: work progs mk
    rule: wf_induct_rule [OF wf_lex_prod [OF wf_less wf_less]])
  case less: (1 work progs mk)
  show ?case
  proof (cases work)
    case (Cons v work')
    obtain w p m where s: "traceValue M v work' progs mk = (w, p, m)" using prod_cases3 by blast
    have inv': "trace_inv M V P w p m" using trace_inv_value [OF _ M s] less.prems(1) Cons by simp
    have t: "typed (gm_heap M) v" using less.prems(1) Cons by (simp add: trace_inv_def)
    note tw = traceValue_weight [OF fin(1) t s]
    have "x \<in> Some ` Q \<union> {None}" if x: "x \<in> set p" for x
    proof -
      have "x \<in> set progs \<or> (\<exists>a. x \<in> set (boxPrograms (gm_heap M) a))" using x tw(2) by blast
      then show ?thesis using less.prems(2) Q by (cases x) auto
    qed
    then have "\<exists>mk'. traceLoop M w p m = Some mk' \<and> trace_inv M V P [] [] mk'"
      using tw(1) [of Q] Cons by (intro less.hyps [OF _ inv']) auto
    then show ?thesis using Cons s by (subst traceLoop.simps) simp
  next
    case Nil
    show ?thesis
    proof (cases progs)
      case Nil': Nil
      then show ?thesis using Nil less.prems(1) by (subst traceLoop.simps) simp
    next
      case (Cons r progs')
      obtain w p m where s: "traceProgram M r progs' mk = (w, p, m)" using prod_cases3 by blast
      have inv': "trace_inv M V P w p m" using trace_inv_program [OF _ M s] less.prems(1) Nil Cons by simp
      have r: "r \<in> Some ` Q \<union> {None}" using less.prems(2) Cons by simp
      note tw = traceProgram_weight [OF fin(2) r s]
      have "\<exists>mk'. traceLoop M w p m = Some mk' \<and> trace_inv M V P [] [] mk'"
        using tw less.prems(2) Nil Cons by (intro less.hyps [OF _ inv']) auto
      then show ?thesis using Nil Cons s by (subst traceLoop.simps) simp
    qed
  qed
qed

lemma trace_inv_final:
  assumes "trace_inv M V P [] [] mk"
  shows "a \<in> set (mk_marked mk) \<longleftrightarrow> live M V P (Inl a)"
proof
  have cov: "b \<in> set (mk_marked mk)" if "covered [] mk vs" "v \<in> set vs" "identity v = Some b" for v b vs
    using that by (simp add: covered_def pending_def)
  have "case n of Inl a \<Rightarrow> a \<in> set (mk_marked mk) | Inr q \<Rightarrow> q \<in> set (mk_programs mk)" if "live M V P n" for n
    using that
  proof (induction rule: live.induct)
    case (live_value v a)
    then have "covered [] mk [v]" using assms by (simp add: trace_inv_def)
    then show ?case using cov live_value by auto
  next
    case (live_box_value a v b)
    then have "covered [] mk (boxValues (gm_heap M) a)" using assms by (simp add: trace_inv_def)
    then show ?case using cov live_box_value by auto
  next
    case (live_program_value q v b)
    then have "covered [] mk (programValues M q)" using assms by (simp add: trace_inv_def)
    then show ?case using cov live_program_value by auto
  qed (use assms in \<open>simp_all add: trace_inv_def\<close>)
  then show "live M V P (Inl a) \<Longrightarrow> a \<in> set (mk_marked mk)" by force
qed (use assms in \<open>simp add: trace_inv_def pending_def\<close>)

lemma live_mono:
  assumes "live M V P n" "V \<subseteq> V'" "P \<subseteq> P'"
  shows "live M V' P' n"
  using assms by (induction rule: live.induct) (auto intro: live.intros)

lemma trace_inv_push:
  assumes inv: "trace_inv M V P [] [] mk" and t: "\<forall>v \<in> set vs. typed (gm_heap M) v"
  shows "trace_inv M (V \<union> set vs) (P \<union> set ps) (rev vs) (rev ps) mk"
proof -
  have mono: "live M (V \<union> set vs) (P \<union> set ps) n" if "live M V P n" for n using live_mono [OF that] by blast
  have cov: "covered (rev vs) mk us" if "covered [] mk us" for us
    using covered_mono [OF that] by (simp add: pending_def)
  have "covered (rev vs) mk [v]" if "v \<in> V \<union> set vs" for v
  proof (cases "v \<in> V")
    case True then show ?thesis using inv cov by (simp add: trace_inv_def)
  next
    case False
    then have "v \<in> set vs" using that by simp
    then show ?thesis unfolding covered_def pending_def by auto
  qed
  moreover have "live M (V \<union> set vs) (P \<union> set ps) (Inl a)" if a: "a \<in> pending (rev vs) mk" for a
  proof (cases "a \<in> set (mk_marked mk)")
    case True then show ?thesis using inv mono by (simp add: trace_inv_def pending_def)
  next
    case False
    then obtain v where "v \<in> set vs" "identity v = Some a" using a by (auto simp: pending_def)
    then show ?thesis by (intro live_value) simp_all
  qed
  moreover have "live M (V \<union> set vs) (P \<union> set ps) (Inr q)" if q: "q \<in> set (mk_programs mk) \<or> Some q \<in> set (rev ps)" for q
  proof (cases "q \<in> set (mk_programs mk)")
    case True then show ?thesis using inv mono by (simp add: trace_inv_def)
  next
    case False then show ?thesis using q by (intro live_program) simp
  qed
  moreover have "\<forall>q. Some q \<in> P \<union> set ps \<longrightarrow> q \<in> set (mk_programs mk) \<or> Some q \<in> set (rev ps)"
    using inv by (simp add: trace_inv_def)
  moreover have "\<forall>a \<in> set (mk_marked mk). covered (rev vs) mk (boxValues (gm_heap M) a) \<and>
      (\<forall>q. Some q \<in> set (boxPrograms (gm_heap M) a) \<longrightarrow> q \<in> set (mk_programs mk) \<or> Some q \<in> set (rev ps))"
    "\<forall>s \<in> set (mk_statics mk). covered (rev vs) mk (staticRoots (gm_statics M s))"
    "\<forall>q \<in> set (mk_programs mk). covered (rev vs) mk (programValues M q)"
    using inv cov by (simp_all add: trace_inv_def)
  moreover have "\<forall>v \<in> set (rev vs). typed (gm_heap M) v" using t by simp
  ultimately show ?thesis unfolding trace_inv_def by blast
qed

lemma trace_correct:
  assumes "finite (dom (gm_heap M))" "memory_typed M" "\<forall>v \<in> set (gr_values R). typed (gm_heap M) v"
    and "trace_inv M V P [] [] mk"
  shows "\<exists>mk'. trace M R mk = Some mk' \<and>
    trace_inv M (V \<union> set (gr_values R)) (P \<union> set (gr_programs R)) [] [] mk'"
  unfolding trace_def
proof (rule traceLoop_correct [OF assms(1) finite_program_universe [OF assms(1), of "gr_programs R" mk] assms(2)])
  show "trace_inv M (V \<union> set (gr_values R)) (P \<union> set (gr_programs R)) (rev (gr_values R)) (rev (gr_programs R)) mk"
    by (rule trace_inv_push [OF assms(4,3)])
  show "q \<in> program_universe M (gr_programs R) mk" if "Some q \<in> set (boxPrograms (gm_heap M) a)" for a q
    using that unfolding program_universe_def by blast
  show "set (rev (gr_programs R)) \<subseteq> Some ` program_universe M (gr_programs R) mk \<union> {None}"
  proof
    fix x assume x: "x \<in> set (rev (gr_programs R))"
    show "x \<in> Some ` program_universe M (gr_programs R) mk \<union> {None}"
    proof (cases x)
      case (Some q) then show ?thesis using x by (simp add: program_universe_def)
    qed simp
  qed
qed

lemma trace_inv_start: "trace_inv M {} {} [] [] newMarker"
  by (simp add: trace_inv_def newMarker_def pending_def)

subsection \<open>The collector\<close>

datatype gc_kind = KList | KMap | KObject | KClosure

record tracing_gc =
  gc_entries :: "(gc_kind \<times> addr) list"
  gc_freeLists :: "addr list"
  gc_freeMaps :: "addr list"
  gc_freeObjects :: "addr list"
  gc_freeClosures :: "addr list"
  gc_protectedRoots :: "addr \<rightharpoonup> nat"
  gc_allocationsSinceCollection :: nat
  gc_allocationThreshold :: nat
  gc_totalAllocations :: nat
  gc_totalReused :: nat
  gc_totalCollections :: nat
  gc_peakTracked :: nat

definition newGC :: tracing_gc where
  "newGC =
     \<lparr>gc_entries = [], gc_freeLists = [], gc_freeMaps = [], gc_freeObjects = [], gc_freeClosures = [],
      gc_protectedRoots = Map.empty, gc_allocationsSinceCollection = 0, gc_allocationThreshold = 128,
      gc_totalAllocations = 0, gc_totalReused = 0, gc_totalCollections = 0, gc_peakTracked = 0\<rparr>"

definition kFreeListCap :: nat where
  "kFreeListCap = 8192"

definition resetListBox :: "list_box \<Rightarrow> list_box" where
  "resetListBox b = b\<lparr>lb_storageType := None, lb_items := [], lb_frontIndex := 0\<rparr>"

definition resetMapBox :: "map_box \<Rightarrow> map_box" where
  "resetMapBox b =
     b\<lparr>mb_storageType := None, mb_entries := [], mb_stringKeyIndexValid := False, mb_stringKeyIndex := Map.empty\<rparr>"

definition resetObjectBox :: "object_box \<Rightarrow> object_box" where
  "resetObjectBox b =
     b\<lparr>ob_genericTypeName := [], ob_mutexState := None, ob_rwLockState := None, ob_atomicState := None,
       ob_atomicBoolState := None, ob_atomicDoubleState := None, ob_atomicRefMutex := None,
       ob_sharedValueMutex := None, ob_atomicRefState := None, ob_semaphoreState := None,
       ob_conditionState := None, ob_channelState := None, ob_className := [], ob_runtimeType := None,
       ob_fields := [], ob_extraFields := []\<rparr>"

definition resetClosureBox :: "closure_box \<Rightarrow> closure_box" where
  "resetClosureBox b =
     b\<lparr>cb_functionName := [], cb_paramNames := [], cb_parameterTypeNames := [], cb_returnTypeName := [],
       cb_isAsync := False, cb_isNative := False, cb_entryAddress := 0, cb_functionIndex := 0,
       cb_chunk := None, cb_captured := [], cb_typeBindings := []\<rparr>"

fun emptyBox :: "gc_kind \<Rightarrow> box" where
  "emptyBox KList = BList empty_list_box"
| "emptyBox KMap = BMap empty_map_box"
| "emptyBox KObject = BObject empty_object_box"
| "emptyBox KClosure = BClosure empty_closure_box"

fun freeList :: "gc_kind \<Rightarrow> tracing_gc \<Rightarrow> addr list" where
  "freeList KList g = gc_freeLists g"
| "freeList KMap g = gc_freeMaps g"
| "freeList KObject g = gc_freeObjects g"
| "freeList KClosure g = gc_freeClosures g"

fun setFreeList :: "gc_kind \<Rightarrow> addr list \<Rightarrow> tracing_gc \<Rightarrow> tracing_gc" where
  "setFreeList KList xs g = g\<lparr>gc_freeLists := xs\<rparr>"
| "setFreeList KMap xs g = g\<lparr>gc_freeMaps := xs\<rparr>"
| "setFreeList KObject xs g = g\<lparr>gc_freeObjects := xs\<rparr>"
| "setFreeList KClosure xs g = g\<lparr>gc_freeClosures := xs\<rparr>"

text \<open>
  \<open>makeGCList\<close>, \<open>makeGCMap\<close>, \<open>makeGCObject\<close> and \<open>makeGCClosure\<close>, which differ in the kind only.
  \<open>fresh\<close> is the address the allocator returns for a new box.
\<close>

definition makeGC :: "gc_kind \<Rightarrow> addr \<Rightarrow> tracing_gc \<times> heap \<Rightarrow> addr \<times> tracing_gc \<times> heap" where
  "makeGC k fresh s =
     (let (g, h) = s;
          (a, g', h') = (case rev (freeList k g) of
             b # bs \<Rightarrow> (b, (setFreeList k (rev bs) g)\<lparr>gc_totalReused := gc_totalReused g + 1\<rparr>, h)
           | [] \<Rightarrow> (fresh, g, h(fresh \<mapsto> emptyBox k)))
      in (a, g'\<lparr>gc_entries := gc_entries g' @ [(k, a)],
               gc_allocationsSinceCollection := gc_allocationsSinceCollection g' + 1,
               gc_totalAllocations := gc_totalAllocations g' + 1\<rparr>, h'))"

definition makeGCList :: "addr \<Rightarrow> tracing_gc \<times> heap \<Rightarrow> addr \<times> tracing_gc \<times> heap" where
  "makeGCList = makeGC KList"

definition makeGCMap :: "addr \<Rightarrow> tracing_gc \<times> heap \<Rightarrow> addr \<times> tracing_gc \<times> heap" where
  "makeGCMap = makeGC KMap"

definition makeGCObject :: "addr \<Rightarrow> tracing_gc \<times> heap \<Rightarrow> addr \<times> tracing_gc \<times> heap" where
  "makeGCObject = makeGC KObject"

definition makeGCClosure :: "addr \<Rightarrow> tracing_gc \<times> heap \<Rightarrow> addr \<times> tracing_gc \<times> heap" where
  "makeGCClosure = makeGC KClosure"

fun kindHandle :: "gc_kind \<Rightarrow> addr \<Rightarrow> zvalue" where
  "kindHandle KList a = VList (Some a)"
| "kindHandle KMap a = VMap (Some a)"
| "kindHandle KObject a = VObject (Some a)"
| "kindHandle KClosure a = VClosure (Some a)"

text \<open>Protected addresses that are in the registry, as root values; the first entry of an address decides.\<close>

definition protectedValues :: "tracing_gc \<Rightarrow> addr list \<Rightarrow> zvalue list" where
  "protectedValues g ids =
     concat (map (\<lambda>a. case find (\<lambda>e. snd e = a) (gc_entries g) of
                        None \<Rightarrow> [] | Some e \<Rightarrow> [kindHandle (fst e) a]) ids)"

record gc_stats =
  gs_tracked :: nat
  gs_reachable :: nat
  gs_unreachable :: nat
  gs_reclaimed :: nat
  gs_deferred :: nat

definition SIZE_MAX :: nat where
  "SIZE_MAX = 2 ^ 64 - 1"

definition nextThreshold :: "nat \<Rightarrow> nat" where
  "nextThreshold n = max 128 (if SIZE_MAX div 2 < n then SIZE_MAX else n * 2)"

text \<open>
  The sweep: survivors and retired entries with the statistics. \<open>ids\<close> is the iteration over the
  protected roots, whose order the source leaves open.
\<close>

definition sweep :: "marker \<Rightarrow> tracing_gc \<Rightarrow> gc_stats \<times> (gc_kind \<times> addr) list \<times> tracing_gc" where
  "sweep mk g =
     (let survivors = filter (\<lambda>e. snd e \<in> set (mk_marked mk)) (gc_entries g);
          retired = filter (\<lambda>e. snd e \<notin> set (mk_marked mk)) (gc_entries g)
      in (\<lparr>gs_tracked = length survivors, gs_reachable = length survivors, gs_unreachable = length retired,
           gs_reclaimed = length retired, gs_deferred = 0\<rparr>,
          retired,
          g\<lparr>gc_entries := survivors, gc_allocationThreshold := nextThreshold (length survivors),
            gc_allocationsSinceCollection := 0, gc_totalCollections := gc_totalCollections g + 1,
            gc_peakTracked := max (gc_peakTracked g) (length survivors)\<rparr>))"

definition collect ::
  "gc_memory \<Rightarrow> gc_roots \<Rightarrow> addr list \<Rightarrow> tracing_gc \<Rightarrow> (gc_stats \<times> (gc_kind \<times> addr) list \<times> tracing_gc) option"
where
  "collect M R ids g =
     Option.bind (trace M R newMarker) (\<lambda>mk.
       Option.bind (trace M \<lparr>gr_values = protectedValues g ids, gr_programs = []\<rparr> mk) (\<lambda>mk'.
         Some (sweep mk' g)))"

definition resetBox :: "box \<Rightarrow> box" where
  "resetBox b =
     (case b of
        BList x \<Rightarrow> BList (resetListBox x) | BMap x \<Rightarrow> BMap (resetMapBox x)
      | BObject x \<Rightarrow> BObject (resetObjectBox x) | BClosure x \<Rightarrow> BClosure (resetClosureBox x) | BTask x \<Rightarrow> BTask x)"

text \<open>\<open>reclaim\<close>: reset every retired box, then pool it or, when its pool is full, release it.\<close>

definition poolBox :: "gc_kind \<times> addr \<Rightarrow> tracing_gc \<times> heap \<Rightarrow> tracing_gc \<times> heap" where
  "poolBox e s =
     (let (g, h) = s; (k, a) = e
      in if length (freeList k g) < kFreeListCap then (setFreeList k (freeList k g @ [a]) g, h)
         else (g, h(a := None)))"

definition reclaim :: "(gc_kind \<times> addr) list \<Rightarrow> tracing_gc \<times> heap \<Rightarrow> tracing_gc \<times> heap" where
  "reclaim retired s =
     (let (g, h) = s
      in fold poolBox retired (g, fold (\<lambda>e h. h(snd e := map_option resetBox (h (snd e)))) retired h))"

definition protect :: "addr option \<Rightarrow> tracing_gc \<Rightarrow> tracing_gc" where
  "protect i g =
     (case i of
        None \<Rightarrow> g
      | Some a \<Rightarrow>
          g\<lparr>gc_protectedRoots := (gc_protectedRoots g)(a \<mapsto> (case gc_protectedRoots g a of None \<Rightarrow> 1 | Some n \<Rightarrow> n + 1))\<rparr>)"

definition unprotect :: "addr option \<Rightarrow> tracing_gc \<Rightarrow> tracing_gc" where
  "unprotect i g =
     (case i of
        None \<Rightarrow> g
      | Some a \<Rightarrow>
          (case gc_protectedRoots g a of
             None \<Rightarrow> g
           | Some n \<Rightarrow>
               g\<lparr>gc_protectedRoots :=
                   (gc_protectedRoots g)(a := if n - 1 = 0 then None else Some (n - 1))\<rparr>))"

definition shouldCollect :: "tracing_gc \<Rightarrow> bool" where
  "shouldCollect g \<longleftrightarrow> gc_allocationThreshold g \<le> gc_allocationsSinceCollection g"

fun boxKind :: "box \<Rightarrow> gc_kind option" where
  "boxKind (BList _) = Some KList"
| "boxKind (BMap _) = Some KMap"
| "boxKind (BObject _) = Some KObject"
| "boxKind (BClosure _) = Some KClosure"
| "boxKind (BTask _) = None"

definition freeBoxes :: "tracing_gc \<Rightarrow> addr list" where
  "freeBoxes g = gc_freeLists g @ gc_freeMaps g @ gc_freeObjects g @ gc_freeClosures g"

text \<open>
  The collector's invariant: an address is registered once or free once, never both; a registered
  box has the kind it was registered with; a free box is in its default state; pools respect
  their cap.
\<close>

definition gc_ok :: "tracing_gc \<Rightarrow> heap \<Rightarrow> bool" where
  "gc_ok g h \<longleftrightarrow>
     distinct (map snd (gc_entries g) @ freeBoxes g) \<and>
     (\<forall>(k, a) \<in> set (gc_entries g). \<exists>b. h a = Some b \<and> boxKind b = Some k) \<and>
     (\<forall>k. \<forall>a \<in> set (freeList k g). h a = Some (emptyBox k)) \<and>
     (\<forall>k. length (freeList k g) \<le> kFreeListCap)"

lemma reset_default: "boxKind b = Some k \<Longrightarrow> resetBox b = emptyBox k"
  by (cases b) (auto simp: resetBox_def resetListBox_def resetMapBox_def resetObjectBox_def resetClosureBox_def
      empty_list_box_def empty_map_box_def empty_object_box_def empty_closure_box_def)

lemma freeList_subset: "set (freeList k g) \<subseteq> set (freeBoxes g)"
  by (cases k) (auto simp: freeBoxes_def)

lemma freeList_setFreeList [simp]: "freeList k (setFreeList k' xs g) = (if k = k' then xs else freeList k g)"
  by (cases k; cases k') simp_all

lemma setFreeList_entries [simp]: "gc_entries (setFreeList k xs g) = gc_entries g"
  by (cases k) simp_all

lemma freeList_update [simp]:
  "freeList k (g\<lparr>gc_entries := es\<rparr>) = freeList k g"
  "freeList k (g\<lparr>gc_totalReused := n\<rparr>) = freeList k g"
  "freeList k (g\<lparr>gc_allocationsSinceCollection := n\<rparr>) = freeList k g"
  "freeList k (g\<lparr>gc_totalAllocations := n\<rparr>) = freeList k g"
  "freeList k (g\<lparr>gc_allocationThreshold := n\<rparr>) = freeList k g"
  "freeList k (g\<lparr>gc_totalCollections := n\<rparr>) = freeList k g"
  "freeList k (g\<lparr>gc_peakTracked := n\<rparr>) = freeList k g"
  by (cases k; simp)+

lemma freeBoxes_alt: "freeBoxes g = concat (map (\<lambda>k. freeList k g) [KList, KMap, KObject, KClosure])"
  by (simp add: freeBoxes_def)

lemma kindHandle_handle:
  assumes "gc_ok g h" "(k, a) \<in> set (gc_entries g)"
  shows "kindHandle k a = handle h a \<and> identity (handle h a) = Some a"
proof -
  obtain b where "h a = Some b" "boxKind b = Some k" using assms unfolding gc_ok_def by blast
  then show ?thesis by (cases b) (auto simp: handle_def identity_def)
qed

text \<open>The registered boxes under protection are roots too.\<close>

definition protectedHandles :: "tracing_gc \<Rightarrow> heap \<Rightarrow> zvalue set" where
  "protectedHandles g h = {handle h a | a. gc_protectedRoots g a \<noteq> None \<and> a \<in> snd ` set (gc_entries g)}"

lemma protectedValues_handles:
  assumes "gc_ok g h" "set ids = dom (gc_protectedRoots g)"
  shows "set (protectedValues g ids) = protectedHandles g h" and "\<forall>v \<in> set (protectedValues g ids). typed h v"
proof -
  have f: "(case find (\<lambda>e. snd e = a) (gc_entries g) of None \<Rightarrow> [] | Some e \<Rightarrow> [kindHandle (fst e) a]) =
      (if a \<in> snd ` set (gc_entries g) then [handle h a] else [])" for a
  proof (cases "find (\<lambda>e. snd e = a) (gc_entries g)")
    case None
    then have "a \<notin> snd ` set (gc_entries g)" by (auto simp: find_None_iff)
    then show ?thesis using None by simp
  next
    case (Some e)
    then have e: "e \<in> set (gc_entries g)" "snd e = a" by (auto simp: find_Some_iff)
    then have "kindHandle (fst e) a = handle h a" using kindHandle_handle [OF assms(1), of "fst e" a] by (cases e) auto
    then show ?thesis using Some e by auto
  qed
  show s: "set (protectedValues g ids) = protectedHandles g h"
    using assms(2) by (auto simp: protectedValues_def f protectedHandles_def split: if_splits)
  have "identity (handle h a) = Some a" if "a \<in> snd ` set (gc_entries g)" for a
    using that kindHandle_handle [OF assms(1)] by auto
  then show "\<forall>v \<in> set (protectedValues g ids). typed h v"
    unfolding s protectedHandles_def typed_def by fastforce
qed

lemma collect_eq:
  assumes "finite (dom (gm_heap M))" "memory_typed M" "\<forall>v \<in> set (gr_values R). typed (gm_heap M) v"
    and "gc_ok g (gm_heap M)" "set ids = dom (gc_protectedRoots g)"
  shows "\<exists>mk. collect M R ids g = Some (sweep mk g) \<and>
    (\<forall>a. a \<in> set (mk_marked mk) \<longleftrightarrow>
       live M (set (gr_values R) \<union> protectedHandles g (gm_heap M)) (set (gr_programs R)) (Inl a))"
proof -
  let ?R = "\<lparr>gr_values = protectedValues g ids, gr_programs = []\<rparr>"
  note p = protectedValues_handles [OF assms(4,5)]
  obtain mk where mk: "trace M R newMarker = Some mk"
    "trace_inv M ({} \<union> set (gr_values R)) ({} \<union> set (gr_programs R)) [] [] mk"
    using trace_correct [OF assms(1-3) trace_inv_start] by blast
  have "\<forall>v \<in> set (gr_values ?R). typed (gm_heap M) v" using p(2) by simp
  from trace_correct [OF assms(1,2) this mk(2)]
  obtain mk' where mk': "trace M ?R mk = Some mk'"
    "trace_inv M (set (gr_values R) \<union> protectedHandles g (gm_heap M)) (set (gr_programs R)) [] [] mk'"
    using p(1) by auto
  then show ?thesis using mk(1) trace_inv_final by (intro exI [of _ mk']) (auto simp: collect_def)
qed

lemma poolBox_ok:
  assumes "gc_ok g h" "h a = Some (emptyBox k)" "a \<notin> set (map snd (gc_entries g) @ freeBoxes g)"
    and "poolBox (k, a) (g, h) = (g', h')"
  shows "gc_ok g' h'" "gc_entries g' = gc_entries g" "\<forall>b. b \<noteq> a \<longrightarrow> h' b = h b"
    "set (freeBoxes g') \<subseteq> insert a (set (freeBoxes g))"
proof -
  have d: "distinct (map snd (gc_entries g) @ freeBoxes g)" using assms(1) by (simp add: gc_ok_def)
  show "gc_entries g' = gc_entries g" "\<forall>b. b \<noteq> a \<longrightarrow> h' b = h b"
    using assms(4) by (auto simp: poolBox_def Let_def split: if_splits)
  show "set (freeBoxes g') \<subseteq> insert a (set (freeBoxes g))"
    using assms(4) by (cases k) (auto simp: poolBox_def Let_def freeBoxes_def split: if_splits)
  show "gc_ok g' h'"
  proof (cases "length (freeList k g) < kFreeListCap")
    case True
    then have s: "g' = setFreeList k (freeList k g @ [a]) g" "h' = h" using assms(4) by (simp_all add: poolBox_def)
    have "distinct (map snd (gc_entries g') @ freeBoxes g')"
      using d assms(3) unfolding s freeBoxes_def by (cases k) auto
    then show ?thesis using assms(1,2) True unfolding gc_ok_def s by (auto simp: Suc_le_eq)
  next
    case False
    then have s: "g' = g" "h' = h(a := None)" using assms(4) by (simp_all add: poolBox_def)
    have "b \<noteq> a" if "b \<in> set (freeList k' g)" for b k' using that freeList_subset assms(3) by fastforce
    moreover have "b \<noteq> a" if "(k', b) \<in> set (gc_entries g)" for b k' using that assms(3) by force
    ultimately show ?thesis using assms(1) unfolding gc_ok_def s by fastforce
  qed
qed

lemma pool_all_ok:
  assumes "gc_ok g h" "distinct (map snd es)" "\<forall>(k, a) \<in> set es. h a = Some (emptyBox k)"
    and "set (map snd es) \<inter> set (map snd (gc_entries g) @ freeBoxes g) = {}"
    and "fold poolBox es (g, h) = (g', h')"
  shows "gc_ok g' h' \<and> gc_entries g' = gc_entries g \<and> (\<forall>b. b \<notin> snd ` set es \<longrightarrow> h' b = h b) \<and>
    set (freeBoxes g') \<subseteq> snd ` set es \<union> set (freeBoxes g)"
  using assms
proof (induction es arbitrary: g h)
  case (Cons e es)
  obtain k a where e: "e = (k, a)" by (rule prod.exhaust)
  obtain g1 h1 where p: "poolBox (k, a) (g, h) = (g1, h1)" by (rule prod.exhaust)
  have a: "h a = Some (emptyBox k)" "a \<notin> set (map snd (gc_entries g) @ freeBoxes g)" "a \<notin> snd ` set es"
    using Cons.prems(2-4) by (auto simp: e)
  note q = poolBox_ok [OF Cons.prems(1) a(1,2) p]
  have "gc_ok g' h' \<and> gc_entries g' = gc_entries g1 \<and> (\<forall>b. b \<notin> snd ` set es \<longrightarrow> h' b = h1 b) \<and>
      set (freeBoxes g') \<subseteq> snd ` set es \<union> set (freeBoxes g1)"
  proof (rule Cons.IH [OF q(1)])
    show "\<forall>(k, b) \<in> set es. h1 b = Some (emptyBox k)" using Cons.prems(3) q(3) a(3) by force
    show "set (map snd es) \<inter> set (map snd (gc_entries g1) @ freeBoxes g1) = {}"
    proof -
      have "snd ` set es \<inter> (snd ` set (gc_entries g) \<union> set (freeBoxes g)) = {}" using Cons.prems(4) by auto
      then show ?thesis using q(2,4) a(3) by (simp only: set_map set_append) blast
    qed
  qed (use Cons.prems(2,5) p e in auto)
  then show ?case using q(2-4) e by auto
qed simp

lemma reset_all:
  assumes "distinct (map snd es)"
  shows "fold (\<lambda>e h. h(snd e := map_option resetBox (h (snd e)))) es h b =
    (if b \<in> snd ` set es then map_option resetBox (h b) else h b)"
  using assms by (induction es arbitrary: h) (auto simp: image_iff)

lemma sweep_entries:
  assumes "sweep mk g = (st, retired, g')"
  shows "gc_entries g' = filter (\<lambda>e. snd e \<in> set (mk_marked mk)) (gc_entries g)"
    and "retired = filter (\<lambda>e. snd e \<notin> set (mk_marked mk)) (gc_entries g)"
    and "freeList k g' = freeList k g" and "freeBoxes g' = freeBoxes g"
  using assms by (auto simp: sweep_def Let_def freeBoxes_def)

lemma reclaim_ok:
  assumes "gc_ok g h" "sweep mk g = (st, retired, g1)" "reclaim retired (g1, h) = (g2, h2)"
  shows "gc_ok g2 h2" "gc_entries g2 = gc_entries g1" "\<forall>a. a \<notin> snd ` set retired \<longrightarrow> h2 a = h a"
    and "set (freeBoxes g2) \<subseteq> snd ` set retired \<union> set (freeBoxes g)"
proof -
  note s = sweep_entries [OF assms(2)]
  let ?h = "fold (\<lambda>e h. h(snd e := map_option resetBox (h (snd e)))) retired h"
  have d: "distinct (map snd (gc_entries g) @ freeBoxes g)" using assms(1) by (simp add: gc_ok_def)
  have dr: "distinct (map snd retired)" "distinct (map snd (gc_entries g1))"
    using d unfolding s(1,2) by (simp_all add: distinct_map_filter)
  have disj: "snd ` set retired \<inter> (snd ` set (gc_entries g1) \<union> set (freeBoxes g)) = {}"
  proof -
    have "x \<notin> set (mk_marked mk) \<and> x \<in> snd ` set (gc_entries g)" if "x \<in> snd ` set retired" for x
      using that by (auto simp: s(2))
    moreover have "x \<in> set (mk_marked mk)" if "x \<in> snd ` set (gc_entries g1)" for x
      using that by (auto simp: s(1))
    moreover have "snd ` set (gc_entries g) \<inter> set (freeBoxes g) = {}" using d by simp
    ultimately show ?thesis by blast
  qed
  have r: "?h b = (if b \<in> snd ` set retired then map_option resetBox (h b) else h b)" for b using reset_all [OF dr(1)] .
  have g1: "gc_ok g1 ?h"
    unfolding gc_ok_def r s(3)
  proof (intro conjI)
    show "distinct (map snd (gc_entries g1) @ freeBoxes g1)"
    proof -
      have "set (map snd (gc_entries g1)) \<subseteq> set (map snd (gc_entries g))" by (auto simp: s(1))
      then show ?thesis using d dr(2) unfolding s(4) distinct_append by blast
    qed
    show "\<forall>(k, a) \<in> set (gc_entries g1). \<exists>b. (if a \<in> snd ` set retired then map_option resetBox (h a) else h a) = Some b \<and> boxKind b = Some k"
    proof clarify
      fix k a assume e: "(k, a) \<in> set (gc_entries g1)"
      then have "a \<notin> snd ` set retired" using disj by force
      moreover have "(k, a) \<in> set (gc_entries g)" using e by (simp add: s(1))
      then have "\<exists>b. h a = Some b \<and> boxKind b = Some k" using assms(1) unfolding gc_ok_def by blast
      ultimately show "\<exists>b. (if a \<in> snd ` set retired then map_option resetBox (h a) else h a) = Some b \<and> boxKind b = Some k"
        by simp
    qed
    show "\<forall>k. \<forall>a \<in> set (freeList k g). (if a \<in> snd ` set retired then map_option resetBox (h a) else h a) = Some (emptyBox k)"
    proof (intro allI ballI)
      fix k a assume a: "a \<in> set (freeList k g)"
      then have "a \<notin> snd ` set retired" using disj freeList_subset [of k g] by blast
      then show "(if a \<in> snd ` set retired then map_option resetBox (h a) else h a) = Some (emptyBox k)"
        using assms(1) a unfolding gc_ok_def by simp
    qed
  qed (use assms(1) in \<open>simp add: gc_ok_def\<close>)
  have "fold poolBox retired (g1, ?h) = (g2, h2)" using assms(3) by (simp add: reclaim_def)
  moreover have "\<forall>(k, a) \<in> set retired. ?h a = Some (emptyBox k)"
  proof clarify
    fix k a assume e: "(k, a) \<in> set retired"
    then have "(k, a) \<in> set (gc_entries g)" by (simp add: s(2))
    then obtain b where "h a = Some b" "boxKind b = Some k" using assms(1) unfolding gc_ok_def by blast
    moreover have "a \<in> snd ` set retired" using e by force
    ultimately show "?h a = Some (emptyBox k)" unfolding r by (simp add: reset_default)
  qed
  moreover have "set (map snd retired) \<inter> set (map snd (gc_entries g1) @ freeBoxes g1) = {}" using disj s(4) by auto
  ultimately have "gc_ok g2 h2 \<and> gc_entries g2 = gc_entries g1 \<and> (\<forall>b. b \<notin> snd ` set retired \<longrightarrow> h2 b = ?h b) \<and>
      set (freeBoxes g2) \<subseteq> snd ` set retired \<union> set (freeBoxes g1)"
    using pool_all_ok [OF g1 dr(1)] by blast
  then show "gc_ok g2 h2" "gc_entries g2 = gc_entries g1" "\<forall>a. a \<notin> snd ` set retired \<longrightarrow> h2 a = h a"
    "set (freeBoxes g2) \<subseteq> snd ` set retired \<union> set (freeBoxes g)" using r s(4) by auto
qed

lemma makeGC_ok:
  assumes "gc_ok g h" "h fresh = None" "makeGC k fresh (g, h) = (a, g', h')"
  shows "gc_ok g' h' \<and> h' a = Some (emptyBox k) \<and> a \<notin> snd ` set (gc_entries g) \<and>
    gc_entries g' = gc_entries g @ [(k, a)] \<and> (a = fresh \<or> a \<in> set (freeBoxes g)) \<and>
    (\<forall>b. b \<noteq> a \<longrightarrow> h' b = h b)"
proof (cases "rev (freeList k g)")
  case Nil
  then have s: "a = fresh" "h' = h(fresh \<mapsto> emptyBox k)" "gc_entries g' = gc_entries g @ [(k, fresh)]"
    "freeBoxes g' = freeBoxes g" "\<And>k'. freeList k' g' = freeList k' g"
    using assms(3) by (auto simp: makeGC_def freeBoxes_def)
  have f: "fresh \<notin> snd ` set (gc_entries g)" using assms(1,2) unfolding gc_ok_def by force
  have f': "(k', fresh) \<notin> set (gc_entries g)" for k' using f by force
  have n: "fresh \<notin> set (freeList k' g)" for k' using assms(1,2) unfolding gc_ok_def by force
  moreover have "fresh \<notin> set (freeBoxes g)"
    using n [of KList] n [of KMap] n [of KObject] n [of KClosure] by (simp add: freeBoxes_def)
  moreover have "boxKind (emptyBox k) = Some k" by (cases k) simp_all
  ultimately show ?thesis using assms(1) f f' unfolding gc_ok_def s(2-5) by (auto simp: s(1) split: if_splits)
next
  case (Cons b bs)
  have fl: "freeList k g = rev bs @ [b]" using Cons by (metis rev_rev_ident rev.simps(2))
  then have s: "a = b" "h' = h" "gc_entries g' = gc_entries g @ [(k, b)]"
    "\<And>k'. freeList k' g' = (if k' = k then rev bs else freeList k' g)"
    using assms(3) Cons by (auto simp: makeGC_def)
  have hb: "h b = Some (emptyBox k)" "b \<in> set (freeBoxes g)"
    using assms(1) fl freeList_subset [of k g] unfolding gc_ok_def by auto
  have d: "distinct (map snd (gc_entries g) @ freeBoxes g)" using assms(1) by (simp add: gc_ok_def)
  then have bn: "b \<notin> snd ` set (gc_entries g)" using hb(2) by auto
  have "distinct (map snd (gc_entries g') @ freeBoxes g')"
    using d fl unfolding s(3) freeBoxes_alt s(4) by (cases k) auto
  moreover have "boxKind (emptyBox k) = Some k" by (cases k) simp_all
  moreover have "length (rev bs) \<le> kFreeListCap" using assms(1) fl unfolding gc_ok_def by (metis Suc_leD length_append_singleton)
  ultimately show ?thesis
    using assms(1) hb bn fl unfolding gc_ok_def s(2-4) by (auto simp: s(1) split: if_splits)
qed

text \<open>What a collection must keep: all that the roots and the protected boxes reach.\<close>

definition kept :: "gc_memory \<Rightarrow> gc_roots \<Rightarrow> tracing_gc \<Rightarrow> addr \<Rightarrow> bool" where
  "kept M R g a \<longleftrightarrow>
     live M (set (gr_values R) \<union> protectedHandles g (gm_heap M)) (set (gr_programs R)) (Inl a)"

text \<open>The state in which the coordinator may collect.\<close>

definition collectable :: "gc_memory \<Rightarrow> gc_roots \<Rightarrow> addr list \<Rightarrow> tracing_gc \<Rightarrow> bool" where
  "collectable M R ids g \<longleftrightarrow>
     finite (dom (gm_heap M)) \<and> memory_typed M \<and> (\<forall>v \<in> set (gr_values R). typed (gm_heap M) v) \<and>
     gc_ok g (gm_heap M) \<and> set ids = dom (gc_protectedRoots g)"

lemma collect_sweeps:
  assumes "collectable M R ids g"
  shows "\<exists>mk. collect M R ids g = Some (sweep mk g) \<and> (\<forall>a. a \<in> set (mk_marked mk) \<longleftrightarrow> kept M R g a)"
  using collect_eq assms unfolding collectable_def kept_def by blast

definition sample_memory :: gc_memory where
  "sample_memory =
     \<lparr>gm_heap = [0 \<mapsto> BList (empty_list_box\<lparr>lb_items := [VList (Some 1), VInt 5]\<rparr>),
                 1 \<mapsto> BList empty_list_box, 2 \<mapsto> BList empty_list_box],
      gm_programs = (\<lambda>_. \<lparr>gp_constants = [], gp_staticStorage = None\<rparr>), gm_statics = (\<lambda>_. [])\<rparr>"

definition sample_roots :: gc_roots where
  "sample_roots = \<lparr>gr_values = [VList (Some 0)], gr_programs = []\<rparr>"

definition sample_gc :: tracing_gc where
  "sample_gc = newGC\<lparr>gc_entries := [(KList, 0), (KList, 1), (KList, 2)]\<rparr>"

lemma sample_collectable: "collectable sample_memory sample_roots [] sample_gc"
proof -
  let ?h = "gm_heap sample_memory"
  have h: "?h 0 = Some (BList (empty_list_box\<lparr>lb_items := [VList (Some 1), VInt 5]\<rparr>))"
    "?h (Suc 0) = Some (BList empty_list_box)" "?h 2 = Some (BList empty_list_box)"
    "a \<noteq> 0 \<Longrightarrow> a \<noteq> Suc 0 \<Longrightarrow> a \<noteq> 2 \<Longrightarrow> ?h a = None" for a
    by (simp_all add: sample_memory_def)
  have "boxValues ?h a = (if a = 0 then [VList (Some 1), VInt 5] else [])" for a
    using h(4) [of a]
    by (cases "a = 0"; cases "a = Suc 0"; cases "a = 2")
      (simp_all add: h(1-3) handle_def appendValueChildren_def list_at_def empty_list_box_def)
  then have "memory_typed sample_memory"
    by (simp add: memory_typed_def typed_def identity_def handle_def h(2) programValues_def) (simp add: sample_memory_def)
  moreover have "finite (dom ?h)" by (simp add: sample_memory_def)
  moreover have "freeList k sample_gc = []" for k by (cases k) (simp_all add: sample_gc_def newGC_def)
  then have "gc_ok sample_gc ?h"
    by (simp add: gc_ok_def sample_gc_def newGC_def freeBoxes_def h(1-3) h(2) [folded One_nat_def])
  moreover have "typed ?h (VList (Some 0))" by (simp add: typed_def identity_def handle_def h(1))
  ultimately show ?thesis by (simp add: collectable_def sample_roots_def) (simp add: sample_gc_def newGC_def)
qed



text \<open>C29: recycling is safe: after a collection and its reclamation, the next allocation returns a box in its
  default state that is none of the boxes the roots still reach, those keep their contents, and the
  collector's invariant holds again.\<close>

theorem recycling_safe:
  assumes "collectable M R ids g" "collect M R ids g = Some (st, retired, g1)"
    and "reclaim retired (g1, gm_heap M) = (g2, h2)"
    and "h2 fresh = None" "makeGC k fresh (g2, h2) = (a, g3, h3)"
  shows "gc_ok g3 h3 \<and> h3 a = Some (emptyBox k) \<and> (k, a) \<in> set (gc_entries g3) \<and>
    (\<forall>e \<in> set (gc_entries g). kept M R g (snd e) \<longrightarrow>
       snd e \<noteq> a \<and> h3 (snd e) = gm_heap M (snd e) \<and> e \<in> set (gc_entries g3))"
proof -
  obtain mk where mk: "sweep mk g = (st, retired, g1)" "\<And>a. a \<in> set (mk_marked mk) \<longleftrightarrow> kept M R g a"
    using collect_sweeps [OF assms(1)] assms(2) by auto
  have ok: "gc_ok g (gm_heap M)" using assms(1) by (simp add: collectable_def)
  note s = sweep_entries [OF mk(1)] and r = reclaim_ok [OF ok mk(1) assms(3)]
  note m = makeGC_ok [OF r(1) assms(4,5)]
  have "snd e \<noteq> a \<and> h3 (snd e) = gm_heap M (snd e) \<and> e \<in> set (gc_entries g3)"
    if e: "e \<in> set (gc_entries g)" "kept M R g (snd e)" for e
  proof -
    have g1: "e \<in> set (gc_entries g2)" using e mk(2) r(2) s(1) by simp
    then have "snd e \<noteq> a" using m by force
    moreover have "snd e \<notin> snd ` set retired" using e(2) mk(2) s(2) by auto
    ultimately show ?thesis using m r(3) g1 by auto
  qed
  moreover have "(k, a) \<in> set (gc_entries g3)" using m by simp
  ultimately show ?thesis using m by blast
qed

theorem recycling_safe_witness:
  "\<exists>st retired g1 g2 h2 a g3 h3.
    collect sample_memory sample_roots [] sample_gc = Some (st, retired, g1) \<and>
    reclaim retired (g1, gm_heap sample_memory) = (g2, h2) \<and>
    makeGC KMap 9 (g2, h2) = (a, g3, h3) \<and> gc_ok g3 h3 \<and> h3 a = Some (emptyBox KMap)"
proof -
  obtain mk where k: "collect sample_memory sample_roots [] sample_gc = Some (sweep mk sample_gc)"
    using collect_sweeps [OF sample_collectable] by blast
  obtain st retired g1 where mk: "sweep mk sample_gc = (st, retired, g1)" using prod_cases3 by blast
  have c: "collect sample_memory sample_roots [] sample_gc = Some (st, retired, g1)" using k mk by simp
  obtain g2 h2 where r: "reclaim retired (g1, gm_heap sample_memory) = (g2, h2)" by (rule prod.exhaust)
  have ok: "gc_ok sample_gc (gm_heap sample_memory)" using sample_collectable by (simp add: collectable_def)
  have "9 \<notin> snd ` set retired" using sweep_entries(2) [OF mk] by (auto simp: sample_gc_def)
  then have "h2 9 = None" using reclaim_ok(3) [OF ok mk r] by (simp add: sample_memory_def)
  moreover obtain a g3 h3 where m: "makeGC KMap 9 (g2, h2) = (a, g3, h3)" using prod_cases3 by blast
  ultimately show ?thesis using recycling_safe [OF sample_collectable c r _ m] m c r by blast
qed

end
