(* ===== verification/Vm_Safepoint.thy ===== *)
theory Vm_Safepoint
  imports Vm_Gc "HOL-Library.AList"
begin

text \<open>
  The rendezvous that stops all virtual machines for a collection (\<^verbatim>\<open>src/vm/gc_safepoint.cpp\<close>).

  Every virtual machine is a participant. The functions below are the stretches the source runs while
  it holds the coordinator's mutex, so each is one atomic step; what a machine does between them, with
  the mutex released, is its activity. Waiting on the condition variable is modelled twice: the loop of
  \<open>poll\<close>, which re-tests its condition by hand, has the activities \<open>Asleep\<close> and \<open>Woken\<close>, so that a
  missing notification would leave a machine asleep; the waits with a predicate (\<open>registerParticipant\<close>,
  \<open>unregisterParticipant\<close>, \<open>endBlockingNative\<close>) are operations that are not enabled while the predicate
  is false, written \<open>None\<close>. Whether the collector wants to run (\<open>shouldCollect\<close>) is read once per
  critical section and is an argument. Participant ids are a 64-bit counter in the source and do not
  wrap in the model. The hash table of participants is an association list.
\<close>

definition emptyRoots :: gc_roots where
  "emptyRoots = \<lparr>gr_values = [], gr_programs = []\<rparr>"

definition appendRoots :: "gc_roots \<Rightarrow> gc_roots \<Rightarrow> gc_roots" where
  "appendRoots r other =
     \<lparr>gr_values = gr_values r @ gr_values other, gr_programs = gr_programs r @ gr_programs other\<rparr>"

record participant =
  pa_parked :: bool
  pa_roots :: gc_roots

definition newParticipant :: participant where
  "newParticipant = \<lparr>pa_parked = False, pa_roots = emptyRoots\<rparr>"

record coordinator =
  co_participants :: "(nat \<times> participant) list"
  co_nextId :: nat
  co_collectionRequested :: bool
  co_collectionRunning :: bool

definition newCoordinator :: coordinator where
  "newCoordinator =
     \<lparr>co_participants = [], co_nextId = 1, co_collectionRequested = False, co_collectionRunning = False\<rparr>"

definition participantAt :: "coordinator \<Rightarrow> nat \<Rightarrow> participant option" where
  "participantAt s i = map_of (co_participants s) i"

definition setParticipant :: "nat \<Rightarrow> participant \<Rightarrow> coordinator \<Rightarrow> coordinator" where
  "setParticipant i p s = s\<lparr>co_participants := AList.update i p (co_participants s)\<rparr>"

definition allParked :: "coordinator \<Rightarrow> bool" where
  "allParked s \<longleftrightarrow> list_all (\<lambda>e. pa_parked (snd e)) (co_participants s)"

definition registerParticipant :: "coordinator \<Rightarrow> (nat \<times> coordinator) option" where
  "registerParticipant s =
     (if co_collectionRunning s then None
      else let i = co_nextId s; s' = s\<lparr>co_nextId := i + 1\<rparr>
           in Some (i, if participantAt s' i = None then setParticipant i newParticipant s' else s'))"

definition unregisterParticipant :: "nat \<Rightarrow> coordinator \<Rightarrow> coordinator option" where
  "unregisterParticipant i s =
     (if co_collectionRunning s then None
      else Some (s\<lparr>co_participants := AList.delete i (co_participants s)\<rparr>))"

text \<open>
  The first critical section of \<open>poll\<close>: whether the participant goes on to take a snapshot of its
  roots, which it does with the mutex released.
\<close>

definition pollEnter :: "nat \<Rightarrow> bool \<Rightarrow> coordinator \<Rightarrow> bool" where
  "pollEnter i pressure s \<longleftrightarrow>
     participantAt s i \<noteq> None \<and> (co_collectionRequested s \<or> pressure)"

text \<open>
  The second one, up to the loop: the snapshot is published and the participant is parked, unless
  it is gone or no collection is wanted any more.
\<close>

definition pollPublish :: "nat \<Rightarrow> bool \<Rightarrow> gc_roots \<Rightarrow> coordinator \<Rightarrow> bool \<times> coordinator" where
  "pollPublish i pressure roots s =
     (case participantAt s i of
        None \<Rightarrow> (False, s)
      | Some p \<Rightarrow>
          let s' = (if \<not> co_collectionRequested s \<and> pressure
                    then s\<lparr>co_collectionRequested := True\<rparr> else s)
          in if \<not> co_collectionRequested s' then (False, s')
             else (True, setParticipant i (p\<lparr>pa_roots := roots, pa_parked := True\<rparr>) s'))"

text \<open>One test of the loop: wait, trace with the roots of all participants, or resume.\<close>

datatype loop_outcome = Sleep | Trace gc_roots coordinator | Resume coordinator

definition allRoots :: "coordinator \<Rightarrow> gc_roots" where
  "allRoots s = foldl (\<lambda>r e. appendRoots r (pa_roots (snd e))) emptyRoots (co_participants s)"

definition reactivate :: "nat \<Rightarrow> coordinator \<Rightarrow> coordinator" where
  "reactivate i s =
     (case participantAt s i of
        None \<Rightarrow> s
      | Some p \<Rightarrow> setParticipant i (p\<lparr>pa_parked := False, pa_roots := emptyRoots\<rparr>) s)"

definition pollLoop :: "nat \<Rightarrow> coordinator \<Rightarrow> loop_outcome" where
  "pollLoop i s =
     (if co_collectionRequested s then
        if co_collectionRunning s \<or> \<not> allParked s then Sleep
        else Trace (allRoots s) (s\<lparr>co_collectionRunning := True\<rparr>)
      else Resume (reactivate i s))"

text \<open>The collector takes the mutex again, after a collection or a failed one.\<close>

definition collectionDone :: "nat \<Rightarrow> bool \<Rightarrow> coordinator \<Rightarrow> coordinator" where
  "collectionDone i failed s =
     (let s' = s\<lparr>co_collectionRunning := False, co_collectionRequested := False\<rparr>
      in if failed then reactivate i s' else s')"

definition beginBlockingNative :: "nat \<Rightarrow> gc_roots \<Rightarrow> coordinator \<Rightarrow> coordinator" where
  "beginBlockingNative i roots s =
     (case participantAt s i of
        None \<Rightarrow> s
      | Some p \<Rightarrow> setParticipant i (p\<lparr>pa_roots := roots, pa_parked := True\<rparr>) s)"

definition endBlockingNative :: "nat \<Rightarrow> coordinator \<Rightarrow> coordinator option" where
  "endBlockingNative i s = (if co_collectionRunning s then None else Some (reactivate i s))"

subsection \<open>Virtual machines and their interleavings\<close>

datatype activity =
    Mutator
  | Snapshot
  | Asleep
  | Woken
  | Tracing gc_roots
  | Reclaiming
  | InNative

record rendezvous =
  rv_co :: coordinator
  rv_act :: "nat \<rightharpoonup> activity"

definition newRendezvous :: rendezvous where
  "newRendezvous = \<lparr>rv_co = newCoordinator, rv_act = (\<lambda>_. None)\<rparr>"

definition notifyAll :: "(nat \<rightharpoonup> activity) \<Rightarrow> nat \<rightharpoonup> activity" where
  "notifyAll act i = (if act i = Some Asleep then Some Woken else act i)"

definition enterLoop :: "nat \<Rightarrow> rendezvous \<Rightarrow> rendezvous" where
  "enterLoop i w =
     (case pollLoop i (rv_co w) of
        Sleep \<Rightarrow> w\<lparr>rv_act := (rv_act w)(i \<mapsto> Asleep)\<rparr>
      | Trace r s \<Rightarrow> \<lparr>rv_co = s, rv_act = (rv_act w)(i \<mapsto> Tracing r)\<rparr>
      | Resume s \<Rightarrow> \<lparr>rv_co = s, rv_act = (rv_act w)(i \<mapsto> Mutator)\<rparr>)"

datatype gc_event =
    Register
  | Unregister nat
  | Poll nat bool
  | Publish nat bool gc_roots
  | Wake nat
  | Traced nat bool
  | Reclaimed nat
  | BeginNative nat gc_roots
  | EndNative nat

text \<open>
  The next critical section of one machine; \<open>None\<close> where the machine is not at that point or has to
  wait. A machine is destroyed while it runs or while it is suspended in a blocking call. The
  condition variable may also wake a machine for no reason.
\<close>

definition leaves :: "rendezvous \<Rightarrow> nat \<Rightarrow> bool" where
  "leaves w i \<longleftrightarrow> rv_act w i = Some Mutator \<or> rv_act w i = Some InNative"

fun rendezvousStep :: "gc_event \<Rightarrow> rendezvous \<Rightarrow> rendezvous option" where
  "rendezvousStep Register w =
     (case registerParticipant (rv_co w) of
        None \<Rightarrow> None
      | Some (i, s) \<Rightarrow> Some \<lparr>rv_co = s, rv_act = (rv_act w)(i \<mapsto> Mutator)\<rparr>)"
| "rendezvousStep (Unregister i) w =
     (if leaves w i then
        (case unregisterParticipant i (rv_co w) of
           None \<Rightarrow> None
         | Some s \<Rightarrow> Some \<lparr>rv_co = s, rv_act = notifyAll ((rv_act w)(i := None))\<rparr>)
      else None)"
| "rendezvousStep (Poll i pressure) w =
     (if rv_act w i = Some Mutator then
        Some (if pollEnter i pressure (rv_co w) then w\<lparr>rv_act := (rv_act w)(i \<mapsto> Snapshot)\<rparr> else w)
      else None)"
| "rendezvousStep (Publish i pressure roots) w =
     (if rv_act w i = Some Snapshot then
        (case pollPublish i pressure roots (rv_co w) of
           (False, s) \<Rightarrow> Some \<lparr>rv_co = s, rv_act = (rv_act w)(i \<mapsto> Mutator)\<rparr>
         | (True, s) \<Rightarrow> Some (enterLoop i \<lparr>rv_co = s, rv_act = notifyAll (rv_act w)\<rparr>))
      else None)"
| "rendezvousStep (Wake i) w =
     (if rv_act w i = Some Woken then Some (enterLoop i w)
      else if rv_act w i = Some Asleep then Some (w\<lparr>rv_act := (rv_act w)(i \<mapsto> Woken)\<rparr>)
      else None)"
| "rendezvousStep (Traced i failed) w =
     (case rv_act w i of
        Some (Tracing r) \<Rightarrow>
          Some \<lparr>rv_co = collectionDone i failed (rv_co w),
                rv_act = (notifyAll (rv_act w))(i \<mapsto> (if failed then Mutator else Reclaiming))\<rparr>
      | _ \<Rightarrow> None)"
| "rendezvousStep (Reclaimed i) w =
     (if rv_act w i = Some Reclaiming then Some (enterLoop i w) else None)"
| "rendezvousStep (BeginNative i roots) w =
     (if rv_act w i = Some Mutator then
        Some \<lparr>rv_co = beginBlockingNative i roots (rv_co w),
              rv_act = (notifyAll (rv_act w))(i \<mapsto> InNative)\<rparr>
      else None)"
| "rendezvousStep (EndNative i) w =
     (if rv_act w i = Some InNative then
        (case endBlockingNative i (rv_co w) of
           None \<Rightarrow> None
         | Some s \<Rightarrow> Some \<lparr>rv_co = s, rv_act = (notifyAll (rv_act w))(i \<mapsto> Mutator)\<rparr>)
      else None)"

inductive rendezvous_reached :: "rendezvous \<Rightarrow> bool" where
  start: "rendezvous_reached newRendezvous"
| step: "rendezvous_reached w \<Longrightarrow> rendezvousStep e w = Some w' \<Longrightarrow> rendezvous_reached w'"

subsection \<open>The invariant\<close>

definition active :: "activity \<Rightarrow> bool" where
  "active a \<longleftrightarrow> a = Mutator \<or> a = Snapshot"

definition unparked :: "coordinator \<Rightarrow> nat \<Rightarrow> bool" where
  "unparked s i \<longleftrightarrow> (case participantAt s i of None \<Rightarrow> False | Some p \<Rightarrow> \<not> pa_parked p)"

definition rendezvous_ok :: "rendezvous \<Rightarrow> bool" where
  "rendezvous_ok w \<longleftrightarrow>
     distinct (map fst (co_participants (rv_co w))) \<and>
     (\<forall>i. participantAt (rv_co w) i \<noteq> None \<longrightarrow> i < co_nextId (rv_co w)) \<and>
     (\<forall>i. rv_act w i = None \<longleftrightarrow> participantAt (rv_co w) i = None) \<and>
     (\<forall>i a. rv_act w i = Some a \<longrightarrow> (unparked (rv_co w) i \<longleftrightarrow> active a)) \<and>
     (\<forall>i r. rv_act w i = Some (Tracing r) \<longrightarrow>
        co_collectionRunning (rv_co w) \<and> r = allRoots (rv_co w) \<and>
        (\<forall>j r'. rv_act w j = Some (Tracing r') \<longrightarrow> i = j)) \<and>
     (co_collectionRunning (rv_co w) \<longrightarrow>
        (\<exists>i r. rv_act w i = Some (Tracing r)) \<and> co_collectionRequested (rv_co w) \<and>
        (\<forall>i. \<not> unparked (rv_co w) i)) \<and>
     (\<forall>i. rv_act w i = Some Asleep \<longrightarrow> co_collectionRequested (rv_co w) \<and>
        (co_collectionRunning (rv_co w) \<or> (\<exists>i. unparked (rv_co w) i)))"

lemma participantAt_simps [simp]:
  "participantAt (setParticipant i p s) = (participantAt s)(i \<mapsto> p)"
  "participantAt (s\<lparr>co_nextId := n\<rparr>) = participantAt s"
  "participantAt (s\<lparr>co_collectionRequested := b\<rparr>) = participantAt s"
  "participantAt (s\<lparr>co_collectionRunning := b\<rparr>) = participantAt s"
  by (auto simp: participantAt_def setParticipant_def update_conv')

lemma setParticipant_simps [simp]:
  "co_nextId (setParticipant i p s) = co_nextId s"
  "co_collectionRequested (setParticipant i p s) = co_collectionRequested s"
  "co_collectionRunning (setParticipant i p s) = co_collectionRunning s"
  by (simp_all add: setParticipant_def)

lemma distinct_setParticipant [simp]:
  "distinct (map fst (co_participants s)) \<Longrightarrow> distinct (map fst (co_participants (setParticipant i p s)))"
  by (simp add: setParticipant_def distinct_update)

lemma allParked_iff:
  assumes "distinct (map fst (co_participants s))"
  shows "allParked s \<longleftrightarrow> (\<forall>i. \<not> unparked s i)"
proof -
  have "e \<in> set (co_participants s) \<longleftrightarrow> participantAt s (fst e) = Some (snd e)" for e
    using assms by (cases e) (auto simp: participantAt_def)
  then have "(\<forall>e \<in> set (co_participants s). pa_parked (snd e)) \<longleftrightarrow>
      (\<forall>i p. participantAt s i = Some p \<longrightarrow> pa_parked p)"
    by (metis fst_conv snd_conv)
  then show ?thesis
    by (auto simp: allParked_def list_all_iff unparked_def split: option.splits)
qed

lemma unparked_simps [simp]:
  "unparked (setParticipant i p s) j \<longleftrightarrow> (if j = i then \<not> pa_parked p else unparked s j)"
  "unparked (s\<lparr>co_nextId := n\<rparr>) j = unparked s j"
  "unparked (s\<lparr>co_collectionRequested := b\<rparr>) j = unparked s j"
  "unparked (s\<lparr>co_collectionRunning := b\<rparr>) j = unparked s j"
  by (simp_all add: unparked_def)

lemma allRoots_simps [simp]:
  "allRoots (s\<lparr>co_nextId := n\<rparr>) = allRoots s"
  "allRoots (s\<lparr>co_collectionRequested := b\<rparr>) = allRoots s"
  "allRoots (s\<lparr>co_collectionRunning := b\<rparr>) = allRoots s"
  by (simp_all add: allRoots_def)

lemma active_simps [simp]:
  "active Mutator" "active Snapshot" "\<not> active Asleep" "\<not> active Woken" "\<not> active (Tracing r)"
  "\<not> active Reclaiming" "\<not> active InNative"
  by (simp_all add: active_def)

lemma notifyAll_simps [simp]:
  "notifyAll act i = None \<longleftrightarrow> act i = None"
  "notifyAll act i \<noteq> Some Asleep"
  "notifyAll act i = Some (Tracing r) \<longleftrightarrow> act i = Some (Tracing r)"
  by (auto simp: notifyAll_def split: if_splits)

lemma notifyAll_active:
  "notifyAll act i = Some a \<Longrightarrow> \<exists>b. act i = Some b \<and> (active b \<longleftrightarrow> active a)"
  by (auto simp: notifyAll_def split: if_splits)

lemma rendezvous_okI:
  assumes "distinct (map fst (co_participants s))"
    "\<And>i. participantAt s i \<noteq> None \<Longrightarrow> i < co_nextId s"
    "\<And>i. act i = None \<longleftrightarrow> participantAt s i = None"
    "\<And>i a. act i = Some a \<Longrightarrow> unparked s i \<longleftrightarrow> active a"
    "\<And>i r. act i = Some (Tracing r) \<Longrightarrow> co_collectionRunning s \<and> r = allRoots s"
    "\<And>i j r r'. act i = Some (Tracing r) \<Longrightarrow> act j = Some (Tracing r') \<Longrightarrow> i = j"
    "co_collectionRunning s \<Longrightarrow> \<exists>i r. act i = Some (Tracing r)"
    "co_collectionRunning s \<Longrightarrow> co_collectionRequested s"
    "\<And>i. co_collectionRunning s \<Longrightarrow> \<not> unparked s i"
    "\<And>i. act i = Some Asleep \<Longrightarrow> co_collectionRequested s \<and> (co_collectionRunning s \<or> (\<exists>i. unparked s i))"
  shows "rendezvous_ok \<lparr>rv_co = s, rv_act = act\<rparr>"
  using assms by (simp add: rendezvous_ok_def)

lemma rendezvous_okD:
  assumes "rendezvous_ok \<lparr>rv_co = s, rv_act = act\<rparr>"
  shows "distinct (map fst (co_participants s))"
    "participantAt s i \<noteq> None \<Longrightarrow> i < co_nextId s"
    "act i = None \<longleftrightarrow> participantAt s i = None"
    "act i = Some a \<Longrightarrow> unparked s i \<longleftrightarrow> active a"
    "act i = Some (Tracing r) \<Longrightarrow> co_collectionRunning s \<and> r = allRoots s"
    "act i = Some (Tracing r) \<Longrightarrow> act j = Some (Tracing r') \<Longrightarrow> i = j"
    "co_collectionRunning s \<Longrightarrow> \<exists>i r. act i = Some (Tracing r)"
    "co_collectionRunning s \<Longrightarrow> co_collectionRequested s"
    "co_collectionRunning s \<Longrightarrow> \<not> unparked s i"
    "act i = Some Asleep \<Longrightarrow> co_collectionRequested s \<and> (co_collectionRunning s \<or> (\<exists>i. unparked s i))"
  using assms by (auto simp: rendezvous_ok_def)

lemma rendezvous_ok_notify:
  assumes "rendezvous_ok \<lparr>rv_co = s, rv_act = act\<rparr>"
  shows "rendezvous_ok \<lparr>rv_co = s, rv_act = notifyAll act\<rparr>"
proof -
  note ok = rendezvous_okD [OF assms]
  have "unparked s i = active a" if "notifyAll act i = Some a" for i a
    using ok(4) notifyAll_active [OF that] by auto
  then show ?thesis
    by (intro rendezvous_okI) (use ok in auto)
qed

text \<open>A machine at the head of the loop is parked and not tracing.\<close>

lemma enterLoop_ok:
  assumes "rendezvous_ok \<lparr>rv_co = s, rv_act = act(i \<mapsto> Woken)\<rparr>"
  shows "rendezvous_ok (enterLoop i \<lparr>rv_co = s, rv_act = act\<rparr>)"
proof -
  note ok = rendezvous_okD [OF assms]
  have "participantAt s i \<noteq> None" using ok(3) [of i] by simp
  then obtain p where p: "participantAt s i = Some p" by blast
  have others: "act j = None \<longleftrightarrow> participantAt s j = None" "act j = Some a \<Longrightarrow> unparked s j \<longleftrightarrow> active a"
    "act j = Some (Tracing r) \<Longrightarrow> co_collectionRunning s \<and> r = allRoots s"
    "act j = Some Asleep \<Longrightarrow> co_collectionRequested s \<and> (co_collectionRunning s \<or> (\<exists>i. unparked s i))"
    if "j \<noteq> i" for j a r
    using ok(3,4,5,10) [of j] that by auto
  have self: "\<not> unparked s i" using ok(4) [of i Woken] by simp
  have tracers: "j = k" if "j \<noteq> i" "k \<noteq> i" "act j = Some (Tracing r)" "act k = Some (Tracing r')" for j k r r'
    using ok(6) [of j r k r'] that by simp
  have tracer: "\<exists>j r. j \<noteq> i \<and> act j = Some (Tracing r)" if "co_collectionRunning s"
    using ok(7) [OF that] by (auto split: if_splits)
  show ?thesis
  proof (cases "pollLoop i s")
    case Sleep
    then have "co_collectionRequested s" "co_collectionRunning s \<or> (\<exists>j. unparked s j)"
      by (auto simp: pollLoop_def allParked_iff [OF ok(1)] split: if_splits)
    then have "rendezvous_ok \<lparr>rv_co = s, rv_act = act(i \<mapsto> Asleep)\<rparr>"
      by (intro rendezvous_okI) (use ok(1,2,8,9) others self tracers tracer p in \<open>auto split: if_splits\<close>)
    with Sleep show ?thesis by (simp add: enterLoop_def)
  next
    case (Trace r s')
    then have s': "s' = s\<lparr>co_collectionRunning := True\<rparr>" "r = allRoots s"
        "co_collectionRequested s" "\<not> co_collectionRunning s" "\<forall>j. \<not> unparked s j"
      by (auto simp: pollLoop_def allParked_iff [OF ok(1)] split: if_splits)
    moreover have "j \<noteq> i \<Longrightarrow> act j \<noteq> Some (Tracing r')" for j r' using others(3) s'(4) by blast
    ultimately have "rendezvous_ok \<lparr>rv_co = s', rv_act = act(i \<mapsto> Tracing r)\<rparr>"
      by (intro rendezvous_okI) (use ok(1,2) others(1,2,4) p in \<open>auto split: if_splits\<close>)
    with Trace show ?thesis by (simp add: enterLoop_def)
  next
    case (Resume s')
    then have s': "s' = setParticipant i (p\<lparr>pa_parked := False, pa_roots := emptyRoots\<rparr>) s"
        "\<not> co_collectionRequested s"
      using p by (auto simp: pollLoop_def reactivate_def split: if_splits)
    then have "rendezvous_ok \<lparr>rv_co = s', rv_act = act(i \<mapsto> Mutator)\<rparr>"
      by (intro rendezvous_okI) (use ok(1,2,8) others p in \<open>auto split: if_splits\<close>)
    with Resume show ?thesis by (simp add: enterLoop_def)
  qed
qed

text \<open>
  The activity of a parked machine that is not tracing does not matter for the others, and a machine
  may be parked or unparked together with its activity while no collection runs.
\<close>

lemma rendezvous_ok_change:
  assumes "rendezvous_ok \<lparr>rv_co = s, rv_act = act\<rparr>" "act i = Some a" "\<not> co_collectionRunning s"
    and "participantAt s i = Some p" "pa_parked p' \<longleftrightarrow> \<not> active b" "b \<noteq> Asleep" "\<And>r. b \<noteq> Tracing r"
  shows "rendezvous_ok \<lparr>rv_co = setParticipant i p' (s\<lparr>co_collectionRequested := req\<rparr>),
    rv_act = (notifyAll act)(i \<mapsto> b)\<rparr>"
proof -
  note ok = rendezvous_okD [OF rendezvous_ok_notify [OF assms(1)]]
  have "notifyAll act j \<noteq> Some (Tracing r)" for j r using ok(5) [of j r] assms(3) by auto
  then show ?thesis
    by (intro rendezvous_okI) (use ok(1-4) assms in \<open>auto split: if_splits\<close>)
qed

lemma rendezvous_ok_rest:
  assumes "rendezvous_ok \<lparr>rv_co = s, rv_act = act\<rparr>" "act i = Some a"
    "\<not> active a" "\<not> active b" "b \<noteq> Asleep" "\<And>r. a \<noteq> Tracing r" "\<And>r. b \<noteq> Tracing r"
  shows "rendezvous_ok \<lparr>rv_co = s, rv_act = act(i \<mapsto> b)\<rparr>"
proof -
  note ok = rendezvous_okD [OF assms(1)]
  have "\<exists>j r. j \<noteq> i \<and> act j = Some (Tracing r)" if "co_collectionRunning s"
    using ok(7) [OF that] assms(2,6) by (metis option.inject)
  moreover have "participantAt s i \<noteq> None" using ok(3) [of i] assms(2) by simp
  ultimately show ?thesis
    by (intro rendezvous_okI) (use ok assms(2-) in \<open>auto split: if_splits\<close>)
qed

lemma active_unparked:
  assumes "rendezvous_ok \<lparr>rv_co = s, rv_act = act\<rparr>" "act i = Some a" "active a"
  shows "\<not> co_collectionRunning s" "\<exists>p. participantAt s i = Some p \<and> \<not> pa_parked p"
proof -
  have "unparked s i" using rendezvous_okD(4) [OF assms(1,2)] assms(3) by simp
  then show "\<not> co_collectionRunning s" "\<exists>p. participantAt s i = Some p \<and> \<not> pa_parked p"
    using rendezvous_okD(9) [OF assms(1), of i] by (auto simp: unparked_def split: option.splits)
qed

lemma reactivate_ok:
  assumes "rendezvous_ok \<lparr>rv_co = s, rv_act = act\<rparr>" "act i = Some a" "\<not> co_collectionRunning s"
  shows "rendezvous_ok \<lparr>rv_co = reactivate i s, rv_act = (notifyAll act)(i \<mapsto> Mutator)\<rparr>"
proof -
  obtain p where p: "participantAt s i = Some p"
    using rendezvous_okD(3) [OF assms(1), of i] assms(2) by fastforce
  show ?thesis
    using rendezvous_ok_change [OF assms p, of "p\<lparr>pa_parked := False, pa_roots := emptyRoots\<rparr>" Mutator
        "co_collectionRequested s"] p
    by (simp add: reactivate_def)
qed

lemma register_ok:
  assumes "rendezvous_ok \<lparr>rv_co = s, rv_act = act\<rparr>" "registerParticipant s = Some (i, s')"
  shows "rendezvous_ok \<lparr>rv_co = s', rv_act = act(i \<mapsto> Mutator)\<rparr>"
proof -
  note ok = rendezvous_okD [OF assms(1)]
  have run: "\<not> co_collectionRunning s" and i: "i = co_nextId s"
    using assms(2) by (auto simp: registerParticipant_def Let_def split: if_splits)
  have none: "participantAt s i = None" using ok(2) [of i] i by (cases "participantAt s i") auto
  then have s': "s' = setParticipant i newParticipant (s\<lparr>co_nextId := co_nextId s + 1\<rparr>)"
    using assms(2) run i by (simp add: registerParticipant_def Let_def split: if_splits)
  have "act j \<noteq> Some (Tracing r)" for j r using ok(5) [of j r] run by auto
  then show ?thesis
    by (intro rendezvous_okI)
      (use ok(1-4,10) run none in \<open>auto simp: s' newParticipant_def less_Suc_eq i split: if_splits\<close>)
qed

lemma unregister_ok:
  assumes "rendezvous_ok \<lparr>rv_co = s, rv_act = act\<rparr>" "unregisterParticipant i s = Some s'"
  shows "rendezvous_ok \<lparr>rv_co = s', rv_act = notifyAll (act(i := None))\<rparr>"
proof -
  note ok = rendezvous_okD [OF assms(1)]
  have run: "\<not> co_collectionRunning s" and s': "s' = s\<lparr>co_participants := AList.delete i (co_participants s)\<rparr>"
    using assms(2) by (auto simp: unregisterParticipant_def split: if_splits)
  have at: "participantAt s' = (participantAt s)(i := None)"
    by (auto simp: s' participantAt_def delete_conv')
  then have up: "unparked s' j \<longleftrightarrow> j \<noteq> i \<and> unparked s j" for j by (simp add: unparked_def)
  have tr: "act j \<noteq> Some (Tracing r)" for j r using ok(5) [of j r] run by auto
  have "distinct (map fst (co_participants s'))" using ok(1) by (simp add: s' distinct_delete)
  then have "rendezvous_ok \<lparr>rv_co = s', rv_act = (notifyAll act)(i := None)\<rparr>"
    by (intro rendezvous_okI)
      (use rendezvous_okD(2-4) [OF rendezvous_ok_notify [OF assms(1)]] tr run at up in
        \<open>auto simp: s' split: if_splits\<close>)
  moreover have "notifyAll (act(i := None)) = (notifyAll act)(i := None)"
    by (rule ext) (simp add: notifyAll_def)
  ultimately show ?thesis by simp
qed

lemma poll_ok:
  assumes "rendezvous_ok \<lparr>rv_co = s, rv_act = act\<rparr>" "act i = Some a" "active a" "active b"
  shows "rendezvous_ok \<lparr>rv_co = s, rv_act = act(i \<mapsto> b)\<rparr>"
proof -
  note ok = rendezvous_okD [OF assms(1)]
  have "b \<noteq> Asleep" "\<And>r. b \<noteq> Tracing r" using assms(4) by auto
  moreover have "unparked s i" using ok(4) [OF assms(2)] assms(3) by simp
  moreover have "\<not> co_collectionRunning s" "participantAt s i \<noteq> None"
    using active_unparked [OF assms(1-3)] by auto
  moreover have "act j \<noteq> Some (Tracing r)" for j r using ok(5) [of j r] calculation(4) by auto
  ultimately show ?thesis
    by (intro rendezvous_okI) (use ok(1-4,10) assms(2-4) in \<open>auto split: if_splits\<close>)
qed

lemma traced_ok:
  assumes "rendezvous_ok \<lparr>rv_co = s, rv_act = act\<rparr>" "act i = Some (Tracing r)"
  shows "rendezvous_ok \<lparr>rv_co = s\<lparr>co_collectionRunning := False, co_collectionRequested := False\<rparr>,
    rv_act = (notifyAll act)(i \<mapsto> Reclaiming)\<rparr>"
proof -
  note ok = rendezvous_okD [OF rendezvous_ok_notify [OF assms(1)]]
  have i: "notifyAll act i = Some (Tracing r)" using assms(2) by simp
  then have "notifyAll act j \<noteq> Some (Tracing r')" if "j \<noteq> i" for j r' using ok(6) [of i r j r'] that by auto
  moreover have "unparked s j = active a" if "((notifyAll act)(i \<mapsto> Reclaiming)) j = Some a" for j a
    using ok(4) [of j] ok(4) [OF i] that by (cases "j = i") auto
  moreover have "participantAt s i \<noteq> None" using ok(3) [of i] i by simp
  ultimately show ?thesis
    by (intro rendezvous_okI) (use ok(1-3) i in \<open>auto split: if_splits\<close>)
qed

lemma notifyAll_twice: "(notifyAll ((notifyAll act)(i \<mapsto> a)))(i \<mapsto> b) = (notifyAll act)(i \<mapsto> b)"
  by (rule ext) (simp add: notifyAll_def)

lemma rendezvousStep_ok:
  assumes "rendezvous_ok w" "rendezvousStep e w = Some w'"
  shows "rendezvous_ok w'"
proof -
  obtain s act where w: "w = \<lparr>rv_co = s, rv_act = act\<rparr>" by (cases w) simp
  note ok = assms(1) [unfolded w]
  show ?thesis
  proof (cases e)
    case Register
    then show ?thesis using assms(2) register_ok [OF ok] w by (auto split: option.splits)
  next
    case (Unregister i)
    then show ?thesis
      using assms(2) unregister_ok [OF ok] w by (auto split: option.splits if_splits)
  next
    case (Poll i b)
    then show ?thesis
      using assms(2) poll_ok [OF ok, of i Mutator Snapshot] ok w by (auto split: if_splits)
  next
    case (Publish i b roots)
    then have i: "act i = Some Snapshot" using assms(2) w by (auto split: if_splits)
    obtain p where p: "participantAt s i = Some p" "\<not> pa_parked p" "\<not> co_collectionRunning s"
      using active_unparked [OF ok i] by auto
    let ?req = "co_collectionRequested s \<or> b"
    have same: "s\<lparr>co_collectionRequested := True\<rparr> =
        (if co_collectionRequested s then s else s\<lparr>co_collectionRequested := True\<rparr>)" by (cases s) simp
    show ?thesis
    proof (cases ?req)
      case True
      then have "pollPublish i b roots s =
          (True, setParticipant i (p\<lparr>pa_roots := roots, pa_parked := True\<rparr>) (s\<lparr>co_collectionRequested := True\<rparr>))"
        using p by (subst same) (auto simp: pollPublish_def Let_def)
      then show ?thesis
        using assms(2) i w Publish
          enterLoop_ok [OF rendezvous_ok_change [OF ok i p(3,1), of "p\<lparr>pa_roots := roots, pa_parked := True\<rparr>" Woken True]]
        by auto
    next
      case False
      then show ?thesis
        using assms(2) i w Publish p poll_ok [OF ok i, of Mutator] by (auto simp: pollPublish_def Let_def)
    qed
  next
    case (Wake i)
    then show ?thesis
      using assms(2) w ok enterLoop_ok [of s act i] rendezvous_ok_rest [OF ok, of i Asleep Woken]
      by (auto simp: fun_upd_idem split: if_splits)
  next
    case (Traced i failed)
    then obtain r where i: "act i = Some (Tracing r)"
      using assms(2) w by (auto split: option.splits activity.splits)
    show ?thesis
      using assms(2) w Traced i traced_ok [OF ok i] reactivate_ok [OF traced_ok [OF ok i], of i Reclaiming]
      by (auto simp: collectionDone_def notifyAll_twice)
  next
    case (Reclaimed i)
    then show ?thesis
      using assms(2) w rendezvous_ok_rest [OF ok, of i Reclaiming Woken] enterLoop_ok [of s act i]
      by (auto split: if_splits)
  next
    case (BeginNative i roots)
    then have i: "act i = Some Mutator" using assms(2) w by (auto split: if_splits)
    obtain p where p: "participantAt s i = Some p" "\<not> co_collectionRunning s"
      using active_unparked [OF ok i] by auto
    show ?thesis
      using assms(2) w BeginNative i p
        rendezvous_ok_change [OF ok i p(2,1), of "p\<lparr>pa_roots := roots, pa_parked := True\<rparr>" InNative "co_collectionRequested s"]
      by (auto simp: beginBlockingNative_def)
  next
    case (EndNative i)
    then show ?thesis
      using assms(2) w reactivate_ok [OF ok, of i InNative]
      by (auto simp: endBlockingNative_def split: if_splits)
  qed
qed

lemma rendezvous_reached_ok: "rendezvous_reached w \<Longrightarrow> rendezvous_ok w"
proof (induction rule: rendezvous_reached.induct)
  case start
  show ?case
    unfolding newRendezvous_def
    by (rule rendezvous_okI) (simp_all add: newCoordinator_def participantAt_def unparked_def)
next
  case (step w e w')
  then show ?case using rendezvousStep_ok by blast
qed

subsection \<open>Stop the world, and no lost wake-up\<close>

lemma foldl_appendRoots:
  "set (gr_values (foldl (\<lambda>r e. appendRoots r (pa_roots (snd e))) r es)) =
     set (gr_values r) \<union> (\<Union>e \<in> set es. set (gr_values (pa_roots (snd e))))"
  "set (gr_programs (foldl (\<lambda>r e. appendRoots r (pa_roots (snd e))) r es)) =
     set (gr_programs r) \<union> (\<Union>e \<in> set es. set (gr_programs (pa_roots (snd e))))"
  by (induction es arbitrary: r) (auto simp: appendRoots_def)

lemma allRoots_covers:
  assumes "participantAt s i = Some p"
  shows "set (gr_values (pa_roots p)) \<subseteq> set (gr_values (allRoots s))"
    "set (gr_programs (pa_roots p)) \<subseteq> set (gr_programs (allRoots s))"
  using map_of_SomeD [OF assms [unfolded participantAt_def]]
  by (auto simp: allRoots_def foldl_appendRoots)

text \<open>Two machines meet for a collection while a third waits in a native call.\<close>

definition sample_events :: "gc_event list" where
  "sample_events =
     [Register, Register, Register, BeginNative 3 \<lparr>gr_values = [VList (Some 7)], gr_programs = []\<rparr>,
      Poll 1 True, Publish 1 True \<lparr>gr_values = [VList (Some 5)], gr_programs = []\<rparr>,
      Poll 2 False, Publish 2 False \<lparr>gr_values = [VMap (Some 6)], gr_programs = []\<rparr>]"

definition rendezvousRun :: "gc_event list \<Rightarrow> rendezvous option" where
  "rendezvousRun es = foldl (\<lambda>w e. Option.bind w (rendezvousStep e)) (Some newRendezvous) es"

lemma rendezvousRun_snoc: "rendezvousRun (es @ [e]) = Option.bind (rendezvousRun es) (rendezvousStep e)"
  by (simp add: rendezvousRun_def)

lemma rendezvousRun_reached: "rendezvousRun es = Some w \<Longrightarrow> rendezvous_reached w"
proof (induction es arbitrary: w rule: rev_induct)
  case Nil
  then show ?case by (simp add: rendezvousRun_def rendezvous_reached.start)
next
  case (snoc e es)
  then obtain v where "rendezvousRun es = Some v" "rendezvousStep e v = Some w"
    by (auto simp: rendezvousRun_snoc bind_eq_Some_conv)
  then show ?case using snoc.IH by (blast intro: rendezvous_reached.step)
qed

text \<open>C3: The rendezvous stops the world: however the machines' critical sections interleave, when one
  of them traces, it is the only one, every live machine is registered and parked with none running or
  taking a snapshot, and the roots being traced include the roots every one of them has published.\<close>

theorem stop_the_world:
  assumes "rendezvous_reached w" "rv_act w i = Some (Tracing r)"
  shows "co_collectionRunning (rv_co w) \<and>
    (\<forall>j a. rv_act w j = Some a \<longrightarrow>
       \<not> active a \<and> ((\<exists>r'. a = Tracing r') \<longrightarrow> j = i) \<and>
       (\<exists>p. participantAt (rv_co w) j = Some p \<and> pa_parked p \<and>
          set (gr_values (pa_roots p)) \<subseteq> set (gr_values r) \<and>
          set (gr_programs (pa_roots p)) \<subseteq> set (gr_programs r)))"
proof -
  obtain s act where w: "w = \<lparr>rv_co = s, rv_act = act\<rparr>" by (cases w) simp
  note ok = rendezvous_okD [OF rendezvous_reached_ok [OF assms(1), unfolded w]]
  have i: "act i = Some (Tracing r)" using assms(2) w by simp
  then have run: "co_collectionRunning s" "r = allRoots s" using ok(5) by auto
  have "\<not> active a \<and> ((\<exists>r'. a = Tracing r') \<longrightarrow> j = i) \<and>
       (\<exists>p. participantAt s j = Some p \<and> pa_parked p \<and>
          set (gr_values (pa_roots p)) \<subseteq> set (gr_values r) \<and>
          set (gr_programs (pa_roots p)) \<subseteq> set (gr_programs r))" if j: "act j = Some a" for j a
  proof -
    obtain p where p: "participantAt s j = Some p" using ok(3) [of j] j by (cases "participantAt s j") auto
    moreover have "\<not> unparked s j" by (rule ok(9) [OF run(1)])
    ultimately show ?thesis
      using ok(4) [OF j] ok(6) [OF i] j allRoots_covers [OF p] run(2)
      by (auto simp: unparked_def)
  qed
  then show ?thesis using run w by auto
qed

theorem stop_the_world_witness:
  "\<exists>w. rendezvousRun sample_events = Some w \<and>
     rv_act w 2 = Some (Tracing \<lparr>gr_values = [VList (Some 5), VMap (Some 6), VList (Some 7)], gr_programs = []\<rparr>) \<and>
     rv_act w 1 = Some Woken \<and>
     (\<exists>p. participantAt (rv_co w) 3 = Some p \<and> pa_parked p)"
proof -
  let ?r = "\<lparr>gr_values = [VList (Some 5), VMap (Some 6), VList (Some 7)], gr_programs = []\<rparr>"
  obtain w where w: "rendezvousRun sample_events = Some w" "rv_act w 2 = Some (Tracing ?r)"
      "rv_act w 1 = Some Woken" "rv_act w 3 = Some InNative"
    by (simp add: rendezvousRun_def sample_events_def registerParticipant_def newRendezvous_def
        newCoordinator_def participantAt_def setParticipant_def newParticipant_def pollEnter_def
        pollPublish_def beginBlockingNative_def enterLoop_def pollLoop_def allParked_def allRoots_def
        appendRoots_def emptyRoots_def notifyAll_def Let_def)
  then show ?thesis
    using stop_the_world [OF rendezvousRun_reached [OF w(1)] w(2)] by blast
qed

text \<open>C9: No wake-up is lost: a machine that sleeps in the rendezvous has reason to, and somebody else will
  move: the collection it waits for is wanted, and either another machine is tracing, or another live
  machine has not parked yet and is running or taking its snapshot. When all machines are parked and no
  collection runs, none sleeps.\<close>

theorem no_lost_wakeup:
  assumes "rendezvous_reached w" "rv_act w i = Some Asleep"
  shows "co_collectionRequested (rv_co w) \<and>
    (\<exists>j a. j \<noteq> i \<and> rv_act w j = Some a \<and> (active a \<or> (\<exists>r. a = Tracing r)))"
proof -
  obtain s act where w: "w = \<lparr>rv_co = s, rv_act = act\<rparr>" by (cases w) simp
  note ok = rendezvous_okD [OF rendezvous_reached_ok [OF assms(1), unfolded w]]
  have i: "act i = Some Asleep" using assms(2) w by simp
  then have req: "co_collectionRequested s" and "co_collectionRunning s \<or> (\<exists>j. unparked s j)"
    using ok(10) by auto
  then consider j r where "act j = Some (Tracing r)" | j where "unparked s j"
    using ok(7) by blast
  then have "\<exists>j a. j \<noteq> i \<and> act j = Some a \<and> (active a \<or> (\<exists>r. a = Tracing r))"
  proof cases
    case (1 j r)
    then show ?thesis using i by (metis activity.distinct option.inject)
  next
    case (2 j)
    then have "participantAt s j \<noteq> None" by (auto simp: unparked_def split: option.splits)
    then obtain a where a: "act j = Some a" using ok(3) [of j] by (cases "act j") auto
    then have "active a" using ok(4) 2 by simp
    with a i show ?thesis by (metis active_simps(3) option.inject)
  qed
  then show ?thesis using req w by simp
qed

theorem no_lost_wakeup_witness:
  "\<exists>w. rendezvousRun (take 6 sample_events) = Some w \<and> rv_act w 1 = Some Asleep \<and>
     (\<exists>j a. j \<noteq> 1 \<and> rv_act w j = Some a \<and> (active a \<or> (\<exists>r. a = Tracing r)))"
proof -
  obtain w where w: "rendezvousRun (take 6 sample_events) = Some w" "rv_act w 1 = Some Asleep"
    by (simp add: rendezvousRun_def sample_events_def registerParticipant_def newRendezvous_def
        newCoordinator_def participantAt_def setParticipant_def newParticipant_def pollEnter_def
        pollPublish_def beginBlockingNative_def enterLoop_def pollLoop_def allParked_def allRoots_def
        appendRoots_def emptyRoots_def notifyAll_def Let_def)
  then show ?thesis
    using no_lost_wakeup [OF rendezvousRun_reached [OF w(1)] w(2)] by blast
qed

end
