(* ===== verification/Vm_Arith.thy ===== *)
theory Vm_Arith
  imports Vm_Print
begin

text \<open>
  The interpreter's operators (\<^verbatim>\<open>src/vm/vm.cpp\<close>): checked integer and double arithmetic,
  bitwise operators, comparisons, logic, unary operators and the range test of \<open>for\<close> loops.
  \<open>std::pow\<close> and the library's shortest digits of a double are parameters; everything else is
  computed. The compiler builtins for overflow and the portable fallback of the \<open>#else\<close> branches
  are both modelled and shown to agree.
\<close>

datatype vm_op =
    OpAdd | OpSub | OpMul | OpDiv | OpMod | OpPow
  | OpBitAnd | OpBitOr | OpBitXor | OpShl | OpShr | OpUshr
  | OpEq | OpNeq | OpLt | OpGt | OpLte | OpGte
  | OpAnd | OpOr | OpNeg | OpNot | OpBitNot

record vm_env =
  env_pow :: "f64 \<Rightarrow> f64 \<Rightarrow> f64"
  env_digits :: digit_source
  env_heap :: heap

text \<open>\<open>__builtin_add_overflow\<close> and its siblings: \<open>None\<close> where they report overflow.\<close>

definition addChecked :: "int64 \<Rightarrow> int64 \<Rightarrow> int64 option" where
  "addChecked a b = (if in_int64 (sint a + sint b) then Some (a + b) else None)"

definition subChecked :: "int64 \<Rightarrow> int64 \<Rightarrow> int64 option" where
  "subChecked a b = (if in_int64 (sint a - sint b) then Some (a - b) else None)"

definition mulChecked :: "int64 \<Rightarrow> int64 \<Rightarrow> int64 option" where
  "mulChecked a b = (if in_int64 (sint a * sint b) then Some (a * b) else None)"

text \<open>The portable fallbacks.\<close>

definition addCheckedPortable :: "int64 \<Rightarrow> int64 \<Rightarrow> int64 option" where
  "addCheckedPortable a b =
     (if sint b > 0 \<and> sint a > INT64_MAX - sint b \<or> sint b < 0 \<and> sint a < INT64_MIN - sint b
      then None else Some (a + b))"

definition subCheckedPortable :: "int64 \<Rightarrow> int64 \<Rightarrow> int64 option" where
  "subCheckedPortable a b =
     (if sint b < 0 \<and> sint a > INT64_MAX + sint b \<or> sint b > 0 \<and> sint a < INT64_MIN + sint b
      then None else Some (a - b))"

definition mulCheckedPortable :: "int64 \<Rightarrow> int64 \<Rightarrow> int64 option" where
  "mulCheckedPortable a b =
     (if a = 0 \<or> b = 0 then Some 0
      else if sint a = - 1 then (if sint b = INT64_MIN then None else Some (- b))
      else if sint b = - 1 then (if sint a = INT64_MIN then None else Some (- a))
      else if sint a > 0 then
        (if sint b > 0 then (if sint a > tdiv INT64_MAX (sint b) then None else Some (a * b))
         else (if sint b < tdiv INT64_MIN (sint a) then None else Some (a * b)))
      else
        (if sint b > 0 then (if sint a < tdiv INT64_MIN (sint b) then None else Some (a * b))
         else (if a \<noteq> 0 \<and> sint b < tdiv INT64_MAX (sint a) then None else Some (a * b))))"

text \<open>
  Exponentiation by squaring, on the remaining exponent \<open>n\<close>; \<open>None\<close> is an overflow in the chain.
\<close>

function powLoop :: "int64 \<Rightarrow> int64 \<Rightarrow> int \<Rightarrow> int64 option" where
  "powLoop result factor n =
     (if n \<le> 0 then Some result
      else
        case (if odd n then mulChecked result factor else Some result) of
          None \<Rightarrow> None
        | Some result' \<Rightarrow>
            let n' = n div 2
            in if n' = 0 then Some result'
               else (case mulChecked factor factor of
                       None \<Rightarrow> None
                     | Some factor' \<Rightarrow> powLoop result' factor' n'))"
  by pat_completeness auto
termination
  by (relation "measure (\<lambda>(r, f, n). nat n)") auto

declare powLoop.simps [simp del]

definition powChecked :: "int64 \<Rightarrow> int64 \<Rightarrow> int64 option" where
  "powChecked base exponent = powLoop 1 base (uint exponent)"

definition checkedDoubleResult :: "f64 \<Rightarrow> string \<Rightarrow> vm_error + f64" where
  "checkedDoubleResult result operation =
     (if f64_isinf result then
        Inl (throwArithmeticError (''floating-point overflow in '' @ operation))
      else if f64_isnan result then
        Inl (throwArithmeticError (''invalid floating-point result in '' @ operation))
      else Inr result)"

definition liftDouble :: "vm_error + f64 \<Rightarrow> vm_error + zvalue" where
  "liftDouble r = map_sum id VDouble r"

definition vmPow :: "vm_env \<Rightarrow> zvalue \<Rightarrow> zvalue \<Rightarrow> vm_error + zvalue" where
  "vmPow env a b =
     (case (a, b) of
        (VInt base, VInt exponent) \<Rightarrow>
          if 0 \<le> sint exponent then
            (case powChecked base exponent of
               Some r \<Rightarrow> Inr (VInt r)
             | None \<Rightarrow> Inl (throwArithmeticError ''integer overflow in exponentiation''))
          else Inl (RuntimeError ''negative integer exponent requires floating-point result'')
      | _ \<Rightarrow>
          (case (toDouble a, toDouble b) of
             (Inr x, Inr y) \<Rightarrow> liftDouble (checkedDoubleResult (env_pow env x y) ''exponentiation'')
           | (Inl e, _) \<Rightarrow> Inl e
           | (_, Inl e) \<Rightarrow> Inl e))"

definition orOverflow :: "string \<Rightarrow> int64 option \<Rightarrow> vm_error + zvalue" where
  "orOverflow what r =
     (case r of
        Some v \<Rightarrow> Inr (VInt v)
      | None \<Rightarrow> Inl (throwArithmeticError (''integer overflow in '' @ what)))"

definition vmIntArith :: "vm_op \<Rightarrow> int64 \<Rightarrow> int64 \<Rightarrow> (vm_error + zvalue) option" where
  "vmIntArith op x y =
     (case op of
        OpAdd \<Rightarrow> Some (orOverflow ''addition'' (addChecked x y))
      | OpSub \<Rightarrow> Some (orOverflow ''subtraction'' (subChecked x y))
      | OpMul \<Rightarrow> Some (orOverflow ''multiplication'' (mulChecked x y))
      | OpDiv \<Rightarrow>
          Some (if y = 0 then Inl (throwArithmeticError ''division by zero'')
                else if sint x = INT64_MIN \<and> sint y = - 1 then
                  Inl (throwArithmeticError ''integer overflow in division'')
                else Inr (VInt (word_of_int (tdiv (sint x) (sint y)))))
      | OpMod \<Rightarrow>
          Some (if y = 0 then Inl (throwArithmeticError ''modulo by zero'')
                else if sint x = INT64_MIN \<and> sint y = - 1 then Inr (VInt 0)
                else Inr (VInt (word_of_int (tmod (sint x) (sint y)))))
      | _ \<Rightarrow> None)"

definition vmDoubleArith :: "vm_op \<Rightarrow> f64 \<Rightarrow> f64 \<Rightarrow> vm_error + zvalue" where
  "vmDoubleArith op x y =
     (case op of
        OpAdd \<Rightarrow> liftDouble (checkedDoubleResult (f64_add x y) ''addition'')
      | OpSub \<Rightarrow> liftDouble (checkedDoubleResult (f64_sub x y) ''subtraction'')
      | OpMul \<Rightarrow> liftDouble (checkedDoubleResult (f64_mul x y) ''multiplication'')
      | OpDiv \<Rightarrow>
          if f64_eq y f64_zero then Inl (throwArithmeticError ''division by zero'')
          else liftDouble (checkedDoubleResult (f64_div x y) ''division'')
      | OpMod \<Rightarrow>
          if f64_eq y f64_zero then Inl (throwArithmeticError ''modulo by zero'')
          else Inr (VDouble (f64_fmod x y))
      | _ \<Rightarrow> Inl (RuntimeError ''VM: not an arithmetic opcode''))"

fun isStringValue :: "zvalue \<Rightarrow> bool" where
  "isStringValue (VString _) = True"
| "isStringValue _ = False"

definition binaryArith :: "vm_env \<Rightarrow> vm_op \<Rightarrow> zvalue \<Rightarrow> zvalue \<Rightarrow> vm_error + zvalue" where
  "binaryArith env op a b =
     (if op = OpAdd \<and> (isStringValue a \<or> isStringValue b) then
        Inr (VString (valueToString (env_digits env) (env_heap env) a @
                      valueToString (env_digits env) (env_heap env) b))
      else if \<not> isNumericValue a \<or> \<not> isNumericValue b then
        Inl (RuntimeError ''arithmetic operators require numbers (or strings, for +)'')
      else if op = OpPow then vmPow env a b
      else
        case (case (a, b) of (VInt x, VInt y) \<Rightarrow> vmIntArith op x y | _ \<Rightarrow> None) of
          Some r \<Rightarrow> r
        | None \<Rightarrow>
            (case (toDouble a, toDouble b) of
               (Inr x, Inr y) \<Rightarrow> vmDoubleArith op x y
             | (Inl e, _) \<Rightarrow> Inl e
             | (_, Inl e) \<Rightarrow> Inl e))"

text \<open>
  Shifts work on the unsigned reading of the operand; the arithmetic right shift fills the
  vacated bits with ones when the operand is negative.
\<close>

definition shiftRightArithmetic :: "int64 \<Rightarrow> int64 \<Rightarrow> int64" where
  "shiftRightArithmetic x amount =
     (let shift = unat amount;
          shifted = drop_bit shift x
      in if sint x < 0 \<and> shift \<noteq> 0 then shifted OR push_bit (64 - shift) (NOT 0) else shifted)"

definition shiftRangeError :: vm_error where
  "shiftRangeError = RuntimeError ''shift count must be in the range 0..63''"

definition binaryBitwise :: "vm_op \<Rightarrow> zvalue \<Rightarrow> zvalue \<Rightarrow> vm_error + zvalue" where
  "binaryBitwise op a b =
     (case (toInt64Strict a, toInt64Strict b) of
        (Inr x, Inr y) \<Rightarrow>
          (case op of
             OpBitAnd \<Rightarrow> Inr (VInt (x AND y))
           | OpBitOr \<Rightarrow> Inr (VInt (x OR y))
           | OpBitXor \<Rightarrow> Inr (VInt (x XOR y))
           | OpShl \<Rightarrow>
               if sint y < 0 \<or> 64 \<le> sint y then Inl shiftRangeError
               else Inr (VInt (push_bit (unat y) x))
           | OpShr \<Rightarrow>
               if sint y < 0 \<or> 64 \<le> sint y then Inl shiftRangeError
               else Inr (VInt (shiftRightArithmetic x y))
           | OpUshr \<Rightarrow>
               if sint y < 0 \<or> 64 \<le> sint y then Inl shiftRangeError
               else Inr (VInt (drop_bit (unat y) x))
           | _ \<Rightarrow> Inl (RuntimeError ''VM: not a bitwise opcode''))
      | (Inl e, _) \<Rightarrow> Inl e
      | (_, Inl e) \<Rightarrow> Inl e)"

definition binaryCompare :: "vm_env \<Rightarrow> vm_op \<Rightarrow> zvalue \<Rightarrow> zvalue \<Rightarrow> vm_error + zvalue" where
  "binaryCompare env op a b =
     (if op = OpEq \<or> op = OpNeq then
        (case valuesEqual (env_heap env) a b of
           Inl e \<Rightarrow> Inl e
         | Inr equal \<Rightarrow> Inr (VBool (if op = OpEq then equal else \<not> equal)))
      else if \<not> isNumericValue a \<or> \<not> isNumericValue b then
        Inl (RuntimeError ''comparison operators require numbers'')
      else
        case compareNumericValues a b of
          Inl e \<Rightarrow> Inl e
        | Inr cmp \<Rightarrow>
            if cmp = 2 then Inr (VBool False)
            else (case op of
                    OpLt \<Rightarrow> Inr (VBool (cmp < 0))
                  | OpGt \<Rightarrow> Inr (VBool (cmp > 0))
                  | OpLte \<Rightarrow> Inr (VBool (cmp \<le> 0))
                  | OpGte \<Rightarrow> Inr (VBool (cmp \<ge> 0))
                  | _ \<Rightarrow> Inl (RuntimeError ''VM: not a comparison opcode'')))"

definition binaryLogical :: "vm_env \<Rightarrow> vm_op \<Rightarrow> zvalue \<Rightarrow> zvalue \<Rightarrow> zvalue" where
  "binaryLogical env op a b =
     (let x = isTruthy (env_heap env) a; y = isTruthy (env_heap env) b
      in VBool (if op = OpAnd then x \<and> y else x \<or> y))"

definition unary :: "vm_env \<Rightarrow> vm_op \<Rightarrow> zvalue \<Rightarrow> vm_error + zvalue" where
  "unary env op a =
     (case op of
        OpNeg \<Rightarrow>
          (case a of
             VInt i \<Rightarrow>
               if sint i = INT64_MIN then
                 Inl (throwArithmeticError ''integer overflow in negation'')
               else Inr (VInt (- i))
           | VDouble d \<Rightarrow> Inr (VDouble (f64_neg d))
           | _ \<Rightarrow> Inl (RuntimeError (''unary '' @ [CHR 0x27] @ ''-'' @ [CHR 0x27] @ '' requires a number'')))
      | OpNot \<Rightarrow> Inr (VBool (\<not> isTruthy (env_heap env) a))
      | OpBitNot \<Rightarrow> map_sum id (\<lambda>i. VInt (NOT i)) (toInt64Strict a)
      | _ \<Rightarrow> Inl (RuntimeError ''VM: not a unary opcode''))"

definition rangeStepError :: vm_error where
  "rangeStepError = RuntimeError ''for-loop step cannot be 0 (the loop would never end)''"

definition rangeContinue :: "zvalue \<Rightarrow> zvalue \<Rightarrow> zvalue \<Rightarrow> vm_error + bool" where
  "rangeContinue current stop step =
     (if \<not> isNumericValue current \<or> \<not> isNumericValue stop \<or> \<not> isNumericValue step then
        Inl (RuntimeError ''for-loop range/step must be numbers'')
      else
        case (current, stop, step) of
          (VInt c, VInt e, VInt s) \<Rightarrow>
            if 0 < sint s then Inr (sint c < sint e)
            else if sint s < 0 then Inr (sint e < sint c)
            else Inl rangeStepError
        | _ \<Rightarrow>
            (case (toDouble step, toDouble current, toDouble stop) of
               (Inr s, Inr c, Inr e) \<Rightarrow>
                 if f64_lt f64_zero s then Inr (f64_lt c e)
                 else if f64_lt s f64_zero then Inr (f64_lt e c)
                 else Inl rangeStepError
             | _ \<Rightarrow> Inl (RuntimeError ''expected a number'')))"

subsection \<open>Lemmas\<close>

lemma in_int64_signed_take_bit: "in_int64 i \<Longrightarrow> signed_take_bit 63 i = i"
  by (intro signed_take_bit_int_eq_self) (auto simp: in_int64_def INT64_MIN_def INT64_MAX_def)

lemma sint_add_in_range: "in_int64 (sint a + sint b) \<Longrightarrow> sint (a + b :: int64) = sint a + sint b"
  by (simp add: sint_word_ariths in_int64_signed_take_bit)

lemma sint_sub_in_range: "in_int64 (sint a - sint b) \<Longrightarrow> sint (a - b :: int64) = sint a - sint b"
  by (simp add: sint_word_ariths in_int64_signed_take_bit)

lemma sint_mul_in_range: "in_int64 (sint a * sint b) \<Longrightarrow> sint (a * b :: int64) = sint a * sint b"
  by (simp add: sint_word_ariths in_int64_signed_take_bit)

lemma sint_neg_in_range: "in_int64 (- sint a) \<Longrightarrow> sint (- a :: int64) = - sint a"
  by (simp add: sint_word_ariths in_int64_signed_take_bit)

lemma addChecked_Some: "addChecked a b = Some c \<longleftrightarrow> sint c = sint a + sint b"
  by (auto simp: addChecked_def sint_add_in_range sint_eq_iff [symmetric])
    (metis sint_in_int64)

lemma subChecked_Some: "subChecked a b = Some c \<longleftrightarrow> sint c = sint a - sint b"
  by (auto simp: subChecked_def sint_sub_in_range sint_eq_iff [symmetric])
    (metis sint_in_int64)

lemma mulChecked_Some: "mulChecked a b = Some c \<longleftrightarrow> sint c = sint a * sint b"
  by (auto simp: mulChecked_def sint_mul_in_range sint_eq_iff [symmetric])
    (metis sint_in_int64)

lemma mulChecked_None: "mulChecked a b = None \<longleftrightarrow> \<not> in_int64 (sint a * sint b)"
  by (simp add: mulChecked_def)

lemma addChecked_portable: "addCheckedPortable a b = addChecked a b"
  using sint_bounds [of a] sint_bounds [of b]
  by (auto simp: addCheckedPortable_def addChecked_def in_int64_def)

lemma subChecked_portable: "subCheckedPortable a b = subChecked a b"
  using sint_bounds [of a] sint_bounds [of b]
  by (auto simp: subCheckedPortable_def subChecked_def in_int64_def)

lemma le_div_iff_mult:
  fixes a b m :: int
  assumes "0 < b"
  shows "a \<le> m div b \<longleftrightarrow> a * b \<le> m"
proof
  assume "a \<le> m div b"
  then have "a * b \<le> m div b * b" using assms by simp
  also have "\<dots> \<le> m" using div_mult_mod_eq [of m b] pos_mod_sign [OF assms, of m] by linarith
  finally show "a * b \<le> m" .
next
  assume "a * b \<le> m"
  then have "a * b div b \<le> m div b" using assms by (rule zdiv_mono1)
  then show "a \<le> m div b" using assms by simp
qed

lemma tdiv_pos_pos: "0 < b \<Longrightarrow> 0 \<le> m \<Longrightarrow> tdiv m b = m div b"
  by (auto simp: tdiv_def signed_divide_int_def sgn_if)

lemma tdiv_neg_pos: "0 < b \<Longrightarrow> m < 0 \<Longrightarrow> tdiv m b = - (- m div b)"
  by (auto simp: tdiv_def signed_divide_int_def sgn_if)

lemma tdiv_pos_neg: "b < 0 \<Longrightarrow> 0 < m \<Longrightarrow> tdiv m b = - (m div - b)"
  by (auto simp: tdiv_def signed_divide_int_def sgn_if)

lemma int64_pos: "0 < INT64_MAX" "INT64_MIN < 0" "INT64_MIN = - INT64_MAX - 1"
  by (simp_all add: INT64_MAX_def INT64_MIN_def)

lemma in_int64_mul_pos_pos:
  assumes "0 < a" "0 < b"
  shows "in_int64 (a * b) \<longleftrightarrow> a \<le> tdiv INT64_MAX b"
proof -
  have "0 < a * b" using assms by simp
  then have "in_int64 (a * b) \<longleftrightarrow> a * b \<le> INT64_MAX"
    using int64_pos(2) unfolding in_int64_def by linarith
  then show ?thesis using assms int64_pos(1) by (simp add: tdiv_pos_pos le_div_iff_mult)
qed

lemma in_int64_mul_neg_pos:
  assumes "a < 0" "0 < b"
  shows "in_int64 (a * b) \<longleftrightarrow> tdiv INT64_MIN b \<le> a"
proof -
  have "a * b < 0" using assms by (simp add: mult_less_0_iff)
  then have "in_int64 (a * b) \<longleftrightarrow> (- a) * b \<le> - INT64_MIN"
    using int64_pos(1) unfolding in_int64_def by auto
  also have "\<dots> \<longleftrightarrow> - a \<le> - INT64_MIN div b"
    by (rule le_div_iff_mult [OF assms(2), symmetric])
  finally show ?thesis using tdiv_neg_pos [OF assms(2) int64_pos(2)] by linarith
qed

lemma in_int64_mul_neg_neg:
  assumes "a < 0" "b < 0"
  shows "in_int64 (a * b) \<longleftrightarrow> tdiv INT64_MAX a \<le> b"
proof -
  have "0 < a * b" using assms by (simp add: zero_less_mult_iff)
  then have "in_int64 (a * b) \<longleftrightarrow> (- b) * (- a) \<le> INT64_MAX"
    using int64_pos(2) unfolding in_int64_def by (simp add: mult.commute)
  also have "\<dots> \<longleftrightarrow> - b \<le> INT64_MAX div - a"
    using assms by (intro le_div_iff_mult [symmetric]) simp
  finally show ?thesis using tdiv_pos_neg [OF assms(1) int64_pos(1)] by linarith
qed

lemma sint_zero_iff: "sint (a :: int64) = 0 \<longleftrightarrow> a = 0"
  using sint_eq_iff [of a 0] by simp

lemma in_int64_neg: "in_int64 (- sint (b :: int64)) \<longleftrightarrow> sint b \<noteq> INT64_MIN"
  using sint_bounds [of b] int64_pos(3) unfolding in_int64_def by linarith

lemma mulChecked_neg_one:
  "sint a = - 1 \<Longrightarrow> mulChecked a b = (if sint b = INT64_MIN then None else Some (- b))"
  "sint b = - 1 \<Longrightarrow> mulChecked a b = (if sint a = INT64_MIN then None else Some (- a))"
proof -
  assume "sint a = - 1"
  moreover from this have "a = - 1" by (metis sint_eq_iff sint_n1)
  ultimately show "mulChecked a b = (if sint b = INT64_MIN then None else Some (- b))"
    by (simp add: mulChecked_def in_int64_neg)
next
  assume "sint b = - 1"
  moreover from this have "b = - 1" by (metis sint_eq_iff sint_n1)
  ultimately show "mulChecked a b = (if sint a = INT64_MIN then None else Some (- a))"
    by (simp add: mulChecked_def in_int64_neg)
qed

lemma in_int64_0: "in_int64 0"
  using int64_pos by (simp add: in_int64_def)

lemma mulChecked_portable: "mulCheckedPortable a b = mulChecked a b"
proof -
  consider "a = 0 \<or> b = 0" | "sint a = - 1 \<or> sint b = - 1" "a \<noteq> 0" "b \<noteq> 0"
    | "0 < sint a" "0 < sint b" | "0 < sint a" "sint b < - 1" | "sint a < - 1" "0 < sint b"
    | "sint a < - 1" "sint b < - 1"
    using sint_zero_iff [of a] sint_zero_iff [of b] by linarith
  then show ?thesis
  proof cases
    case 1
    then show ?thesis by (auto simp: mulCheckedPortable_def mulChecked_def in_int64_0)
  next
    case 2
    then show ?thesis
      unfolding mulCheckedPortable_def by (auto simp: mulChecked_neg_one)
  next
    case 3
    then show ?thesis
      by (auto simp: mulCheckedPortable_def mulChecked_def in_int64_mul_pos_pos)
  next
    case 4
    then have "in_int64 (sint a * sint b) \<longleftrightarrow> tdiv INT64_MIN (sint a) \<le> sint b"
      using in_int64_mul_neg_pos [of "sint b" "sint a"] by (simp add: mult.commute)
    with 4 show ?thesis by (auto simp: mulCheckedPortable_def mulChecked_def)
  next
    case 5
    then show ?thesis
      by (auto simp: mulCheckedPortable_def mulChecked_def in_int64_mul_neg_pos)
  next
    case 6
    then show ?thesis
      by (auto simp: mulCheckedPortable_def mulChecked_def in_int64_mul_neg_neg)
  qed
qed

lemma not_int64_mult_mono:
  fixes x y :: int
  assumes "\<not> in_int64 x" and "1 \<le> y"
  shows "\<not> in_int64 (x * y)"
proof (cases "0 \<le> x")
  case True
  then have "x * 1 \<le> x * y" using assms(2) by (intro mult_left_mono) auto
  moreover have "INT64_MAX < x" using assms(1) True int64_pos(2) unfolding in_int64_def by linarith
  ultimately show ?thesis unfolding in_int64_def by linarith
next
  case False
  then have "x * y \<le> x * 1" using assms(2) by (intro mult_left_mono_neg) auto
  moreover have "x < INT64_MIN" using assms(1) False int64_pos(1) unfolding in_int64_def by linarith
  ultimately show ?thesis unfolding in_int64_def by linarith
qed

lemma square_not_pow63: "(f::int) * f \<noteq> 2 ^ 63"
proof
  assume eq: "f * f = 2 ^ 63"
  have "\<bar>f\<bar> * \<bar>f\<bar> = 2 ^ 63" using eq by simp
  show False
  proof (cases "\<bar>f\<bar> \<le> 3037000499")
    case True
    then have "\<bar>f\<bar> * \<bar>f\<bar> \<le> 3037000499 * 3037000499" by (intro mult_mono) auto
    with \<open>\<bar>f\<bar> * \<bar>f\<bar> = 2 ^ 63\<close> show False by simp
  next
    case False
    then have "3037000500 * 3037000500 \<le> \<bar>f\<bar> * \<bar>f\<bar>" by (intro mult_mono) auto
    with \<open>\<bar>f\<bar> * \<bar>f\<bar> = 2 ^ 63\<close> show False by simp
  qed
qed

lemma pow_split:
  fixes r f n :: int
  assumes "0 < n"
  shows "r * f ^ nat n = (if odd n then r * f else r) * (f * f) ^ nat (n div 2)"
proof -
  have n: "nat n = 2 * nat (n div 2) + (if odd n then 1 else 0)"
    using assms by (auto elim!: oddE evenE simp: nat_add_distrib nat_mult_distrib)
  show ?thesis
    by (subst n) (simp add: power_add power_mult power2_eq_square)
qed

lemma pow_overflow_result:
  fixes r f :: int
  assumes "\<not> in_int64 r" "f \<noteq> 0"
  shows "\<not> in_int64 (r * (f * f) ^ m)"
proof -
  have "0 < f * f" using assms(2) by (auto simp: zero_less_mult_iff)
  then have "1 \<le> f * f" by linarith
  then have "1 \<le> (f * f) ^ m" by simp
  then show ?thesis using assms(1) by (rule not_int64_mult_mono [rotated])
qed

lemma pow_overflow_factor:
  fixes r f :: int
  assumes "\<not> in_int64 (f * f)" "r \<noteq> 0" "0 < m"
  shows "\<not> in_int64 (r * (f * f) ^ m)"
proof -
  have big: "2 ^ 63 < f * f"
    using assms(1) square_not_pow63 [of f] zero_le_square [of f]
    by (simp add: in_int64_def INT64_MAX_def INT64_MIN_def)
  have "f * f \<le> (f * f) ^ m" using assms(3) big by (intro self_le_power) auto
  then have huge: "2 ^ 63 < (f * f) ^ m" using big by linarith
  show ?thesis
  proof (cases "0 < r")
    case True
    then have "1 * (f * f) ^ m \<le> r * (f * f) ^ m" using huge by (intro mult_right_mono) auto
    then show ?thesis using huge unfolding in_int64_def INT64_MAX_def by linarith
  next
    case False
    then have "r * (f * f) ^ m \<le> - 1 * (f * f) ^ m"
      using assms(2) huge by (intro mult_right_mono) auto
    then show ?thesis using huge unfolding in_int64_def INT64_MIN_def by linarith
  qed
qed

lemma powLoop_exact:
  assumes "r \<noteq> 0 \<or> f = 0" and "0 \<le> n"
  shows "powLoop r f n =
    (if in_int64 (sint r * sint f ^ nat n) then Some (word_of_int (sint r * sint f ^ nat n)) else None)"
  using assms
proof (induction r f n rule: powLoop.induct)
  case (1 r f n)
  define r1 where "r1 = (if odd n then sint r * sint f else sint r)"
  consider "n = 0" | "0 < n" "\<not> in_int64 r1" | "0 < n" "in_int64 r1" "n div 2 = 0"
    | "in_int64 r1" "0 < n div 2" "\<not> in_int64 (sint f * sint f)"
    | "in_int64 r1" "0 < n div 2" "in_int64 (sint f * sint f)"
    using "1.prems" by linarith
  moreover have P: "0 < n \<Longrightarrow> sint r * sint f ^ nat n = r1 * (sint f * sint f) ^ nat (n div 2)"
    using pow_split by (simp add: r1_def)
  ultimately show ?case
  proof cases
    case 1
    then show ?thesis by (subst powLoop.simps) simp
  next
    case 2
    then have "odd n" by (auto simp: r1_def split: if_splits)
    then have "mulChecked r f = None" using 2 by (simp add: mulChecked_def r1_def)
    moreover have "sint f \<noteq> 0" using 2 \<open>odd n\<close> by (auto simp: r1_def in_int64_0)
    ultimately show ?thesis
      using 2 \<open>odd n\<close> pow_overflow_result [of r1 "sint f"]
      by (simp add: powLoop.simps [of r f n] P)
  next
    case 3
    then show ?thesis
      by (simp add: powLoop.simps [of r f n] mulChecked_def P) (auto simp: r1_def split: if_splits)
  next
    case 4
    then have "sint f \<noteq> 0" by (auto simp: in_int64_0)
    then have "r1 \<noteq> 0" using "1.prems"(1) by (auto simp: r1_def sint_zero_iff)
    then have "\<not> in_int64 (sint r * sint f ^ nat n)"
      using 4 pow_overflow_factor [of "sint f" r1] by (simp add: P)
    moreover have "0 < n" using 4 by linarith
    ultimately show ?thesis using 4
      by (simp add: powLoop.simps [of r f n] mulChecked_def)
  next
    case 5
    define r' where "r' = (word_of_int r1 :: int64)"
    have r': "sint r' = r1" using 5 by (simp add: r'_def sint_word_of_int)
    have first: "(if odd n then mulChecked r f else Some r) = Some r'"
      using 5 by (auto simp: r'_def r1_def mulChecked_Some sint_word_of_int sint_mul_in_range)
    obtain f' where f': "mulChecked f f = Some f'" using 5 by (simp add: mulChecked_def)
    then have sf': "sint f' = sint f * sint f" by (simp add: mulChecked_Some)
    have "r' \<noteq> 0 \<or> f' = 0"
      using "1.prems"(1) r' sf' by (auto simp: r1_def sint_zero_iff [symmetric] split: if_splits)
    moreover have "0 < n" using 5 by linarith
    ultimately show ?thesis
      using "1.IH" [OF _ first _ _ f'] 5 first f' r' sf'
      by (simp add: powLoop.simps [of r f n] P)
  qed
qed

text \<open>C39: integer exponentiation by squaring gives the exact power when it fits 64 bits and
  reports overflow exactly when it does not: the squarings of the loop never report an overflow
  that the result does not have.\<close>

theorem powChecked_exact:
  "powChecked a b =
    (if in_int64 (sint a ^ unat b) then Some (word_of_int (sint a ^ unat b)) else None)"
proof -
  have "nat (uint b) = unat b" and "sint (1 :: int64) = 1" by simp_all
  moreover note powLoop_exact [of 1 a "uint b"]
  ultimately show ?thesis unfolding powChecked_def by (simp only: mult_1_left) simp
qed

text \<open>The sign-filling right shift built from unsigned shifts is the arithmetic shift of
  the two's-complement word.\<close>

theorem shiftRightArithmetic_spec:
  assumes "unat n < 64"
  shows "shiftRightArithmetic x n = signed_drop_bit (unat n) x"
proof (rule bit_word_eqI)
  fix k assume "k < LENGTH(64)"
  then have k: "k < 64" by simp
  have neg: "sint x < 0 \<longleftrightarrow> bit x 63" by (simp add: bit_last_iff [symmetric])
  show "bit (shiftRightArithmetic x n) k = bit (signed_drop_bit (unat n) x) k"
    using k assms
    by (auto simp: shiftRightArithmetic_def Let_def neg bit_simps not_less le_less_Suc_eq min_def
        dest: bit_imp_le_length)
qed

theorem shiftRightArithmetic_spec_witness:
  "unat (4 :: int64) < 64 \<and> shiftRightArithmetic (- 256) 4 = signed_drop_bit 4 (- 256)"
  using shiftRightArithmetic_spec [of 4 "- 256"] by simp

text \<open>The portable overflow tests of the \<open>#else\<close> branches and the compiler builtins give the
  same result on every pair of 64-bit integers.\<close>

theorem checked_portable_equiv:
  "addCheckedPortable a b = addChecked a b \<and> subCheckedPortable a b = subChecked a b \<and>
   mulCheckedPortable a b = mulChecked a b"
  by (simp add: addChecked_portable subChecked_portable mulChecked_portable)

lemma compareNumericValues_sign:
  assumes "key_of a = Some (KNum x)" and "key_of b = Some (KNum y)"
  shows "compareNumericValues a b = Inr (rat_sign (x - y))"
proof -
  have neg: "- rat_sign (u - v) = rat_sign (v - u)" for u v :: rat by (simp add: rat_sign_def)
  show ?thesis
    using assms
    by (elim key_of_elim)
      (simp_all add: compareNumericValues_def compareIntAndDouble_exact neg three_way_def
        rat_sign_def f64_lt_finite del: f64_val.simps)
qed

lemma binaryCompare_ordered:
  assumes "key_of a = Some (KNum x)" and "key_of b = Some (KNum y)"
  shows "binaryCompare env OpLt a b = Inr (VBool (x < y))"
    and "binaryCompare env OpGt a b = Inr (VBool (x > y))"
    and "binaryCompare env OpLte a b = Inr (VBool (x \<le> y))"
    and "binaryCompare env OpGte a b = Inr (VBool (x \<ge> y))"
    and "binaryCompare env OpEq a b = Inr (VBool (x = y))"
    and "binaryCompare env OpNeq a b = Inr (VBool (x \<noteq> y))"
proof -
  have num: "isNumericValue a" "isNumericValue b" using assms by (auto elim!: key_of_elim)
  have eq: "valuesEqual (env_heap env) a b = Inr (x = y)"
    using valuesEqual_key [OF assms] by simp
  note s = compareNumericValues_sign [OF assms]
  show "binaryCompare env OpLt a b = Inr (VBool (x < y))"
    "binaryCompare env OpGt a b = Inr (VBool (x > y))"
    "binaryCompare env OpLte a b = Inr (VBool (x \<le> y))"
    "binaryCompare env OpGte a b = Inr (VBool (x \<ge> y))"
    using num s by (auto simp: binaryCompare_def rat_sign_def)
  show "binaryCompare env OpEq a b = Inr (VBool (x = y))"
    "binaryCompare env OpNeq a b = Inr (VBool (x \<noteq> y))"
    using eq by (auto simp: binaryCompare_def)
qed

text \<open>The comparison operators of the interpreter are exact on finite numbers of either
  representation: they order the rationals the operands denote, with no rounding of an integer
  to a double.\<close>

theorem binaryCompare_exact:
  assumes "key_of a = Some (KNum x)" and "key_of b = Some (KNum y)"
  shows "map (\<lambda>op. binaryCompare env op a b) [OpLt, OpGt, OpLte, OpGte, OpEq, OpNeq] =
    map (\<lambda>r. Inr (VBool r)) [x < y, x > y, x \<le> y, x \<ge> y, x = y, x \<noteq> y]"
  using binaryCompare_ordered [OF assms] by simp

definition sample_env :: vm_env where
  "sample_env = \<lparr>env_pow = (\<lambda>x y. f64_one), env_digits = (\<lambda>v. None), env_heap = Map.empty\<rparr>"

theorem binaryCompare_exact_witness:
  "key_of (VInt 9007199254740993) = Some (KNum 9007199254740993) \<and>
   key_of (VDouble (Fin False 9007199254740992)) = Some (KNum 9007199254740992) \<and>
   binaryCompare sample_env OpGt (VInt 9007199254740993) (VDouble (Fin False 9007199254740992)) = Inr (VBool True)"
  using binaryCompare_exact [of "VInt 9007199254740993" "9007199254740993"
      "VDouble (Fin False 9007199254740992)" "9007199254740992" sample_env]
  by simp

lemma f64_lt_nan [simp]: "\<not> f64_lt d NaN"
  by (cases d) auto

text \<open>NaN is not unordered for the interpreter: a NaN on the left of an integer is less
  than it (the negated \<open>unordered\<close> result 2), an integer is not greater or equal to a NaN, and a
  NaN is less or equal to every double (two doubles give 0 when neither is less).\<close>

theorem binaryCompare_nan:
  "map (\<lambda>(op, a, b). binaryCompare env op a b)
     [(OpLt, VDouble NaN, VInt i), (OpGte, VInt i, VDouble NaN), (OpLte, VDouble NaN, VDouble d)] =
   [Inr (VBool True), Inr (VBool False), Inr (VBool True)]"
  by (simp add: binaryCompare_def compareNumericValues_def compareIntAndDouble_def)

lemma tdiv_tmod: "tdiv a b * b + tmod a b = a"
  unfolding tdiv_def tmod_def by (rule sdiv_mult_smod_eq)

lemma tmod_abs_less: "b \<noteq> 0 \<Longrightarrow> \<bar>tmod a b\<bar> < \<bar>b\<bar>"
  by (auto simp: tmod_def signed_modulo_int_def abs_mult sgn_if)

lemma tmod_sign: "b \<noteq> 0 \<Longrightarrow> tmod a b = 0 \<or> (tmod a b < 0 \<longleftrightarrow> a < 0)"
proof -
  assume "b \<noteq> 0"
  then have "0 \<le> a mod \<bar>b\<bar>" "0 \<le> - a mod \<bar>b\<bar>" by (intro pos_mod_sign; simp)+
  then show ?thesis
    unfolding tmod_def signed_modulo_int_def sgn_if by (cases "0 < a"; cases "a = 0") auto
qed

lemma tdiv_in_int64:
  assumes "in_int64 a" "\<not> (a = INT64_MIN \<and> b = - 1)"
  shows "in_int64 (tdiv a b)"
proof (cases "\<bar>b\<bar> \<le> 1")
  case True
  then consider "b = 0" | "b = 1" | "b = - 1" by linarith
  then show ?thesis using assms
    by cases (auto simp: tdiv_def in_int64_def INT64_MIN_def INT64_MAX_def)
next
  case False
  have "\<bar>tdiv a b\<bar> \<le> \<bar>a\<bar> div 2"
  proof -
    have "\<bar>tdiv a b\<bar> \<le> \<bar>a\<bar> div \<bar>b\<bar>"
      by (auto simp: tdiv_def signed_divide_int_def abs_mult sgn_if pos_imp_zdiv_nonneg_iff)
    also have "\<dots> \<le> \<bar>a\<bar> div 2" using False by (intro zdiv_mono2) auto
    finally show ?thesis .
  qed
  then show ?thesis using assms(1) by (auto simp: in_int64_def INT64_MIN_def INT64_MAX_def)
qed

lemma tmod_in_int64:
  assumes "in_int64 b" "b \<noteq> 0"
  shows "in_int64 (tmod a b)"
  using tmod_abs_less [OF assms(2), of a] assms(1)
  by (auto simp: in_int64_def INT64_MIN_def INT64_MAX_def)

text \<open>Integer division and modulo satisfy the division law whenever both succeed, with a
  remainder smaller than the divisor and of the dividend's sign.\<close>

theorem vmIntArith_div_mod:
  assumes "vmIntArith OpDiv x y = Some (Inr (VInt q))" and "vmIntArith OpMod x y = Some (Inr (VInt r))"
  shows "sint x = sint q * sint y + sint r \<and> \<bar>sint r\<bar> < \<bar>sint y\<bar> \<and>
    (sint r = 0 \<or> (sint r < 0 \<longleftrightarrow> sint x < 0))"
proof -
  from assms have y: "sint y \<noteq> 0" and ok: "\<not> (sint x = INT64_MIN \<and> sint y = - 1)"
    and q: "q = word_of_int (tdiv (sint x) (sint y))"
    and r: "r = word_of_int (tmod (sint x) (sint y))"
    by (auto simp: vmIntArith_def sint_zero_iff split: if_splits)
  have "sint q = tdiv (sint x) (sint y)"
    using ok by (simp add: q sint_word_of_int tdiv_in_int64)
  moreover have "sint r = tmod (sint x) (sint y)"
    using y by (simp add: r sint_word_of_int tmod_in_int64)
  ultimately show ?thesis
    using tdiv_tmod [of "sint x" "sint y"] tmod_abs_less [OF y] tmod_sign [OF y] by simp
qed

theorem vmIntArith_div_mod_witness:
  "vmIntArith OpDiv (- 7) 2 = Some (Inr (VInt (- 3))) \<and> vmIntArith OpMod (- 7) 2 = Some (Inr (VInt (- 1))) \<and>
   sint (- 7 :: int64) = sint (- 3 :: int64) * sint (2 :: int64) + sint (- 1 :: int64)"
proof -
  have "vmIntArith OpDiv (- 7) 2 = Some (Inr (VInt (- 3)))"
    "vmIntArith OpMod (- 7) 2 = Some (Inr (VInt (- 1)))" by code_simp+
  with vmIntArith_div_mod [of "- 7" 2 "- 3" "- 1"] show ?thesis by blast
qed

lemma checkedDoubleResult_finite: "checkedDoubleResult d s = Inr r \<Longrightarrow> f64_isfinite r"
  by (auto simp: checkedDoubleResult_def f64_isfinite_iff split: if_splits)

lemma liftDouble_finite: "liftDouble (checkedDoubleResult d s) = Inr (VDouble r) \<Longrightarrow> f64_isfinite r"
  by (cases "checkedDoubleResult d s") (auto simp: liftDouble_def checkedDoubleResult_finite)

text \<open>Arithmetic on doubles never produces an infinity or a NaN except through the
  modulo operator: the checked results throw instead.\<close>

theorem binaryArith_finite:
  assumes "binaryArith env op a b = Inr (VDouble d)" and "op \<noteq> OpMod"
  shows "f64_isfinite d"
  using assms
  by (auto simp: binaryArith_def vmPow_def vmIntArith_def vmDoubleArith_def orOverflow_def
      dest: liftDouble_finite split: if_splits sum.splits zvalue.splits vm_op.splits option.splits)

text \<open>Addition, subtraction and multiplication of integers give the exact result when it
  fits 64 bits and an \<open>ArithmeticError\<close> otherwise.\<close>

theorem binaryArith_int_exact:
  "map (\<lambda>op. binaryArith env op (VInt x) (VInt y)) [OpAdd, OpSub, OpMul] =
   map (\<lambda>(r, what). if in_int64 r then Inr (VInt (word_of_int r))
                   else Inl (throwArithmeticError (''integer overflow in '' @ what)))
     [(sint x + sint y, ''addition''), (sint x - sint y, ''subtraction''),
      (sint x * sint y, ''multiplication'')]"
  by (simp add: binaryArith_def vmIntArith_def orOverflow_def addChecked_def subChecked_def
      mulChecked_def)

theorem binaryArith_finite_witness:
  "binaryArith sample_env OpMul (VDouble f64_one) (VInt 1) = Inr (VDouble f64_one) \<and>
   OpMul \<noteq> OpMod \<and> f64_isfinite f64_one"
proof -
  have "f64_of_int (sint (1 :: int64)) = f64_one" by (simp add: f64_of_int_exact f64_one_def)
  then have "binaryArith sample_env OpMul (VDouble f64_one) (VInt 1) = Inr (VDouble f64_one)"
    by (simp add: binaryArith_def vmDoubleArith_def f64_mul_one_right f64_ok_one
        checkedDoubleResult_def liftDouble_def) (simp add: f64_one_def)
  with binaryArith_finite [of sample_env OpMul "VDouble f64_one" "VInt 1"] show ?thesis by simp
qed

end
