(* ===== verification/Mir_Effects.thy ===== *)
theory Mir_Effects
  imports Mir_Core Vm_Arith
begin

text \<open>
  Effects of instructions and compile-time evaluation (\<^verbatim>\<open>src/mir/effects.cpp\<close>,
  \<^verbatim>\<open>src/mir/folding.cpp\<close>). The two files call each other: the evaluator folds pure opcodes only,
  and the effect of an instruction is refined by what the evaluator knows. The arithmetic helpers
  of \<^verbatim>\<open>folding.cpp\<close> repeat those of the interpreter, which are in \<open>Vm_Arith\<close>. An effect set is the
  32-bit mask of the source.
\<close>

datatype effect =
    EPure
  | EReadsMemory
  | EWritesMemory
  | EAllocation
  | ERuntimeCheck
  | EMayThrow
  | EObservableIO
  | ESynchronization
  | EVolatileRead
  | ECalls
  | ETaskEffect
  | EThreadBoundary
  | ESuspension
  | ENativeResource
  | EOwnership
  | EUnwindBarrier

primrec effectBit :: "effect \<Rightarrow> nat" where
  "effectBit EPure = 0"
| "effectBit EReadsMemory = 1"
| "effectBit EWritesMemory = 2"
| "effectBit EAllocation = 3"
| "effectBit ERuntimeCheck = 4"
| "effectBit EMayThrow = 5"
| "effectBit EObservableIO = 6"
| "effectBit ESynchronization = 7"
| "effectBit EVolatileRead = 8"
| "effectBit ECalls = 9"
| "effectBit ETaskEffect = 10"
| "effectBit EThreadBoundary = 11"
| "effectBit ESuspension = 12"
| "effectBit ENativeResource = 13"
| "effectBit EOwnership = 14"
| "effectBit EUnwindBarrier = 15"

definition effectNames :: "string list" where
  "effectNames =
    [''pure'', ''reads-memory'', ''writes-memory'', ''allocation'', ''runtime-check'',
     ''may-throw'', ''observable-io'', ''synchronization'', ''volatile-read'', ''calls'',
     ''task-effect'', ''thread-boundary'', ''suspension'', ''native-resource'', ''ownership'',
     ''unwind-barrier'']"

type_synonym effect_set = "32 word"

definition effectMask :: "effect \<Rightarrow> effect_set" where
  "effectMask e = push_bit (effectBit e) 1"

definition effectsOf :: "effect list \<Rightarrow> effect_set" where
  "effectsOf es = fold (\<lambda>e s. s OR effectMask e) es 0"

definition hasEffect :: "effect_set \<Rightarrow> effect \<Rightarrow> bool" where
  "hasEffect s e \<longleftrightarrow> s AND effectMask e \<noteq> 0"

text \<open>The loop of \<open>describeEffects\<close> visits the 32 bits in order; a bit above the last effect has no name.\<close>

definition effectBitName :: "nat \<Rightarrow> string" where
  "effectBitName b = (if b < length effectNames then effectNames ! b else ''<invalid-effect>'')"

definition describeEffects :: "effect_set \<Rightarrow> string" where
  "describeEffects s =
     (if s = 0 then ''none''
      else fold (\<lambda>b out. if s AND push_bit b 1 = 0 then out
                        else out @ (if out \<noteq> [] then '' '' else []) @ effectBitName b) [0..<32] [])"

primrec coreEffects :: "core_op \<Rightarrow> effect_set" where
  "coreEffects O_Nop = effectsOf [EPure]"
| "coreEffects O_Add = effectsOf [EPure, EMayThrow]"
| "coreEffects O_Sub = effectsOf [EPure, EMayThrow]"
| "coreEffects O_Mul = effectsOf [EPure, EMayThrow]"
| "coreEffects O_Div = effectsOf [EPure, EMayThrow]"
| "coreEffects O_Mod = effectsOf [EPure, EMayThrow]"
| "coreEffects O_Pow = effectsOf [EPure, EMayThrow]"
| "coreEffects O_Neg = effectsOf [EPure, EMayThrow]"
| "coreEffects O_BitAnd = effectsOf [EPure]"
| "coreEffects O_BitOr = effectsOf [EPure]"
| "coreEffects O_BitXor = effectsOf [EPure]"
| "coreEffects O_BitNot = effectsOf [EPure]"
| "coreEffects O_Shl = effectsOf [EPure, EMayThrow]"
| "coreEffects O_Shr = effectsOf [EPure, EMayThrow]"
| "coreEffects O_Ushr = effectsOf [EPure, EMayThrow]"
| "coreEffects O_Eq = effectsOf [EPure, EMayThrow]"
| "coreEffects O_Ne = effectsOf [EPure, EMayThrow]"
| "coreEffects O_Lt = effectsOf [EPure, EMayThrow]"
| "coreEffects O_Le = effectsOf [EPure, EMayThrow]"
| "coreEffects O_Gt = effectsOf [EPure, EMayThrow]"
| "coreEffects O_Ge = effectsOf [EPure, EMayThrow]"
| "coreEffects O_Not = effectsOf [EPure]"
| "coreEffects O_And = effectsOf [EPure]"
| "coreEffects O_Or = effectsOf [EPure]"
| "coreEffects O_Widen = effectsOf [EPure]"
| "coreEffects O_Refine = effectsOf [EPure, ERuntimeCheck, EMayThrow]"
| "coreEffects O_TypeTest = effectsOf [EPure]"
| "coreEffects O_NullCheck = effectsOf [EPure, ERuntimeCheck, EMayThrow]"
| "coreEffects O_IsNull = effectsOf [EPure]"
| "coreEffects O_Load = effectsOf [EReadsMemory]"
| "coreEffects O_Store = effectsOf [EWritesMemory]"
| "coreEffects O_FieldLoad = effectsOf [EReadsMemory, ERuntimeCheck, EMayThrow]"
| "coreEffects O_FieldStore = effectsOf [EWritesMemory, ERuntimeCheck, EMayThrow]"
| "coreEffects O_IndexLoad = effectsOf [EReadsMemory, ERuntimeCheck, EMayThrow]"
| "coreEffects O_IndexStore = effectsOf [EWritesMemory, ERuntimeCheck, EMayThrow]"
| "coreEffects O_StaticLoad = effectsOf [EReadsMemory, ERuntimeCheck, EMayThrow, ECalls]"
| "coreEffects O_StaticStore = effectsOf [EWritesMemory, ERuntimeCheck, EMayThrow, ECalls]"
| "coreEffects O_Alloc = effectsOf [EAllocation]"
| "coreEffects O_Call = effectsOf [ECalls, EMayThrow, EReadsMemory, EWritesMemory]"
| "coreEffects O_InvokeMethod = effectsOf [ECalls, EMayThrow, EReadsMemory, EWritesMemory]"
| "coreEffects O_InvokeSuper = effectsOf [ECalls, EMayThrow, EReadsMemory, EWritesMemory]"
| "coreEffects O_InvokeStatic = effectsOf [ECalls, EMayThrow, EReadsMemory, EWritesMemory]"
| "coreEffects O_CallIndirect = effectsOf [ECalls, EMayThrow, EReadsMemory, EWritesMemory]"
| "coreEffects O_CallNative = effectsOf [ECalls, EMayThrow, EReadsMemory, EWritesMemory]"
| "coreEffects O_MakeClosure = effectsOf [EAllocation]"
| "coreEffects O_NewCollection = effectsOf [EAllocation]"
| "coreEffects O_RangeInBounds = effectsOf [EPure, EMayThrow]"
| "coreEffects O_Log = effectsOf [EObservableIO, EMayThrow]"

primrec syncEffects :: "sync_op \<Rightarrow> effect_set" where
  "syncEffects O_Await = effectsOf [ESuspension, ETaskEffect, EMayThrow, EReadsMemory, EWritesMemory]"
| "syncEffects O_TaskCreate = effectsOf [EAllocation, ETaskEffect]"
| "syncEffects O_TaskSpawn = effectsOf [ETaskEffect, EThreadBoundary, EMayThrow, EWritesMemory]"
| "syncEffects O_TaskBlock = effectsOf [ETaskEffect, ESynchronization, EMayThrow, EReadsMemory, EWritesMemory]"
| "syncEffects O_TaskIgnore = effectsOf [ETaskEffect, EMayThrow, EWritesMemory]"
| "syncEffects O_TaskCancel = effectsOf [ETaskEffect, EMayThrow, EWritesMemory]"
| "syncEffects O_ThreadStart = effectsOf [EThreadBoundary, EMayThrow, EWritesMemory]"
| "syncEffects O_ThreadJoin = effectsOf [EThreadBoundary, ESynchronization, EMayThrow, EReadsMemory, EWritesMemory]"
| "syncEffects O_ThreadIsAlive = effectsOf [ESynchronization, EVolatileRead, EMayThrow]"
| "syncEffects O_ChannelCreate = effectsOf [EAllocation, EMayThrow]"
| "syncEffects O_ChannelSend = effectsOf [ESynchronization, EMayThrow, EReadsMemory, EWritesMemory]"
| "syncEffects O_ChannelReceive = effectsOf [ESynchronization, EMayThrow, EReadsMemory, EWritesMemory]"
| "syncEffects O_ChannelSize = effectsOf [ESynchronization, EVolatileRead, EMayThrow]"
| "syncEffects O_ChannelSendAsync = effectsOf [ESynchronization, ETaskEffect, EMayThrow, EReadsMemory, EWritesMemory]"
| "syncEffects O_ChannelReceiveAsync = effectsOf [ESynchronization, ETaskEffect, EMayThrow, EReadsMemory, EWritesMemory]"
| "syncEffects O_MutexWithLock = effectsOf [ESynchronization, EUnwindBarrier, ECalls, EMayThrow, EReadsMemory, EWritesMemory]"
| "syncEffects O_RwLockWithRead = effectsOf [ESynchronization, EUnwindBarrier, ECalls, EMayThrow, EReadsMemory, EWritesMemory]"
| "syncEffects O_RwLockWithWrite = effectsOf [ESynchronization, EUnwindBarrier, ECalls, EMayThrow, EReadsMemory, EWritesMemory]"
| "syncEffects O_AtomicLoad = effectsOf [ESynchronization, EVolatileRead, EMayThrow]"
| "syncEffects O_AtomicStore = effectsOf [ESynchronization, EMayThrow, EWritesMemory]"
| "syncEffects O_AtomicAdd = effectsOf [ESynchronization, EVolatileRead, EMayThrow, EWritesMemory]"
| "syncEffects O_AtomicLoadBool = effectsOf [ESynchronization, EVolatileRead, EMayThrow]"
| "syncEffects O_AtomicStoreBool = effectsOf [ESynchronization, EMayThrow, EWritesMemory]"
| "syncEffects O_AtomicLoadDouble = effectsOf [ESynchronization, EVolatileRead, EMayThrow]"
| "syncEffects O_AtomicStoreDouble = effectsOf [ESynchronization, EMayThrow, EWritesMemory]"
| "syncEffects O_AtomicLoadRef = effectsOf [ESynchronization, EVolatileRead, EMayThrow]"
| "syncEffects O_AtomicStoreRef = effectsOf [ESynchronization, EMayThrow, EWritesMemory]"
| "syncEffects O_SemaphoreAcquire = effectsOf [ESynchronization, EMayThrow, EWritesMemory]"
| "syncEffects O_SemaphoreRelease = effectsOf [ESynchronization, EMayThrow, EWritesMemory]"
| "syncEffects O_SemaphoreAvailable = effectsOf [ESynchronization, EVolatileRead, EMayThrow]"
| "syncEffects O_SemaphoreSetPermits = effectsOf [ESynchronization, EMayThrow, EWritesMemory]"
| "syncEffects O_SemaphoreTryAcquire = effectsOf [ESynchronization, EVolatileRead, EMayThrow]"
| "syncEffects O_SemaphoreReleaseMany = effectsOf [ESynchronization, EMayThrow, EWritesMemory]"
| "syncEffects O_ConditionWait = effectsOf [ESynchronization, EMayThrow, EReadsMemory, EWritesMemory]"
| "syncEffects O_ConditionWaitFor = effectsOf [ESynchronization, EMayThrow, EReadsMemory, EWritesMemory]"
| "syncEffects O_ConditionNotifyOne = effectsOf [ESynchronization, EMayThrow, EReadsMemory, EWritesMemory]"
| "syncEffects O_ConditionNotifyAll = effectsOf [ESynchronization, EMayThrow, EReadsMemory, EWritesMemory]"
| "syncEffects O_SharedCreate = effectsOf [EAllocation]"
| "syncEffects O_SharedGet = effectsOf [ESynchronization, EVolatileRead, EMayThrow]"
| "syncEffects O_SharedSet = effectsOf [ESynchronization, EMayThrow, EWritesMemory]"
| "syncEffects O_SharedWithLock = effectsOf [ESynchronization, EUnwindBarrier, ECalls, EMayThrow, EReadsMemory, EWritesMemory]"

primrec resEffects :: "res_op \<Rightarrow> effect_set" where
  "resEffects O_FfiCall = effectsOf [ENativeResource, ECalls, EMayThrow, EReadsMemory, EWritesMemory]"
| "resEffects O_HandleBorrow = effectsOf [ENativeResource, ERuntimeCheck, EMayThrow]"
| "resEffects O_HandleConsume = effectsOf [ENativeResource, ERuntimeCheck, EMayThrow, EWritesMemory]"
| "resEffects O_HandleClose = effectsOf [ENativeResource, ERuntimeCheck, EMayThrow, EWritesMemory]"
| "resEffects O_CallbackRegister = effectsOf [ENativeResource, ERuntimeCheck, EMayThrow, EWritesMemory]"
| "resEffects O_CallbackInvoke = effectsOf [ENativeResource, ECalls, EMayThrow, EReadsMemory, EWritesMemory]"
| "resEffects O_CallbackClose = effectsOf [ENativeResource, ERuntimeCheck, EMayThrow, EWritesMemory]"
| "resEffects O_Move = effectsOf [EOwnership, EReadsMemory, EWritesMemory, EMayThrow]"
| "resEffects O_Borrow = effectsOf [EOwnership, EWritesMemory, EMayThrow]"
| "resEffects O_EndBorrow = effectsOf [EOwnership, EReadsMemory, EWritesMemory, EMayThrow]"
| "resEffects O_Drop = effectsOf [EOwnership, EReadsMemory, EWritesMemory, EMayThrow]"

primrec classifyOpcode :: "opcode \<Rightarrow> effect_set" where
  "classifyOpcode (Core op) = coreEffects op"
| "classifyOpcode (Sync op) = syncEffects op"
| "classifyOpcode (Res op) = resEffects op"

subsection \<open>Compile-time evaluation\<close>

text \<open>The type of a constant; nil and enum members pin none down.\<close>

fun constantTypeOf :: "mir_constant \<Rightarrow> type_id" where
  "constantTypeOf (CBool _) = boolType"
| "constantTypeOf (CInt _) = intType"
| "constantTypeOf (CDouble _) = doubleType"
| "constantTypeOf (CString _) = stringType"
| "constantTypeOf _ = 0"

text \<open>\<open>isNullable\<close> is called with fuel for the whole arena, enough by \<open>isNullable_correct\<close>.\<close>

definition constantMatchesType :: "mir_module \<Rightarrow> mir_constant \<Rightarrow> type_id \<Rightarrow> bool" where
  "constantMatchesType m c t =
     (if t = 0 then False
      else if constantTypeOf c \<noteq> 0 then constantTypeOf c = t
      else case c of
        CNil \<Rightarrow> isNullable (Suc t) (mo_types m) t = Some True
      | CEnumMember ty _ \<Rightarrow>
          (case findType (mo_types m) t of
             Some d \<Rightarrow> ty_kind d = TyObject \<and> ty_name d = ty
           | None \<Rightarrow> False)
      | _ \<Rightarrow> False)"

definition constantOperand :: "mir_module \<Rightarrow> operand \<Rightarrow> mir_constant option" where
  "constantOperand m o' = (if op_kind o' \<noteq> OkConst then None else constantById m (op_index o'))"

definition finiteDouble :: "f64 \<Rightarrow> mir_constant option" where
  "finiteDouble r = (if \<not> f64_isfinite r then None else Some (CDouble r))"

text \<open>
  The cases of \<open>foldInstruction\<close> on two operands and on one, before the check of the result type;
  \<open>None\<close> is "raises at run time, or not known". \<open>pw\<close> is \<open>std::pow\<close>.
\<close>

definition foldAddSubMul :: "core_op \<Rightarrow> mir_constant \<Rightarrow> mir_constant \<Rightarrow> mir_constant option" where
  "foldAddSubMul op a b =
     (case (a, b) of
        (CInt x, CInt y) \<Rightarrow>
          map_option CInt
            (if op = O_Add then addChecked x y else if op = O_Sub then subChecked x y
             else mulChecked x y)
      | (CDouble x, CDouble y) \<Rightarrow>
          finiteDouble
            (if op = O_Add then f64_add x y else if op = O_Sub then f64_sub x y else f64_mul x y)
      | (CString s, CString s') \<Rightarrow> if op = O_Add then Some (CString (s @ s')) else None
      | _ \<Rightarrow> None)"

definition foldDiv :: "mir_constant \<Rightarrow> mir_constant \<Rightarrow> mir_constant option" where
  "foldDiv a b =
     (case (a, b) of
        (CInt x, CInt y) \<Rightarrow>
          if y = 0 then None
          else if sint x = INT64_MIN \<and> sint y = - 1 then None
          else Some (CInt (word_of_int (tdiv (sint x) (sint y))))
      | (CDouble x, CDouble y) \<Rightarrow>
          if f64_eq y f64_zero then None else finiteDouble (f64_div x y)
      | _ \<Rightarrow> None)"

definition foldMod :: "mir_constant \<Rightarrow> mir_constant \<Rightarrow> mir_constant option" where
  "foldMod a b =
     (case (a, b) of
        (CInt x, CInt y) \<Rightarrow>
          if y = 0 then None
          else if sint x = INT64_MIN \<and> sint y = - 1 then Some (CInt 0)
          else Some (CInt (word_of_int (tmod (sint x) (sint y))))
      | (CDouble x, CDouble y) \<Rightarrow>
          if f64_eq y f64_zero then None else Some (CDouble (f64_fmod x y))
      | _ \<Rightarrow> None)"

definition foldPow ::
  "(f64 \<Rightarrow> f64 \<Rightarrow> f64) \<Rightarrow> mir_constant \<Rightarrow> mir_constant \<Rightarrow> mir_constant option"
where
  "foldPow pw a b =
     (case (a, b) of
        (CInt x, CInt y) \<Rightarrow> if sint y < 0 then None else map_option CInt (powChecked x y)
      | (CDouble x, CDouble y) \<Rightarrow> finiteDouble (pw x y)
      | _ \<Rightarrow> None)"

definition foldBitwise :: "core_op \<Rightarrow> mir_constant \<Rightarrow> mir_constant \<Rightarrow> mir_constant option" where
  "foldBitwise op a b =
     (case (a, b) of
        (CInt x, CInt y) \<Rightarrow>
          (case op of
             O_BitAnd \<Rightarrow> Some (CInt (x AND y))
           | O_BitOr \<Rightarrow> Some (CInt (x OR y))
           | O_BitXor \<Rightarrow> Some (CInt (x XOR y))
           | O_Shl \<Rightarrow>
               if sint y < 0 \<or> 64 \<le> sint y then None else Some (CInt (push_bit (unat y) x))
           | O_Shr \<Rightarrow>
               if sint y < 0 \<or> 64 \<le> sint y then None else Some (CInt (shiftRightArithmetic x y))
           | O_Ushr \<Rightarrow>
               if sint y < 0 \<or> 64 \<le> sint y then None else Some (CInt (drop_bit (unat y) x))
           | _ \<Rightarrow> None)
      | _ \<Rightarrow> None)"

fun numericDouble :: "mir_constant \<Rightarrow> f64 option" where
  "numericDouble (CInt i) = Some (f64_of_int (sint i))"
| "numericDouble (CDouble d) = Some d"
| "numericDouble _ = None"

definition foldEqual :: "mir_constant \<Rightarrow> mir_constant \<Rightarrow> bool option" where
  "foldEqual a b =
     (case (a, b) of
        (CInt x, CInt y) \<Rightarrow> Some (x = y)
      | (CBool x, CBool y) \<Rightarrow> Some (x = y)
      | (CString x, CString y) \<Rightarrow> Some (x = y)
      | (CNil, CNil) \<Rightarrow> Some True
      | _ \<Rightarrow>
          (case (numericDouble a, numericDouble b) of
             (Some x, Some y) \<Rightarrow>
               Some (if f64_isnan x \<or> f64_isnan y then False else f64_eq x y)
           | _ \<Rightarrow> None))"

definition foldOrdered :: "core_op \<Rightarrow> mir_constant \<Rightarrow> mir_constant \<Rightarrow> mir_constant option" where
  "foldOrdered op a b =
     (case (numericDouble a, numericDouble b) of
        (Some x, Some y) \<Rightarrow>
          if f64_isnan x \<or> f64_isnan y then Some (CBool False)
          else (case op of
                  O_Lt \<Rightarrow> Some (CBool (f64_lt x y))
                | O_Le \<Rightarrow> Some (CBool (f64_le x y))
                | O_Gt \<Rightarrow> Some (CBool (f64_lt y x))
                | O_Ge \<Rightarrow> Some (CBool (f64_le y x))
                | _ \<Rightarrow> None)
      | _ \<Rightarrow> None)"

definition foldBinary ::
  "(f64 \<Rightarrow> f64 \<Rightarrow> f64) \<Rightarrow> core_op \<Rightarrow> mir_constant \<Rightarrow> mir_constant \<Rightarrow> mir_constant option"
where
  "foldBinary pw op a b =
     (if op \<in> {O_Add, O_Sub, O_Mul} then foldAddSubMul op a b
      else if op = O_Div then foldDiv a b
      else if op = O_Mod then foldMod a b
      else if op = O_Pow then foldPow pw a b
      else if op \<in> {O_BitAnd, O_BitOr, O_BitXor, O_Shl, O_Shr, O_Ushr} then foldBitwise op a b
      else if op = O_And \<or> op = O_Or then
        (case (a, b) of
           (CBool x, CBool y) \<Rightarrow> Some (CBool (if op = O_And then x \<and> y else x \<or> y))
         | _ \<Rightarrow> None)
      else if op = O_Eq \<or> op = O_Ne then
        map_option (\<lambda>e. CBool (if op = O_Eq then e else \<not> e)) (foldEqual a b)
      else if op \<in> {O_Lt, O_Le, O_Gt, O_Ge} then foldOrdered op a b
      else None)"

definition foldUnary :: "core_op \<Rightarrow> mir_constant \<Rightarrow> mir_constant option" where
  "foldUnary op a =
     (case (op, a) of
        (O_Neg, CInt x) \<Rightarrow> if sint x = INT64_MIN then None else Some (CInt (- x))
      | (O_Neg, CDouble x) \<Rightarrow> Some (CDouble (f64_neg x))
      | (O_BitNot, CInt x) \<Rightarrow> Some (CInt (NOT x))
      | (O_Not, CBool x) \<Rightarrow> Some (CBool (\<not> x))
      | (O_Widen, CInt x) \<Rightarrow> Some (CDouble (f64_of_int (sint x)))
      | _ \<Rightarrow> None)"

definition typedResult :: "mir_module \<Rightarrow> type_id \<Rightarrow> mir_constant option \<Rightarrow> mir_constant option" where
  "typedResult m t r =
     (case r of
        None \<Rightarrow> None
      | Some c \<Rightarrow> if t = 0 then None else if \<not> constantMatchesType m c t then None else Some c)"

definition foldInstruction ::
  "(f64 \<Rightarrow> f64 \<Rightarrow> f64) \<Rightarrow> mir_module \<Rightarrow> instruction \<Rightarrow> mir_constant option"
where
  "foldInstruction pw m ins =
     (if \<not> hasEffect (classifyOpcode (in_opcode ins)) EPure then None
      else if in_result ins = 0 then None
      else case (in_opcode ins, map (constantOperand m) (in_operands ins)) of
        (Core op, [Some a]) \<Rightarrow> typedResult m (in_resultType ins) (foldUnary op a)
      | (Core op, [Some a, Some b]) \<Rightarrow> typedResult m (in_resultType ins) (foldBinary pw op a b)
      | _ \<Rightarrow> None)"

subsection \<open>The effect of one instruction\<close>

definition intAt :: "mir_module \<Rightarrow> instruction \<Rightarrow> nat \<Rightarrow> int64 option" where
  "intAt m ins i =
     (if i < length (in_operands ins) then
        (case constantOperand m (in_operands ins ! i) of Some (CInt v) \<Rightarrow> Some v | _ \<Rightarrow> None)
      else None)"

definition divisionCanRaise :: "int64 option \<Rightarrow> int64 option \<Rightarrow> bool" where
  "divisionCanRaise dividend divisor =
     (case divisor of
        None \<Rightarrow> True
      | Some d \<Rightarrow>
          if d = 0 then True
          else if sint d = - 1 then
            (case dividend of Some n \<Rightarrow> sint n = INT64_MIN | None \<Rightarrow> True)
          else False)"

definition allNumeric :: "instruction \<Rightarrow> bool" where
  "allNumeric ins =
     ((\<forall>o' \<in> set (in_operands ins). op_type o' = intType \<or> op_type o' = doubleType) \<and>
      in_operands ins \<noteq> [])"

text \<open>The second and third tier: what the constants it has, or its operand types, exclude.\<close>

definition coreCanRaise :: "mir_module \<Rightarrow> instruction \<Rightarrow> core_op \<Rightarrow> bool" where
  "coreCanRaise m ins op =
     (if op = O_Add then
        (if length (in_operands ins) = 2 \<and>
            (op_type (in_operands ins ! 0) = stringType \<or> op_type (in_operands ins ! 1) = stringType)
         then False
         else \<not> (intAt m ins 0 = Some 0 \<or> intAt m ins 1 = Some 0))
      else if op = O_Sub then intAt m ins 1 \<noteq> Some 0
      else if op = O_Mul then
        \<not> (intAt m ins 0 \<in> {Some 0, Some 1} \<or> intAt m ins 1 \<in> {Some 0, Some 1})
      else if op = O_Div \<or> op = O_Mod then divisionCanRaise (intAt m ins 0) (intAt m ins 1)
      else if op \<in> {O_Shl, O_Shr, O_Ushr} then
        (case intAt m ins 1 of Some n \<Rightarrow> \<not> (0 \<le> sint n \<and> sint n < 64) | None \<Rightarrow> True)
      else if op = O_Eq \<or> op = O_Ne then False
      else if op \<in> {O_Lt, O_Le, O_Gt, O_Ge} then \<not> allNumeric ins
      else True)"

definition operationCanRaise :: "(f64 \<Rightarrow> f64 \<Rightarrow> f64) \<Rightarrow> mir_module \<Rightarrow> instruction \<Rightarrow> bool" where
  "operationCanRaise pw m ins =
     (if in_result ins = 0 then True
      else if foldInstruction pw m ins \<noteq> None then False
      else case in_opcode ins of Core op \<Rightarrow> coreCanRaise m ins op | _ \<Rightarrow> True)"

definition classifyInstruction :: "(f64 \<Rightarrow> f64 \<Rightarrow> f64) \<Rightarrow> mir_module \<Rightarrow> instruction \<Rightarrow> effect_set" where
  "classifyInstruction pw m ins =
     (let effects = classifyOpcode (in_opcode ins)
      in if hasEffect effects EMayThrow \<and> hasEffect effects EPure \<and> \<not> operationCanRaise pw m ins
         then effects AND NOT (effectMask EMayThrow)
         else effects)"

definition instructionMayThrow :: "(f64 \<Rightarrow> f64 \<Rightarrow> f64) \<Rightarrow> mir_module \<Rightarrow> instruction \<Rightarrow> bool" where
  "instructionMayThrow pw m ins = hasEffect (classifyInstruction pw m ins) EMayThrow"

definition effectsRemovable :: "effect_set \<Rightarrow> bool" where
  "effectsRemovable s \<longleftrightarrow> s AND NOT (effectsOf [EPure, EReadsMemory]) = 0"

definition isRemovableIfResultUnused :: "(f64 \<Rightarrow> f64 \<Rightarrow> f64) \<Rightarrow> mir_module \<Rightarrow> instruction \<Rightarrow> bool" where
  "isRemovableIfResultUnused pw m ins =
     (if in_result ins = 0 then False else effectsRemovable (classifyInstruction pw m ins))"

definition isObservableEffect :: "effect_set \<Rightarrow> bool" where
  "isObservableEffect s \<longleftrightarrow>
     s AND effectsOf [EObservableIO, ECalls, ETaskEffect, EThreadBoundary, ESuspension,
                      ENativeResource, EOwnership, ESynchronization, EVolatileRead, EWritesMemory] \<noteq> 0"

subsection \<open>What the VM computes for a pure instruction\<close>

text \<open>
  The lowering of pure MIR opcodes to bytecode (\<^verbatim>\<open>src/mir/vm_backend.cpp\<close>) and the dispatch of the
  interpreter on them (\<^verbatim>\<open>src/vm/vm.cpp\<close>). A widening emits no code: the value passes through.
\<close>

fun constValue :: "mir_constant \<Rightarrow> zvalue" where
  "constValue (CBool b) = VBool b"
| "constValue (CInt i) = VInt i"
| "constValue (CDouble d) = VDouble d"
| "constValue (CString s) = VString s"
| "constValue CNil = VNil"
| "constValue (CEnumMember _ s) = VString s"

definition vmBinaryOp :: "core_op \<Rightarrow> vm_op option" where
  "vmBinaryOp op =
     (case op of
        O_Add \<Rightarrow> Some OpAdd | O_Sub \<Rightarrow> Some OpSub | O_Mul \<Rightarrow> Some OpMul | O_Div \<Rightarrow> Some OpDiv
      | O_Mod \<Rightarrow> Some OpMod | O_Pow \<Rightarrow> Some OpPow
      | O_BitAnd \<Rightarrow> Some OpBitAnd | O_BitOr \<Rightarrow> Some OpBitOr | O_BitXor \<Rightarrow> Some OpBitXor
      | O_Shl \<Rightarrow> Some OpShl | O_Shr \<Rightarrow> Some OpShr | O_Ushr \<Rightarrow> Some OpUshr
      | O_Eq \<Rightarrow> Some OpEq | O_Ne \<Rightarrow> Some OpNeq | O_Lt \<Rightarrow> Some OpLt | O_Le \<Rightarrow> Some OpLte
      | O_Gt \<Rightarrow> Some OpGt | O_Ge \<Rightarrow> Some OpGte
      | _ \<Rightarrow> None)"

definition vmUnaryOp :: "core_op \<Rightarrow> vm_op option" where
  "vmUnaryOp op =
     (case op of O_Neg \<Rightarrow> Some OpNeg | O_Not \<Rightarrow> Some OpNot | O_BitNot \<Rightarrow> Some OpBitNot | _ \<Rightarrow> None)"

definition execBinary :: "vm_env \<Rightarrow> vm_op \<Rightarrow> zvalue \<Rightarrow> zvalue \<Rightarrow> vm_error + zvalue" where
  "execBinary env op a b =
     (if op \<in> {OpAdd, OpSub, OpMul, OpDiv, OpMod, OpPow} then binaryArith env op a b
      else if op \<in> {OpBitAnd, OpBitOr, OpBitXor, OpShl, OpShr, OpUshr} then binaryBitwise op a b
      else if op \<in> {OpEq, OpNeq, OpLt, OpGt, OpLte, OpGte} then binaryCompare env op a b
      else Inr (binaryLogical env op a b))"

text \<open>\<open>None\<close> is an opcode or an operand count that is not emitted this way.\<close>

definition evalPure :: "vm_env \<Rightarrow> core_op \<Rightarrow> zvalue list \<Rightarrow> (vm_error + zvalue) option" where
  "evalPure env op vs =
     (case vs of
        [a] \<Rightarrow>
          if op = O_Widen then Some (Inr a)
          else if op = O_IsNull then Some (binaryCompare env OpEq a VNil)
          else map_option (\<lambda>v. unary env v a) (vmUnaryOp op)
      | [a, b] \<Rightarrow> map_option (\<lambda>v. execBinary env v a b) (vmBinaryOp op)
      | [current, stop, step] \<Rightarrow>
          if op = O_RangeInBounds then Some (map_sum id VBool (rangeContinue current stop step))
          else None
      | _ \<Rightarrow> None)"

subsection \<open>The evaluator agrees with the interpreter\<close>

lemma liftDouble_checked:
  "f64_isfinite r \<Longrightarrow> liftDouble (checkedDoubleResult r w) = Inr (VDouble r)"
  by (cases r) (simp_all add: liftDouble_def checkedDoubleResult_def)

lemma finiteDouble_Some [simp]: "finiteDouble r = Some c \<longleftrightarrow> f64_isfinite r \<and> c = CDouble r"
  by (auto simp: finiteDouble_def)

lemma evalPure_binary [simp]:
  "evalPure env op [a, b] = map_option (\<lambda>v. execBinary env v a b) (vmBinaryOp op)"
  by (simp add: evalPure_def)

lemma vmBinaryOp_simps [simp]:
  "vmBinaryOp O_Add = Some OpAdd" "vmBinaryOp O_Sub = Some OpSub" "vmBinaryOp O_Mul = Some OpMul"
  "vmBinaryOp O_Div = Some OpDiv" "vmBinaryOp O_Mod = Some OpMod" "vmBinaryOp O_Pow = Some OpPow"
  "vmBinaryOp O_BitAnd = Some OpBitAnd" "vmBinaryOp O_BitOr = Some OpBitOr"
  "vmBinaryOp O_BitXor = Some OpBitXor" "vmBinaryOp O_Shl = Some OpShl"
  "vmBinaryOp O_Shr = Some OpShr" "vmBinaryOp O_Ushr = Some OpUshr"
  "vmBinaryOp O_Eq = Some OpEq" "vmBinaryOp O_Ne = Some OpNeq" "vmBinaryOp O_Lt = Some OpLt"
  "vmBinaryOp O_Le = Some OpLte" "vmBinaryOp O_Gt = Some OpGt" "vmBinaryOp O_Ge = Some OpGte"
  by (simp_all add: vmBinaryOp_def)

lemma execBinary_simps [simp]:
  "op \<in> {OpAdd, OpSub, OpMul, OpDiv, OpMod, OpPow} \<Longrightarrow> execBinary env op a b = binaryArith env op a b"
  "op \<in> {OpBitAnd, OpBitOr, OpBitXor, OpShl, OpShr, OpUshr} \<Longrightarrow> execBinary env op a b = binaryBitwise op a b"
  "op \<in> {OpEq, OpNeq, OpLt, OpGt, OpLte, OpGte} \<Longrightarrow> execBinary env op a b = binaryCompare env op a b"
  by (auto simp: execBinary_def)

lemma binaryArith_ints [simp]:
  "op \<notin> {OpPow} \<Longrightarrow> vmIntArith op x y = Some r \<Longrightarrow> binaryArith env op (VInt x) (VInt y) = r"
  by (simp add: binaryArith_def)

lemma binaryArith_doubles [simp]:
  "op \<noteq> OpPow \<Longrightarrow> binaryArith env op (VDouble x) (VDouble y) = vmDoubleArith op x y"
  by (simp add: binaryArith_def)

lemma foldAddSubMul_sound:
  assumes "foldAddSubMul op a b = Some c" "op \<in> {O_Add, O_Sub, O_Mul}"
  shows "evalPure env op [constValue a, constValue b] = Some (Inr (constValue c))"
proof -
  consider "op = O_Add" | "op = O_Sub" | "op = O_Mul" using assms(2) by blast
  then show ?thesis using assms(1)
    by cases (cases a; cases b; auto simp: foldAddSubMul_def vmIntArith_def orOverflow_def
      vmDoubleArith_def liftDouble_checked binaryArith_def)+
qed

lemma foldDiv_sound:
  "foldDiv a b = Some c \<Longrightarrow>
   evalPure env O_Div [constValue a, constValue b] = Some (Inr (constValue c))"
  by (cases a; cases b)
    (auto simp: foldDiv_def vmIntArith_def vmDoubleArith_def
      liftDouble_checked split: if_splits)

lemma foldMod_sound:
  "foldMod a b = Some c \<Longrightarrow>
   evalPure env O_Mod [constValue a, constValue b] = Some (Inr (constValue c))"
  by (cases a; cases b)
    (auto simp: foldMod_def vmIntArith_def vmDoubleArith_def
      split: if_splits)

lemma foldPow_sound:
  "foldPow (env_pow env) a b = Some c \<Longrightarrow>
   evalPure env O_Pow [constValue a, constValue b] = Some (Inr (constValue c))"
  by (cases a; cases b)
    (auto simp: foldPow_def binaryArith_def vmPow_def
      liftDouble_checked split: if_splits)

lemma foldBitwise_sound:
  assumes "foldBitwise op a b = Some c" "op \<in> {O_BitAnd, O_BitOr, O_BitXor, O_Shl, O_Shr, O_Ushr}"
  shows "evalPure env op [constValue a, constValue b] = Some (Inr (constValue c))"
proof -
  consider "op = O_BitAnd" | "op = O_BitOr" | "op = O_BitXor" | "op = O_Shl" | "op = O_Shr" | "op = O_Ushr"
    using assms(2) by blast
  then show ?thesis using assms(1)
    by cases (cases a; cases b; auto simp: foldBitwise_def binaryBitwise_def split: if_splits)+
qed

lemma foldUnary_sound:
  assumes "foldUnary op a = Some c" "op \<noteq> O_Widen"
  shows "evalPure env op [constValue a] = Some (Inr (constValue c))"
  using assms
  by (cases a; cases op)
    (auto simp: foldUnary_def evalPure_def vmUnaryOp_def unary_def isTruthy_def split: if_splits)

text \<open>
  The numbers on which conversion to double is exact: integers up to 2^53 in magnitude, finite
  doubles.
\<close>

fun exact_const :: "mir_constant \<Rightarrow> bool" where
  "exact_const (CInt i) \<longleftrightarrow> \<bar>sint i\<bar> \<le> 2 ^ 53"
| "exact_const (CDouble d) \<longleftrightarrow> f64_isfinite d \<and> f64_ok d"
| "exact_const _ \<longleftrightarrow> True"

lemma numericDouble_exact:
  assumes "numericDouble c = Some d" "exact_const c"
  shows "f64_isfinite d" "key_of (constValue c) = Some (KNum (f64_val d))"
proof -
  show "f64_isfinite d"
    using assms by (cases c) (auto simp: f64_of_int_exact)
  show "key_of (constValue c) = Some (KNum (f64_val d))"
    using assms
  proof (cases c)
    case (CInt i)
    then have "f64_val d = of_int (sint i)" using assms f64_val_of_int_exact [of "sint i"] by auto
    then show ?thesis using CInt by simp
  next
    case (CDouble e)
    then show ?thesis using assms by (cases e) auto
  qed simp_all
qed

lemma f64_le_finite: "f64_isfinite x \<Longrightarrow> f64_isfinite y \<Longrightarrow> f64_le x y \<longleftrightarrow> f64_val x \<le> f64_val y"
  by (auto simp: f64_le_def f64_lt_finite f64_eq_finite)

lemma foldOrdered_sound:
  assumes "foldOrdered op a b = Some c" "op \<in> {O_Lt, O_Le, O_Gt, O_Ge}"
    and "exact_const a" "exact_const b"
  shows "evalPure env op [constValue a, constValue b] = Some (Inr (constValue c))"
proof -
  obtain x y where xy: "numericDouble a = Some x" "numericDouble b = Some y"
    using assms(1) by (auto simp: foldOrdered_def split: option.splits)
  note x = numericDouble_exact [OF xy(1) assms(3)] and y = numericDouble_exact [OF xy(2) assms(4)]
  have "\<not> f64_isnan x" "\<not> f64_isnan y" using x(1) y(1) by (simp_all add: f64_isfinite_iff)
  note nan = this
  consider "op = O_Lt" | "op = O_Le" | "op = O_Gt" | "op = O_Ge" using assms(2) by blast
  then show ?thesis
    using nan assms(1) xy x(1) y(1) binaryCompare_ordered [OF x(2) y(2), of env]
    by cases (auto simp: foldOrdered_def f64_lt_finite f64_le_finite)
qed

lemma foldEqual_sound:
  assumes "foldEqual a b = Some e" "exact_const a" "exact_const b"
  shows "valuesEqual h (constValue a) (constValue b) = Inr e"
proof (cases "\<exists>x y. numericDouble a = Some x \<and> numericDouble b = Some y")
  case True
  then obtain x y where xy: "numericDouble a = Some x" "numericDouble b = Some y" by blast
  note x = numericDouble_exact [OF xy(1) assms(2)] and y = numericDouble_exact [OF xy(2) assms(3)]
  have "\<not> f64_isnan x" "\<not> f64_isnan y" using x(1) y(1) by (simp_all add: f64_isfinite_iff)
  then have "e \<longleftrightarrow> f64_val x = f64_val y"
    using assms xy x(1) y(1)
    by (cases a; cases b)
      (auto simp: foldEqual_def f64_eq_finite f64_val_of_int_exact sint_eq_iff [symmetric])
  then show ?thesis using valuesEqual_key [OF x(2) y(2)] by simp
next
  case False
  then show ?thesis
    using assms(1) by (cases a; cases b) (auto simp: foldEqual_def valuesEqual_def)
qed

lemma foldBinary_sound:
  assumes "foldBinary (env_pow env) op a b = Some c" "op \<noteq> O_And" "op \<noteq> O_Or"
    and exact: "op \<in> {O_Eq, O_Ne, O_Lt, O_Le, O_Gt, O_Ge} \<Longrightarrow> exact_const a \<and> exact_const b"
  shows "evalPure env op [constValue a, constValue b] = Some (Inr (constValue c))"
proof -
  consider "op \<in> {O_Add, O_Sub, O_Mul}" | "op = O_Div" | "op = O_Mod" | "op = O_Pow"
    | "op \<in> {O_BitAnd, O_BitOr, O_BitXor, O_Shl, O_Shr, O_Ushr}" | "op = O_Eq \<or> op = O_Ne"
    | "op \<in> {O_Lt, O_Le, O_Gt, O_Ge}"
    using assms(1-3) by (auto simp: foldBinary_def split: if_splits)
  then show ?thesis
  proof cases
    case 1 then show ?thesis using assms(1) by (intro foldAddSubMul_sound) (auto simp: foldBinary_def)
  next
    case 2 then show ?thesis using assms(1) foldDiv_sound by (simp add: foldBinary_def)
  next
    case 3 then show ?thesis using assms(1) foldMod_sound by (simp add: foldBinary_def)
  next
    case 4 then show ?thesis using assms(1) foldPow_sound by (simp add: foldBinary_def)
  next
    case 5 then show ?thesis using assms(1) by (intro foldBitwise_sound) (auto simp: foldBinary_def)
  next
    case 6
    with assms(1) obtain e where e: "foldEqual a b = Some e" "c = CBool (if op = O_Eq then e else \<not> e)"
      by (auto simp: foldBinary_def)
    moreover have "exact_const a" "exact_const b" using exact 6 by auto
    ultimately show ?thesis using 6 foldEqual_sound [of a b e "env_heap env"]
      by (auto simp: binaryCompare_def)
  next
    case 7 then show ?thesis using assms(1) exact by (intro foldOrdered_sound) (auto simp: foldBinary_def)
  qed
qed

definition operandConst :: "mir_module \<Rightarrow> operand \<Rightarrow> mir_constant" where
  "operandConst m o' = (case constantOperand m o' of Some c \<Rightarrow> c | None \<Rightarrow> CNil)"

lemma foldInstruction_cases:
  assumes "foldInstruction pw m ins = Some c"
  obtains (unary) op o1 a where "in_opcode ins = Core op" "in_operands ins = [o1]"
      "constantOperand m o1 = Some a" "foldUnary op a = Some c"
      "constantMatchesType m c (in_resultType ins)"
    | (binary) op o1 o2 a b where "in_opcode ins = Core op" "in_operands ins = [o1, o2]"
      "constantOperand m o1 = Some a" "constantOperand m o2 = Some b" "foldBinary pw op a b = Some c"
      "constantMatchesType m c (in_resultType ins)"
proof -
  have "\<exists>op. in_opcode ins = Core op" and
    "\<exists>op. in_opcode ins = Core op \<and>
      ((\<exists>o1 a. in_operands ins = [o1] \<and> constantOperand m o1 = Some a \<and> foldUnary op a = Some c) \<or>
       (\<exists>o1 o2 a b. in_operands ins = [o1, o2] \<and> constantOperand m o1 = Some a \<and>
          constantOperand m o2 = Some b \<and> foldBinary pw op a b = Some c)) \<and>
      constantMatchesType m c (in_resultType ins)"
    using assms
    by (auto simp: foldInstruction_def typedResult_def map_eq_Cons_conv
        split: if_splits opcode.splits list.splits option.splits)
  then show thesis using that by blast
qed

text \<open>C7: folding is sound: when the evaluator replaces a pure instruction by a constant, the constant is
  the value the interpreter computes for it (so nothing is raised), and it has the declared result
  type. Comparisons need operands that convert to double exactly, and widenings are left out.\<close>

theorem foldInstruction_sound:
  assumes "foldInstruction (env_pow env) m ins = Some c"
    and "in_opcode ins = Core op" and "op \<notin> {O_Widen, O_And, O_Or}"
    and "op \<in> {O_Eq, O_Ne, O_Lt, O_Le, O_Gt, O_Ge} \<Longrightarrow>
      \<forall>o' \<in> set (in_operands ins). exact_const (operandConst m o')"
  shows "evalPure env op (map (constValue \<circ> operandConst m) (in_operands ins)) =
      Some (Inr (constValue c)) \<and> constantMatchesType m c (in_resultType ins)"
  using assms(1)
proof (cases rule: foldInstruction_cases)
  case (unary op' o1 a)
  then show ?thesis using assms(2,3) foldUnary_sound [of op a c env] by (simp add: operandConst_def)
next
  case (binary op' o1 o2 a b)
  then have "op \<in> {O_Eq, O_Ne, O_Lt, O_Le, O_Gt, O_Ge} \<Longrightarrow> exact_const a \<and> exact_const b"
    using assms(4) by (simp add: operandConst_def)
  with binary show ?thesis
    using assms(2,3) foldBinary_sound [of env op a b c] by (simp add: operandConst_def)
qed

definition sampleInstruction :: "core_op \<Rightarrow> operand list \<Rightarrow> type_id \<Rightarrow> instruction" where
  "sampleInstruction op os t =
     \<lparr>in_opcode = Core op, in_result = 1, in_resultType = t, in_operands = os, in_name = [],
      in_target =
        \<lparr>ct_function = 0, ct_className = [], ct_methodName = [], ct_nativeName = [], ct_nativeId = - 1,
         ct_argumentTypes = [], ct_resultType = 0, ct_isAsync = False, ct_nativeParamOwnership = [],
         ct_nativeReturnOwnership = NoNone, ct_ffiLibrary = [], ct_ffiSymbol = [], ct_ffiParamTags = [],
         ct_ffiReturnTag = AbiI64, ct_ffiParamOwnership = [], ct_ffiReturnOwnership = NoNone\<rparr>,
      in_className = [], in_typeArguments = [], in_testedType = 0, in_slot = 0,
      in_location = \<lparr>sl_file = [], sl_line = 0, sl_column = 0\<rparr>\<rparr>"

definition sampleModule :: "mir_constant list \<Rightarrow> mir_module" where
  "sampleModule cs = empty_module\<lparr>mo_constants := cs\<rparr>"

theorem foldInstruction_sound_witness:
  "\<exists>c. foldInstruction (env_pow sample_env) (sampleModule [CInt 6, CInt 7])
     (sampleInstruction O_Mul [constOperand 1 intType, constOperand 2 intType] intType) = Some c \<and>
   evalPure sample_env O_Mul [VInt 6, VInt 7] = Some (Inr (constValue c))"
proof -
  let ?m = "sampleModule [CInt 6, CInt 7]"
  let ?i = "sampleInstruction O_Mul [constOperand 1 intType, constOperand 2 intType] intType"
  have pool: "constantOperand ?m (constOperand (Suc 0) t) = Some (CInt 6)"
    "constantOperand ?m (constOperand 2 t) = Some (CInt 7)" for t
    by (simp_all add: constantOperand_def constOperand_def constantById_def nth_from_1_def sampleModule_def)
  have "foldInstruction (env_pow sample_env) ?m ?i = Some (CInt 42)"
    by (simp add: foldInstruction_def sampleInstruction_def pool foldBinary_def foldAddSubMul_def
        hasEffect_def effectsOf_def effectMask_def typedResult_def constantMatchesType_def intType_def
        mulChecked_def in_int64_def INT64_MIN_def INT64_MAX_def)
  then show ?thesis
    using foldInstruction_sound [of sample_env ?m ?i "CInt 42" O_Mul]
    by (simp add: sampleInstruction_def operandConst_def pool)
qed

text \<open>
  Where folding and interpretation differ: ordering of integers that no double separates, equality
  of an integer with the double it rounds to, and a widening, which the interpreter leaves an
  integer.
\<close>

text \<open>Constant folding orders integers through their conversion to double and so decides
  \<open>9007199254740992 < 9007199254740993\<close> to be false, where the interpreter compares the integers and
  finds it true; likewise for the equality of 9007199254740993 with the double it rounds to.\<close>

theorem fold_compare_differs:
  "foldBinary pw O_Lt (CInt 9007199254740992) (CInt 9007199254740993) = Some (CBool False) \<and>
   evalPure env O_Lt [VInt 9007199254740992, VInt 9007199254740993] = Some (Inr (VBool True)) \<and>
   foldBinary pw O_Eq (CInt 9007199254740993) (CDouble (Fin False 9007199254740992)) = Some (CBool True) \<and>
   evalPure env O_Eq [VInt 9007199254740993, VDouble (Fin False 9007199254740992)] = Some (Inr (VBool False))"
proof -
  have "evalPure env O_Lt [VInt 9007199254740992, VInt 9007199254740993] = Some (Inr (VBool True))"
    using binaryCompare_ordered(1) [of "VInt 9007199254740992" 9007199254740992
        "VInt 9007199254740993" 9007199254740993 env] by simp
  moreover have "evalPure env O_Eq [VInt 9007199254740993, VDouble (Fin False 9007199254740992)] =
      Some (Inr (VBool False))"
    using binaryCompare_ordered(5) [of "VInt 9007199254740993" 9007199254740993
        "VDouble (Fin False 9007199254740992)" 9007199254740992 env] by simp
  ultimately show ?thesis
    by (simp add: foldBinary_def foldOrdered_def foldEqual_def f64_of_int_2_53)
qed

text \<open>A folded widening is a double while the interpreter keeps the integer it started from, and the
  difference reaches results: 7 widened and divided by 2 widened folds to 3.5, and runs as the
  integer division 3.\<close>

theorem fold_widen_differs:
  "foldUnary O_Widen (CInt 7) = Some (CDouble (Fin False 7)) \<and>
   foldUnary O_Widen (CInt 2) = Some (CDouble (Fin False 2)) \<and>
   foldBinary pw O_Div (CDouble (Fin False 7)) (CDouble (Fin False 2)) = Some (CDouble (Fin False (7 / 2))) \<and>
   evalPure env O_Widen [VInt 7] = Some (Inr (VInt 7)) \<and>
   evalPure env O_Widen [VInt 2] = Some (Inr (VInt 2)) \<and>
   evalPure env O_Div [VInt 7, VInt 2] = Some (Inr (VInt 3))"
proof -
  have "f64_div (Fin False 7) (Fin False 2) = Fin False (7 / 2)" by (simp add: f64_round_7_2)
  moreover have "vmIntArith OpDiv 7 2 = Some (Inr (VInt 3))"
    by (simp add: vmIntArith_def tdiv_def)
  ultimately show ?thesis
    by (simp add: foldUnary_def foldBinary_def foldDiv_def finiteDouble_def f64_of_int_exact
        f64_zero_def evalPure_def)
qed

subsection \<open>What cannot raise\<close>

definition numeric_ok :: "zvalue \<Rightarrow> bool" where
  "numeric_ok v = (case v of VInt i \<Rightarrow> True | VDouble d \<Rightarrow> f64_isfinite d \<and> f64_ok d | _ \<Rightarrow> False)"

text \<open>
  A value an operand may have at run time: a constant operand has its constant, and the type of
  any other operand says which values it takes. A double-typed operand may hold an integer, since
  widening emits no code; doubles are finite.
\<close>

definition conforms :: "mir_module \<Rightarrow> operand \<Rightarrow> zvalue \<Rightarrow> bool" where
  "conforms m o' v \<longleftrightarrow>
     (case constantOperand m o' of Some c \<Rightarrow> v = constValue c | None \<Rightarrow> True) \<and>
     (op_type o' = intType \<longrightarrow> (\<exists>i. v = VInt i)) \<and>
     (op_type o' = doubleType \<longrightarrow> numeric_ok v) \<and>
     (op_type o' = stringType \<longrightarrow> (\<exists>s. v = VString s))"

lemma f64_div_int_finite:
  assumes "f64_isfinite x" "f64_ok x" "n \<noteq> (0 :: int64)"
  shows "f64_isfinite (f64_div x (f64_of_int (sint n)))" "\<not> f64_eq (f64_of_int (sint n)) f64_zero"
proof -
  obtain s q where x: "x = Fin s q" "0 \<le> q" "f64_round s q = Fin s q" using assms by (cases x) auto
  have n: "1 \<le> \<bar>sint n\<bar>" "\<bar>sint n\<bar> \<le> 2 ^ 63"
    using assms(3) sint_zero_iff [of n] sint_bounds [of n] by (auto simp: INT64_MIN_def INT64_MAX_def)
  let ?a = "of_int \<bar>sint n\<bar> :: rat"
  have a: "1 \<le> ?a" "?a \<le> of_int (2 ^ 63)" using n by (simp_all only: of_int_le_iff of_int_1_le_iff)
  have top: "f64_round s' (of_int (2 ^ 63)) = Fin s' (of_int (2 ^ 63))" for s'
    using f64_round_2_63 by simp
  obtain r where r: "f64_round (sint n < 0) ?a = Fin (sint n < 0) r"
    using f64_round_Fin_mono [OF _ a(2) top] a(1) by fastforce
  have one: "f64_round s' 1 = Fin s' 1" for s' using f64_round_small_int [of 1 s'] by simp
  have "1 \<le> r" using round_mag_mono [of 1 ?a] a(1) r one [of True]
    by (auto simp: f64_round_mag split: if_splits)
  have of_n: "f64_of_int (sint n) = Fin (sint n < 0) r"
    using r by (simp add: f64_of_int_def f64_of_rat_def)
  then show "\<not> f64_eq (f64_of_int (sint n)) f64_zero"
    using \<open>1 \<le> r\<close> by (auto simp: f64_zero_def)
  show "f64_isfinite (f64_div x (f64_of_int (sint n)))"
  proof (cases "q = 0")
    case True
    then show ?thesis using x of_n \<open>1 \<le> r\<close> by auto
  next
    case False
    then have "0 < q / r" "q / r \<le> q" using x(2) \<open>1 \<le> r\<close> by (auto simp: field_simps mult_le_cancel_left1)
    from f64_round_Fin_mono [OF this x(3)]
    obtain r' where "f64_round (s \<noteq> (sint n < 0)) (q / r) = Fin (s \<noteq> (sint n < 0)) r'" by blast
    then show ?thesis using x(1) of_n \<open>1 \<le> r\<close> by auto
  qed
qed

lemma numeric_ok_cases:
  assumes "numeric_ok v"
  obtains (int) i where "v = VInt i" | (double) d where "v = VDouble d" "f64_isfinite d" "f64_ok d"
  using assms by (cases v) (auto simp: numeric_ok_def)

lemma liftDouble_noraise:
  "f64_isfinite r \<Longrightarrow> \<exists>w. liftDouble (checkedDoubleResult r what) = Inr w"
  by (auto simp: liftDouble_checked)

lemma f64_add_zero_finite:
  assumes "f64_isfinite d" "f64_ok d"
  shows "f64_isfinite (f64_add d (Fin s 0))" "f64_isfinite (f64_add (Fin s 0) d)"
  using assms by (cases d; auto simp: f64_of_rat_def split: if_splits)+

lemma f64_of_int_0_1 [simp]: "f64_of_int 0 = Fin False 0" "f64_of_int 1 = f64_one"
  by (simp_all add: f64_of_int_exact f64_one_def)

lemma add_zero_noraise:
  assumes "numeric_ok v"
  shows "\<exists>w. binaryArith env OpAdd v (VInt 0) = Inr w" "\<exists>w. binaryArith env OpAdd (VInt 0) v = Inr w"
    "\<exists>w. binaryArith env OpSub v (VInt 0) = Inr w"
  using assms
  by (cases rule: numeric_ok_cases;
      auto simp: binaryArith_def vmIntArith_def orOverflow_def addChecked_def subChecked_def
        vmDoubleArith_def f64_sub_def intro!: liftDouble_noraise f64_add_zero_finite)+

lemma mul_small_noraise:
  assumes "numeric_ok v" "n \<in> {0, 1}"
  shows "\<exists>w. binaryArith env OpMul v (VInt n) = Inr w" "\<exists>w. binaryArith env OpMul (VInt n) v = Inr w"
proof -
  have "f64_isfinite (f64_mul d (Fin False 0))" "f64_isfinite (f64_mul (Fin False 0) d)"
    if "f64_isfinite d" for d using that by (cases d; simp)+
  then show "\<exists>w. binaryArith env OpMul v (VInt n) = Inr w" "\<exists>w. binaryArith env OpMul (VInt n) v = Inr w"
    using assms(2)
    by (cases rule: numeric_ok_cases [OF assms(1)];
        auto simp: binaryArith_def vmIntArith_def orOverflow_def mulChecked_def in_int64_0
          vmDoubleArith_def f64_mul_one_right f64_mul_one_left intro!: liftDouble_noraise)+
qed

lemma div_noraise:
  assumes "numeric_ok v" "n \<noteq> 0" "sint n = - 1 \<Longrightarrow> \<exists>i. v = VInt i \<and> sint i \<noteq> INT64_MIN"
  shows "\<exists>w. binaryArith env OpDiv v (VInt n) = Inr w" "\<exists>w. binaryArith env OpMod v (VInt n) = Inr w"
  using assms(2,3)
  by (cases rule: numeric_ok_cases [OF assms(1)];
      auto simp: binaryArith_def vmIntArith_def vmDoubleArith_def f64_div_int_finite
        intro!: liftDouble_noraise)+

lemma shift_noraise:
  assumes "0 \<le> sint n" "sint n < 64" "op \<in> {OpShl, OpShr, OpUshr}"
  shows "\<exists>w. binaryBitwise op (VInt i) (VInt n) = Inr w"
  using assms by (auto simp: binaryBitwise_def)

lemma compare_noraise:
  assumes "isNumericValue v" "isNumericValue w" "op \<in> {OpLt, OpGt, OpLte, OpGte}"
  shows "\<exists>r. binaryCompare env op v w = Inr r"
  using assms by (cases v; cases w) (auto simp: binaryCompare_def compareNumericValues_def)

lemma numeric_ok_isNumeric: "numeric_ok v \<Longrightarrow> isNumericValue v"
  by (erule numeric_ok_cases) simp_all

text \<open>The operand types the verifier accepts for a binary operator.\<close>

definition operands_typed :: "core_op \<Rightarrow> type_id \<Rightarrow> type_id \<Rightarrow> bool" where
  "operands_typed op t u =
     (if op = O_Add then {t, u} \<subseteq> {intType, doubleType, stringType}
      else if op \<in> {O_BitAnd, O_BitOr, O_BitXor, O_Shl, O_Shr, O_Ushr} then t = intType \<and> u = intType
      else {t, u} \<subseteq> {intType, doubleType})"

lemma primitive_types_distinct [simp]:
  "intType \<noteq> doubleType" "intType \<noteq> stringType" "doubleType \<noteq> stringType"
  "doubleType \<noteq> intType" "stringType \<noteq> intType" "stringType \<noteq> doubleType"
  by (simp_all add: intType_def doubleType_def stringType_def)

lemma conforms_numeric:
  "conforms m o' v \<Longrightarrow> op_type o' \<in> {intType, doubleType} \<Longrightarrow> numeric_ok v"
  by (auto simp: conforms_def numeric_ok_def)

lemma conforms_string: "conforms m o' v \<Longrightarrow> op_type o' = stringType \<Longrightarrow> \<exists>s. v = VString s"
  by (simp add: conforms_def)

lemma conforms_const: "conforms m o' v \<Longrightarrow> constantOperand m o' = Some c \<Longrightarrow> v = constValue c"
  by (simp add: conforms_def)

lemma intAt_conforms:
  assumes "in_operands ins = [o1, o2]" "conforms m o1 v1" "conforms m o2 v2"
  shows "intAt m ins 0 = Some n \<Longrightarrow> v1 = VInt n" "intAt m ins 1 = Some n \<Longrightarrow> v2 = VInt n"
  using assms
  by (auto simp: intAt_def conforms_def split: option.splits mir_constant.splits)

lemma string_add_noraise: "\<exists>w. binaryArith env OpAdd (VString s) v = Inr w"
  "\<exists>w. binaryArith env OpAdd v (VString s) = Inr w"
  by (auto simp: binaryArith_def)

lemma folded_noraise:
  assumes "foldInstruction (env_pow env) m ins = Some c" "in_opcode ins = Core op"
    and ops: "in_operands ins = [o1, o2]" and c1: "conforms m o1 v1" and c2: "conforms m o2 v2"
    and "op \<notin> {O_And, O_Or, O_Eq, O_Ne}"
  shows "\<exists>w. evalPure env op [v1, v2] = Some (Inr w)"
  using assms(1)
proof (cases rule: foldInstruction_cases)
  case (binary op' p1 p2 a b)
  then have fold: "foldBinary (env_pow env) op a b = Some c" and p: "p1 = o1" "p2 = o2"
    using assms(2) ops by simp_all
  have v: "v1 = constValue a" "v2 = constValue b"
    using conforms_const [OF c1] conforms_const [OF c2] binary p by simp_all
  show ?thesis
  proof (cases "op \<in> {O_Lt, O_Le, O_Gt, O_Ge}")
    case True
    then consider "op = O_Lt" | "op = O_Le" | "op = O_Gt" | "op = O_Ge" by blast
    moreover have "foldOrdered op a b = Some c" using fold True by (auto simp: foldBinary_def)
    then obtain x y where "numericDouble a = Some x" "numericDouble b = Some y"
      by (auto simp: foldOrdered_def split: option.splits)
    then have "isNumericValue v1" "isNumericValue v2" unfolding v by (cases a; cases b; simp)+
    note num = this
    ultimately show ?thesis using compare_noraise [OF num, of _ env] by cases auto
  next
    case False
    then show ?thesis using foldBinary_sound [OF fold] assms(6) v by auto
  qed
qed (simp add: ops)

lemma div_canRaise:
  assumes "\<not> divisionCanRaise n d" "\<And>i. n = Some i \<Longrightarrow> v1 = VInt i" "\<And>i. d = Some i \<Longrightarrow> v2 = VInt i"
  obtains i where "v2 = VInt i" "i \<noteq> 0" "sint i = - 1 \<Longrightarrow> \<exists>j. v1 = VInt j \<and> sint j \<noteq> INT64_MIN"
  using assms by (auto simp: divisionCanRaise_def split: option.splits if_splits)



text \<open>Two operations the effect analysis declares unable to raise do raise: comparing views of a
  native struct whose owner is gone, and adding a string-typed operand that is null to a number.\<close>

theorem declared_safe_raises:
  "\<not> operationCanRaise pw m (sampleInstruction O_Eq os t) \<and>
   evalPure env O_Eq [VNativeStruct (Some p) 8 8 False, VNativeStruct (Some p) 8 8 False] =
     Some (Inl structViewError) \<and>
   \<not> operationCanRaise pw m
      (sampleInstruction O_Add [tempOperand 1 stringType, tempOperand 2 intType] stringType) \<and>
   evalPure env O_Add [VNil, VInt i] =
     Some (Inl (RuntimeError ''arithmetic operators require numbers (or strings, for +)''))"
  by (simp add: operationCanRaise_def coreCanRaise_def sampleInstruction_def tempOperand_def
      binaryCompare_def valuesEqual_def binaryArith_def)

subsection \<open>The opcode tables\<close>

lemma effectBit_less: "effectBit e < 32"
  by (cases e) simp_all

lemma bit_effectMask: "bit (effectMask e) n \<longleftrightarrow> n = effectBit e"
  using effectBit_less [of e] by (auto simp: effectMask_def bit_simps)

lemma bit_effectsOf: "bit (effectsOf es) n \<longleftrightarrow> (\<exists>e \<in> set es. n = effectBit e)"
proof -
  have "bit (fold (\<lambda>e s. s OR effectMask e) es s) n \<longleftrightarrow> bit s n \<or> (\<exists>e \<in> set es. n = effectBit e)" for s
    by (induction es arbitrary: s) (auto simp: bit_simps bit_effectMask)
  then show ?thesis by (simp add: effectsOf_def)
qed

lemma effectBit_inj: "effectBit e = effectBit e' \<Longrightarrow> e = e'"
  by (cases e; cases e'; simp)

lemma word_and_eq_0: "x AND y = 0 \<longleftrightarrow> (\<forall>n. \<not> (bit x n \<and> bit y n))" for x y :: effect_set
proof
  assume "x AND y = 0"
  then have "bit (x AND y) n = bit (0 :: effect_set) n" for n by simp
  then show "\<forall>n. \<not> (bit x n \<and> bit y n)" by (simp add: bit_and_iff)
qed (auto simp: bit_eq_iff bit_and_iff)

lemma hasEffect_effectsOf: "hasEffect (effectsOf es) e \<longleftrightarrow> e \<in> set es"
  unfolding hasEffect_def word_and_eq_0 bit_effectsOf bit_effectMask by (auto dest: effectBit_inj)

lemma effects_overlap:
  "effectsOf es AND effectsOf fs \<noteq> 0 \<longleftrightarrow> set es \<inter> set fs \<noteq> {}"
  unfolding word_and_eq_0 bit_effectsOf by (auto dest: effectBit_inj)

lemma effectsRemovable_effectsOf: "effectsRemovable (effectsOf es) \<longleftrightarrow> set es \<subseteq> {EPure, EReadsMemory}"
proof -
  have "effectsRemovable (effectsOf es) \<longleftrightarrow>
      (\<forall>n. bit (effectsOf es) n \<longrightarrow> bit (effectsOf [EPure, EReadsMemory]) n)"
    unfolding effectsRemovable_def word_and_eq_0 bit_not_iff
    using bit_imp_le_length [of "effectsOf es"] by auto
  also have "\<dots> \<longleftrightarrow> set es \<subseteq> {EPure, EReadsMemory}"
    unfolding bit_effectsOf by (fastforce dest: effectBit_inj)
  finally show ?thesis .
qed

lemmas effect_table_simps =
  opcodeShape_def setOpcodeShape_def hasEffect_effectsOf effectsRemovable_effectsOf
  isObservableEffect_def effects_overlap opcodeIsBlocking_def

text \<open>The shape table and the effect table agree in the safe direction for every opcode: what the
  shape says may throw is classified as throwing, what it says has side effects is never removable,
  a pure opcode is never observable, and every blocking opcode synchronises.\<close>

theorem opcode_tables_agree:
  "(sh_mayThrow (opcodeShape op) \<longrightarrow> hasEffect (classifyOpcode op) EMayThrow) \<and>
   (sh_hasSideEffects (opcodeShape op) \<longrightarrow> \<not> effectsRemovable (classifyOpcode op)) \<and>
   (hasEffect (classifyOpcode op) EPure \<longrightarrow> \<not> isObservableEffect (classifyOpcode op)) \<and>
   (opcodeIsBlocking op \<longrightarrow> hasEffect (classifyOpcode op) ESynchronization)"
proof (cases op)
  case (Core c) then show ?thesis by (cases c) (simp_all add: effect_table_simps)
next
  case (Sync s) then show ?thesis by (cases s) (simp_all add: effect_table_simps)
next
  case (Res r) then show ?thesis by (cases r) (simp_all add: effect_table_simps)
qed

theorem opcode_tables_agree_witness:
  "sh_mayThrow (opcodeShape (Sync O_ChannelSend)) \<and>
   hasEffect (classifyOpcode (Sync O_ChannelSend)) EMayThrow \<and>
   sh_hasSideEffects (opcodeShape (Sync O_ChannelSend)) \<and>
   \<not> effectsRemovable (classifyOpcode (Sync O_ChannelSend)) \<and>
   opcodeIsBlocking (Sync O_ChannelSend) \<and>
   hasEffect (classifyOpcode (Sync O_ChannelSend)) ESynchronization"
  using opcode_tables_agree [of "Sync O_ChannelSend"] by (simp add: effect_table_simps)

end
