(* ===== verification/Mir_Operators.thy ===== *)
theory Mir_Operators
  imports Mir_Effects
begin

text \<open>
  The typing rules of the built-in operators (\<^verbatim>\<open>src/compiler/operator_rules.cpp\<close>) with the type kinds
  they speak about (\<^verbatim>\<open>include/zl/compiler/semantic_types.hpp\<close>, \<^verbatim>\<open>semantic_types.cpp\<close>), and their
  agreement with what the interpreter computes. The type checker and the MIR verifier both consult
  these tables; the verifier's mapping from opcodes to operators is \<open>binaryOperator\<close>.
\<close>

datatype zl_type =
    INT_TYPE | DOUBLE | STRING | BOOL | VOID_TYPE | NIL | LIST | MAP | SET | ARRAY
  | OBJECT | FUNCTION | TASK | UNKNOWN_TYPE | UNION_TYPE

primrec zlTypeName :: "zl_type \<Rightarrow> string" where
  "zlTypeName INT_TYPE = ''int''"
| "zlTypeName DOUBLE = ''double''"
| "zlTypeName STRING = ''string''"
| "zlTypeName BOOL = ''bool''"
| "zlTypeName VOID_TYPE = ''void''"
| "zlTypeName NIL = ''nil''"
| "zlTypeName LIST = ''list''"
| "zlTypeName MAP = ''map''"
| "zlTypeName SET = ''set''"
| "zlTypeName ARRAY = ''array''"
| "zlTypeName OBJECT = ''object''"
| "zlTypeName FUNCTION = ''func''"
| "zlTypeName TASK = ''Task''"
| "zlTypeName UNKNOWN_TYPE = ''unknown''"
| "zlTypeName UNION_TYPE = ''union''"

definition zlTypeFromBaseName :: "string \<Rightarrow> zl_type" where
  "zlTypeFromBaseName name =
     (if name = ''int'' then INT_TYPE
      else if name = ''double'' \<or> name = ''float'' \<or> name = ''decimal'' then DOUBLE
      else if name = ''string'' then STRING
      else if name = ''bool'' then BOOL
      else if name = ''void'' then VOID_TYPE
      else if name = ''nil'' \<or> name = ''null'' then NIL
      else if name = ''func'' then FUNCTION
      else if name = ''unknown'' then UNKNOWN_TYPE
      else if name = ''Task'' then TASK
      else if name = ''list'' then LIST
      else if name = ''map'' then MAP
      else if name = ''set'' then SET
      else if name = ''array'' then ARRAY
      else OBJECT)"

datatype zl_operator =
    Plus | Minus | Multiply | Divide | Modulo | Power
  | BitAnd | BitOr | BitXor | ShiftLeft | ShiftRight | ShiftRightZero
  | Equal | NotEqual | Less | Greater | LessEqual | GreaterEqual
  | LogicalAnd | LogicalOr | Not | BitNot | UnknownOperator

primrec methodName :: "zl_operator \<Rightarrow> string" where
  "methodName Plus = ''operator+''"
| "methodName Minus = ''operator-''"
| "methodName Multiply = ''operator*''"
| "methodName Divide = ''operator/''"
| "methodName Modulo = ''operator%''"
| "methodName Power = ''operator^^''"
| "methodName BitAnd = ''operator&''"
| "methodName BitOr = ''operator|''"
| "methodName BitXor = ''operator^''"
| "methodName ShiftLeft = ''operator<<''"
| "methodName ShiftRight = ''operator>>''"
| "methodName ShiftRightZero = ''operator>>>''"
| "methodName Equal = ''operator==''"
| "methodName NotEqual = ''operator!=''"
| "methodName Less = ''operator<''"
| "methodName Greater = ''operator>''"
| "methodName LessEqual = ''operator<=''"
| "methodName GreaterEqual = ''operator>=''"
| "methodName LogicalAnd = []"
| "methodName LogicalOr = []"
| "methodName Not = ''operator!''"
| "methodName BitNot = ''operator~''"
| "methodName UnknownOperator = []"

definition unaryResult :: "zl_operator \<Rightarrow> zl_type \<Rightarrow> zl_type option" where
  "unaryResult op operand =
     (if op = Minus \<or> op = Plus then
        if operand = INT_TYPE then Some INT_TYPE else if operand = DOUBLE then Some DOUBLE else None
      else if op = Not then Some BOOL
      else if op = BitNot then if operand = INT_TYPE then Some INT_TYPE else None
      else None)"

definition arithmeticResult :: "zl_type \<Rightarrow> zl_type \<Rightarrow> zl_type option" where
  "arithmeticResult l r =
     (if l = INT_TYPE \<and> r = INT_TYPE then Some INT_TYPE else if l = DOUBLE \<or> r = DOUBLE then Some DOUBLE else None)"

definition numericType :: "zl_type \<Rightarrow> bool" where
  "numericType t \<longleftrightarrow> t = INT_TYPE \<or> t = DOUBLE"

definition binaryResult :: "zl_operator \<Rightarrow> zl_type \<Rightarrow> zl_type \<Rightarrow> zl_type option" where
  "binaryResult op l r =
     (if op = Plus then
        if l = STRING \<or> r = STRING then Some STRING else arithmeticResult l r
      else if op \<in> {Minus, Multiply, Divide, Modulo} then arithmeticResult l r
      else if op = Power then
        if l = INT_TYPE \<and> r = INT_TYPE then Some INT_TYPE
        else if numericType l \<and> numericType r then Some DOUBLE else None
      else if op \<in> {BitAnd, BitOr, BitXor, ShiftLeft, ShiftRight, ShiftRightZero} then
        if l = INT_TYPE \<and> r = INT_TYPE then Some INT_TYPE else None
      else if op = Equal \<or> op = NotEqual then Some BOOL
      else if op \<in> {Less, Greater, LessEqual, GreaterEqual} then
        if numericType l \<and> numericType r then Some BOOL else None
      else if op = LogicalAnd \<or> op = LogicalOr then Some BOOL
      else None)"

definition unaryError :: "zl_operator \<Rightarrow> string" where
  "unaryError op =
     (if op = Minus then ''unary '' @ [CHR 0x27] @ ''-'' @ [CHR 0x27] @ '' requires a numeric operand''
      else if op = Plus then ''unary '' @ [CHR 0x27] @ ''+'' @ [CHR 0x27] @ '' requires a numeric operand''
      else if op = BitNot then ''unary '' @ [CHR 0x27] @ ''~'' @ [CHR 0x27] @ '' requires an integer operand''
      else ''invalid unary operator'')"

definition binaryError :: "zl_operator \<Rightarrow> string" where
  "binaryError op =
     (if op = Plus then
        ''operator '' @ [CHR 0x27] @ ''+'' @ [CHR 0x27] @ '' requires numeric operands or string concatenation''
      else if op \<in> {Minus, Multiply, Divide, Modulo, Power} then ''arithmetic operators require numeric operands''
      else if op \<in> {BitAnd, BitOr, BitXor, ShiftLeft, ShiftRight, ShiftRightZero}
      then ''bitwise operators require integer operands''
      else if op \<in> {Less, Greater, LessEqual, GreaterEqual}
      then ''ordered comparison operators require numeric operands''
      else ''invalid binary operator'')"

definition binaryOperator :: "core_op \<Rightarrow> zl_operator" where
  "binaryOperator op =
     (case op of
        O_Add \<Rightarrow> Plus | O_Sub \<Rightarrow> Minus | O_Mul \<Rightarrow> Multiply | O_Div \<Rightarrow> Divide | O_Mod \<Rightarrow> Modulo
      | O_Pow \<Rightarrow> Power | O_BitAnd \<Rightarrow> BitAnd | O_BitOr \<Rightarrow> BitOr | O_BitXor \<Rightarrow> BitXor
      | O_Shl \<Rightarrow> ShiftLeft | O_Shr \<Rightarrow> ShiftRight | O_Ushr \<Rightarrow> ShiftRightZero
      | O_Eq \<Rightarrow> Equal | O_Ne \<Rightarrow> NotEqual | O_Lt \<Rightarrow> Less | O_Le \<Rightarrow> LessEqual
      | O_Gt \<Rightarrow> Greater | O_Ge \<Rightarrow> GreaterEqual | O_And \<Rightarrow> LogicalAnd | O_Or \<Rightarrow> LogicalOr
      | _ \<Rightarrow> UnknownOperator)"

definition unaryOperator :: "core_op \<Rightarrow> zl_operator" where
  "unaryOperator op = (if op = O_Neg then Minus else if op = O_BitNot then BitNot else Not)"

subsection \<open>Well-typed operations do not go wrong\<close>

text \<open>
  The values a non-null expression of a static type can have. Widening an integer to a double emits no
  code, so a double may be held as an integer. Nothing is known of the other kinds here.
\<close>

definition value_has :: "zl_type \<Rightarrow> zvalue \<Rightarrow> bool" where
  "value_has t v =
     (case t of
        INT_TYPE \<Rightarrow> (case v of VInt _ \<Rightarrow> True | _ \<Rightarrow> False)
      | DOUBLE \<Rightarrow> isNumericValue v
      | STRING \<Rightarrow> isStringValue v
      | BOOL \<Rightarrow> (case v of VBool _ \<Rightarrow> True | _ \<Rightarrow> False)
      | _ \<Rightarrow> True)"

text \<open>The errors by which the interpreter complains about the kind of an operand.\<close>

definition type_complaint :: "vm_error \<Rightarrow> bool" where
  "type_complaint e \<longleftrightarrow>
     e \<in> RuntimeError ` {''arithmetic operators require numbers (or strings, for +)'',
       ''comparison operators require numbers'', ''expected numeric values'', ''expected a number'',
       ''expected a whole number, got a decimal or non-number'',
       ''unary '' @ [CHR 0x27] @ ''-'' @ [CHR 0x27] @ '' requires a number'',
       ''VM: not an arithmetic opcode'', ''VM: not a bitwise opcode'', ''VM: not a comparison opcode'',
       ''VM: not a unary opcode''}"

definition goes_right :: "zl_type \<Rightarrow> vm_error + zvalue \<Rightarrow> bool" where
  "goes_right t r = (case r of Inr v \<Rightarrow> value_has t v | Inl e \<Rightarrow> \<not> type_complaint e)"

text \<open>Where the rule for arithmetic predicts a double, both operands are numbers.\<close>

definition numeric_where_double :: "zl_operator \<Rightarrow> zl_type \<Rightarrow> zl_type \<Rightarrow> bool" where
  "numeric_where_double op l r \<longleftrightarrow> (binaryResult op l r = Some DOUBLE \<longrightarrow> numericType l \<and> numericType r)"

lemma fault_no_complaint [simp]: "\<not> type_complaint (throwArithmeticError m)" "\<not> type_complaint shiftRangeError"
  "\<not> type_complaint (RuntimeError ''negative integer exponent requires floating-point result'')"
  by (auto simp: type_complaint_def throwArithmeticError_def shiftRangeError_def)

lemma goes_right_simps [simp]:
  "goes_right t (Inr v) = value_has t v" "goes_right t (Inl e) = (\<not> type_complaint e)"
  by (simp_all add: goes_right_def)

lemma value_has_simps [simp]:
  "value_has INT_TYPE v \<longleftrightarrow> (\<exists>i. v = VInt i)" "value_has DOUBLE v \<longleftrightarrow> isNumericValue v"
  "value_has STRING v \<longleftrightarrow> isStringValue v" "value_has BOOL v \<longleftrightarrow> (\<exists>b. v = VBool b)"
  by (auto simp: value_has_def split: zvalue.splits)

lemma goes_right_double [simp]: "goes_right DOUBLE (liftDouble (checkedDoubleResult x w))"
  by (simp add: liftDouble_def checkedDoubleResult_def)

lemma orOverflow_right [simp]: "goes_right INT_TYPE (orOverflow w r)"
  by (cases r) (simp_all add: orOverflow_def)

lemma vmIntArith_right:
  assumes "op \<in> {OpAdd, OpSub, OpMul, OpDiv, OpMod}"
  shows "\<exists>r. vmIntArith op x y = Some r \<and> goes_right INT_TYPE r"
  using assms by (elim insertE emptyE; simp add: vmIntArith_def)

lemma vmPow_int_right: "goes_right INT_TYPE (vmPow env (VInt x) (VInt y))"
  by (cases "powChecked x y") (simp_all add: vmPow_def)

lemma binaryArith_int_right:
  assumes "op \<in> {OpAdd, OpSub, OpMul, OpDiv, OpMod, OpPow}"
  shows "goes_right INT_TYPE (binaryArith env op (VInt x) (VInt y))"
proof (cases "op = OpPow")
  case True
  then show ?thesis using vmPow_int_right by (simp add: binaryArith_def)
next
  case False
  then obtain r where "vmIntArith op x y = Some r" "goes_right INT_TYPE r"
    using vmIntArith_right [of op x y] assms by auto
  then show ?thesis using False by (simp add: binaryArith_def)
qed

lemma vmDoubleArith_right:
  "op \<in> {OpAdd, OpSub, OpMul, OpDiv, OpMod} \<Longrightarrow> goes_right DOUBLE (vmDoubleArith op x y)"
  by (auto simp: vmDoubleArith_def)

lemma goes_right_int_double: "goes_right INT_TYPE r \<Longrightarrow> goes_right DOUBLE r"
  by (auto simp: goes_right_def split: sum.splits)

lemma numeric_cases: "isNumericValue v \<Longrightarrow> (\<And>i. v = VInt i \<Longrightarrow> P) \<Longrightarrow> (\<And>d. v = VDouble d \<Longrightarrow> P) \<Longrightarrow> P"
  by (cases v) auto

lemma binaryArith_numeric_right:
  assumes "op \<in> {OpAdd, OpSub, OpMul, OpDiv, OpMod, OpPow}" "isNumericValue a" "isNumericValue b"
  shows "goes_right DOUBLE (binaryArith env op a b)"
proof (cases "\<exists>x y. a = VInt x \<and> b = VInt y")
  case True
  then show ?thesis using binaryArith_int_right [OF assms(1)] by (auto intro: goes_right_int_double)
next
  case False
  obtain x y where "toDouble a = Inr x" "toDouble b = Inr y" "\<not> isStringValue a" "\<not> isStringValue b"
    using assms(2,3) by (auto elim!: numeric_cases)
  then show ?thesis
    using assms False vmDoubleArith_right [of op x y]
    by (cases "op = OpPow") (auto simp: binaryArith_def vmPow_def elim!: numeric_cases)
qed

lemma compareNumericValues_right: "isNumericValue a \<Longrightarrow> isNumericValue b \<Longrightarrow> \<exists>c. compareNumericValues a b = Inr c"
  by (auto simp: compareNumericValues_def elim!: numeric_cases)

text \<open>Equality can only fail on a view whose owner is gone, or on records nested too deeply.\<close>

definition equality_errors :: "vm_error set" where
  "equality_errors = {structViewError, depthError}"

lemma valuesEqualPlain_errors: "valuesEqualPlain a b = Inl e \<Longrightarrow> e \<in> equality_errors"
  by (cases a; cases b) (auto simp: equality_errors_def split: if_splits sum.splits f64.splits)

lemma case_objects_errors:
  assumes "(case (a, b) of (VObject r, VObject r') \<Rightarrow> f r r' | _ \<Rightarrow> g) = Inl e"
  shows "(\<exists>r r'. f r r' = Inl e) \<or> g = Inl e"
  using assms by (cases a; simp; cases b; auto)

lemma compareFields_errors:
  assumes "\<And>r r' s e. recEq r r' s = Inl e \<Longrightarrow> e \<in> equality_errors"
  shows "compareFields recEq b nvs seen = Inl e \<Longrightarrow> e \<in> equality_errors"
proof (induction nvs arbitrary: seen)
  case (Cons nv nvs)
  show ?case
  proof (cases "objectFieldLookup b (fst nv)")
    case (Some bv)
    let ?inner = "case (snd nv, bv) of
        (VObject r, VObject r') \<Rightarrow> recEq r r' seen
      | _ \<Rightarrow> (case valuesEqualPlain (snd nv) bv of Inl e \<Rightarrow> Inl e | Inr eq \<Rightarrow> Inr (eq, seen))"
    have inner: "e' \<in> equality_errors" if "?inner = Inl e'" for e'
      using case_objects_errors [OF that]
      by (elim disjE exE; auto simp del: valuesEqualPlain.simps split: sum.splits
          intro: assms valuesEqualPlain_errors)
    have "compareFields recEq b (nv # nvs) seen =
        (case ?inner of Inl e \<Rightarrow> Inl e
         | Inr (eq, seen') \<Rightarrow> if eq then compareFields recEq b nvs seen' else Inr (False, seen'))"
      using Some by simp
    with Cons.prems inner Cons.IH show ?thesis
      by (cases ?inner) (auto simp del: compareFields.simps split: prod.splits if_splits)
  qed (use Cons.prems in simp)
qed simp

lemma recordValuesEqual_errors: "recordValuesEqual n h a b seen = Inl e \<Longrightarrow> e \<in> equality_errors"
proof (induction n arbitrary: a b seen e)
  case 0
  then show ?case
    using compareFields_errors [of "\<lambda>_ _ seen. Inl depthError"]
    by (auto simp: recordValuesEqualWith_def equality_errors_def Let_def split: option.splits if_splits)
next
  case (Suc n)
  then show ?case
    using compareFields_errors [of "recordValuesEqual n h"]
    by (auto simp: recordValuesEqualWith_def Let_def split: option.splits if_splits)
qed

lemma equality_no_complaint: "e \<in> equality_errors \<Longrightarrow> \<not> type_complaint e"
  by (auto simp: equality_errors_def structViewError_def depthError_def type_complaint_def)

lemma valuesEqual_right:
  assumes "valuesEqual h a b = Inl e"
  shows "\<not> type_complaint e"
proof (cases "\<exists>p q. a = VObject (Some p) \<and> b = VObject (Some q)")
  case True
  then show ?thesis
    using assms recordValuesEqual_errors equality_no_complaint
    by (auto simp: valuesEqual_def simp del: recordValuesEqual.simps split: if_splits sum.splits)
next
  case False
  have "valuesEqual h a b = valuesEqualPlain a b"
  proof (cases a)
    case (VObject r)
    with False show ?thesis by (cases r; cases b) (auto simp: valuesEqual_def split: option.splits)
  qed (simp_all add: valuesEqual_def)
  with assms show ?thesis using valuesEqualPlain_errors equality_no_complaint by simp
qed

lemma compare_right:
  assumes "op \<in> {OpLt, OpGt, OpLte, OpGte}" "isNumericValue a" "isNumericValue b"
  shows "goes_right BOOL (binaryCompare env op a b)"
  using assms compareNumericValues_right [OF assms(2,3)] by (auto simp: binaryCompare_def)

lemma numericType_value: "numericType t \<Longrightarrow> value_has t v \<Longrightarrow> isNumericValue v"
  by (auto simp: numericType_def)

lemma goes_right_equality:
  "goes_right BOOL (binaryCompare env OpEq a b)" "goes_right BOOL (binaryCompare env OpNeq a b)"
  using valuesEqual_right [of "env_heap env" a b]
  by (cases "valuesEqual (env_heap env) a b"; simp add: binaryCompare_def)+

lemma bitwise_right:
  "op \<in> {OpBitAnd, OpBitOr, OpBitXor, OpShl, OpShr, OpUshr} \<Longrightarrow>
   goes_right INT_TYPE (binaryBitwise op (VInt x) (VInt y))"
  by (elim insertE emptyE; simp add: binaryBitwise_def)

definition emitted :: "core_op \<Rightarrow> bool" where
  "emitted op \<longleftrightarrow> vmBinaryOp op \<noteq> None"

lemma arithmetic_right:
  assumes "arithmeticResult l r = Some t" "t = DOUBLE \<longrightarrow> numericType l \<and> numericType r"
    and "value_has l a" "value_has r b" "op \<in> {OpAdd, OpSub, OpMul, OpDiv, OpMod}"
  shows "goes_right t (binaryArith env op a b)"
proof (cases "l = INT_TYPE \<and> r = INT_TYPE")
  case True
  then show ?thesis
    using assms binaryArith_int_right [of op env] by (auto simp: arithmeticResult_def)
next
  case False
  then have "t = DOUBLE" using assms(1) by (auto simp: arithmeticResult_def split: if_splits)
  then show ?thesis
    using assms binaryArith_numeric_right [of op a b env] numericType_value by auto
qed

lemma binary_right:
  assumes "emitted op" "binaryResult (binaryOperator op) l r = Some t"
    and "numeric_where_double (binaryOperator op) l r" "value_has l a" "value_has r b"
  shows "\<exists>res. evalPure env op [a, b] = Some res \<and> goes_right t res"
proof -
  have int_ops: "l = INT_TYPE \<Longrightarrow> r = INT_TYPE \<Longrightarrow> \<exists>x y. a = VInt x \<and> b = VInt y" using assms(4,5) by simp
  have num: "numericType l \<Longrightarrow> numericType r \<Longrightarrow> isNumericValue a \<and> isNumericValue b"
    using assms(4,5) numericType_value by blast
  consider "op = O_Add" | v where "vmBinaryOp op = Some v" "v \<in> {OpSub, OpMul, OpDiv, OpMod}"
      "binaryOperator op \<in> {Minus, Multiply, Divide, Modulo}"
    | "op = O_Pow" | v where "vmBinaryOp op = Some v" "v \<in> {OpBitAnd, OpBitOr, OpBitXor, OpShl, OpShr, OpUshr}"
      "binaryOperator op \<in> {BitAnd, BitOr, BitXor, ShiftLeft, ShiftRight, ShiftRightZero}"
    | "op = O_Eq" | "op = O_Ne"
    | v where "vmBinaryOp op = Some v" "v \<in> {OpLt, OpGt, OpLte, OpGte}"
      "binaryOperator op \<in> {Less, Greater, LessEqual, GreaterEqual}"
    using assms(1) by (cases op) (auto simp: emitted_def vmBinaryOp_def binaryOperator_def)
  then show ?thesis
  proof cases
    case 1
    show ?thesis
    proof (cases "l = STRING \<or> r = STRING")
      case True
      then have "t = STRING" "isStringValue a \<or> isStringValue b"
        using 1 assms by (auto simp: binaryResult_def binaryOperator_def)
      then show ?thesis using 1 by (simp add: binaryArith_def)
    next
      case False
      then show ?thesis
        using 1 assms(2-) arithmetic_right [of l r t a b OpAdd env]
        by (auto simp: binaryResult_def binaryOperator_def numeric_where_double_def)
    qed
  next
    case (2 v)
    then have "arithmeticResult l r = Some t" "t = DOUBLE \<longrightarrow> numericType l \<and> numericType r"
      using assms(2,3) by (auto simp: binaryResult_def numeric_where_double_def)
    then show ?thesis
      using 2 assms(4,5) arithmetic_right [of l r t a b v env] by auto
  next
    case 3
    then show ?thesis
      using assms(2) int_ops num binaryArith_int_right [of OpPow env] binaryArith_numeric_right [of OpPow a b env]
      by (auto simp: binaryResult_def binaryOperator_def split: if_splits)
  next
    case (4 v)
    then show ?thesis
      using assms(2) int_ops bitwise_right [of v] by (auto simp: binaryResult_def split: if_splits)
  next
    case 5
    then show ?thesis
      using assms(2) goes_right_equality(1) by (simp add: binaryResult_def binaryOperator_def)
  next
    case 6
    then show ?thesis
      using assms(2) goes_right_equality(2) by (simp add: binaryResult_def binaryOperator_def)
  next
    case (7 v)
    then show ?thesis
      using assms(2) num compare_right [of v a b env] by (auto simp: binaryResult_def split: if_splits)
  qed
qed

lemma unary_right:
  assumes "op \<in> {O_Neg, O_Not, O_BitNot}" "unaryResult (unaryOperator op) l = Some t" "value_has l a"
  shows "\<exists>res. evalPure env op [a] = Some res \<and> goes_right t res"
  using assms
  by (auto simp: evalPure_def vmUnaryOp_def unaryResult_def unaryOperator_def unary_def
      split: if_splits elim!: numeric_cases)

text \<open>C22: The typing rules of the built-in operators are sound for the interpreter: an operation the rules
  accept, on values of the operand types, yields a value of the predicted type or raises an error that
  is not about the kind of an operand (overflow, division by zero, shift range, a dead native view).
  Where the arithmetic rule predicts a double, both operands have to be numeric.\<close>

theorem operator_rules_sound:
  "(emitted op \<and> binaryResult (binaryOperator op) l r = Some t \<and>
      numeric_where_double (binaryOperator op) l r \<and> value_has l a \<and> value_has r b \<longrightarrow>
      (\<exists>res. evalPure env op [a, b] = Some res \<and> goes_right t res)) \<and>
   (op \<in> {O_Neg, O_Not, O_BitNot} \<and> unaryResult (unaryOperator op) l = Some t \<and> value_has l a \<longrightarrow>
      (\<exists>res. evalPure env op [a] = Some res \<and> goes_right t res))"
  using binary_right unary_right by blast

theorem operator_rules_sound_witness:
  "(\<exists>res. evalPure sample_env O_Div [VInt 7, VInt 2] = Some res \<and> goes_right INT_TYPE res) \<and>
   (\<exists>res. evalPure sample_env O_BitNot [VInt 7] = Some res \<and> goes_right INT_TYPE res)"
  using operator_rules_sound [of O_Div INT_TYPE INT_TYPE INT_TYPE "VInt 7" "VInt 2" sample_env]
    operator_rules_sound [of O_BitNot INT_TYPE INT_TYPE INT_TYPE "VInt 7" "VInt 2" sample_env]
  by (simp add: emitted_def vmBinaryOp_def binaryOperator_def binaryResult_def arithmeticResult_def
      numeric_where_double_def unaryResult_def unaryOperator_def numericType_def)

text \<open>The restriction is needed: the arithmetic rule predicts a double as soon as one operand is a
  double, so the type rules accept a double minus a bool, times a list or divided by a string, while the
  interpreter refuses each of them for every pair of such values; the rule for the power operator tests
  both operands.\<close>

theorem arithmetic_rule_too_weak:
  "binaryResult Minus DOUBLE BOOL = Some DOUBLE \<and> binaryResult Power DOUBLE BOOL = None \<and>
   evalPure env O_Sub [VDouble d, VBool b] =
     Some (Inl (RuntimeError ''arithmetic operators require numbers (or strings, for +)'')) \<and>
   type_complaint (RuntimeError ''arithmetic operators require numbers (or strings, for +)'')"
  by (simp add: binaryResult_def arithmeticResult_def numericType_def binaryArith_def type_complaint_def)

end
