(* ===== verification/Sema_Classes.thy ===== *)
theory Sema_Classes
  imports Mir_Operators "HOL-Library.AList" "HOL-Library.Product_Lexorder"
begin

text \<open>
  Class and interface shapes (\<^verbatim>\<open>src/compiler/semantic_model.cpp\<close>), the check against circular
  inheritance (\<^verbatim>\<open>src/compiler/type_checker.cpp\<close>) and the lookup of fields and
  methods. The hash tables of the model are association lists; a shape keeps the members these operations read.

  Walks up the chain of parents end only if it is not circular, so they are partial functions, as are
  the work-list loops over interfaces, which the sources protect with a set of names already seen.
\<close>

record method_info =
  mi_paramTypes :: "zl_type list"
  mi_paramClassNames :: "string list"
  mi_paramIsGeneric :: "bool list"
  mi_returnType :: zl_type
  mi_returnClassName :: string

record class_shape =
  cs_name :: string
  cs_typeParams :: "string list"
  cs_parentName :: string
  cs_implementsNames :: "string list"
  cs_fields :: "(string \<times> zl_type) list"
  cs_methods :: "(string \<times> method_info list) list"
  cs_isDataType :: bool
  cs_isEnumType :: bool

record interface_shape =
  is_name :: string
  is_extendsNames :: "string list"
  is_ownMethods :: "(string \<times> method_info) list"

record semantic_model =
  sm_classes :: "(string \<times> class_shape) list"
  sm_interfaces :: "(string \<times> interface_shape) list"

definition defineClass :: "class_shape \<Rightarrow> semantic_model \<Rightarrow> semantic_model" where
  "defineClass shape sm = sm\<lparr>sm_classes := AList.update (cs_name shape) shape (sm_classes sm)\<rparr>"

definition defineInterface :: "interface_shape \<Rightarrow> semantic_model \<Rightarrow> semantic_model" where
  "defineInterface shape sm = sm\<lparr>sm_interfaces := AList.update (is_name shape) shape (sm_interfaces sm)\<rparr>"

definition hasClass :: "semantic_model \<Rightarrow> string \<Rightarrow> bool" where
  "hasClass sm name \<longleftrightarrow> map_of (sm_classes sm) name \<noteq> None"

definition hasInterface :: "semantic_model \<Rightarrow> string \<Rightarrow> bool" where
  "hasInterface sm name \<longleftrightarrow> map_of (sm_interfaces sm) name \<noteq> None"

definition findInterface :: "semantic_model \<Rightarrow> string \<Rightarrow> interface_shape option" where
  "findInterface sm name = map_of (sm_interfaces sm) name"

text \<open>
  A generic body may name its own uninstantiated form, as \<open>Map<K,V>\<close> inside \<open>class Map<K,V>\<close>: the
  arguments are the parameters of the template, which is what the name then denotes.
\<close>

definition findClass :: "semantic_model \<Rightarrow> string \<Rightarrow> class_shape option" where
  "findClass sm name =
     (case map_of (sm_classes sm) name of
        Some shape \<Rightarrow> Some shape
      | None \<Rightarrow>
          if CHR ''<'' \<notin> set name \<or> last name \<noteq> CHR ''>'' then None
          else case map_of (sm_classes sm) (takeWhile (\<lambda>c. c \<noteq> CHR ''<'') name) of
            None \<Rightarrow> None
          | Some shape \<Rightarrow>
              if cs_typeParams shape = [] then None
              else
                let args = tn_args (parseTypeName name); params = cs_typeParams shape
                in if length args = length params \<and>
                      list_all2 (\<lambda>a p. tn_args a = [] \<and> tn_unionMembers a = [] \<and> tn_name a = p) args params
                   then Some shape else None)"

text \<open>\<open>setParentClass\<close>; naming a class that is not declared throws, which is \<open>None\<close>.\<close>

definition setParentClass :: "string \<Rightarrow> string \<Rightarrow> semantic_model \<Rightarrow> semantic_model option" where
  "setParentClass name parent sm =
     (case map_of (sm_classes sm) name of
        None \<Rightarrow> None
      | Some shape \<Rightarrow>
          Some (sm\<lparr>sm_classes := AList.update name (shape\<lparr>cs_parentName := parent\<rparr>) (sm_classes sm)\<rparr>))"

definition parentClassName :: "semantic_model \<Rightarrow> string \<Rightarrow> string option" where
  "parentClassName sm name = map_option cs_parentName (map_of (sm_classes sm) name)"

partial_function (option) findFieldInHierarchy ::
  "semantic_model \<Rightarrow> string \<Rightarrow> string \<Rightarrow> ((string \<times> zl_type) option) option"
where
  "findFieldInHierarchy sm cur field =
     (if cur = [] then Some None
      else case findClass sm cur of
        None \<Rightarrow> Some None
      | Some shape \<Rightarrow>
          (case map_of (cs_fields shape) field of
             Some ty \<Rightarrow> Some (Some (cur, ty))
           | None \<Rightarrow> findFieldInHierarchy sm (cs_parentName shape) field))"

partial_function (option) isSubclassOf :: "semantic_model \<Rightarrow> string \<Rightarrow> string \<Rightarrow> bool option" where
  "isSubclassOf sm cur ancestor =
     (if cur = [] then Some False
      else if cur = ancestor then Some True
      else case findClass sm cur of
        None \<Rightarrow> Some False
      | Some shape \<Rightarrow> isSubclassOf sm (cs_parentName shape) ancestor)"

definition directSubclasses :: "semantic_model \<Rightarrow> string \<Rightarrow> string list" where
  "directSubclasses sm name =
     (if name = [] then []
      else sort (map fst (filter (\<lambda>(n, shape). cs_parentName shape = name) (sm_classes sm))))"

partial_function (option) extendsLoop ::
  "semantic_model \<Rightarrow> string \<Rightarrow> string list \<Rightarrow> string list \<Rightarrow> bool option"
where
  "extendsLoop sm ancestor stack seen =
     (if stack = [] then Some False
      else
        let cur = last stack; stack' = butlast stack
        in if cur \<in> set seen then extendsLoop sm ancestor stack' seen
           else if cur = ancestor then Some True
           else extendsLoop sm ancestor
                  (stack' @ (case findInterface sm cur of None \<Rightarrow> [] | Some s \<Rightarrow> is_extendsNames s)) (cur # seen))"

definition interfaceExtends :: "semantic_model \<Rightarrow> string \<Rightarrow> string \<Rightarrow> bool option" where
  "interfaceExtends sm name ancestor =
     (if name = ancestor then Some True
      else case findInterface sm name of
        None \<Rightarrow> Some False
      | Some shape \<Rightarrow> extendsLoop sm ancestor (is_extendsNames shape) [])"

fun anyExtends :: "semantic_model \<Rightarrow> string \<Rightarrow> string list \<Rightarrow> bool option" where
  "anyExtends sm target [] = Some False"
| "anyExtends sm target (i # is) =
     (if i = target then Some True
      else case interfaceExtends sm i target of
        None \<Rightarrow> None
      | Some b \<Rightarrow> if b then Some True else anyExtends sm target is)"

partial_function (option) implementsLoop ::
  "semantic_model \<Rightarrow> string \<Rightarrow> string \<Rightarrow> string list \<Rightarrow> bool option"
where
  "implementsLoop sm target cur seen =
     (if cur = [] \<or> cur \<in> set seen then Some False
      else case findClass sm cur of
        None \<Rightarrow> Some False
      | Some shape \<Rightarrow>
          (case anyExtends sm target (cs_implementsNames shape) of
             None \<Rightarrow> None
           | Some b \<Rightarrow>
               if b then Some True else implementsLoop sm target (cs_parentName shape) (cur # seen)))"

definition implementsInterface :: "semantic_model \<Rightarrow> string \<Rightarrow> string \<Rightarrow> bool option" where
  "implementsInterface sm name target =
     (if name = target then Some True
      else if hasInterface sm name then interfaceExtends sm name target
      else implementsLoop sm target name [])"

text \<open>
  The type checker's test for circular inheritance, for one declaration: the name that closes a
  cycle, if any. Naming an undeclared class throws out of \<open>parentClassName\<close>.
\<close>

datatype cycle_outcome = Acyclic | Circular string | UnknownClass string

partial_function (option) cycleLoop :: "semantic_model \<Rightarrow> string \<Rightarrow> string list \<Rightarrow> cycle_outcome option" where
  "cycleLoop sm cur chain =
     (if cur = [] then Some Acyclic
      else if cur \<in> set chain then Some (Circular cur)
      else case parentClassName sm cur of
        None \<Rightarrow> Some (UnknownClass cur)
      | Some parent \<Rightarrow> cycleLoop sm parent (chain @ [cur]))"

definition checkCircular :: "semantic_model \<Rightarrow> string \<Rightarrow> cycle_outcome option" where
  "checkCircular sm child =
     (case parentClassName sm child of
        None \<Rightarrow> Some (UnknownClass child)
      | Some parent \<Rightarrow> cycleLoop sm parent [child])"

subsection \<open>The inheritance relations and what the walks decide\<close>

definition parents :: "semantic_model \<Rightarrow> (string \<times> string) set" where
  "parents sm = {(c, p). c \<noteq> [] \<and> (\<exists>s. findClass sm c = Some s \<and> p = cs_parentName s)}"

definition extends :: "semantic_model \<Rightarrow> (string \<times> string) set" where
  "extends sm = {(i, j). \<exists>s. findInterface sm i = Some s \<and> j \<in> set (is_extendsNames s)}"

lemma findClass_declared: "map_of (sm_classes sm) c = Some s \<Longrightarrow> findClass sm c = Some s"
  by (simp add: findClass_def)

lemma rtrancl_step: "(c, a) \<in> R\<^sup>* \<longleftrightarrow> c = a \<or> (\<exists>p. (c, p) \<in> R \<and> (p, a) \<in> R\<^sup>*)"
  by (meson converse_rtranclE converse_rtrancl_into_rtrancl rtrancl.rtrancl_refl)

lemma parents_step:
  "c \<noteq> [] \<Longrightarrow> (c, a) \<in> (parents sm)\<^sup>* \<longleftrightarrow>
     c = a \<or> (\<exists>s. findClass sm c = Some s \<and> (cs_parentName s, a) \<in> (parents sm)\<^sup>*)"
  using rtrancl_step [of c a "parents sm"] by (auto simp: parents_def)

lemma parents_empty: "([], a) \<in> (parents sm)\<^sup>* \<longleftrightarrow> a = []"
  using rtrancl_step [of "[]" a "parents sm"] by (auto simp: parents_def)

text \<open>Chains of declared parents that end.\<close>

inductive chain_ends :: "semantic_model \<Rightarrow> string \<Rightarrow> bool" for sm where
  chain_end: "chain_ends sm []"
| chain_step: "map_of (sm_classes sm) c = Some s \<Longrightarrow> chain_ends sm (cs_parentName s) \<Longrightarrow> chain_ends sm c"

lemma isSubclassOf_chain:
  assumes "chain_ends sm c" "a \<noteq> []"
  shows "isSubclassOf sm c a = Some ((c, a) \<in> (parents sm)\<^sup>*)"
  using assms(1)
proof (induction rule: chain_ends.induct)
  case chain_end
  then show ?case using assms(2) by (simp add: isSubclassOf.simps parents_empty)
next
  case (chain_step c s)
  then show ?case
    by (subst isSubclassOf.simps)
      (use assms(2) in \<open>auto simp: findClass_declared parents_step parents_empty\<close>)
qed

lemma cycleLoop_ends:
  assumes "cycleLoop sm cur chain = Some r"
  shows "r = Acyclic \<longrightarrow> chain_ends sm cur"
proof (rule cycleLoop.raw_induct [where P = "\<lambda>sm cur chain r. r = Acyclic \<longrightarrow> chain_ends sm cur", OF _ assms],
    goal_cases)
  case (1 loop sm cur chain r)
  then show ?case
    by (auto simp: parentClassName_def split: if_splits option.splits intro: chain_end chain_step)
qed

lemma checkCircular_ends:
  assumes "checkCircular sm c = Some Acyclic"
  shows "chain_ends sm c"
  using assms cycleLoop_ends
  by (auto simp: checkCircular_def parentClassName_def split: option.splits intro: chain_step)

lemma cycleLoop_returns:
  assumes "distinct chain" "set chain \<subseteq> fst ` set (sm_classes sm)"
  shows "\<exists>r. cycleLoop sm cur chain = Some r"
  using assms
proof (induction "card (fst ` set (sm_classes sm)) - length chain" arbitrary: cur chain rule: less_induct)
  case less
  show ?case
  proof (cases "cur \<noteq> [] \<and> cur \<notin> set chain \<and> parentClassName sm cur \<noteq> None")
    case True
    then obtain p where p: "parentClassName sm cur = Some p" by blast
    then have c: "cur \<in> fst ` set (sm_classes sm)"
      by (force simp: parentClassName_def dest: map_of_SomeD)
    have "card (set (chain @ [cur])) \<le> card (fst ` set (sm_classes sm))"
      using less.prems c by (intro card_mono) auto
    then have "length chain < card (fst ` set (sm_classes sm))"
      using less.prems True by (simp add: distinct_card)
    then have "card (fst ` set (sm_classes sm)) - length (chain @ [cur]) < card (fst ` set (sm_classes sm)) - length chain"
      by (simp add: diff_less_mono2)
    then obtain r where "cycleLoop sm p (chain @ [cur]) = Some r"
      using less.hyps [of "chain @ [cur]" p] less.prems True c by auto
    then show ?thesis using True p by (subst cycleLoop.simps) simp
  qed (subst cycleLoop.simps, auto)
qed

lemma checkCircular_returns: "\<exists>r. checkCircular sm c = Some r"
proof (cases "map_of (sm_classes sm) c")
  case (Some s)
  then have "c \<in> fst ` set (sm_classes sm)" by (force dest: map_of_SomeD)
  then show ?thesis using cycleLoop_returns [of "[c]" sm] Some by (simp add: checkCircular_def parentClassName_def)
qed (simp add: checkCircular_def parentClassName_def)

text \<open>A reported cycle is one: every name on the chain leads to the current one.\<close>

lemma cycleLoop_circular:
  assumes "cycleLoop sm cur chain = Some r"
  shows "r = Circular x \<longrightarrow>
    (\<forall>y \<in> set chain - {[]}. (y, cur) \<in> (parents sm)\<^sup>+) \<longrightarrow> (x, x) \<in> (parents sm)\<^sup>+"
proof (rule cycleLoop.raw_induct [where P = "\<lambda>sm cur chain r. r = Circular x \<longrightarrow>
    (\<forall>y \<in> set chain - {[]}. (y, cur) \<in> (parents sm)\<^sup>+) \<longrightarrow> (x, x) \<in> (parents sm)\<^sup>+", OF _ assms],
    goal_cases)
  case (1 loop sm cur chain r)
  show ?case
  proof (intro impI)
    assume r: "r = Circular x" and ch: "\<forall>y \<in> set chain - {[]}. (y, cur) \<in> (parents sm)\<^sup>+"
    show "(x, x) \<in> (parents sm)\<^sup>+"
    proof (cases "cur = [] \<or> cur \<in> set chain")
      case True
      then show ?thesis using 1(2) r ch by (auto split: if_splits)
    next
      case False
      then obtain p where p: "parentClassName sm cur = Some p" "loop sm p (chain @ [cur]) = Some r"
        using 1(2) r by (auto split: option.splits)
      then have "(cur, p) \<in> parents sm"
        using False by (auto simp: parents_def parentClassName_def findClass_def)
      then have "\<forall>y \<in> set (chain @ [cur]) - {[]}. (y, p) \<in> (parents sm)\<^sup>+"
        using ch by (auto intro: trancl_into_trancl)
      then show ?thesis using 1(1) [OF p(2)] r by blast
    qed
  qed
qed

text \<open>
  The work list over interfaces. A name already seen leads to the ancestor only through names that
  are still on the stack, so dropping it loses nothing; the loop ends also when interfaces extend
  each other in a circle.
\<close>

lemma leaves_closed_set:
  assumes "(x, a) \<in> R\<^sup>*" "x \<in> S" "a \<notin> S" "R `` S \<subseteq> S \<union> T"
  shows "\<exists>t \<in> T. (t, a) \<in> R\<^sup>*"
  using assms(1,2)
proof (induction rule: converse_rtrancl_induct)
  case base
  then show ?case using assms(3) by simp
next
  case (step y z)
  then show ?case using assms(4) by blast
qed

definition extended :: "semantic_model \<Rightarrow> string \<Rightarrow> string list" where
  "extended sm i = (case findInterface sm i of None \<Rightarrow> [] | Some s \<Rightarrow> is_extendsNames s)"

lemma extends_image: "extends sm `` {i} = set (extended sm i)"
  by (cases "findInterface sm i") (auto simp: extends_def extended_def)

lemma extendsLoop_decides:
  assumes "finite U" "set stack \<subseteq> U" "extends sm `` U \<subseteq> U"
    and "extends sm `` set seen \<subseteq> set seen \<union> set stack" "a \<notin> set seen"
  shows "extendsLoop sm a stack seen = Some (\<exists>i \<in> set stack. (i, a) \<in> (extends sm)\<^sup>*)"
  using assms
proof (induction "(card (U - set seen), length stack)" arbitrary: stack seen
    rule: wf_induct_rule [OF wf_lex_prod [OF wf_less wf_less]])
  case (1 stack seen)
  show ?case
  proof (cases stack rule: rev_cases)
    case Nil
    then show ?thesis by (subst extendsLoop.simps) simp
  next
    case (snoc rest cur)
    consider "cur \<in> set seen" | "cur \<notin> set seen" "cur = a" | "cur \<notin> set seen" "cur \<noteq> a" by blast
    then show ?thesis
    proof cases
      case 1
      have "extendsLoop sm a rest seen = Some (\<exists>i \<in> set rest. (i, a) \<in> (extends sm)\<^sup>*)"
        by (rule "1.hyps") (use "1.prems" snoc 1 in auto)
      moreover have "extends sm `` set seen \<subseteq> set seen \<union> set rest" using "1.prems"(4) snoc 1 by auto
      then have "(cur, a) \<in> (extends sm)\<^sup>* \<Longrightarrow> \<exists>i \<in> set rest. (i, a) \<in> (extends sm)\<^sup>*"
        using leaves_closed_set [of cur a "extends sm" "set seen" "set rest"] "1.prems"(5) 1 by blast
      ultimately show ?thesis using snoc 1 by (subst extendsLoop.simps) auto
    next
      case 2
      then show ?thesis using snoc by (subst extendsLoop.simps) auto
    next
      case 3
      let ?stack = "rest @ extended sm cur"
      have ext: "set (extended sm cur) \<subseteq> U" using extends_image [of sm cur] "1.prems"(2,3) snoc by auto
      have "card (U - set (cur # seen)) < card (U - set seen)"
        using "1.prems"(1,2) snoc 3 by (intro psubset_card_mono) auto
      then have "extendsLoop sm a ?stack (cur # seen) = Some (\<exists>i \<in> set ?stack. (i, a) \<in> (extends sm)\<^sup>*)"
        using "1.prems" snoc 3 extends_image [of sm cur] ext by (intro "1.hyps") auto
      moreover have "(cur, a) \<in> (extends sm)\<^sup>* \<longleftrightarrow> (\<exists>i \<in> set (extended sm cur). (i, a) \<in> (extends sm)\<^sup>*)"
        using rtrancl_step [of cur a "extends sm"] 3 extends_image [of sm cur] by auto
      ultimately show ?thesis
        using snoc 3 by (subst extendsLoop.simps) (auto simp: extended_def [symmetric])
    qed
  qed
qed

lemma interfaceExtends_decides: "interfaceExtends sm i a = Some ((i, a) \<in> (extends sm)\<^sup>*)"
proof (cases "findInterface sm i")
  case None
  then have "(i, a) \<in> (extends sm)\<^sup>* \<longleftrightarrow> i = a"
    using rtrancl_step [of i a "extends sm"] by (auto simp: extends_def)
  then show ?thesis using None by (simp add: interfaceExtends_def)
next
  case (Some s)
  let ?U = "set (is_extendsNames s) \<union> (\<Union>j \<in> snd ` set (sm_interfaces sm). set (is_extendsNames j))"
  have "extends sm `` ?U \<subseteq> ?U"
    by (force simp: extends_def findInterface_def dest: map_of_SomeD)
  then have "extendsLoop sm a (is_extendsNames s) [] = Some (\<exists>j \<in> set (is_extendsNames s). (j, a) \<in> (extends sm)\<^sup>*)"
    by (intro extendsLoop_decides [of ?U]) auto
  then show ?thesis
    using Some rtrancl_step [of i a "extends sm"] by (auto simp: interfaceExtends_def extends_def)
qed

lemma anyExtends_decides: "anyExtends sm a is = Some (\<exists>i \<in> set is. (i, a) \<in> (extends sm)\<^sup>*)"
  by (induction "is") (auto simp: interfaceExtends_decides)

definition implements :: "semantic_model \<Rightarrow> string \<Rightarrow> string \<Rightarrow> bool" where
  "implements sm c a \<longleftrightarrow> (\<exists>s. findClass sm c = Some s \<and> (\<exists>i \<in> set (cs_implementsNames s). (i, a) \<in> (extends sm)\<^sup>*))"

lemma implementsLoop_decides:
  assumes "finite U" "cur \<in> U" "parents sm `` U \<subseteq> U"
    and "\<forall>c \<in> set seen. \<not> implements sm c a" "parents sm `` set seen \<subseteq> set seen \<union> {cur}"
  shows "implementsLoop sm a cur seen =
    Some (\<exists>c. (cur, c) \<in> (parents sm)\<^sup>* \<and> c \<noteq> [] \<and> implements sm c a)"
  using assms
proof (induction "card (U - set seen)" arbitrary: cur seen rule: less_induct)
  case less
  consider "cur = []" | "cur \<noteq> []" "cur \<in> set seen" | "cur \<noteq> []" "cur \<notin> set seen" "findClass sm cur = None"
    | s where "cur \<noteq> []" "cur \<notin> set seen" "findClass sm cur = Some s" by blast
  then show ?case
  proof cases
    case 1
    then show ?thesis by (subst implementsLoop.simps) (auto simp: parents_empty)
  next
    case 2
    have "c \<in> set seen" if "(cur, c) \<in> (parents sm)\<^sup>*" for c
      using that 2(2) by (induction rule: rtrancl_induct) (use less.prems(5) 2(2) in auto)
    then show ?thesis using 2 less.prems(4) by (subst implementsLoop.simps) auto
  next
    case 3
    then show ?thesis
      by (subst implementsLoop.simps) (auto simp: parents_step implements_def)
  next
    case (4 s)
    have p: "parents sm `` {cur} = {cs_parentName s}" using 4 by (auto simp: parents_def)
    then have pU: "cs_parentName s \<in> U" using less.prems(2,3) by blast
    have rec: "implementsLoop sm a (cs_parentName s) (cur # seen) =
        Some (\<exists>c. (cs_parentName s, c) \<in> (parents sm)\<^sup>* \<and> c \<noteq> [] \<and> implements sm c a)"
      if "\<not> implements sm cur a"
    proof (rule less.hyps)
      show "card (U - set (cur # seen)) < card (U - set seen)"
        using less.prems(1,2) 4 by (intro psubset_card_mono) auto
    qed (use less.prems that p pU in auto)
    have step: "(cur, c) \<in> (parents sm)\<^sup>* \<longleftrightarrow> cur = c \<or> (cs_parentName s, c) \<in> (parents sm)\<^sup>*" for c
      using 4 by (simp add: parents_step)
    show ?thesis
    proof (cases "implements sm cur a")
      case True
      then show ?thesis using 4
        by (subst implementsLoop.simps) (auto simp: anyExtends_decides implements_def)
    next
      case False
      then have "\<not> (\<exists>i \<in> set (cs_implementsNames s). (i, a) \<in> (extends sm)\<^sup>*)"
        using 4 by (auto simp: implements_def)
      then have "implementsLoop sm a cur seen = implementsLoop sm a (cs_parentName s) (cur # seen)"
        using 4 by (subst implementsLoop.simps) (simp add: anyExtends_decides)
      then show ?thesis using rec [OF False] step False by auto
    qed
  qed
qed

lemma implementsLoop_start:
  "implementsLoop sm a c [] = Some (\<exists>d. (c, d) \<in> (parents sm)\<^sup>* \<and> d \<noteq> [] \<and> implements sm d a)"
proof (rule implementsLoop_decides)
  let ?U = "insert c (cs_parentName ` snd ` set (sm_classes sm))"
  show "parents sm `` ?U \<subseteq> ?U"
    by (force simp: parents_def findClass_def Let_def dest: map_of_SomeD split: option.splits if_splits)
qed auto

text \<open>C27: The subtype tests on interfaces decide the declared relation and always return, circular
  declarations included: an interface extends another iff a chain of \<^verbatim>\<open>extends\<close> clauses leads there,
  and a class implements an interface iff it or one of its ancestors names an interface that extends
  it.\<close>

theorem interface_relation_decided:
  "interfaceExtends sm i a = Some ((i, a) \<in> (extends sm)\<^sup>*) \<and>
   implementsInterface sm n a = Some (n = a \<or>
     (if hasInterface sm n then (n, a) \<in> (extends sm)\<^sup>*
      else \<exists>c. (n, c) \<in> (parents sm)\<^sup>* \<and> c \<noteq> [] \<and> implements sm c a))"
  by (auto simp: implementsInterface_def interfaceExtends_decides implementsLoop_start)

definition declaredAcyclic :: "semantic_model \<Rightarrow> bool" where
  "declaredAcyclic sm \<longleftrightarrow> (\<forall>c \<in> set (map fst (sm_classes sm)). checkCircular sm c = Some Acyclic)"

lemma findClass_parent:
  assumes "findClass sm c = Some s"
  shows "\<exists>d. map_of (sm_classes sm) d = Some s"
  using assms by (auto simp: findClass_def Let_def split: option.splits if_splits)

lemma declared_chain:
  assumes "declaredAcyclic sm" "findClass sm c = Some s"
  shows "chain_ends sm (cs_parentName s)"
proof -
  obtain d where d: "map_of (sm_classes sm) d = Some s" using findClass_parent [OF assms(2)] by blast
  then have "d \<in> set (map fst (sm_classes sm))" by (force dest: map_of_SomeD)
  then have "checkCircular sm d = Some Acyclic" using assms(1) unfolding declaredAcyclic_def by blast
  then obtain p where "cycleLoop sm (cs_parentName s) [d] = Some Acyclic"
    using d by (auto simp: checkCircular_def parentClassName_def)
  then show ?thesis using cycleLoop_ends by blast
qed

lemma isSubclassOf_declared:
  assumes "declaredAcyclic sm" "a \<noteq> []"
  shows "isSubclassOf sm c a = Some ((c, a) \<in> (parents sm)\<^sup>*)"
proof (cases "c = []")
  case True
  then show ?thesis using assms(2) by (subst isSubclassOf.simps) (simp add: parents_empty)
next
  case False
  show ?thesis
  proof (cases "findClass sm c")
    case None
    then show ?thesis using False by (subst isSubclassOf.simps) (auto simp: parents_step)
  next
    case (Some s)
    then show ?thesis
      using False isSubclassOf_chain [OF declared_chain [OF assms(1) Some] assms(2)]
      by (subst isSubclassOf.simps) (auto simp: parents_step)
  qed
qed

text \<open>Lookup of a field: the nearest class of the chain that declares it.\<close>

inductive nearest_field :: "semantic_model \<Rightarrow> string \<Rightarrow> string \<Rightarrow> string \<times> zl_type \<Rightarrow> bool" for sm f where
  own_field: "c \<noteq> [] \<Longrightarrow> findClass sm c = Some s \<Longrightarrow> map_of (cs_fields s) f = Some t \<Longrightarrow> nearest_field sm f c (c, t)"
| inherited_field: "c \<noteq> [] \<Longrightarrow> findClass sm c = Some s \<Longrightarrow> map_of (cs_fields s) f = None \<Longrightarrow>
    nearest_field sm f (cs_parentName s) r \<Longrightarrow> nearest_field sm f c r"

inductive_cases nearest_fieldE: "nearest_field sm f c r"

definition found_field :: "semantic_model \<Rightarrow> string \<Rightarrow> string \<Rightarrow> (string \<times> zl_type) option \<Rightarrow> bool" where
  "found_field sm f c r \<longleftrightarrow> (case r of Some x \<Rightarrow> nearest_field sm f c x | None \<Rightarrow> \<forall>x. \<not> nearest_field sm f c x)"

lemma findField_chain:
  assumes "chain_ends sm c"
  shows "\<exists>r. findFieldInHierarchy sm c f = Some r \<and> found_field sm f c r"
  using assms
proof (induction rule: chain_ends.induct)
  case chain_end
  show ?case by (subst findFieldInHierarchy.simps) (auto simp: found_field_def elim: nearest_fieldE)
next
  case (chain_step c s)
  note fc = findClass_declared [OF chain_step(1)]
  show ?case
  proof (cases "c = [] \<or> map_of (cs_fields s) f \<noteq> None")
    case True
    then show ?thesis
      using own_field [OF _ fc, of f] by (subst findFieldInHierarchy.simps) (auto simp: found_field_def fc elim: nearest_fieldE)
  next
    case False
    then have iff: "nearest_field sm f c x \<longleftrightarrow> nearest_field sm f (cs_parentName s) x" for x
      using fc by (auto intro: inherited_field elim: nearest_fieldE [of sm f c])
    then have "found_field sm f c r \<longleftrightarrow> found_field sm f (cs_parentName s) r" for r
      by (cases r) (simp_all add: found_field_def)
    then show ?thesis
      using False fc chain_step.IH by (subst findFieldInHierarchy.simps) simp
  qed
qed

text \<open>C10: The check for circular inheritance is sound and complete for the walks that rely on it. It
  returns for every class, a cycle it reports is one, and once every declared class has passed, the
  subclass test and the search for a field return for every declared class, the first with the
  reflexive-transitive closure of the parent relation, the second with the nearest declaration.\<close>

theorem class_hierarchy_sound:
  "(\<exists>r. checkCircular sm c = Some r) \<and>
   (checkCircular sm c = Some (Circular x) \<longrightarrow> (x, x) \<in> (parents sm)\<^sup>+) \<and>
   (declaredAcyclic sm \<and> a \<noteq> [] \<longrightarrow> isSubclassOf sm c a = Some ((c, a) \<in> (parents sm)\<^sup>*)) \<and>
   (declaredAcyclic sm \<and> map_of (sm_classes sm) c = Some s \<longrightarrow>
      (\<exists>r. findFieldInHierarchy sm c f = Some r \<and> found_field sm f c r))"
proof (intro conjI impI)
  show "\<exists>r. checkCircular sm c = Some r" by (rule checkCircular_returns)
next
  assume "checkCircular sm c = Some (Circular x)"
  then obtain p s where "map_of (sm_classes sm) c = Some s" "cycleLoop sm (cs_parentName s) [c] = Some (Circular x)"
    by (auto simp: checkCircular_def parentClassName_def split: option.splits)
  then show "(x, x) \<in> (parents sm)\<^sup>+"
    using cycleLoop_circular [of sm "cs_parentName s" "[c]" "Circular x" x] findClass_declared [of sm c s]
    by (cases "c = []") (auto simp: parents_def)
next
  assume "declaredAcyclic sm \<and> a \<noteq> []"
  then show "isSubclassOf sm c a = Some ((c, a) \<in> (parents sm)\<^sup>*)" using isSubclassOf_declared by blast
next
  assume "declaredAcyclic sm \<and> map_of (sm_classes sm) c = Some s"
  then show "\<exists>r. findFieldInHierarchy sm c f = Some r \<and> found_field sm f c r"
    using findField_chain chain_step declared_chain findClass_declared by blast
qed

subsection \<open>Lookup of methods\<close>

definition paramKey :: "method_info \<Rightarrow> nat \<Rightarrow> string" where
  "paramKey method i =
     (if i < length (mi_paramIsGeneric method) \<and> mi_paramIsGeneric method ! i
      then ''<generic:'' @ (if i < length (mi_paramClassNames method) then mi_paramClassNames method ! i else ''?'') @ ''>''
      else if mi_paramTypes method ! i = OBJECT \<and> i < length (mi_paramClassNames method) \<and>
              mi_paramClassNames method ! i \<noteq> []
      then ''object:'' @ mi_paramClassNames method ! i
      else zlTypeName (mi_paramTypes method ! i))"

definition methodParamSignatureKey :: "method_info \<Rightarrow> string" where
  "methodParamSignatureKey method =
     ''('' @ joinWith '','' (map (paramKey method) [0..<length (mi_paramTypes method)]) @ '')''"

definition paramTypesKey :: "zl_type list \<Rightarrow> string" where
  "paramTypesKey paramTypes = ''('' @ joinWith '','' (map zlTypeName paramTypes) @ '')''"

type_synonym candidate = "string \<times> method_info"

definition emplace :: "'k \<Rightarrow> 'v \<Rightarrow> ('k \<times> 'v) list \<Rightarrow> ('k \<times> 'v) list" where
  "emplace k v m = (if map_of m k = None then m @ [(k, v)] else m)"

definition overloadsIn :: "class_shape \<Rightarrow> string \<Rightarrow> method_info list" where
  "overloadsIn shape mname = (case map_of (cs_methods shape) mname of None \<Rightarrow> [] | Some ms \<Rightarrow> ms)"

partial_function (option) collectLoop ::
  "semantic_model \<Rightarrow> string \<Rightarrow> string \<Rightarrow> (string \<times> candidate) list \<Rightarrow> (string \<times> candidate) list option"
where
  "collectLoop sm mname cur bySignature =
     (if cur = [] then Some bySignature
      else case findClass sm cur of
        None \<Rightarrow> Some bySignature
      | Some shape \<Rightarrow>
          collectLoop sm mname (cs_parentName shape)
            (fold (\<lambda>overload. emplace (methodParamSignatureKey overload) (cur, overload))
               (overloadsIn shape mname) bySignature))"

text \<open>The order of the hash table does not matter: the candidates are sorted by signature and owner.\<close>

definition collectMethodOverloads :: "semantic_model \<Rightarrow> string \<Rightarrow> string \<Rightarrow> candidate list option" where
  "collectMethodOverloads sm cname mname =
     map_option (\<lambda>bySignature. sort_key (\<lambda>(owner, info). (methodParamSignatureKey info, owner)) (map snd bySignature))
       (collectLoop sm mname cname [])"

partial_function (option) findExactMethodInHierarchy ::
  "semantic_model \<Rightarrow> string \<Rightarrow> string \<Rightarrow> zl_type list \<Rightarrow> (candidate option) option"
where
  "findExactMethodInHierarchy sm cur mname paramTypes =
     (if cur = [] then Some None
      else case findClass sm cur of
        None \<Rightarrow> Some None
      | Some shape \<Rightarrow>
          (case find (\<lambda>overload. paramTypesKey (mi_paramTypes overload) = paramTypesKey paramTypes)
                  (overloadsIn shape mname) of
             Some overload \<Rightarrow> Some (Some (cur, overload))
           | None \<Rightarrow> findExactMethodInHierarchy sm (cs_parentName shape) mname paramTypes))"

text \<open>
  Both searches find the nearest declaration that satisfies a test: the first one in the first class
  of the parent chain that has one.
\<close>

inductive nearest_method :: "semantic_model \<Rightarrow> string \<Rightarrow> (method_info \<Rightarrow> bool) \<Rightarrow> string \<Rightarrow> candidate \<Rightarrow> bool"
  for sm m P
where
  own_method: "c \<noteq> [] \<Longrightarrow> findClass sm c = Some s \<Longrightarrow> find P (overloadsIn s m) = Some mi \<Longrightarrow>
    nearest_method sm m P c (c, mi)"
| inherited_method: "c \<noteq> [] \<Longrightarrow> findClass sm c = Some s \<Longrightarrow> find P (overloadsIn s m) = None \<Longrightarrow>
    nearest_method sm m P (cs_parentName s) r \<Longrightarrow> nearest_method sm m P c r"

inductive_cases nearest_methodE: "nearest_method sm m P c r"

lemma nearest_method_empty [simp]: "\<not> nearest_method sm m P [] r"
  by (auto elim: nearest_methodE)

lemma nearest_method_undeclared: "findClass sm c = None \<Longrightarrow> \<not> nearest_method sm m P c r"
  by (auto elim: nearest_methodE)

lemma nearest_method_step:
  assumes "c \<noteq> []" "findClass sm c = Some s"
  shows "nearest_method sm m P c r \<longleftrightarrow>
    (case find P (overloadsIn s m) of Some mi \<Rightarrow> r = (c, mi) | None \<Rightarrow> nearest_method sm m P (cs_parentName s) r)"
  using assms by (auto split: option.splits intro: own_method inherited_method elim: nearest_methodE)

text \<open>Chains from any name a class may be found under.\<close>

lemma walk_cases:
  assumes "declaredAcyclic sm"
  obtains "c = []" | "c \<noteq> []" "findClass sm c = None"
    | s where "c \<noteq> []" "findClass sm c = Some s" "chain_ends sm (cs_parentName s)"
  using assms declared_chain by (cases "findClass sm c") blast+

lemma chain_cases:
  assumes "chain_ends sm c" "c \<noteq> []"
  obtains s where "findClass sm c = Some s" "chain_ends sm (cs_parentName s)"
  using assms by (cases rule: chain_ends.cases) (auto intro: findClass_declared)

lemma map_of_emplace: "map_of (emplace k v m) = (map_of m)(k := (case map_of m k of None \<Rightarrow> Some v | Some w \<Rightarrow> Some w))"
  by (auto simp: emplace_def fun_eq_iff map_add_def split: option.splits)

lemma distinct_emplace: "distinct (map fst m) \<Longrightarrow> distinct (map fst (emplace k v m))"
  by (auto simp: emplace_def map_of_eq_None_iff)

lemma map_of_emplace_all:
  "map_of (fold (\<lambda>x. emplace (key x) (val x)) xs m) k =
     (case map_of m k of Some v \<Rightarrow> Some v | None \<Rightarrow> map_option val (find (\<lambda>x. key x = k) xs))"
  by (induction xs arbitrary: m) (auto simp: map_of_emplace split: option.splits)

lemma distinct_emplace_all:
  "distinct (map fst m) \<Longrightarrow> distinct (map fst (fold (\<lambda>x. emplace (key x) (val x)) xs m))"
  by (induction xs arbitrary: m) (simp_all add: distinct_emplace)

text \<open>What the walk has gathered answers the lookups of the classes it has passed.\<close>

definition has_signature :: "string \<Rightarrow> method_info \<Rightarrow> bool" where
  "has_signature k mi \<longleftrightarrow> methodParamSignatureKey mi = k"

definition gathered :: "semantic_model \<Rightarrow> string \<Rightarrow> string \<Rightarrow> (string \<times> candidate) list \<Rightarrow> (string \<times> candidate) list \<Rightarrow> bool" where
  "gathered sm m c before after \<longleftrightarrow>
     (distinct (map fst before) \<longrightarrow> distinct (map fst after)) \<and>
     (\<forall>k r. map_of after k = Some r \<longleftrightarrow>
        (case map_of before k of Some r' \<Rightarrow> r = r' | None \<Rightarrow> nearest_method sm m (has_signature k) c r))"

lemma gatheredD:
  "gathered sm m c before after \<Longrightarrow> map_of after k = Some r \<longleftrightarrow>
     (case map_of before k of Some r' \<Rightarrow> r = r' | None \<Rightarrow> nearest_method sm m (has_signature k) c r)"
  unfolding gathered_def by blast

lemma collectLoop_step:
  assumes "c \<noteq> []" "findClass sm c = Some s"
    and "\<And>before. \<exists>after. collectLoop sm m (cs_parentName s) before = Some after \<and>
      gathered sm m (cs_parentName s) before after"
  shows "\<exists>after. collectLoop sm m c before = Some after \<and> gathered sm m c before after"
proof -
  let ?mid = "fold (\<lambda>overload. emplace (methodParamSignatureKey overload) (c, overload)) (overloadsIn s m) before"
  obtain after where after: "collectLoop sm m (cs_parentName s) ?mid = Some after"
      "gathered sm m (cs_parentName s) ?mid after" using assms(3) by blast
  have "gathered sm m c before after"
    unfolding gathered_def
  proof (intro conjI allI)
    show "distinct (map fst before) \<longrightarrow> distinct (map fst after)"
      using after(2) distinct_emplace_all [of before] unfolding gathered_def by blast
    fix k r
    have sig: "(\<lambda>overload. methodParamSignatureKey overload = k) = has_signature k"
      by (simp add: has_signature_def fun_eq_iff)
    have "map_of ?mid k = (case map_of before k of Some v \<Rightarrow> Some v
        | None \<Rightarrow> map_option (Pair c) (find (has_signature k) (overloadsIn s m)))"
      unfolding map_of_emplace_all [where key = methodParamSignatureKey and val = "Pair c"] sig ..
    then show "map_of after k = Some r \<longleftrightarrow>
        (case map_of before k of Some r' \<Rightarrow> r = r' | None \<Rightarrow> nearest_method sm m (has_signature k) c r)"
      using gatheredD [OF after(2), of k r] nearest_method_step [OF assms(1,2), of m "has_signature k" r]
      by (cases "map_of before k"; cases "find (has_signature k) (overloadsIn s m)") auto
  qed
  then show ?thesis using after(1) assms(1,2) by (subst collectLoop.simps) simp
qed

lemma gathered_nothing: "c = [] \<or> findClass sm c = None \<Longrightarrow> gathered sm m c before before"
  by (auto simp: gathered_def nearest_method_undeclared split: option.splits)

lemma collectLoop_chain:
  assumes "chain_ends sm c"
  shows "\<exists>after. collectLoop sm m c before = Some after \<and> gathered sm m c before after"
  using assms
proof (induction arbitrary: before rule: chain_ends.induct)
  case chain_end
  show ?case by (subst collectLoop.simps) (simp add: gathered_nothing)
next
  case (chain_step c s)
  show ?case
  proof (cases "c = []")
    case True
    then show ?thesis by (subst collectLoop.simps) (simp add: gathered_nothing)
  next
    case False
    then show ?thesis
      using collectLoop_step [OF _ findClass_declared [OF chain_step.hyps(1)]] chain_step.IH by blast
  qed
qed

lemma collectLoop_declared:
  assumes "declaredAcyclic sm"
  shows "\<exists>after. collectLoop sm m c before = Some after \<and> gathered sm m c before after"
proof (cases rule: walk_cases [OF assms, of c])
  case (3 s)
  then show ?thesis using collectLoop_step collectLoop_chain by blast
qed (subst collectLoop.simps, simp add: gathered_nothing)+

lemma findExact_step:
  assumes "c \<noteq> []" "findClass sm c = Some s"
  shows "findExactMethodInHierarchy sm c m ts =
    (case find (\<lambda>o'. paramTypesKey (mi_paramTypes o') = paramTypesKey ts) (overloadsIn s m) of
       Some o' \<Rightarrow> Some (Some (c, o')) | None \<Rightarrow> findExactMethodInHierarchy sm (cs_parentName s) m ts)"
  using assms by (subst findExactMethodInHierarchy.simps) (simp split: option.splits)

text \<open>Rendered parameter types determine the types: no type name contains a comma.\<close>

lemma zlTypeName_inject: "zlTypeName a = zlTypeName b \<Longrightarrow> a = b"
  by (cases a; cases b; simp)

lemma zlTypeName_clean: "CHR '','' \<notin> set (zlTypeName t)" "zlTypeName t \<noteq> []"
  by (cases t; simp)+

lemma append_comma_eq:
  "CHR '','' \<notin> set a \<Longrightarrow> CHR '','' \<notin> set b \<Longrightarrow> a @ CHR '','' # x = b @ CHR '','' # y \<Longrightarrow> a = b \<and> x = y"
  by (induction a arbitrary: b) (auto simp: Cons_eq_append_conv)

lemma comma_in_join: "CHR '','' \<in> set (joinWith '','' (a # b # cs))"
  by simp

lemma commaJoin_inject:
  "joinWith '','' (map zlTypeName xs) = joinWith '','' (map zlTypeName ys) \<Longrightarrow> xs = ys"
proof (induction xs arbitrary: ys)
  case Nil
  show ?case
  proof (cases ys)
    case (Cons y zs)
    then show ?thesis using Nil zlTypeName_clean(2) [of y] by (cases zs) simp_all
  qed simp
next
  case (Cons x xs)
  show ?case
  proof (cases ys)
    case Nil
    then show ?thesis using Cons.prems zlTypeName_clean(2) [of x] by (cases xs) simp_all
  next
    case (Cons y zs)
    consider "xs = []" "zs = []" | "xs = []" "zs \<noteq> []" | "xs \<noteq> []" "zs = []" | "xs \<noteq> []" "zs \<noteq> []" by blast
    then show ?thesis
    proof cases
      case 1
      then show ?thesis using Cons Cons.prems zlTypeName_inject [of x y] by simp
    next
      case 2
      then obtain z zs' where "zs = z # zs'" by (cases zs) simp_all
      then have "CHR '','' \<in> set (zlTypeName x)"
        using 2 Cons Cons.prems comma_in_join [of "zlTypeName y" "zlTypeName z"] by simp
      then show ?thesis using zlTypeName_clean(1) by simp
    next
      case 3
      then obtain z xs' where "xs = z # xs'" by (cases xs) simp_all
      then have "CHR '','' \<in> set (zlTypeName y)"
        using 3 Cons Cons.prems comma_in_join [of "zlTypeName x" "zlTypeName z" "map zlTypeName xs'"] by (simp del: joinWith.simps(3))
      then show ?thesis using zlTypeName_clean(1) by simp
    next
      case 4
      then have "zlTypeName x @ CHR '','' # joinWith '','' (map zlTypeName xs) = zlTypeName y @ CHR '','' # joinWith '','' (map zlTypeName zs)"
        using Cons Cons.prems by (cases xs; cases zs) simp_all
      then have "zlTypeName x = zlTypeName y \<and> joinWith '','' (map zlTypeName xs) = joinWith '','' (map zlTypeName zs)"
        by (rule append_comma_eq [OF zlTypeName_clean(1) zlTypeName_clean(1)])
      then show ?thesis using Cons Cons.IH zlTypeName_inject by blast
    qed
  qed
qed

lemma paramTypesKey_inject [simp]: "paramTypesKey a = paramTypesKey b \<longleftrightarrow> a = b"
  using commaJoin_inject by (auto simp: paramTypesKey_def)

definition takes :: "zl_type list \<Rightarrow> method_info \<Rightarrow> bool" where
  "takes ts mi \<longleftrightarrow> mi_paramTypes mi = ts"

definition found_method :: "semantic_model \<Rightarrow> string \<Rightarrow> (method_info \<Rightarrow> bool) \<Rightarrow> string \<Rightarrow> candidate option \<Rightarrow> bool" where
  "found_method sm m P c r \<longleftrightarrow>
     (case r of Some x \<Rightarrow> nearest_method sm m P c x | None \<Rightarrow> \<forall>x. \<not> nearest_method sm m P c x)"

lemma findExact_found_step:
  assumes "c \<noteq> []" "findClass sm c = Some s"
    and "\<exists>r. findExactMethodInHierarchy sm (cs_parentName s) m ts = Some r \<and> found_method sm m (takes ts) (cs_parentName s) r"
  shows "\<exists>r. findExactMethodInHierarchy sm c m ts = Some r \<and> found_method sm m (takes ts) c r"
proof -
  have f: "find (\<lambda>o'. paramTypesKey (mi_paramTypes o') = paramTypesKey ts) (overloadsIn s m) = find (takes ts) (overloadsIn s m)"
    by (simp add: takes_def [abs_def])
  show ?thesis
  proof (cases "find (takes ts) (overloadsIn s m)")
    case None
    then have "found_method sm m (takes ts) c r \<longleftrightarrow> found_method sm m (takes ts) (cs_parentName s) r" for r
      by (cases r) (simp_all add: found_method_def nearest_method_step [OF assms(1,2)])
    then show ?thesis using assms(3) None f by (simp add: findExact_step [OF assms(1,2)])
  next
    case (Some mi)
    then show ?thesis
      using f by (simp add: findExact_step [OF assms(1,2)] found_method_def nearest_method_step [OF assms(1,2)])
  qed
qed

lemma findExact_nothing:
  "c = [] \<or> findClass sm c = None \<Longrightarrow> findExactMethodInHierarchy sm c m ts = Some None \<and> found_method sm m P c None"
  by (subst findExactMethodInHierarchy.simps) (auto simp: found_method_def nearest_method_undeclared)

lemma findExact_chain:
  assumes "chain_ends sm c"
  shows "\<exists>r. findExactMethodInHierarchy sm c m ts = Some r \<and> found_method sm m (takes ts) c r"
  using assms
proof (induction rule: chain_ends.induct)
  case chain_end
  show ?case using findExact_nothing by blast
next
  case (chain_step c s)
  then show ?case
    using findExact_nothing findExact_found_step [OF _ findClass_declared [OF chain_step.hyps(1)]] by blast
qed

lemma findExact_declared:
  assumes "declaredAcyclic sm"
  shows "\<exists>r. findExactMethodInHierarchy sm c m ts = Some r \<and> found_method sm m (takes ts) c r"
proof (cases rule: walk_cases [OF assms, of c])
  case (3 s)
  then show ?thesis using findExact_found_step [OF 3(1,2)] findExact_chain [OF 3(3)] by blast
qed (use findExact_nothing in blast)+

lemma nearest_method_has: "nearest_method sm m P c r \<Longrightarrow> P (snd r)"
  by (induction rule: nearest_method.induct) (auto simp: find_Some_iff)

lemma sorted_first_key:
  fixes f :: "'a \<Rightarrow> 'k :: linorder"
  shows "sorted (map (f \<circ> snd) (sort_key (\<lambda>(o', x). (f x, o' :: 'o :: linorder)) xs))"
proof -
  have "sorted (map (\<lambda>(o', x). (f x, o')) (sort_key (\<lambda>(o', x). (f x, o')) xs))" by (rule sorted_sort_key)
  then have "sorted_wrt (\<lambda>x y. (case x of (o', x) \<Rightarrow> (f x, o')) \<le> (case y of (o', x) \<Rightarrow> (f x, o')))
      (sort_key (\<lambda>(o', x). (f x, o')) xs)"
    by (simp only: sorted_map)
  then show ?thesis
    unfolding sorted_map by (rule sorted_wrt_mono_rel [rotated]) (auto simp: less_eq_prod_def split: prod.splits)
qed

text \<open>C28: Lookup of methods in a checked hierarchy returns, and respects overriding: the overload
  candidates of a call are sorted, have pairwise different signatures and are exactly the nearest
  declarations of their signatures, and the search for an exact parameter list finds the nearest
  declaration with these parameter types.\<close>

theorem method_lookup_nearest:
  assumes "declaredAcyclic sm"
  shows "(\<exists>cs. collectMethodOverloads sm c m = Some cs \<and>
      distinct (map (methodParamSignatureKey \<circ> snd) cs) \<and> sorted (map (methodParamSignatureKey \<circ> snd) cs) \<and>
      (\<forall>r. r \<in> set cs \<longleftrightarrow> nearest_method sm m (has_signature (methodParamSignatureKey (snd r))) c r)) \<and>
    (\<exists>r. findExactMethodInHierarchy sm c m ts = Some r \<and> found_method sm m (takes ts) c r)"
proof (intro conjI)
  obtain after where after: "collectLoop sm m c [] = Some after" "gathered sm m c [] after"
    using collectLoop_declared [OF assms] by blast
  have d: "distinct (map fst after)" and
    look: "\<And>k r. map_of after k = Some r \<longleftrightarrow> nearest_method sm m (has_signature k) c r"
    using after(2) by (auto simp: gathered_def)
  have mo: "map_of after (fst e) = Some (snd e)" if "e \<in> set after" for e
    using that d by simp
  have key: "fst e = methodParamSignatureKey (snd (snd e))" if "e \<in> set after" for e
    using nearest_method_has [OF look [THEN iffD1, OF mo [OF that]]] by (simp add: has_signature_def)
  let ?cs = "sort_key (\<lambda>(owner, info). (methodParamSignatureKey info, owner)) (map snd after)"
  have "map (methodParamSignatureKey \<circ> snd) (map snd after) = map fst after" using key by auto
  then have "distinct (map (methodParamSignatureKey \<circ> snd) (map snd after))"
    using d by (simp only:)
  then have "distinct (map (methodParamSignatureKey \<circ> snd) ?cs)"
    unfolding distinct_map [of _ ?cs] distinct_map [of _ "map snd after"] by simp
  moreover have "sorted (map (methodParamSignatureKey \<circ> snd) ?cs)"
    by (rule sorted_first_key)
  moreover have "r \<in> set ?cs \<longleftrightarrow> nearest_method sm m (has_signature (methodParamSignatureKey (snd r))) c r" for r
  proof
    assume "r \<in> set ?cs"
    then obtain e where "e \<in> set after" "r = snd e" by auto
    then show "nearest_method sm m (has_signature (methodParamSignatureKey (snd r))) c r"
      using look mo key by metis
  next
    assume "nearest_method sm m (has_signature (methodParamSignatureKey (snd r))) c r"
    then have "(methodParamSignatureKey (snd r), r) \<in> set after" using look map_of_SomeD by metis
    then show "r \<in> set ?cs" by force
  qed
  ultimately show "\<exists>cs. collectMethodOverloads sm c m = Some cs \<and>
      distinct (map (methodParamSignatureKey \<circ> snd) cs) \<and> sorted (map (methodParamSignatureKey \<circ> snd) cs) \<and>
      (\<forall>r. r \<in> set cs \<longleftrightarrow> nearest_method sm m (has_signature (methodParamSignatureKey (snd r))) c r)"
    using after(1) unfolding collectMethodOverloads_def by (intro exI [of _ ?cs]) simp
qed (rule findExact_declared [OF assms])

definition sample_method :: "zl_type list \<Rightarrow> method_info" where
  "sample_method ts = \<lparr>mi_paramTypes = ts, mi_paramClassNames = [], mi_paramIsGeneric = [],
     mi_returnType = INT_TYPE, mi_returnClassName = ''''\<rparr>"

definition sample_class :: "string \<Rightarrow> string \<Rightarrow> (string \<times> method_info list) list \<Rightarrow> class_shape" where
  "sample_class n p ms = \<lparr>cs_name = n, cs_typeParams = [], cs_parentName = p, cs_implementsNames = [],
     cs_fields = [(CHR ''f'' # n, INT_TYPE)], cs_methods = ms, cs_isDataType = False, cs_isEnumType = False\<rparr>"

definition sample_model :: semantic_model where
  "sample_model =
     defineClass (sample_class ''B'' ''A'' [(''m'', [sample_method [INT_TYPE]])])
       (defineClass (sample_class ''A'' '''' [(''m'', [sample_method [INT_TYPE], sample_method []])])
          \<lparr>sm_classes = [], sm_interfaces = []\<rparr>)"

lemma sample_classes:
  "sm_classes sample_model = [(''A'', sample_class ''A'' '''' [(''m'', [sample_method [INT_TYPE], sample_method []])]),
     (''B'', sample_class ''B'' ''A'' [(''m'', [sample_method [INT_TYPE]])])]"
  by (simp add: sample_model_def defineClass_def sample_class_def)

lemma sample_acyclic: "declaredAcyclic sample_model"
  by (simp add: declaredAcyclic_def sample_classes checkCircular_def parentClassName_def sample_class_def cycleLoop.simps)

theorem class_hierarchy_sound_witness:
  "declaredAcyclic sample_model \<and> isSubclassOf sample_model ''B'' ''A'' = Some True \<and>
   (\<exists>r. findFieldInHierarchy sample_model ''B'' ''fA'' = Some r \<and> found_field sample_model ''fA'' ''B'' r)"
proof -
  have b: "map_of (sm_classes sample_model) ''B'' = Some (sample_class ''B'' ''A'' [(''m'', [sample_method [INT_TYPE]])])"
    by (simp add: sample_classes)
  then have "(''B'', ''A'') \<in> parents sample_model"
    by (simp add: parents_def findClass_declared sample_class_def)
  then have "(''B'', ''A'') \<in> (parents sample_model)\<^sup>*" by blast
  then show ?thesis
    using class_hierarchy_sound [of sample_model "''B''" "''B''" "''A''" _ "''fA''"] sample_acyclic b by simp
qed

theorem method_lookup_nearest_witness:
  "declaredAcyclic sample_model \<and>
   (\<exists>cs. collectMethodOverloads sample_model ''B'' ''m'' = Some cs \<and>
      (\<forall>r. r \<in> set cs \<longleftrightarrow> nearest_method sample_model ''m'' (has_signature (methodParamSignatureKey (snd r))) ''B'' r)) \<and>
   collectMethodOverloads sample_model ''B'' ''m'' = Some [(''A'', sample_method []), (''B'', sample_method [INT_TYPE])]"
proof (intro conjI)
  show "\<exists>cs. collectMethodOverloads sample_model ''B'' ''m'' = Some cs \<and>
      (\<forall>r. r \<in> set cs \<longleftrightarrow> nearest_method sample_model ''m'' (has_signature (methodParamSignatureKey (snd r))) ''B'' r)"
    using method_lookup_nearest [OF sample_acyclic, of "''B''" "''m''"] by blast
  show "collectMethodOverloads sample_model ''B'' ''m'' = Some [(''A'', sample_method []), (''B'', sample_method [INT_TYPE])]"
    by (simp add: collectMethodOverloads_def collectLoop.simps findClass_def sample_classes sample_class_def
        overloadsIn_def emplace_def methodParamSignatureKey_def sample_method_def paramKey_def)
qed (rule sample_acyclic)

end
