(* ===== verification/Sema_Overload.thy ===== *)
theory Sema_Overload
  imports Sema_Classes "HOL-Library.Multiset"
begin

text \<open>
  Assignability of types (\<^verbatim>\<open>src/compiler/type_checker.cpp\<close>), the union types of the resolver
  (\<^verbatim>\<open>src/compiler/type_resolver.cpp\<close>) and overload resolution (\<^verbatim>\<open>src/compiler/overload_resolver.cpp\<close>).
  A test answers \<open>Some (Inr b)\<close>; it throws (\<open>Inl\<close>) when a union is not registered and does not
  return (\<open>None\<close>) when it walks up a circular chain of parents. Unions have no unions as members, so
  the recursion through them is at most two deep; the definitions take a bound on its depth.
\<close>

subsection \<open>Collections with type arguments\<close>

definition ULLONG_MAX :: int where
  "ULLONG_MAX = 2 ^ 64 - 1"

text \<open>\<open>std::stoull\<close> in base ten: leading white space, an optional sign, a run of digits, anything after it.\<close>

definition stoull :: "string \<Rightarrow> int option" where
  "stoull s =
     (let t = dropWhile is_space s;
          neg = (t \<noteq> [] \<and> hd t = CHR ''-'');
          ds = takeWhile is_digit (if t \<noteq> [] \<and> hd t \<in> {CHR ''-'', CHR ''+''} then tl t else t);
          v = digits_val ds
      in if ds = [] \<or> ULLONG_MAX < v then None
         else Some (if neg then (- v) mod 2 ^ 64 else v))"

record collection_shape =
  co_base :: string
  co_fixedArraySize :: "int option"
  co_args :: string

definition parseShape :: "string \<Rightarrow> collection_shape" where
  "parseShape s =
     (let head = takeWhile (\<lambda>c. c \<noteq> CHR ''<'') s;
          args = (if CHR ''<'' \<in> set s \<and> last s = CHR ''>''
                  then butlast (tl (dropWhile (\<lambda>c. c \<noteq> CHR ''<'') s)) else [])
      in if take 6 head = ''array['' \<and> last head = CHR '']''
         then (case stoull (take (length head - 7) (drop 6 head)) of
                 Some n \<Rightarrow> \<lparr>co_base = ''array'', co_fixedArraySize = Some n, co_args = args\<rparr>
               | None \<Rightarrow> \<lparr>co_base = head, co_fixedArraySize = None, co_args = args\<rparr>)
         else \<lparr>co_base = head, co_fixedArraySize = None, co_args = args\<rparr>)"

fun splitArgs :: "int \<Rightarrow> string \<Rightarrow> string \<Rightarrow> string list" where
  "splitArgs depth part [] = [part]"
| "splitArgs depth part (c # cs) =
     (if c = CHR '','' \<and> depth = 0 then part # splitArgs depth [] cs
      else splitArgs (if c = CHR ''<'' then (depth + 1) mod 2 ^ 64
                      else if c = CHR ''>'' then (depth - 1) mod 2 ^ 64 else depth) (part @ [c]) cs)"

definition sameArgument :: "string \<Rightarrow> string \<Rightarrow> bool" where
  "sameArgument f t \<longleftrightarrow> f = ''unknown'' \<or> t = ''unknown'' \<or> f = t"

definition genericCollectionCompatible :: "string \<Rightarrow> string \<Rightarrow> bool" where
  "genericCollectionCompatible from to =
     (if from = [] \<or> to = [] then True
      else if from = to then True
      else
        let fs = parseShape from; ts = parseShape to
        in if co_base fs \<noteq> co_base ts then False
           else if co_base fs = ''array'' \<and>
                   (case (co_fixedArraySize fs, co_fixedArraySize ts) of (Some m, Some n) \<Rightarrow> m \<noteq> n | _ \<Rightarrow> False)
           then False
           else if co_args fs = [] \<or> co_args ts = [] then True
           else if co_args fs = ''unknown'' \<or> co_args ts = ''unknown'' then True
           else list_all2 sameArgument (splitArgs 0 [] (co_args fs)) (splitArgs 0 [] (co_args ts)))"

subsection \<open>Unions\<close>

datatype resolved_arg =
  ResolvedTypeArg (ra_type: zl_type) (ra_className: string) (ra_functionParamTypes: "resolved_arg list")
    (ra_functionReturnType: "resolved_arg option") (ra_functionHasSignature: bool)

type_synonym union_table = "(string \<times> resolved_arg list) list"

text \<open>\<open>at\<close> on a name that is not registered throws.\<close>

definition unionMembers :: "union_table \<Rightarrow> string \<Rightarrow> string + resolved_arg list" where
  "unionMembers unions name = (case map_of unions name of None \<Rightarrow> Inl name | Some ms \<Rightarrow> Inr ms)"

definition nameOf :: "resolved_arg \<Rightarrow> string" where
  "nameOf member =
     (let name = (if ra_className member = [] then zlTypeName (ra_type member) else ra_className member)
      in if ra_type member = FUNCTION \<and> name \<noteq> ''func'' then ''('' @ name @ '')'' else name)"

fun flattenMembers :: "union_table \<Rightarrow> resolved_arg list \<Rightarrow> string + resolved_arg list" where
  "flattenMembers unions [] = Inr []"
| "flattenMembers unions (member # ms) =
     (case (if ra_type member = UNION_TYPE then unionMembers unions (ra_className member) else Inr [member]) of
        Inl e \<Rightarrow> Inl e
      | Inr nested \<Rightarrow>
          (case flattenMembers unions ms of Inl e \<Rightarrow> Inl e | Inr rest \<Rightarrow> Inr (nested @ rest)))"

definition joinNames :: "string list \<Rightarrow> string" where
  "joinNames names = foldl (\<lambda>out name. (if out = [] then [] else out @ ''|'') @ name) [] names"

definition makeUnion :: "resolved_arg list \<Rightarrow> union_table \<Rightarrow> string + resolved_arg \<times> union_table" where
  "makeUnion members unions =
     (case flattenMembers unions members of
        Inl e \<Rightarrow> Inl e
      | Inr flattened \<Rightarrow>
          let flat = remdups_adj (sort_key nameOf flattened); name = joinNames (map nameOf flat)
          in Inr (ResolvedTypeArg UNION_TYPE name [] None False, AList.update name flat unions))"

subsection \<open>Assignability\<close>

text \<open>The test on two object types; each step is evaluated only if the ones before it said no.\<close>

definition objectAssignable :: "semantic_model \<Rightarrow> string \<Rightarrow> string \<Rightarrow> bool option" where
  "objectAssignable sm from to =
     (if from = to then Some True
      else case isSubclassOf sm from to of
        None \<Rightarrow> None
      | Some True \<Rightarrow> Some True
      | Some False \<Rightarrow>
          (case (if hasInterface sm to then implementsInterface sm from to else Some False) of
             None \<Rightarrow> None
           | Some True \<Rightarrow> Some True
           | Some False \<Rightarrow>
               if hasInterface sm from \<and> hasInterface sm to then interfaceExtends sm from to else Some False))"

definition nilAssignable :: "semantic_model \<Rightarrow> zl_type \<Rightarrow> string \<Rightarrow> bool" where
  "nilAssignable sm to toClassName =
     (if to = OBJECT \<and> (case findClass sm toClassName of Some shape \<Rightarrow> cs_isEnumType shape | None \<Rightarrow> False) then False
      else to \<in> {STRING, LIST, MAP, SET, ARRAY, OBJECT, FUNCTION, TASK, UNKNOWN_TYPE})"

text \<open>Everything after the cases for unions.\<close>

definition plainAssignable :: "semantic_model \<Rightarrow> zl_type \<Rightarrow> zl_type \<Rightarrow> string \<Rightarrow> string \<Rightarrow> bool option" where
  "plainAssignable sm from to fromClassName toClassName =
     (if from = to then
        if from = FUNCTION \<and> fromClassName \<noteq> [] \<and> toClassName \<noteq> [] then Some (fromClassName = toClassName)
        else if from \<in> {LIST, MAP, SET, ARRAY} \<and> (fromClassName \<noteq> [] \<or> toClassName \<noteq> []) then
          (if fromClassName = [] \<or> toClassName = [] then Some True
           else Some (genericCollectionCompatible fromClassName toClassName))
        else if from = OBJECT \<and> fromClassName \<noteq> [] \<and> toClassName \<noteq> [] then
          objectAssignable sm fromClassName toClassName
        else if from = TASK \<and> (fromClassName \<noteq> [] \<or> toClassName \<noteq> []) then
          (if fromClassName = [] \<or> toClassName = [] then Some True else Some (fromClassName = toClassName))
        else Some True
      else if from = NIL then Some (nilAssignable sm to toClassName)
      else if from = INT_TYPE \<and> to = DOUBLE then Some True
      else if (from = LIST \<or> from = SET) \<and> to = ARRAY then
        (if fromClassName \<noteq> [] \<and> toClassName \<noteq> [] then Some (genericCollectionCompatible fromClassName toClassName)
         else Some True)
      else if from = LIST \<and> to = SET \<or> from = SET \<and> to = LIST then
        (if fromClassName \<noteq> [] \<and> toClassName \<noteq> [] then Some (genericCollectionCompatible fromClassName toClassName)
         else Some True)
      else Some False)"

type_synonym test_result = "(string + bool) option"

fun allOf :: "('a \<Rightarrow> test_result) \<Rightarrow> 'a list \<Rightarrow> test_result" where
  "allOf p [] = Some (Inr True)"
| "allOf p (x # xs) = (case p x of Some (Inr True) \<Rightarrow> allOf p xs | r \<Rightarrow> r)"

fun anyOf :: "('a \<Rightarrow> test_result) \<Rightarrow> 'a list \<Rightarrow> test_result" where
  "anyOf p [] = Some (Inr False)"
| "anyOf p (x # xs) = (case p x of Some (Inr False) \<Rightarrow> anyOf p xs | r \<Rightarrow> r)"

fun isAssignable :: "nat \<Rightarrow> semantic_model \<Rightarrow> union_table \<Rightarrow> zl_type \<Rightarrow> zl_type \<Rightarrow> string \<Rightarrow> string \<Rightarrow> test_result" where
  "isAssignable 0 sm unions from to fromClassName toClassName = None"
| "isAssignable (Suc n) sm unions from to fromClassName toClassName =
     (if from = UNKNOWN_TYPE \<or> to = UNKNOWN_TYPE then Some (Inr True)
      else if from = UNION_TYPE then
        (case unionMembers unions fromClassName of
           Inl e \<Rightarrow> Some (Inl e)
         | Inr members \<Rightarrow>
             allOf (\<lambda>member. isAssignable n sm unions (ra_type member) to (ra_className member) toClassName) members)
      else if to = UNION_TYPE then
        (case unionMembers unions toClassName of
           Inl e \<Rightarrow> Some (Inl e)
         | Inr members \<Rightarrow>
             anyOf (\<lambda>member. isAssignable n sm unions from (ra_type member) fromClassName (ra_className member)) members)
      else map_option Inr (plainAssignable sm from to fromClassName toClassName))"

subsection \<open>Overload resolution\<close>

text \<open>
  The resolver asks its checker about assignability; the test is an argument here. Candidates are
  owner and method, as \<open>collectMethodOverloads\<close> lists them. The two ambiguity errors and the two errors
  for no match are told apart; their texts list the candidates.
\<close>

datatype overload_error = NoArity | AmbiguousExact | AmbiguousWidening | NoMatch

definition classAt :: "string list \<Rightarrow> nat \<Rightarrow> string" where
  "classAt names i = (if i < length names then names ! i else [])"

definition needsIdentity :: "zl_type \<Rightarrow> bool" where
  "needsIdentity t \<longleftrightarrow> t \<in> {OBJECT, LIST, MAP, SET, ARRAY, UNION_TYPE, TASK}"

definition exactParam :: "zl_type list \<Rightarrow> string list \<Rightarrow> method_info \<Rightarrow> nat \<Rightarrow> bool" where
  "exactParam argTypes argClassNames m i \<longleftrightarrow>
     argTypes ! i = mi_paramTypes m ! i \<and>
     \<not> (classAt argClassNames i \<noteq> [] \<and> classAt (mi_paramClassNames m) i \<noteq> [] \<and> needsIdentity (argTypes ! i) \<and>
        classAt argClassNames i \<noteq> classAt (mi_paramClassNames m) i)"

definition exactMatch :: "zl_type list \<Rightarrow> string list \<Rightarrow> method_info \<Rightarrow> bool" where
  "exactMatch argTypes argClassNames m \<longleftrightarrow> list_all (exactParam argTypes argClassNames m) [0..<length argTypes]"

type_synonym assignability = "zl_type \<Rightarrow> zl_type \<Rightarrow> string \<Rightarrow> string \<Rightarrow> bool"

definition applicable :: "assignability \<Rightarrow> zl_type list \<Rightarrow> string list \<Rightarrow> method_info \<Rightarrow> bool" where
  "applicable assignable argTypes argClassNames m \<longleftrightarrow>
     list_all (\<lambda>i. assignable (argTypes ! i) (mi_paramTypes m ! i) (classAt argClassNames i) (classAt (mi_paramClassNames m) i))
       [0..<length argTypes]"

text \<open>One pass over the parameters: \<open>None\<close> once the other method is not at least as specific, else whether
  it is strictly more specific so far.\<close>

definition compareParam :: "assignability \<Rightarrow> method_info \<Rightarrow> method_info \<Rightarrow> nat \<Rightarrow> bool option \<Rightarrow> bool option" where
  "compareParam assignable candidate other i strict =
     (case strict of
        None \<Rightarrow> None
      | Some s \<Rightarrow>
          let candidateType = mi_paramTypes candidate ! i; otherType = mi_paramTypes other ! i;
              candidateClass = classAt (mi_paramClassNames candidate) i;
              otherClass = classAt (mi_paramClassNames other) i
          in if candidateType = OBJECT \<and> otherType = OBJECT \<and> candidateClass \<noteq> [] \<and> otherClass \<noteq> [] then
               (if \<not> assignable otherType candidateType otherClass candidateClass then None
                else Some (s \<or> candidateClass \<noteq> otherClass \<and> assignable otherType candidateType otherClass candidateClass))
             else if candidateType \<noteq> otherType then None
             else Some s)"

definition dominates :: "assignability \<Rightarrow> method_info \<Rightarrow> method_info \<Rightarrow> bool" where
  "dominates assignable other candidate \<longleftrightarrow>
     length (mi_paramTypes candidate) = length (mi_paramTypes other) \<and>
     fold (compareParam assignable candidate other) [0..<length (mi_paramTypes candidate)] (Some False) = Some True"

definition dominatedAt :: "assignability \<Rightarrow> candidate list \<Rightarrow> nat \<Rightarrow> bool" where
  "dominatedAt assignable widening i \<longleftrightarrow>
     list_ex (\<lambda>j. j \<noteq> i \<and> dominates assignable (snd (widening ! j)) (snd (widening ! i))) [0..<length widening]"

definition resolve :: "assignability \<Rightarrow> candidate list \<Rightarrow> zl_type list \<Rightarrow> string list \<Rightarrow> overload_error + candidate" where
  "resolve assignable candidates argTypes argClassNames =
     (let arityMatches = filter (\<lambda>c. length (mi_paramTypes (snd c)) = length argTypes) candidates
      in if arityMatches = [] then Inl NoArity
         else
           case filter (\<lambda>c. exactMatch argTypes argClassNames (snd c)) arityMatches of
             [c] \<Rightarrow> Inr c
           | _ # _ \<Rightarrow> Inl AmbiguousExact
           | [] \<Rightarrow>
               let widening = filter (\<lambda>c. applicable assignable argTypes argClassNames (snd c)) arityMatches
               in (case widening of
                     [] \<Rightarrow> Inl NoMatch
                   | [c] \<Rightarrow> Inr c
                   | _ \<Rightarrow>
                       (case filter (\<lambda>i. \<not> dominatedAt assignable widening i) [0..<length widening] of
                          [i] \<Rightarrow> Inr (widening ! i)
                        | _ \<Rightarrow> Inl AmbiguousWidening)))"

subsection \<open>What assignability decides\<close>

definition subtype_name :: "semantic_model \<Rightarrow> string \<Rightarrow> string \<Rightarrow> bool" where
  "subtype_name sm f t \<longleftrightarrow>
     (f, t) \<in> (parents sm)\<^sup>* \<or>
     hasInterface sm t \<and>
       (if hasInterface sm f then (f, t) \<in> (extends sm)\<^sup>*
        else \<exists>c. (f, c) \<in> (parents sm)\<^sup>* \<and> c \<noteq> [] \<and> implements sm c t)"

lemma implementsInterface_decides:
  "implementsInterface sm n a = Some (n = a \<or>
     (if hasInterface sm n then (n, a) \<in> (extends sm)\<^sup>*
      else \<exists>c. (n, c) \<in> (parents sm)\<^sup>* \<and> c \<noteq> [] \<and> implements sm c a))"
  by (auto simp: implementsInterface_def interfaceExtends_decides implementsLoop_start)

lemma objectAssignable_decides:
  assumes "declaredAcyclic sm" "t \<noteq> []"
  shows "objectAssignable sm f t = Some (subtype_name sm f t)"
  using isSubclassOf_declared [OF assms, of f]
  by (auto simp: objectAssignable_def subtype_name_def implementsInterface_decides interfaceExtends_decides split: bool.splits)

lemma subtype_name_refl: "subtype_name sm n n"
  by (simp add: subtype_name_def)

text \<open>No name is both a class and an interface, and no class extends an interface.\<close>

definition kinds_apart :: "semantic_model \<Rightarrow> bool" where
  "kinds_apart sm \<longleftrightarrow> 
     (\<forall>n \<in> fst ` set (sm_interfaces sm). findClass sm n = None) \<and>
     (\<forall>s \<in> snd ` set (sm_classes sm). \<not> hasInterface sm (cs_parentName s))"

lemma interface_no_parent: "kinds_apart sm \<Longrightarrow> hasInterface sm n \<Longrightarrow> (n, m) \<in> (parents sm)\<^sup>* \<Longrightarrow> m = n"
  by (erule converse_rtranclE)
    (auto simp: kinds_apart_def hasInterface_def parents_def dest!: map_of_SomeD)

lemma parent_no_interface: "kinds_apart sm \<Longrightarrow> (n, m) \<in> parents sm \<Longrightarrow> \<not> hasInterface sm m"
  by (auto simp: kinds_apart_def parents_def dest!: findClass_parent map_of_SomeD)

lemma subtype_name_trans:
  assumes apart: "kinds_apart sm" and ab: "subtype_name sm a b" and bc: "subtype_name sm b c"
  shows "subtype_name sm a c"
proof (cases "(a, b) \<in> (parents sm)\<^sup>*")
  case up: True
  show ?thesis
  proof (cases "hasInterface sm a")
    case True
    then show ?thesis using interface_no_parent [OF apart True up] bc by simp
  next
    case False
    show ?thesis
    proof (cases "hasInterface sm b")
      case True
      then have "(b, c) \<in> (extends sm)\<^sup>* \<and> hasInterface sm c \<or> c = b"
        using bc interface_no_parent [OF apart True] by (auto simp: subtype_name_def)
      moreover have "a = b"
        using up True parent_no_interface [OF apart] by (cases rule: rtranclE) auto
      ultimately show ?thesis using bc by simp
    next
      case b: False
      then show ?thesis using bc up False by (auto simp: subtype_name_def intro: rtrancl_trans)
    qed
  qed
next
  case False
  then have ib: "hasInterface sm b" using ab by (simp add: subtype_name_def)
  then have "(b, c) \<in> (extends sm)\<^sup>* \<and> hasInterface sm c \<or> c = b"
    using bc interface_no_parent [OF apart ib] by (auto simp: subtype_name_def)
  then show ?thesis
    using ab False ib by (auto simp: subtype_name_def implements_def split: if_splits intro: rtrancl_trans)
qed

lemma plainAssignable_returns:
  assumes "declaredAcyclic sm"
  shows "\<exists>b. plainAssignable sm f t fc tc = Some b"
  using objectAssignable_decides [OF assms] by (cases "tc = []") (auto simp: plainAssignable_def)

text \<open>A type as the list of its alternatives, and the test between two alternatives.\<close>

definition alternatives :: "union_table \<Rightarrow> zl_type \<Rightarrow> string \<Rightarrow> (zl_type \<times> string) set" where
  "alternatives U t c =
     (if t = UNION_TYPE then (\<lambda>m. (ra_type m, ra_className m)) ` set (case map_of U c of Some ms \<Rightarrow> ms | None \<Rightarrow> [])
      else {(t, c)})"

definition alternative_ok :: "semantic_model \<Rightarrow> zl_type \<times> string \<Rightarrow> zl_type \<times> string \<Rightarrow> bool" where
  "alternative_ok sm f t \<longleftrightarrow> fst f = UNKNOWN_TYPE \<or> fst t = UNKNOWN_TYPE \<or>
     plainAssignable sm (fst f) (fst t) (snd f) (snd t) = Some True"

definition unions_ok :: "union_table \<Rightarrow> bool" where
  "unions_ok U \<longleftrightarrow> (\<forall>ms \<in> snd ` set U. ms \<noteq> [] \<and> (\<forall>m \<in> set ms. ra_type m \<noteq> UNION_TYPE))"

definition registered :: "union_table \<Rightarrow> zl_type \<Rightarrow> string \<Rightarrow> bool" where
  "registered U t c \<longleftrightarrow> (t = UNION_TYPE \<longrightarrow> map_of U c \<noteq> None)"

lemma allOf_total: "(\<And>x. x \<in> set xs \<Longrightarrow> p x = Some (Inr (q x))) \<Longrightarrow> allOf p xs = Some (Inr (\<forall>x \<in> set xs. q x))"
  by (induction xs) (auto split: bool.splits)

lemma anyOf_total: "(\<And>x. x \<in> set xs \<Longrightarrow> p x = Some (Inr (q x))) \<Longrightarrow> anyOf p xs = Some (Inr (\<exists>x \<in> set xs. q x))"
  by (induction xs) (auto split: bool.splits)

lemma assignable_plain:
  assumes "declaredAcyclic sm" "f \<noteq> UNION_TYPE" "t \<noteq> UNION_TYPE"
  shows "isAssignable (Suc n) sm U f t fc tc = Some (Inr (alternative_ok sm (f, fc) (t, tc)))"
  using assms(2,3) plainAssignable_returns [OF assms(1), of f t fc tc] by (auto simp: alternative_ok_def)

lemma union_entry:
  assumes "unions_ok U" "map_of U c = Some ms"
  shows "ms \<noteq> []" "m \<in> set ms \<Longrightarrow> ra_type m \<noteq> UNION_TYPE"
  using assms(1) map_of_SomeD [OF assms(2)] by (force simp: unions_ok_def)+

lemma alternatives_union: "map_of U c = Some ms \<Longrightarrow> alternatives U UNION_TYPE c = (\<lambda>m. (ra_type m, ra_className m)) ` set ms"
  by (simp add: alternatives_def)

lemma alternatives_single: "t \<noteq> UNION_TYPE \<Longrightarrow> alternatives U t c = {(t, c)}"
  by (simp add: alternatives_def)

lemma assignable_to_union:
  assumes "declaredAcyclic sm" "unions_ok U" "f \<noteq> UNION_TYPE" "registered U t tc"
  shows "isAssignable (Suc (Suc n)) sm U f t fc tc = Some (Inr (\<exists>a \<in> alternatives U t tc. alternative_ok sm (f, fc) a))"
proof (cases "t = UNION_TYPE")
  case True
  then obtain ms where ms: "map_of U tc = Some ms" using assms(4) by (auto simp: registered_def)
  show ?thesis
  proof (cases "f = UNKNOWN_TYPE")
    case unknown: True
    then show ?thesis
      using True union_entry(1) [OF assms(2) ms] alternatives_union [OF ms] by (auto simp: alternative_ok_def neq_Nil_conv)
  next
    case False
    have "anyOf (\<lambda>m. isAssignable (Suc n) sm U f (ra_type m) fc (ra_className m)) ms =
        Some (Inr (\<exists>m \<in> set ms. alternative_ok sm (f, fc) (ra_type m, ra_className m)))"
      using union_entry(2) [OF assms(2) ms] assms(1,3) by (intro anyOf_total assignable_plain) auto
    then show ?thesis
      using True False ms assms(3) by (simp add: unionMembers_def alternatives_union del: isAssignable.simps(2) add: isAssignable.simps(2) [of "Suc n"])
  qed
next
  case False
  then show ?thesis using assignable_plain [OF assms(1,3) False, of "Suc n"] by (simp add: alternatives_single)
qed

lemma assignable_decided:
  assumes "declaredAcyclic sm" "unions_ok U" "registered U f fc" "registered U t tc"
  shows "isAssignable (Suc (Suc (Suc n))) sm U f t fc tc =
    Some (Inr (\<forall>a \<in> alternatives U f fc. \<exists>b \<in> alternatives U t tc. alternative_ok sm a b))"
proof (cases "f = UNION_TYPE")
  case True
  then obtain ms where ms: "map_of U fc = Some ms" using assms(3) by (auto simp: registered_def)
  show ?thesis
  proof (cases "t = UNKNOWN_TYPE")
    case unknown: True
    then show ?thesis by (auto simp: alternatives_def alternative_ok_def)
  next
    case False
    have "allOf (\<lambda>m. isAssignable (Suc (Suc n)) sm U (ra_type m) t (ra_className m) tc) ms =
        Some (Inr (\<forall>m \<in> set ms. \<exists>b \<in> alternatives U t tc. alternative_ok sm (ra_type m, ra_className m) b))"
      using union_entry(2) [OF assms(2) ms] assms(1,2,4) by (intro allOf_total assignable_to_union) auto
    then show ?thesis
      unfolding True alternatives_union [OF ms]
      using False ms by (simp add: unionMembers_def del: isAssignable.simps(2) add: isAssignable.simps(2) [of "Suc (Suc n)"])
  qed
next
  case False
  then show ?thesis using assignable_to_union [OF assms(1,2) False assms(4), of "Suc n" fc] by (simp add: alternatives_single)
qed

subsection \<open>The union table\<close>

definition alternative :: "resolved_arg \<Rightarrow> zl_type \<times> string" where
  "alternative m = (ra_type m, ra_className m)"

lemma flatten_one:
  assumes "registered U (ra_type m) (ra_className m)"
  shows "\<exists>ns. (if ra_type m = UNION_TYPE then unionMembers U (ra_className m) else Inr [m]) = Inr ns \<and>
    alternative ` set ns = alternatives U (ra_type m) (ra_className m) \<and>
    (unions_ok U \<longrightarrow> ns \<noteq> [] \<and> (\<forall>n \<in> set ns. ra_type n \<noteq> UNION_TYPE))"
proof (cases "ra_type m = UNION_TYPE")
  case True
  then obtain ns where ns: "map_of U (ra_className m) = Some ns" using assms by (auto simp: registered_def)
  then show ?thesis
    using True union_entry [OF _ ns] alternatives_union [OF ns]
    by (intro exI [of _ ns]) (simp add: unionMembers_def alternative_def)
qed (simp add: alternatives_single alternative_def)

lemma flattenMembers_total:
  assumes "\<forall>m \<in> set ms. registered U (ra_type m) (ra_className m)"
  shows "\<exists>flat. flattenMembers U ms = Inr flat \<and>
    alternative ` set flat = (\<Union>m \<in> set ms. alternatives U (ra_type m) (ra_className m)) \<and>
    (unions_ok U \<longrightarrow> (\<forall>m \<in> set flat. ra_type m \<noteq> UNION_TYPE) \<and> (ms \<noteq> [] \<longrightarrow> flat \<noteq> []))"
  using assms
proof (induction ms)
  case (Cons m ms)
  obtain rest where rest: "flattenMembers U ms = Inr rest"
      "alternative ` set rest = (\<Union>m \<in> set ms. alternatives U (ra_type m) (ra_className m))"
      "unions_ok U \<longrightarrow> (\<forall>m \<in> set rest. ra_type m \<noteq> UNION_TYPE)"
    using Cons by auto
  obtain ns where ns: "(if ra_type m = UNION_TYPE then unionMembers U (ra_className m) else Inr [m]) = Inr ns"
      "alternative ` set ns = alternatives U (ra_type m) (ra_className m)"
      "unions_ok U \<longrightarrow> ns \<noteq> [] \<and> (\<forall>n \<in> set ns. ra_type n \<noteq> UNION_TYPE)"
    using flatten_one Cons.prems by (metis list.set_intros(1))
  have "flattenMembers U (m # ms) = Inr (ns @ rest)"
    unfolding flattenMembers.simps ns(1) rest(1) by simp
  moreover have "alternative ` set (ns @ rest) = (\<Union>m \<in> set (m # ms). alternatives U (ra_type m) (ra_className m))"
    using ns(2) rest(2) by (simp only: set_append image_Un list.set UN_insert)
  ultimately show ?case using ns(3) rest(3) by (intro exI [of _ "ns @ rest"]) auto
qed simp

lemma unions_ok_update:
  assumes "unions_ok U" "ms \<noteq> []" "\<forall>m \<in> set ms. ra_type m \<noteq> UNION_TYPE"
  shows "unions_ok (AList.update n ms U)"
  using assms(1)
proof (induction U)
  case (Cons e U)
  obtain k v where e: "e = (k, v)" by (cases e)
  have "unions_ok ((k, v) # V) \<longleftrightarrow> v \<noteq> [] \<and> (\<forall>m \<in> set v. ra_type m \<noteq> UNION_TYPE) \<and> unions_ok V" for k v V
    by (simp add: unions_ok_def)
  then show ?case using Cons assms(2,3) unfolding e by simp
qed (use assms(2,3) in \<open>simp add: unions_ok_def\<close>)

lemma makeUnion_eq:
  assumes "flattenMembers U ms = Inr flat" "fl = remdups_adj (sort_key nameOf flat)" "n = joinNames (map nameOf fl)"
  shows "makeUnion ms U = Inr (ResolvedTypeArg UNION_TYPE n [] None False, AList.update n fl U)"
  unfolding makeUnion_def assms(1) Let_def sum.case assms(2) [symmetric] assms(3) [symmetric] ..

lemma update_registers:
  "registered (AList.update n fl U) UNION_TYPE n"
  "alternatives (AList.update n fl U) UNION_TYPE n = alternative ` set fl"
  "k \<noteq> n \<Longrightarrow> map_of (AList.update n fl U) k = map_of U k"
  by (simp_all add: registered_def alternatives_def alternative_def [abs_def] update_conv)

definition union_made :: "resolved_arg list \<Rightarrow> union_table \<Rightarrow> resolved_arg \<Rightarrow> union_table \<Rightarrow> bool" where
  "union_made ms U r U' \<longleftrightarrow> ra_type r = UNION_TYPE \<and> unions_ok U' \<and> registered U' UNION_TYPE (ra_className r) \<and>
     alternatives U' UNION_TYPE (ra_className r) = (\<Union>m \<in> set ms. alternatives U (ra_type m) (ra_className m)) \<and>
     (\<forall>n. n \<noteq> ra_className r \<longrightarrow> map_of U' n = map_of U n)"

lemma makeUnion_registers:
  assumes "unions_ok U" "ms \<noteq> []" "\<forall>m \<in> set ms. registered U (ra_type m) (ra_className m)"
  shows "\<exists>r U'. makeUnion ms U = Inr (r, U') \<and> union_made ms U r U'"
proof -
  from flattenMembers_total [OF assms(3)] obtain flat where flat: "flattenMembers U ms = Inr flat"
      "alternative ` set flat = (\<Union>m \<in> set ms. alternatives U (ra_type m) (ra_className m))"
      "unions_ok U \<longrightarrow> (\<forall>m \<in> set flat. ra_type m \<noteq> UNION_TYPE) \<and> (ms \<noteq> [] \<longrightarrow> flat \<noteq> [])"
    by blast
  define fl where "fl = remdups_adj (sort_key nameOf flat)"
  define n where "n = joinNames (map nameOf fl)"
  have set_fl: "set fl = set flat" unfolding fl_def by simp
  then have "fl \<noteq> []" "\<forall>m \<in> set fl. ra_type m \<noteq> UNION_TYPE"
    using flat(3) assms(1,2) by (metis set_empty, metis)
  then have ok: "unions_ok (AList.update n fl U)" by (rule unions_ok_update [OF assms(1)])
  have "union_made ms U (ResolvedTypeArg UNION_TYPE n [] None False) (AList.update n fl U)"
    unfolding union_made_def resolved_arg.sel flat(2) [symmetric] update_registers(2) set_fl
    using ok update_registers(1,3) by blast
  then show ?thesis using makeUnion_eq [OF flat(1) fl_def n_def] by blast
qed

text \<open>C19: Assignability of types is decided and is the intended relation. On a checked hierarchy, with every
  union registered, the test returns, and says yes exactly if every alternative of the source type
  goes into some alternative of the target; for two object types it is the subtype relation of names,
  which is reflexive and, where no name is both a class and an interface, transitive. Registering a
  union keeps the table so, and the new name stands for all alternatives of its members.\<close>

theorem assignability_decided:
  assumes "declaredAcyclic sm" "unions_ok U"
  shows "(registered U f fc \<and> registered U t tc \<longrightarrow>
      isAssignable (Suc (Suc (Suc n))) sm U f t fc tc =
        Some (Inr (\<forall>a \<in> alternatives U f fc. \<exists>b \<in> alternatives U t tc. alternative_ok sm a b))) \<and>
    (b \<noteq> [] \<and> c \<noteq> [] \<longrightarrow> (alternative_ok sm (OBJECT, b) (OBJECT, c) \<longleftrightarrow> subtype_name sm b c)) \<and>
    subtype_name sm b b \<and>
    (kinds_apart sm \<and> subtype_name sm b c \<and> subtype_name sm c d \<longrightarrow> subtype_name sm b d) \<and>
    (ms \<noteq> [] \<and> (\<forall>m \<in> set ms. registered U (ra_type m) (ra_className m)) \<longrightarrow>
      (\<exists>r U'. makeUnion ms U = Inr (r, U') \<and> union_made ms U r U'))"
proof (intro conjI impI)
  show "isAssignable (Suc (Suc (Suc n))) sm U f t fc tc =
        Some (Inr (\<forall>a \<in> alternatives U f fc. \<exists>b \<in> alternatives U t tc. alternative_ok sm a b))"
    if "registered U f fc \<and> registered U t tc"
    using assignable_decided [OF assms] that by blast
  show "alternative_ok sm (OBJECT, b) (OBJECT, c) \<longleftrightarrow> subtype_name sm b c" if "b \<noteq> [] \<and> c \<noteq> []"
    using objectAssignable_decides [OF assms(1)] that by (simp add: alternative_ok_def plainAssignable_def)
  show "subtype_name sm b d" if "kinds_apart sm \<and> subtype_name sm b c \<and> subtype_name sm c d"
    using subtype_name_trans that by blast
  show "\<exists>r U'. makeUnion ms U = Inr (r, U') \<and> union_made ms U r U'"
    if "ms \<noteq> [] \<and> (\<forall>m \<in> set ms. registered U (ra_type m) (ra_className m))"
    using makeUnion_registers [OF assms(2)] that by blast
qed (rule subtype_name_refl)

subsection \<open>Overload resolution\<close>

text \<open>The choice in terms of lists alone: domination is never by a method equal to the candidate.\<close>

lemma compareParam_self: "compareParam A m m i (Some s) \<in> {None, Some s}"
  by (auto simp: compareParam_def Let_def)

lemma fold_compareParam_none [simp]: "fold (compareParam A c o') is None = None"
  by (induction "is") (simp_all add: compareParam_def)

lemma not_dominates_self: "\<not> dominates A m m"
proof -
  have "fold (compareParam A m m) is (Some False) \<noteq> Some True" for "is"
  proof (induction "is")
    case (Cons i "is")
    then show ?case using compareParam_self [of A m i False] by auto
  qed simp
  then show ?thesis by (simp add: dominates_def)
qed

definition dominatedIn :: "assignability \<Rightarrow> candidate list \<Rightarrow> candidate \<Rightarrow> bool" where
  "dominatedIn A ws c \<longleftrightarrow> (\<exists>d \<in> set ws. dominates A (snd d) (snd c))"

lemma dominatedAt_in: "i < length ws \<Longrightarrow> dominatedAt A ws i \<longleftrightarrow> dominatedIn A ws (ws ! i)"
proof -
  assume "i < length ws"
  have "dominatedIn A ws (ws ! i) \<longleftrightarrow> (\<exists>j < length ws. dominates A (snd (ws ! j)) (snd (ws ! i)))"
    unfolding dominatedIn_def by (metis in_set_conv_nth)
  then show ?thesis
    using not_dominates_self [of A "snd (ws ! i)"] unfolding dominatedAt_def list_ex_iff
    by (metis atLeast0LessThan lessThan_iff set_upt)
qed

lemma filter_positions: "map ((!) ws) (filter (\<lambda>i. P (ws ! i)) [0..<length ws]) = filter P ws"
proof -
  have "filter P (map ((!) ws) [0..<length ws]) = map ((!) ws) (filter (P \<circ> (!) ws) [0..<length ws])"
    by (rule filter_map)
  then show ?thesis by (simp add: map_nth comp_def)
qed

lemma case_single_map:
  "(case map f xs of [y] \<Rightarrow> a y | _ \<Rightarrow> b) = (case xs of [x] \<Rightarrow> a (f x) | _ \<Rightarrow> b)"
  by (cases xs; cases "tl xs") (auto split: list.splits)

definition onlyOne :: "candidate list \<Rightarrow> overload_error \<Rightarrow> overload_error \<Rightarrow> overload_error + candidate" where
  "onlyOne cs none many = (case cs of [] \<Rightarrow> Inl none | [c] \<Rightarrow> Inr c | _ \<Rightarrow> Inl many)"

definition arityMatches :: "candidate list \<Rightarrow> zl_type list \<Rightarrow> candidate list" where
  "arityMatches cs ts = filter (\<lambda>c. length (mi_paramTypes (snd c)) = length ts) cs"

definition exactOnes :: "candidate list \<Rightarrow> zl_type list \<Rightarrow> string list \<Rightarrow> candidate list" where
  "exactOnes cs ts ns = filter (\<lambda>c. exactMatch ts ns (snd c)) (arityMatches cs ts)"

definition applicableOnes :: "assignability \<Rightarrow> candidate list \<Rightarrow> zl_type list \<Rightarrow> string list \<Rightarrow> candidate list" where
  "applicableOnes A cs ts ns = filter (\<lambda>c. applicable A ts ns (snd c)) (arityMatches cs ts)"

definition bestOnes :: "assignability \<Rightarrow> candidate list \<Rightarrow> zl_type list \<Rightarrow> string list \<Rightarrow> candidate list" where
  "bestOnes A cs ts ns =
     filter (\<lambda>c. \<not> dominatedIn A (applicableOnes A cs ts ns) c) (applicableOnes A cs ts ns)"

lemma maximal_positions:
  "(case filter (\<lambda>i. \<not> dominatedAt A ws i) [0..<length ws] of [i] \<Rightarrow> Inr (ws ! i) | _ \<Rightarrow> Inl e) =
   (case filter (\<lambda>c. \<not> dominatedIn A ws c) ws of [c] \<Rightarrow> Inr c | _ \<Rightarrow> Inl e)"
proof -
  have "filter (\<lambda>i. \<not> dominatedAt A ws i) [0..<length ws] = filter (\<lambda>i. \<not> dominatedIn A ws (ws ! i)) [0..<length ws]"
    by (rule filter_cong) (simp_all add: dominatedAt_in)
  then show ?thesis
    using case_single_map [where f = "(!) ws" and a = Inr and b = "Inl e"
        and xs = "filter (\<lambda>i. \<not> dominatedIn A ws (ws ! i)) [0..<length ws]"]
    unfolding filter_positions [where P = "\<lambda>c. \<not> dominatedIn A ws c"] by simp
qed

lemma single_best: "applicableOnes A cs ts ns = [c] \<Longrightarrow> bestOnes A cs ts ns = [c]"
  using not_dominates_self [of A "snd c"] by (simp add: bestOnes_def dominatedIn_def)

lemma resolve_stages:
  "resolve A cs ts ns =
     (if arityMatches cs ts = [] then Inl NoArity
      else if exactOnes cs ts ns \<noteq> [] then onlyOne (exactOnes cs ts ns) NoMatch AmbiguousExact
      else if applicableOnes A cs ts ns = [] then Inl NoMatch
      else onlyOne (bestOnes A cs ts ns) AmbiguousWidening AmbiguousWidening)"
proof -
  have three: "xs = [] \<or> (\<exists>x. xs = [x]) \<or> (\<exists>x y zs. xs = x # y # zs)" for xs :: "candidate list"
    by (cases xs; cases "tl xs") auto
  let ?am = "arityMatches cs ts" let ?ex = "exactOnes cs ts ns" let ?ap = "applicableOnes A cs ts ns"
  have r: "resolve A cs ts ns = (if ?am = [] then Inl NoArity else case ?ex of [c] \<Rightarrow> Inr c | _ # _ \<Rightarrow> Inl AmbiguousExact
      | [] \<Rightarrow> (case ?ap of [] \<Rightarrow> Inl NoMatch | [c] \<Rightarrow> Inr c
          | _ \<Rightarrow> (case filter (\<lambda>c. \<not> dominatedIn A ?ap c) ?ap of [c] \<Rightarrow> Inr c | _ \<Rightarrow> Inl AmbiguousWidening)))"
    unfolding resolve_def Let_def maximal_positions exactOnes_def applicableOnes_def arityMatches_def ..
  show ?thesis
    using three [of ?ex] three [of ?ap]
  proof (elim disjE exE)
    fix c assume "?ex = []" "?ap = [c]"
    then show ?thesis using single_best [of A cs ts ns c] by (simp add: r onlyOne_def)
  qed (auto simp: r onlyOne_def bestOnes_def split: list.splits)
qed

text \<open>What a list has as its only element depends on the multiset of its elements.\<close>

lemma onlyOne_mset: "mset xs = mset ys \<Longrightarrow> onlyOne xs a b = onlyOne ys a b"
proof -
  assume eq: "mset xs = mset ys"
  have len: "length xs = length ys" using eq by (rule mset_eq_length)
  have single: "xs = [x] \<Longrightarrow> ys = [x]" for x using eq by (metis mset.simps mset_single_iff_right)
  consider "xs = []" | x where "xs = [x]" | x y zs where "xs = x # y # zs" by (cases xs; cases "tl xs") auto
  then show ?thesis
  proof cases
    case (3 x y zs)
    then obtain x' y' zs' where "ys = x' # y' # zs'" using len by (cases ys; cases "tl ys") auto
    with 3 show ?thesis by (simp add: onlyOne_def)
  qed (use len single in auto)
qed

lemma filter_mset_eq: "mset xs = mset ys \<Longrightarrow> mset (filter P xs) = mset (filter P ys)"
  by (metis mset_filter)

lemma stages_mset:
  assumes "mset cs = mset ds"
  shows "mset (arityMatches cs ts) = mset (arityMatches ds ts)"
    "mset (exactOnes cs ts ns) = mset (exactOnes ds ts ns)"
    "mset (applicableOnes A cs ts ns) = mset (applicableOnes A ds ts ns)"
    "mset (bestOnes A cs ts ns) = mset (bestOnes A ds ts ns)"
proof -
  show am: "mset (arityMatches cs ts) = mset (arityMatches ds ts)"
    unfolding arityMatches_def by (rule filter_mset_eq [OF assms])
  show "mset (exactOnes cs ts ns) = mset (exactOnes ds ts ns)"
    unfolding exactOnes_def by (rule filter_mset_eq [OF am])
  show ap: "mset (applicableOnes A cs ts ns) = mset (applicableOnes A ds ts ns)"
    unfolding applicableOnes_def by (rule filter_mset_eq [OF am])
  have "set (applicableOnes A cs ts ns) = set (applicableOnes A ds ts ns)" using ap by (rule mset_eq_setD)
  then have "dominatedIn A (applicableOnes A cs ts ns) = dominatedIn A (applicableOnes A ds ts ns)"
    by (simp add: dominatedIn_def fun_eq_iff)
  then show "mset (bestOnes A cs ts ns) = mset (bestOnes A ds ts ns)"
    unfolding bestOnes_def using filter_mset_eq [OF ap] by simp
qed

text \<open>C20: Overload resolution does not depend on the order in which the candidates are listed: for every
  rule of assignability it picks the same method, or fails with the same error. So the order of the
  hash tables the candidates are collected from cannot leak into the program.\<close>

theorem overload_order_independent:
  assumes "mset cs = mset ds"
  shows "resolve A cs ts ns = resolve A ds ts ns"
proof -
  have empty: "xs = [] \<longleftrightarrow> ys = []" if "mset xs = mset ys" for xs ys :: "candidate list"
    using mset_eq_length [OF that] by auto
  note m = stages_mset [OF assms]
  have "arityMatches cs ts = [] \<longleftrightarrow> arityMatches ds ts = []" by (rule empty [OF m(1)])
  moreover have "exactOnes cs ts ns = [] \<longleftrightarrow> exactOnes ds ts ns = []" by (rule empty [OF m(2)])
  moreover have "applicableOnes A cs ts ns = [] \<longleftrightarrow> applicableOnes A ds ts ns = []" by (rule empty [OF m(3)])
  ultimately show ?thesis
    unfolding resolve_stages onlyOne_mset [OF m(2)] onlyOne_mset [OF m(4)] by simp
qed

theorem overload_order_independent_witness:
  "resolve (\<lambda>f t _ _. f = t \<or> f = INT_TYPE \<and> t = DOUBLE)
     [(''A'', sample_method [DOUBLE]), (''A'', sample_method [STRING])] [INT_TYPE] [] = Inr (''A'', sample_method [DOUBLE]) \<and>
   resolve (\<lambda>f t _ _. f = t \<or> f = INT_TYPE \<and> t = DOUBLE)
     [(''A'', sample_method [STRING]), (''A'', sample_method [DOUBLE])] [INT_TYPE] [] = Inr (''A'', sample_method [DOUBLE])"
  using overload_order_independent [of "[(''A'', sample_method [DOUBLE]), (''A'', sample_method [STRING])]"
      "[(''A'', sample_method [STRING]), (''A'', sample_method [DOUBLE])]"
      "\<lambda>f t _ _. f = t \<or> f = INT_TYPE \<and> t = DOUBLE" "[INT_TYPE]" "[]"]
  by (simp add: resolve_def sample_method_def exactMatch_def exactParam_def applicable_def add_mset_commute)

definition checkerAssignable :: "semantic_model \<Rightarrow> union_table \<Rightarrow> assignability" where
  "checkerAssignable sm U f t fc tc \<longleftrightarrow> isAssignable 3 sm U f t fc tc = Some (Inr True)"

definition call_ok :: "union_table \<Rightarrow> zl_type list \<Rightarrow> string list \<Rightarrow> bool" where
  "call_ok U ts ns \<longleftrightarrow> (\<forall>i < length ts. registered U (ts ! i) (classAt ns i))"

lemma plainAssignable_refl:
  assumes "declaredAcyclic sm"
  shows "plainAssignable sm t t c c = Some True"
  using objectAssignable_decides [OF assms, of c c] subtype_name_refl [of sm c]
  by (auto simp: plainAssignable_def genericCollectionCompatible_def)

lemma checkerAssignable_decided:
  assumes "declaredAcyclic sm" "unions_ok U" "registered U f fc" "registered U t tc"
  shows "checkerAssignable sm U f t fc tc \<longleftrightarrow>
    (\<forall>a \<in> alternatives U f fc. \<exists>b \<in> alternatives U t tc. alternative_ok sm a b)"
  using assignable_decided [OF assms, of 0] by (simp add: checkerAssignable_def numeral_3_eq_3)

text \<open>A parameter that matches exactly accepts the argument, except that two function types match exactly
  whatever their signatures; those are compared after the choice.\<close>

lemma exactParam_assignable:
  assumes "declaredAcyclic sm" "unions_ok U" "map_of U [] = None"
    and "registered U f fc" "registered U f tc"
    and "\<not> (fc \<noteq> [] \<and> tc \<noteq> [] \<and> needsIdentity f \<and> fc \<noteq> tc)" "f \<noteq> FUNCTION"
  shows "checkerAssignable sm U f f fc tc"
proof (cases "f = UNION_TYPE")
  case True
  then have "fc = tc" using assms(3-6) by (auto simp: registered_def needsIdentity_def)
  moreover have "alternative_ok sm a a" for a
    using plainAssignable_refl [OF assms(1)] by (simp add: alternative_ok_def)
  ultimately show ?thesis using checkerAssignable_decided [OF assms(1,2,4,5)] by blast
next
  case False
  have "plainAssignable sm f f fc tc = Some True"
  proof (cases "fc = tc")
    case True
    then show ?thesis using plainAssignable_refl [OF assms(1)] by simp
  next
    case False
    then show ?thesis using assms(6,7) by (auto simp: plainAssignable_def needsIdentity_def)
  qed
  then show ?thesis
    using checkerAssignable_decided [OF assms(1,2,4,5)] False by (simp add: alternatives_single alternative_ok_def)
qed

definition accepts :: "assignability \<Rightarrow> zl_type list \<Rightarrow> string list \<Rightarrow> method_info \<Rightarrow> bool" where
  "accepts A ts ns m \<longleftrightarrow> length (mi_paramTypes m) = length ts \<and>
     (\<forall>i < length ts. A (ts ! i) (mi_paramTypes m ! i) (classAt ns i) (classAt (mi_paramClassNames m) i) \<or>
        ts ! i = FUNCTION \<and> mi_paramTypes m ! i = FUNCTION)"

lemma resolve_cases:
  assumes "resolve A cs ts ns = Inr c"
  obtains "c \<in> set (exactOnes cs ts ns)"
    | "exactOnes cs ts ns = []" "c \<in> set (applicableOnes A cs ts ns)"
      "\<forall>d \<in> set (applicableOnes A cs ts ns). d = c \<or> dominatedIn A (applicableOnes A cs ts ns) d"
proof -
  have one: "onlyOne xs a b = Inr c \<Longrightarrow> xs = [c]" for xs a b
    by (auto simp: onlyOne_def split: list.splits)
  consider "onlyOne (exactOnes cs ts ns) NoMatch AmbiguousExact = Inr c"
    | "exactOnes cs ts ns = []" "onlyOne (bestOnes A cs ts ns) AmbiguousWidening AmbiguousWidening = Inr c"
    using assms by (auto simp: resolve_stages split: if_splits)
  then show thesis
  proof cases
    case 1
    then show ?thesis using that(1) one by force
  next
    case 2
    have best: "set (bestOnes A cs ts ns) = {c}" using one [OF 2(2)] by simp
    show ?thesis
    proof (rule that(2) [OF 2(1)])
      show "c \<in> set (applicableOnes A cs ts ns)" using best by (auto simp: bestOnes_def)
      show "\<forall>d \<in> set (applicableOnes A cs ts ns). d = c \<or> dominatedIn A (applicableOnes A cs ts ns) d"
        using best by (auto simp: bestOnes_def)
    qed
  qed
qed



definition sample_union :: union_table where
  "sample_union = [(''B|int'', [ResolvedTypeArg OBJECT ''B'' [] None False, ResolvedTypeArg INT_TYPE '''' [] None False])]"

theorem assignability_decided_witness:
  "declaredAcyclic sample_model \<and> unions_ok sample_union \<and>
   isAssignable 3 sample_model sample_union OBJECT UNION_TYPE ''B'' ''B|int'' = Some (Inr True) \<and>
   (\<exists>r U'. makeUnion [ResolvedTypeArg STRING '''' [] None False, ResolvedTypeArg UNION_TYPE ''B|int'' [] None False] sample_union =
      Inr (r, U') \<and> unions_ok U')"
proof -
  have ok: "unions_ok sample_union" by (simp add: unions_ok_def sample_union_def)
  have "registered sample_union OBJECT ''B''" "registered sample_union UNION_TYPE ''B|int''"
    by (simp_all add: registered_def sample_union_def)
  moreover have "alternatives sample_union UNION_TYPE ''B|int'' = {(OBJECT, ''B''), (INT_TYPE, '''')}"
    "alternatives sample_union OBJECT ''B'' = {(OBJECT, ''B'')}"
    by (simp_all add: alternatives_def sample_union_def)
  moreover have "alternative_ok sample_model (OBJECT, ''B'') (OBJECT, ''B'')"
    by (simp add: alternative_ok_def plainAssignable_def objectAssignable_def)
  ultimately have a: "isAssignable 3 sample_model sample_union OBJECT UNION_TYPE ''B'' ''B|int'' = Some (Inr True)"
    using assignability_decided [OF sample_acyclic ok, of OBJECT "''B''" UNION_TYPE "''B|int''" 0] by (simp add: numeral_3_eq_3)
  have reg: "[ResolvedTypeArg STRING [] [] None False, ResolvedTypeArg UNION_TYPE ''B|int'' [] None False] \<noteq> [] \<and>
      (\<forall>m \<in> set [ResolvedTypeArg STRING [] [] None False, ResolvedTypeArg UNION_TYPE ''B|int'' [] None False].
         registered sample_union (ra_type m) (ra_className m))"
    by (simp add: registered_def sample_union_def)
  show ?thesis
    using a sample_acyclic ok assignability_decided [OF sample_acyclic ok, THEN conjunct2, THEN conjunct2, THEN conjunct2, THEN conjunct2, THEN mp, OF reg]
    unfolding union_made_def by blast
qed

end
