(* ===== verification/Sema_Dispatch.thy ===== *)
theory Sema_Dispatch
  imports Mir_Core Zl_Type_Name "HOL-Library.AList"
begin

text \<open>
  Type annotations of the syntax tree (\<^verbatim>\<open>include/zl/parser/type_annotation.hpp\<close>), dispatch signatures
  (\<^verbatim>\<open>include/zl/common/dispatch_signature.hpp\<close>), the dispatch tables of the reference compiler
  (\<^verbatim>\<open>src/compiler/dispatch_table.cpp\<close>, \<^verbatim>\<open>compiler.cpp\<close>) and of the MIR backend
  (\<^verbatim>\<open>src/mir/vm_backend.cpp\<close>), and the dispatch of the interpreter (\<^verbatim>\<open>src/vm/vm.cpp\<close>). Walking up the
  parents need not end, so it is a partial function; \<open>at\<close> on a missing key throws, which is \<open>Inl\<close>.
\<close>

subsection \<open>Type annotations\<close>

datatype type_annotation =
  TypeAnnotation (ta_name: string) (ta_fixedSize: "int option") (ta_typeArgs: "type_annotation list")
    (ta_unionOf: "type_annotation list") (ta_functionParamTypes: "type_annotation list")
    (ta_functionReturnType: "type_annotation option") (ta_functionHasSignature: bool)

fun flattenUnion :: "type_annotation \<Rightarrow> type_annotation list" where
  "flattenUnion (TypeAnnotation n fs args members ps r sig) =
     (if members = [] then [TypeAnnotation n fs args members ps r sig] else concat (map flattenUnion members))"

lemma flattenUnion_size: "x \<in> set (flattenUnion t) \<Longrightarrow> size x \<le> size t"
proof (induction t rule: flattenUnion.induct)
  case (1 n fs args members ps r sig)
  show ?case
  proof (cases "members = []")
    case False
    then obtain m where "m \<in> set members" "x \<in> set (flattenUnion m)" using "1.prems" by auto
    then have "size x \<le> size m" using "1.IH" False by blast
    moreover have "size m < size (TypeAnnotation n fs args members ps r sig)"
      using size_list_estimation' [OF \<open>m \<in> set members\<close>, of "size m" size] by simp
    ultimately show ?thesis by simp
  qed (use "1.prems" in simp)
qed

lemma flattenUnion_smaller:
  assumes "x \<in> set (flattenUnion t)" "ta_unionOf t \<noteq> []"
  shows "size x < size t"
proof (cases t)
  case (TypeAnnotation n fs args members ps r sig)
  then obtain m where m: "m \<in> set members" "x \<in> set (flattenUnion m)" using assms by auto
  then show ?thesis
    using flattenUnion_size [OF m(2)] size_list_estimation' [OF m(1), of "size m" size] TypeAnnotation by simp
qed

lemma typeArg_smaller: "a \<in> set (ta_typeArgs t) \<Longrightarrow> size a < size t"
  by (cases t) (auto dest: size_list_estimation' [where f = size, OF _ order_refl])

definition unionMemberText :: "type_annotation \<Rightarrow> string \<Rightarrow> string" where
  "unionMemberText member name =
     (if ta_name member = ''func'' \<and> ta_functionHasSignature member then ''('' @ name @ '')'' else name)"

text \<open>The separator is written only after a non-empty prefix.\<close>

definition joinMembers :: "string list \<Rightarrow> string" where
  "joinMembers names = foldl (\<lambda>out name. (if out = [] then [] else out @ ''|'') @ name) [] names"

function describeTypeAnnotation :: "type_annotation \<Rightarrow> string" where
  "describeTypeAnnotation t =
     (if ta_unionOf t \<noteq> [] then
        joinMembers (remdups_adj (sort (map (\<lambda>m. unionMemberText m (describeTypeAnnotation m)) (flattenUnion t))))
      else if ta_name t = ''func'' \<and> ta_functionHasSignature t then
        ''func('' @ joinWith '','' (map describeTypeAnnotation (ta_functionParamTypes t)) @ ''):'' @
        (case ta_functionReturnType t of None \<Rightarrow> ''void'' | Some r \<Rightarrow> describeTypeAnnotation r)
      else
        (case ta_fixedSize t of
           Some n \<Rightarrow>
             ''array['' @ int_to_string n @ '']<'' @
             (case ta_typeArgs t of [] \<Rightarrow> ''unknown'' | a # _ \<Rightarrow> describeTypeAnnotation a) @ ''>''
         | None \<Rightarrow>
             (if ta_name t = ''float'' \<or> ta_name t = ''decimal'' then ''double'' else ta_name t) @
             (if ta_typeArgs t = [] then []
              else ''<'' @ joinWith '','' (map describeTypeAnnotation (ta_typeArgs t)) @ ''>'')))"
  by pat_completeness auto
termination
proof (relation "measure size", goal_cases)
  case (2 t m)
  then show ?case by (simp add: flattenUnion_smaller)
next
  case (3 t p)
  then show ?case using size_list_estimation' [OF 3(3), of "size p" size] by (cases t) simp
next
  case (4 t r)
  then show ?case by (cases t) auto
next
  case 5
  then show ?case by (metis in_measure list.set_intros(1) typeArg_smaller)
next
  case 6
  then show ?case using typeArg_smaller by simp
qed simp_all

fun containsTypeParameter :: "string list \<Rightarrow> type_annotation \<Rightarrow> bool" where
  "containsTypeParameter parameters (TypeAnnotation n fs args members ps r sig) \<longleftrightarrow>
     n \<in> set parameters \<or> list_ex (containsTypeParameter parameters) args \<or>
     list_ex (containsTypeParameter parameters) members \<or> list_ex (containsTypeParameter parameters) ps \<or>
     (case r of None \<Rightarrow> False | Some t \<Rightarrow> containsTypeParameter parameters t)"

subsection \<open>Dispatch signatures\<close>

datatype dispatch_kind =
    DkInt | DkDouble | DkString | DkBool | DkVoid | DkList | DkArray | DkSet | DkMap | DkFunction
  | DkObject | DkGenericObject

record dispatch_type =
  dt_kind :: dispatch_kind
  dt_className :: string

record dispatch_signature =
  ds_name :: string
  ds_parameters :: "dispatch_type list"

definition dispatchTypeText :: "dispatch_type \<Rightarrow> string" where
  "dispatchTypeText p =
     (case dt_kind p of
        DkInt \<Rightarrow> ''int'' | DkDouble \<Rightarrow> ''double'' | DkString \<Rightarrow> ''string'' | DkBool \<Rightarrow> ''bool''
      | DkVoid \<Rightarrow> ''void'' | DkList \<Rightarrow> ''list'' | DkArray \<Rightarrow> ''array'' | DkSet \<Rightarrow> ''set'' | DkMap \<Rightarrow> ''map''
      | DkFunction \<Rightarrow> ''func''
      | _ \<Rightarrow> if dt_className p = [] then ''object'' else dt_className p)"

definition describeSignature :: "dispatch_signature \<Rightarrow> string" where
  "describeSignature sig = ds_name sig @ ''('' @ joinWith '','' (map dispatchTypeText (ds_parameters sig)) @ '')''"

record function_decl =
  fd_name :: string
  fd_typeParams :: "string list"
  fd_params :: "(string \<times> type_annotation) list"
  fd_isStatic :: bool
  fd_ownerClassName :: string

definition dtype :: "dispatch_kind \<Rightarrow> string \<Rightarrow> dispatch_type" where
  "dtype k n = \<lparr>dt_kind = k, dt_className = n\<rparr>"

definition erasedBase :: "string \<Rightarrow> string" where
  "erasedBase rendered = takeWhile (\<lambda>c. c \<noteq> CHR ''<'') rendered"

definition dispatchTypeFor :: "type_annotation \<Rightarrow> string list \<Rightarrow> dispatch_type" where
  "dispatchTypeFor t genericTypeParams =
     (if ta_unionOf t \<noteq> [] then
        if containsTypeParameter genericTypeParams t then dtype DkGenericObject []
        else dtype DkObject (describeTypeAnnotation t)
      else
        let name = ta_name t
        in if name = ''int'' then dtype DkInt []
           else if name = ''double'' \<or> name = ''float'' \<or> name = ''decimal'' then dtype DkDouble []
           else if name = ''string'' then dtype DkString []
           else if name = ''bool'' then dtype DkBool []
           else if name = ''void'' then dtype DkVoid []
           else if name = ''list'' then dtype DkList []
           else if name = ''array'' then dtype DkArray []
           else if name = ''set'' then dtype DkSet []
           else if name = ''map'' then dtype DkMap []
           else if name = ''func'' then dtype DkFunction []
           else if name = ''unknown'' \<or> name = ''nil'' \<or> name = ''object'' then dtype DkGenericObject []
           else if name \<in> set genericTypeParams then dtype DkGenericObject []
           else if ta_typeArgs t \<noteq> [] then dtype DkGenericObject (erasedBase name)
           else dtype DkObject name)"

definition signatureFor :: "function_decl \<Rightarrow> string list \<Rightarrow> dispatch_signature" where
  "signatureFor fn genericTypeParams =
     \<lparr>ds_name = fd_name fn,
      ds_parameters = map (\<lambda>p. dispatchTypeFor (snd p) (genericTypeParams @ fd_typeParams fn)) (fd_params fn)\<rparr>"

subsection \<open>The tables of the reference compiler\<close>

type_synonym class_map = "string \<rightharpoonup> string"

definition INVALID_FUNCTION_INDEX :: nat where
  "INVALID_FUNCTION_INDEX = 2 ^ 64 - 1"

record dispatch_tables =
  tb_methodSlots :: "(dispatch_signature \<times> nat) list"
  tb_classVTables :: "(string \<times> nat list) list"

definition dispatched :: "function_decl \<Rightarrow> bool" where
  "dispatched fn \<longleftrightarrow> \<not> fd_isStatic fn \<and> fd_ownerClassName fn \<noteq> []"

text \<open>The right operand of the assignment \<^verbatim>\<open>methodSlots[key] = methodSlots.size()\<close> is evaluated first.\<close>

fun assignSlots :: "(string \<rightharpoonup> string list) \<Rightarrow> function_decl list \<Rightarrow> (dispatch_signature \<times> nat) list \<Rightarrow>
    string + (dispatch_signature \<times> nat) list"
where
  "assignSlots typeParams [] slots = Inr slots"
| "assignSlots typeParams (fn # fns) slots =
     (if \<not> dispatched fn then assignSlots typeParams fns slots
      else case typeParams (fd_ownerClassName fn) of
        None \<Rightarrow> Inl (fd_ownerClassName fn)
      | Some tps \<Rightarrow>
          let key = signatureFor fn tps
          in assignSlots typeParams fns (if map_of slots key = None then slots @ [(key, length slots)] else slots))"

partial_function (option) parentChain :: "class_map \<Rightarrow> string \<Rightarrow> string list option" where
  "parentChain parents cur =
     (if cur = [] then Some []
      else Option.bind (parentChain parents (case parents cur of None \<Rightarrow> [] | Some p \<Rightarrow> p)) (\<lambda>rest. Some (cur # rest)))"

fun fillRow :: "(dispatch_signature \<times> nat) list \<Rightarrow> string \<Rightarrow> string list \<Rightarrow> nat \<Rightarrow> function_decl list \<Rightarrow> nat list \<Rightarrow>
    string + nat list"
where
  "fillRow slots owner tps i [] vtable = Inr vtable"
| "fillRow slots owner tps i (fn # fns) vtable =
     (if fd_isStatic fn \<or> fd_ownerClassName fn \<noteq> owner then fillRow slots owner tps (i + 1) fns vtable
      else case map_of slots (signatureFor fn tps) of
        None \<Rightarrow> Inl (fd_name fn)
      | Some s \<Rightarrow> fillRow slots owner tps (i + 1) fns (vtable[s := i]))"

fun fillChain :: "(string \<rightharpoonup> string list) \<Rightarrow> (dispatch_signature \<times> nat) list \<Rightarrow> function_decl list \<Rightarrow> string list \<Rightarrow>
    nat list \<Rightarrow> string + nat list"
where
  "fillChain typeParams slots functions [] vtable = Inr vtable"
| "fillChain typeParams slots functions (owner # owners) vtable =
     (case typeParams owner of
        None \<Rightarrow> Inl owner
      | Some tps \<Rightarrow>
          (case fillRow slots owner tps 0 functions vtable of
             Inl e \<Rightarrow> Inl e
           | Inr vtable' \<Rightarrow> fillChain typeParams slots functions owners vtable'))"

definition buildForClass :: "(string \<rightharpoonup> string list) \<Rightarrow> class_map \<Rightarrow> (dispatch_signature \<times> nat) list \<Rightarrow>
    function_decl list \<Rightarrow> string \<Rightarrow> (string + nat list) option"
where
  "buildForClass typeParams parents slots functions cname =
     map_option (\<lambda>chain. fillChain typeParams slots functions (rev chain)
         (replicate (length slots) INVALID_FUNCTION_INDEX))
       (parentChain parents cname)"

fun buildRows :: "(string \<Rightarrow> (string + nat list) option) \<Rightarrow> string list \<Rightarrow> (string + (string \<times> nat list) list) option" where
  "buildRows build [] = Some (Inr [])"
| "buildRows build (c # cs) =
     (case build c of
        None \<Rightarrow> None
      | Some (Inl e) \<Rightarrow> Some (Inl e)
      | Some (Inr row) \<Rightarrow>
          (case buildRows build cs of
             None \<Rightarrow> None
           | Some (Inl e) \<Rightarrow> Some (Inl e)
           | Some (Inr rows) \<Rightarrow> Some (Inr ((c, row) # rows))))"

text \<open>The classes are a hash set in the source; the order in which rows are built does not matter.\<close>

definition tableClasses :: "function_decl list \<Rightarrow> (string \<times> string) list \<Rightarrow> string list" where
  "tableClasses functions classParents =
     remdups (map fd_ownerClassName (filter dispatched functions) @ map fst classParents)"

definition buildDispatchTables :: "function_decl list \<Rightarrow> (string \<times> string list) list \<Rightarrow> (string \<times> string) list \<Rightarrow>
    (string + dispatch_tables) option"
where
  "buildDispatchTables functions classTypeParams classParents =
     (case assignSlots (map_of classTypeParams) functions [] of
        Inl e \<Rightarrow> Some (Inl e)
      | Inr slots \<Rightarrow>
          map_option (map_sum id (\<lambda>rows. \<lparr>tb_methodSlots = slots, tb_classVTables = rows\<rparr>))
            (buildRows (buildForClass (map_of classTypeParams) (map_of classParents) slots functions)
               (tableClasses functions classParents)))"

subsection \<open>Users of the tables\<close>

text \<open>\<open>Compiler::compile\<close> numbers the functions in order and records them by owner and signature.\<close>

fun functionIndices :: "(string \<rightharpoonup> string list) \<Rightarrow> nat \<Rightarrow> function_decl list \<Rightarrow>
    ((string \<times> dispatch_signature) \<rightharpoonup> nat) \<Rightarrow> string + ((string \<times> dispatch_signature) \<rightharpoonup> nat)"
where
  "functionIndices typeParams i [] indices = Inr indices"
| "functionIndices typeParams i (fn # fns) indices =
     (case typeParams (fd_ownerClassName fn) of
        None \<Rightarrow> Inl (fd_ownerClassName fn)
      | Some tps \<Rightarrow>
          functionIndices typeParams (i + 1) fns (indices((fd_ownerClassName fn, signatureFor fn tps) \<mapsto> i)))"

definition methodSlot :: "dispatch_tables \<Rightarrow> dispatch_signature \<Rightarrow> string + nat" where
  "methodSlot tables key =
     (case map_of (tb_methodSlots tables) key of
        None \<Rightarrow> Inl (''Compiler: no dispatch slot for method '' @ [CHR 0x27] @ describeSignature key @ [CHR 0x27])
      | Some s \<Rightarrow> Inr s)"

partial_function (option) resolveLoop ::
  "((string \<times> dispatch_signature) \<rightharpoonup> nat) \<Rightarrow> class_map \<Rightarrow> dispatch_signature \<Rightarrow> string \<Rightarrow> (nat option) option"
where
  "resolveLoop indices parents signature cur =
     (if cur = [] then Some None
      else case indices (cur, signature) of
        Some i \<Rightarrow> Some (Some i)
      | None \<Rightarrow> resolveLoop indices parents signature (case parents cur of None \<Rightarrow> [] | Some p \<Rightarrow> p))"

definition resolveFunctionIndex ::
  "((string \<times> dispatch_signature) \<rightharpoonup> nat) \<Rightarrow> class_map \<Rightarrow> string \<Rightarrow> dispatch_signature \<Rightarrow> (string + nat) option"
where
  "resolveFunctionIndex indices parents cname signature =
     map_option (\<lambda>r. case r of
         Some i \<Rightarrow> Inr i
       | None \<Rightarrow> Inl (''Compiler: func '' @ describeSignature signature @ '' is not registered in class '' @
           [CHR 0x27] @ cname @ [CHR 0x27] @ '' or its ancestors''))
       (resolveLoop indices parents signature cname)"

text \<open>The interpreter's \<open>InvokeMethod\<close>, up to the choice of the function.\<close>

definition invokeTarget :: "(string \<times> nat list) list \<Rightarrow> nat \<Rightarrow> string \<Rightarrow> nat \<Rightarrow> string + nat" where
  "invokeTarget classVTables functionCount cname slot =
     (case map_of classVTables cname of
        None \<Rightarrow> Inl (''VM: no method slot '' @ nat_to_string slot @ '' for class '' @ [CHR 0x27] @ cname @ [CHR 0x27])
      | Some vtable \<Rightarrow>
          if length vtable \<le> slot
          then Inl (''VM: no method slot '' @ nat_to_string slot @ '' for class '' @ [CHR 0x27] @ cname @ [CHR 0x27])
          else
            let functionIndex = vtable ! slot
            in if functionIndex = INVALID_FUNCTION_INDEX \<or> functionCount \<le> functionIndex
               then Inl (''VM: class '' @ [CHR 0x27] @ cname @ [CHR 0x27] @ '' does not implement method slot '' @ nat_to_string slot)
               else Inr functionIndex)"

subsection \<open>Rows filled along a chain of classes\<close>

text \<open>
  Both compilers fill the row of a class from its root ancestor down, each class writing the indices
  of its own declarations into the slots of their keys. The entry that remains is the last
  declaration of the nearest class that has one.
\<close>

definition lastDecl :: "(nat \<times> 'k) list \<Rightarrow> 'k \<Rightarrow> nat option" where
  "lastDecl ds k = map_of (rev (map prod.swap ds)) k"

primrec nearestDecl :: "('c \<Rightarrow> (nat \<times> 'k) list) \<Rightarrow> 'k \<Rightarrow> 'c list \<Rightarrow> nat option" where
  "nearestDecl decls k [] = None"
| "nearestDecl decls k (c # cs) =
     (case lastDecl (decls c) k of Some i \<Rightarrow> Some i | None \<Rightarrow> nearestDecl decls k cs)"

primrec writeRow :: "('k \<rightharpoonup> nat) \<Rightarrow> (nat \<times> 'k) list \<Rightarrow> nat list \<Rightarrow> nat list" where
  "writeRow slot [] row = row"
| "writeRow slot (d # ds) row =
     writeRow slot ds (case slot (snd d) of None \<Rightarrow> row | Some s \<Rightarrow> row[s := fst d])"

primrec writeChain :: "('k \<rightharpoonup> nat) \<Rightarrow> ('c \<Rightarrow> (nat \<times> 'k) list) \<Rightarrow> 'c list \<Rightarrow> nat list \<Rightarrow> nat list" where
  "writeChain slot decls [] row = row"
| "writeChain slot decls (c # cs) row = writeChain slot decls cs (writeRow slot (decls c) row)"

lemma lastDecl_simps [simp]:
  "lastDecl [] k = None"
  "lastDecl (d # ds) k = (case lastDecl ds k of Some i \<Rightarrow> Some i | None \<Rightarrow> if snd d = k then Some (fst d) else None)"
  by (auto simp: lastDecl_def map_add_def split: option.splits)

lemma length_writeRow [simp]: "length (writeRow slot ds row) = length row"
  by (induction ds arbitrary: row) (auto split: option.splits)

lemma length_writeChain [simp]: "length (writeChain slot decls cs row) = length row"
  by (induction cs arbitrary: row) auto

lemma writeChain_append:
  "writeChain slot decls (cs @ cs') row = writeChain slot decls cs' (writeChain slot decls cs row)"
  by (induction cs arbitrary: row) auto

locale slot_table =
  fixes slot :: "'k \<rightharpoonup> nat" and count :: nat
  assumes slot_inj: "slot k = Some s \<Longrightarrow> slot k' = Some s \<Longrightarrow> k' = k"
    and slot_bound: "slot k = Some s \<Longrightarrow> s < count"
begin

lemma writeRow_nth:
  assumes "slot k = Some s" "length row = count"
  shows "writeRow slot ds row ! s = (case lastDecl ds k of Some i \<Rightarrow> i | None \<Rightarrow> row ! s)"
  using assms(2)
proof (induction ds arbitrary: row)
  case (Cons d ds)
  have "s < length row" using slot_bound [OF assms(1)] Cons.prems by simp
  moreover have "slot (snd d) = Some s' \<Longrightarrow> s' = s \<longleftrightarrow> snd d = k" for s'
    using slot_inj [OF assms(1)] assms(1) by (metis option.inject)
  moreover have "writeRow slot (d # ds) row ! s =
      (case lastDecl ds k of Some i \<Rightarrow> i
       | None \<Rightarrow> (case slot (snd d) of None \<Rightarrow> row | Some s' \<Rightarrow> row[s' := fst d]) ! s)"
    using Cons.IH [of "case slot (snd d) of None \<Rightarrow> row | Some s' \<Rightarrow> row[s' := fst d]"] Cons.prems
    by (simp split: option.splits)
  ultimately show ?case
    using assms(1) by (cases "lastDecl ds k"; cases "slot (snd d)") auto
qed simp

lemma writeChain_nth:
  assumes "slot k = Some s" "length row = count"
  shows "writeChain slot decls (rev cs) row ! s = (case nearestDecl decls k cs of Some i \<Rightarrow> i | None \<Rightarrow> row ! s)"
proof (induction cs)
  case (Cons c cs)
  have "writeChain slot decls (rev (c # cs)) row = writeRow slot (decls c) (writeChain slot decls (rev cs) row)"
    by (simp add: writeChain_append)
  then show ?case
    using Cons writeRow_nth [OF assms(1), of "writeChain slot decls (rev cs) row"] assms(2)
    by (auto split: option.splits)
qed simp

lemma writeChain_lookup:
  assumes "slot k = Some s" "length row = count" "row ! s = n"
  shows "writeChain slot decls (rev cs) row ! s = (case nearestDecl decls k cs of Some i \<Rightarrow> i | None \<Rightarrow> n)"
  using writeChain_nth [OF assms(1,2), of decls cs] assms(3) by (simp split: option.splits)

end

subsection \<open>Slots of the reference compiler\<close>

definition declsOf :: "(string \<rightharpoonup> string list) \<Rightarrow> function_decl list \<Rightarrow> string \<Rightarrow> (nat \<times> dispatch_signature) list" where
  "declsOf typeParams functions owner =
     map (\<lambda>(i, fn). (i, signatureFor fn (the (typeParams owner))))
       (filter (\<lambda>(i, fn). \<not> fd_isStatic fn \<and> fd_ownerClassName fn = owner) (enumerate 0 functions))"

definition numbered :: "('k \<times> nat) list \<Rightarrow> bool" where
  "numbered slots \<longleftrightarrow> map snd slots = [0..<length slots] \<and> distinct (map fst slots)"

lemma numbered_slot_table: "numbered slots \<Longrightarrow> slot_table (map_of slots) (length slots)"
proof (unfold_locales)
  fix k s k'
  assume n: "numbered slots" and k: "map_of slots k = Some s"
  have "(k, s) \<in> set slots" using k by (rule map_of_SomeD)
  then have "s \<in> set (map snd slots)" by force
  then have "s \<in> set [0..<length slots]" using n unfolding numbered_def by metis
  then show "s < length slots" by simp
  assume k': "map_of slots k' = Some s"
  have "distinct (map snd slots)" using n by (simp add: numbered_def)
  then have "inj_on snd (set slots)" by (simp add: distinct_map)
  then show "k' = k" using map_of_SomeD [OF k] map_of_SomeD [OF k'] by (metis inj_onD prod.inject snd_conv)
qed

definition slotKeys :: "(string \<rightharpoonup> string list) \<Rightarrow> function_decl list \<Rightarrow> dispatch_signature set" where
  "slotKeys typeParams functions =
     (\<lambda>fn. signatureFor fn (the (typeParams (fd_ownerClassName fn)))) ` {fn \<in> set functions. dispatched fn}"

lemma assignSlots_numbered:
  "assignSlots tp fns slots = Inr slots' \<Longrightarrow> numbered slots \<Longrightarrow>
   numbered slots' \<and> fst ` set slots' = fst ` set slots \<union> slotKeys tp fns"
proof (induction tp fns slots rule: assignSlots.induct)
  case (1 tp slots)
  then show ?case by (simp add: slotKeys_def)
next
  case (2 tp fn fns slots)
  show ?case
  proof (cases "dispatched fn")
    case False
    then show ?thesis using 2 by (auto simp: slotKeys_def)
  next
    case True
    then obtain tps where t: "tp (fd_ownerClassName fn) = Some tps"
      using "2.prems"(1) by (auto split: option.splits)
    let ?key = "signatureFor fn tps"
    let ?slots = "if map_of slots ?key = None then slots @ [(?key, length slots)] else slots"
    have "numbered ?slots" using "2.prems"(2) by (auto simp: numbered_def map_of_eq_None_iff)
    moreover have "assignSlots tp fns ?slots = Inr slots'" using "2.prems"(1) True t by (simp add: Let_def)
    moreover have "fst ` set ?slots = insert ?key (fst ` set slots)"
      by (auto simp: map_of_eq_None_iff image_iff)
    moreover have "slotKeys tp (fn # fns) = insert ?key (slotKeys tp fns)"
    proof -
      have "{f \<in> set (fn # fns). dispatched f} = insert fn {f \<in> set fns. dispatched f}" using True by auto
      then show ?thesis using t by (simp add: slotKeys_def)
    qed
    ultimately show ?thesis using "2.IH"(2) [OF _ t refl, of] True by auto
  qed
qed

lemma assignSlots_total:
  "(\<forall>fn \<in> set fns. dispatched fn \<longrightarrow> tp (fd_ownerClassName fn) \<noteq> None) \<Longrightarrow> \<exists>slots'. assignSlots tp fns slots = Inr slots'"
  by (induction tp fns slots rule: assignSlots.induct) (auto simp: Let_def)

text \<open>The slot table of a program, for all programs; nothing has a slot where a class is unknown.\<close>

definition programSlots :: "(string \<rightharpoonup> string list) \<Rightarrow> function_decl list \<Rightarrow> (dispatch_signature \<times> nat) list" where
  "programSlots tp fns = (case assignSlots tp fns [] of Inr slots \<Rightarrow> slots | Inl _ \<Rightarrow> [])"

lemma programSlots_numbered: "numbered (programSlots tp fns)"
  using assignSlots_numbered [of tp fns "[]"]
  by (auto simp: programSlots_def numbered_def split: sum.splits)

interpretation ast: slot_table "map_of (programSlots tp fns)" "length (programSlots tp fns)" for tp fns
  by (rule numbered_slot_table [OF programSlots_numbered])

subsection \<open>The tables of the reference compiler are right\<close>

definition ownDecls :: "string \<Rightarrow> string list \<Rightarrow> nat \<Rightarrow> function_decl list \<Rightarrow> (nat \<times> dispatch_signature) list" where
  "ownDecls owner tps i fns =
     map (\<lambda>(i, fn). (i, signatureFor fn tps))
       (filter (\<lambda>(i, fn). \<not> fd_isStatic fn \<and> fd_ownerClassName fn = owner) (enumerate i fns))"

lemma ownDecls_simps [simp]:
  "ownDecls owner tps i [] = []"
  "ownDecls owner tps i (fn # fns) =
     (if fd_isStatic fn \<or> fd_ownerClassName fn \<noteq> owner then ownDecls owner tps (i + 1) fns
      else (i, signatureFor fn tps) # ownDecls owner tps (i + 1) fns)"
  by (auto simp: ownDecls_def)

lemma declsOf_own: "tp owner = Some tps \<Longrightarrow> declsOf tp fns owner = ownDecls owner tps 0 fns"
  by (simp add: declsOf_def ownDecls_def)

lemma fillRow_writes:
  "(\<forall>fn \<in> set fns. \<not> fd_isStatic fn \<and> fd_ownerClassName fn = owner \<longrightarrow> map_of slots (signatureFor fn tps) \<noteq> None) \<Longrightarrow>
   fillRow slots owner tps i fns row = Inr (writeRow (map_of slots) (ownDecls owner tps i fns) row)"
  by (induction slots owner tps i fns row rule: fillRow.induct) (auto split: option.splits)

lemma slotKeys_slots:
  assumes "assignSlots tp fns [] = Inr slots" "fn \<in> set fns" "dispatched fn" "tp (fd_ownerClassName fn) = Some tps"
  shows "map_of slots (signatureFor fn tps) \<noteq> None"
proof -
  have "signatureFor fn tps \<in> slotKeys tp fns" using assms(2-4) by (force simp: slotKeys_def)
  then have "signatureFor fn tps \<in> fst ` set slots"
    using assignSlots_numbered [OF assms(1)] by (simp add: numbered_def)
  then show ?thesis by (simp add: map_of_eq_None_iff)
qed

lemma fillChain_writes:
  assumes "assignSlots tp fns [] = Inr slots" "\<forall>c \<in> set owners. c \<noteq> [] \<and> tp c \<noteq> None"
  shows "fillChain tp slots fns owners row = Inr (writeChain (map_of slots) (declsOf tp fns) owners row)"
  using assms(2)
proof (induction owners arbitrary: row)
  case (Cons owner owners)
  then obtain tps where t: "tp owner = Some tps" "owner \<noteq> []" by auto
  have "fillRow slots owner tps 0 fns row = Inr (writeRow (map_of slots) (ownDecls owner tps 0 fns) row)"
    using slotKeys_slots [OF assms(1)] t by (intro fillRow_writes) (auto simp: dispatched_def)
  then show ?case using Cons t by (simp add: declsOf_own)
qed simp

lemma parentChain_nonempty:
  assumes "parentChain P c = Some chain"
  shows "\<forall>d \<in> set chain. d \<noteq> []"
proof (rule parentChain.raw_induct [where P = "\<lambda>P c chain. \<forall>d \<in> set chain. d \<noteq> []", OF _ assms], goal_cases)
  case (1 loop P c chain)
  then show ?case by (fastforce split: if_splits bind_splits)
qed

lemma buildRows_total:
  "\<forall>c \<in> set cs. build c = Some (Inr (f c)) \<Longrightarrow> buildRows build cs = Some (Inr (map (\<lambda>c. (c, f c)) cs))"
  by (induction cs) auto

lemma map_of_tabulate: "c \<in> set cs \<Longrightarrow> map_of (map (\<lambda>c. (c, f c)) cs) c = Some (f c)"
  by (induction cs) auto

text \<open>A program the type checker has passed: owners and ancestors are declared, and chains end.\<close>

definition chainOf :: "(string \<times> string) list \<Rightarrow> string \<Rightarrow> string list" where
  "chainOf cp c = the (parentChain (map_of cp) c)"

definition hierarchy_ok :: "function_decl list \<Rightarrow> (string \<times> string list) list \<Rightarrow> (string \<times> string) list \<Rightarrow> bool" where
  "hierarchy_ok fns ctp cp \<longleftrightarrow>
     (\<forall>fn \<in> set fns. fd_ownerClassName fn \<in> fst ` set ctp) \<and>
     (\<forall>c \<in> set (tableClasses fns cp). parentChain (map_of cp) c \<noteq> None \<and>
        set (chainOf cp c) \<subseteq> fst ` set ctp) \<and>
     length fns \<le> INVALID_FUNCTION_INDEX"

lemma slots_assigned:
  assumes "hierarchy_ok fns ctp cp"
  shows "\<exists>slots. assignSlots (map_of ctp) fns [] = Inr slots"
  using assms by (intro assignSlots_total) (auto simp: hierarchy_ok_def map_of_eq_None_iff)

lemma nearestDecl_bound:
  "nearestDecl (declsOf tp fns) k chain = Some i \<Longrightarrow> i < length fns"
proof (induction chain)
  case (Cons c cs)
  have "lastDecl (declsOf tp fns c) k = Some j \<Longrightarrow> j < length fns" for j
    by (auto simp: lastDecl_def declsOf_def in_set_enumerate_eq dest!: map_of_SomeD)
  then show ?case using Cons by (auto split: option.splits)
qed simp

definition classRow :: "function_decl list \<Rightarrow> (string \<times> string list) list \<Rightarrow> (string \<times> string) list \<Rightarrow> string \<Rightarrow> nat list" where
  "classRow fns ctp cp c =
     writeChain (map_of (programSlots (map_of ctp) fns)) (declsOf (map_of ctp) fns) (rev (chainOf cp c))
       (replicate (length (programSlots (map_of ctp) fns)) INVALID_FUNCTION_INDEX)"

lemma buildForClass_row:
  assumes "hierarchy_ok fns ctp cp" "c \<in> set (tableClasses fns cp)" "assignSlots (map_of ctp) fns [] = Inr slots"
  shows "buildForClass (map_of ctp) (map_of cp) slots fns c = Some (Inr (classRow fns ctp cp c))"
proof -
  obtain chain where chain: "parentChain (map_of cp) c = Some chain" "set chain \<subseteq> fst ` set ctp"
    using assms(1,2) unfolding hierarchy_ok_def chainOf_def by force
  then have "\<forall>d \<in> set (rev chain). d \<noteq> [] \<and> map_of ctp d \<noteq> None"
    using parentChain_nonempty [OF chain(1)] by (auto simp: map_of_eq_None_iff)
  then show ?thesis
    using fillChain_writes [OF assms(3)] chain(1) assms(3)
    by (simp add: buildForClass_def chainOf_def classRow_def programSlots_def)
qed

lemma tables_built:
  assumes "hierarchy_ok fns ctp cp"
  shows "buildDispatchTables fns ctp cp =
      Some (Inr \<lparr>tb_methodSlots = programSlots (map_of ctp) fns,
        tb_classVTables = map (\<lambda>c. (c, classRow fns ctp cp c)) (tableClasses fns cp)\<rparr>)"
proof -
  obtain slots where slots: "assignSlots (map_of ctp) fns [] = Inr slots"
    using slots_assigned [OF assms] by blast
  then have "buildRows (buildForClass (map_of ctp) (map_of cp) slots fns) (tableClasses fns cp) =
      Some (Inr (map (\<lambda>c. (c, classRow fns ctp cp c)) (tableClasses fns cp)))"
    using buildForClass_row [OF assms] by (intro buildRows_total) blast
  then show ?thesis using slots by (simp add: buildDispatchTables_def programSlots_def)
qed

lemma dispatch_lookup:
  assumes "hierarchy_ok fns ctp cp" "buildDispatchTables fns ctp cp = Some (Inr tables)"
    and "c \<in> set (tableClasses fns cp)" "methodSlot tables k = Inr s"
  shows "case nearestDecl (declsOf (map_of ctp) fns) k (chainOf cp c) of
          Some i \<Rightarrow> invokeTarget (tb_classVTables tables) (length fns) c s = Inr i
        | None \<Rightarrow> \<exists>e. invokeTarget (tb_classVTables tables) (length fns) c s = Inl e"
proof -
  let ?tp = "map_of ctp" let ?slots = "programSlots (map_of ctp) fns"
  have tables: "tb_methodSlots tables = ?slots" "map_of (tb_classVTables tables) c = Some (classRow fns ctp cp c)"
    using tables_built [OF assms(1)] assms(2) map_of_tabulate [OF assms(3)] by auto
  then have k: "map_of ?slots k = Some s" using assms(4) by (simp add: methodSlot_def split: option.splits)
  then have "s < length ?slots" by (rule ast.slot_bound)
  moreover have "classRow fns ctp cp c ! s =
    (case nearestDecl (declsOf ?tp fns) k (chainOf cp c) of Some i \<Rightarrow> i | None \<Rightarrow> INVALID_FUNCTION_INDEX)"
    unfolding classRow_def using ast.slot_bound [OF k] by (intro ast.writeChain_lookup [OF k]) simp_all
  moreover have "length (classRow fns ctp cp c) = length ?slots" by (simp add: classRow_def)
  ultimately show ?thesis
    using tables(2) assms(1) nearestDecl_bound [of ?tp fns k "chainOf cp c"]
    by (auto simp: invokeTarget_def hierarchy_ok_def split: option.splits)
qed


subsection \<open>Dynamic dispatch agrees with static resolution\<close>

lemma parentChain_cases:
  assumes "parentChain P c = Some chain"
  shows "(c = [] \<and> chain = []) \<or>
    (c \<noteq> [] \<and> (\<exists>rest. chain = c # rest \<and> parentChain P (case P c of None \<Rightarrow> [] | Some p \<Rightarrow> p) = Some rest))"
  using assms by (subst (asm) parentChain.simps) (auto simp: bind_eq_Some_conv split: if_splits)

lemma resolveLoop_chain:
  "parentChain P c = Some chain \<Longrightarrow>
   resolveLoop idx P k c = Some (Option.bind (find (\<lambda>d. idx (d, k) \<noteq> None) chain) (\<lambda>d. idx (d, k)))"
proof (induction chain arbitrary: c)
  case Nil
  then show ?case using parentChain_cases [OF Nil] by (subst resolveLoop.simps) auto
next
  case (Cons d rest)
  then show ?case
    using parentChain_cases [OF Cons.prems] by (subst resolveLoop.simps) (auto split: option.splits)
qed

definition isOwn :: "string \<Rightarrow> string list \<Rightarrow> dispatch_signature \<Rightarrow> function_decl \<Rightarrow> bool" where
  "isOwn owner tps k fn \<longleftrightarrow> fd_ownerClassName fn = owner \<and> signatureFor fn tps = k"

lemma functionIndices_last:
  "functionIndices tp i fns m = Inr idx \<Longrightarrow> tp owner = Some tps \<Longrightarrow>
   (\<forall>fn \<in> set fns. fd_isStatic fn \<longrightarrow> \<not> isOwn owner tps k fn) \<Longrightarrow>
   idx (owner, k) = (case lastDecl (ownDecls owner tps i fns) k of Some j \<Rightarrow> Some j | None \<Rightarrow> m (owner, k))"
proof (induction tp i fns m rule: functionIndices.induct)
  case (2 tp i fn fns m)
  then obtain tps' where t: "tp (fd_ownerClassName fn) = Some tps'"
      "functionIndices tp (i + 1) fns (m((fd_ownerClassName fn, signatureFor fn tps') \<mapsto> i)) = Inr idx"
    by (auto split: option.splits)
  then have "idx (owner, k) = (case lastDecl (ownDecls owner tps (i + 1) fns) k of Some j \<Rightarrow> Some j
      | None \<Rightarrow> (m((fd_ownerClassName fn, signatureFor fn tps') \<mapsto> i)) (owner, k))"
    using "2.IH" [OF t] "2.prems"(2,3) by simp
  then show ?case
    using "2.prems"(2,3) t(1) by (auto simp: isOwn_def split: option.splits)
qed simp

lemma find_nearestDecl:
  assumes "\<forall>d \<in> set chain. idx (d, k) = lastDecl (decls d) k"
  shows "Option.bind (find (\<lambda>d. idx (d, k) \<noteq> None) chain) (\<lambda>d. idx (d, k)) = nearestDecl decls k chain"
  using assms by (induction chain) (auto split: option.splits)

text \<open>C24: The compiler's static resolution of a method, which serves super calls and direct calls, and
  the interpreter's dispatch through the tables pick the same function for every class and every
  signature that no static function shares; they also agree on when there is none.\<close>

theorem dispatch_agrees_with_resolution:
  assumes "hierarchy_ok fns ctp cp" "c \<in> set (tableClasses fns cp)"
    and "functionIndices (map_of ctp) 0 fns Map.empty = Inr indices"
    and "buildDispatchTables fns ctp cp = Some (Inr tables)" "methodSlot tables k = Inr s"
    and "\<forall>fn \<in> set fns. fd_isStatic fn \<longrightarrow> signatureFor fn (the (map_of ctp (fd_ownerClassName fn))) \<noteq> k"
  shows "\<exists>r. resolveFunctionIndex indices (map_of cp) c k = Some r \<and>
    (\<forall>i. r = Inr i \<longleftrightarrow> invokeTarget (tb_classVTables tables) (length fns) c s = Inr i)"
proof -
  let ?tp = "map_of ctp" let ?decls = "declsOf (map_of ctp) fns"
  obtain chain where chain: "parentChain (map_of cp) c = Some chain" "set chain \<subseteq> fst ` set ctp"
      "chainOf cp c = chain"
    using assms(1,2) unfolding hierarchy_ok_def chainOf_def by force
  have "indices (d, k) = lastDecl (?decls d) k" if "d \<in> set chain" for d
  proof -
    have "?tp d \<noteq> None" using that chain(2) by (auto simp: map_of_eq_None_iff)
    then obtain tps where t: "?tp d = Some tps" by blast
    then have "\<forall>fn \<in> set fns. fd_isStatic fn \<longrightarrow> \<not> isOwn d tps k fn" using assms(6) by (auto simp: isOwn_def)
    then show ?thesis
      using functionIndices_last [where tp = ?tp and owner = d and k = k, OF assms(3) t] declsOf_own [where tp = ?tp and owner = d and fns = fns, OF t]
      by (simp split: option.splits)
  qed
  then have "resolveLoop indices (map_of cp) k c = Some (nearestDecl ?decls k chain)"
    using resolveLoop_chain [OF chain(1)] find_nearestDecl [of chain indices k ?decls] by simp
  moreover have "case nearestDecl ?decls k chain of
          Some i \<Rightarrow> invokeTarget (tb_classVTables tables) (length fns) c s = Inr i
        | None \<Rightarrow> \<exists>e. invokeTarget (tb_classVTables tables) (length fns) c s = Inl e"
    using dispatch_lookup [OF assms(1,4,2,5)] chain(3) by simp
  ultimately show ?thesis
    by (cases "nearestDecl ?decls k chain") (auto simp: resolveFunctionIndex_def)
qed

subsection \<open>The tables of the MIR backend\<close>

text \<open>A MIR function with the two flags the backend's dispatch reads beside the ones of the base record.\<close>

record method_function = mir_function +
  fn_isConstructor :: bool
  fn_isLambda :: bool

definition primitiveTypeName :: "type_kind \<Rightarrow> string option" where
  "primitiveTypeName kind =
     (case kind of
        TyVoid \<Rightarrow> Some ''void'' | TyNil \<Rightarrow> Some ''nil'' | TyBool \<Rightarrow> Some ''bool'' | TyInt \<Rightarrow> Some ''int''
      | TyDouble \<Rightarrow> Some ''double'' | TyString \<Rightarrow> Some ''string'' | _ \<Rightarrow> None)"

text \<open>Rendering only fills the arena's cache of texts, which no caller sees.\<close>

definition runtimeTypeName :: "type_arena \<Rightarrow> type_id \<Rightarrow> string" where
  "runtimeTypeName types i =
     (case findType types i of
        None \<Rightarrow> ''unknown''
      | Some t \<Rightarrow>
          (case primitiveTypeName (ty_kind t) of
             Some p \<Rightarrow> p
           | None \<Rightarrow>
               if ty_kind t = TyObject \<and> ty_name t \<noteq> [] then ty_name t
               else (case render (Suc i) types i of Some (text, _) \<Rightarrow> text | None \<Rightarrow> [])))"

definition dispatchKeyFor :: "type_arena \<Rightarrow> method_function \<Rightarrow> string" where
  "dispatchKeyFor types fn =
     (if fn_isConstructor fn \<and> fn_ownerClass fn \<noteq> [] then fn_ownerClass fn else fn_simpleName fn) @ ''('' @
     joinWith '','' (map (\<lambda>p. runtimeTypeName types (pa_type p))
       (drop (if fn_hasThisParameter fn then 1 else 0) (fn_parameters fn))) @ '')''"

definition hasSlot :: "method_function \<Rightarrow> bool" where
  "hasSlot fn \<longleftrightarrow> \<not> fn_isLambda fn \<and> fn_ownerClass fn \<noteq> [] \<and> fn_hasThisParameter fn"

fun assignKeys :: "type_arena \<Rightarrow> method_function list \<Rightarrow> (string \<times> nat) list \<Rightarrow> (string \<times> nat) list" where
  "assignKeys types [] slots = slots"
| "assignKeys types (fn # fns) slots =
     (if \<not> hasSlot fn then assignKeys types fns slots
      else
        let key = dispatchKeyFor types fn
        in assignKeys types fns (if map_of slots key = None then slots @ [(key, length slots)] else slots))"

fun declByClass :: "type_arena \<Rightarrow> nat \<Rightarrow> method_function list \<Rightarrow> (string \<Rightarrow> (string \<times> nat) list) \<Rightarrow>
    string \<Rightarrow> (string \<times> nat) list"
where
  "declByClass types i [] m = m"
| "declByClass types i (fn # fns) m =
     declByClass types (i + 1) fns
       (if fn_ownerClass fn = [] \<or> \<not> fn_hasThisParameter fn then m
        else m(fn_ownerClass fn := AList.update (dispatchKeyFor types fn) i (m (fn_ownerClass fn))))"

definition layoutParents :: "class_layout list \<Rightarrow> class_map" where
  "layoutParents classes = map_of (rev (map (\<lambda>c. (cl_name c, cl_parent c)) classes))"

definition rowClasses :: "method_function list \<Rightarrow> class_layout list \<Rightarrow> string list" where
  "rowClasses fns classes =
     rev (remdups (rev (map cl_name classes @ filter (\<lambda>c. c \<noteq> []) (map fn_ownerClass fns))))"

text \<open>The walk up the parents stops after 64 classes.\<close>

fun guardedChain :: "nat \<Rightarrow> class_map \<Rightarrow> string \<Rightarrow> string list" where
  "guardedChain 0 parents cur = []"
| "guardedChain (Suc n) parents cur =
     (if cur = [] then []
      else cur # guardedChain n parents (case parents cur of None \<Rightarrow> [] | Some p \<Rightarrow> p))"

fun fillEntries :: "(string \<times> nat) list \<Rightarrow> (string \<times> nat) list \<Rightarrow> nat list \<Rightarrow> nat list" where
  "fillEntries slots [] row = row"
| "fillEntries slots ((key, i) # es) row =
     fillEntries slots es (case map_of slots key of None \<Rightarrow> row | Some s \<Rightarrow> row[s := i])"

definition backendRow :: "(string \<times> nat) list \<Rightarrow> (string \<Rightarrow> (string \<times> nat) list) \<Rightarrow> class_map \<Rightarrow> string \<Rightarrow> nat list" where
  "backendRow slots decls parents cname =
     fold (\<lambda>owner. fillEntries slots (decls owner)) (rev (guardedChain 64 parents cname))
       (replicate (length slots) INVALID_FUNCTION_INDEX)"

definition buildDispatchers :: "type_arena \<Rightarrow> method_function list \<Rightarrow> class_layout list \<Rightarrow>
    (string \<times> nat) list \<times> (string \<times> nat list) list"
where
  "buildDispatchers types fns classes =
     (let slots = assignKeys types fns []; decls = declByClass types 0 fns (\<lambda>_. [])
      in (slots, map (\<lambda>c. (c, backendRow slots decls (layoutParents classes) c)) (rowClasses fns classes)))"

lemma assignKeys_numbered: "numbered slots \<Longrightarrow> numbered (assignKeys types fns slots)"
  by (induction types fns slots rule: assignKeys.induct)
    (auto simp: numbered_def Let_def map_of_eq_None_iff)

interpretation backend: slot_table "map_of (assignKeys types fns [])" "length (assignKeys types fns [])" for types fns
  by (rule numbered_slot_table [OF assignKeys_numbered]) (simp add: numbered_def)

lemma fillEntries_writeRow: "fillEntries slots es row = writeRow (map_of slots) (map prod.swap es) row"
  by (induction slots es row rule: fillEntries.induct) (simp_all cong: option.case_cong)

lemma backendRow_writeChain:
  "backendRow slots decls parents c =
     writeChain (map_of slots) (\<lambda>d. map prod.swap (decls d)) (rev (guardedChain 64 parents c))
       (replicate (length slots) INVALID_FUNCTION_INDEX)"
proof -
  have "fold (\<lambda>owner. fillEntries slots (decls owner)) cs row =
      writeChain (map_of slots) (\<lambda>d. map prod.swap (decls d)) cs row" for cs row
    by (induction cs arbitrary: row) (simp_all add: fillEntries_writeRow)
  then show ?thesis by (simp add: backendRow_def)
qed

definition moduleDecls :: "type_arena \<Rightarrow> method_function list \<Rightarrow> string \<Rightarrow> (nat \<times> string) list" where
  "moduleDecls types fns owner =
     map (\<lambda>(i, fn). (i, dispatchKeyFor types fn))
       (filter (\<lambda>(i, fn). fn_ownerClass fn = owner \<and> owner \<noteq> [] \<and> fn_hasThisParameter fn) (enumerate 0 fns))"

lemma lastDecl_swap: "distinct (map fst es) \<Longrightarrow> lastDecl (map prod.swap es) k = map_of es k"
  by (induction es) (auto split: option.splits dest: map_of_SomeD intro: rev_image_eqI)

lemma declByClass_lookup:
  "(\<forall>c. distinct (map fst (m c))) \<Longrightarrow>
   distinct (map fst (declByClass types i fns m c)) \<and>
   map_of (declByClass types i fns m c) k =
     (case lastDecl (map (\<lambda>(i, fn). (i, dispatchKeyFor types fn))
         (filter (\<lambda>(i, fn). fn_ownerClass fn = c \<and> c \<noteq> [] \<and> fn_hasThisParameter fn) (enumerate i fns))) k of
        Some j \<Rightarrow> Some j | None \<Rightarrow> map_of (m c) k)"
proof (induction types i fns m rule: declByClass.induct)
  case (2 types i fn fns m)
  let ?m = "if fn_ownerClass fn = [] \<or> \<not> fn_hasThisParameter fn then m
        else m(fn_ownerClass fn := AList.update (dispatchKeyFor types fn) i (m (fn_ownerClass fn)))"
  have "\<forall>c. distinct (map fst (?m c))" using 2(2) by (simp add: distinct_update)
  from 2(1) [OF this] show ?case
    by (auto simp: update_conv split: option.splits)
qed simp

lemma nearestDecl_cong:
  "(\<And>d. d \<in> set chain \<Longrightarrow> lastDecl (f d) k = lastDecl (g d) k) \<Longrightarrow> nearestDecl f k chain = nearestDecl g k chain"
  by (induction chain) (auto split: option.splits)

lemma guardedChain_take: "parentChain P c = Some chain \<Longrightarrow> guardedChain n P c = take n chain"
proof (induction n arbitrary: c chain)
  case (Suc n)
  then show ?case using parentChain_cases [OF Suc.prems] by auto
qed simp

lemma backend_row:
  assumes "parentChain (layoutParents classes) c = Some chain" "c \<in> set (rowClasses fns classes)"
    and "buildDispatchers types fns classes = (slots, rows)" "map_of slots k = Some s"
  shows "\<exists>row. map_of rows c = Some row \<and> s < length row \<and>
    row ! s = (case nearestDecl (moduleDecls types fns) k (take 64 chain) of Some i \<Rightarrow> i | None \<Rightarrow> INVALID_FUNCTION_INDEX)"
proof -
  let ?decls = "declByClass types 0 fns (\<lambda>_. [])"
  have slots: "slots = assignKeys types fns []"
    and rows: "rows = map (\<lambda>c. (c, backendRow slots ?decls (layoutParents classes) c)) (rowClasses fns classes)"
    using assms(3) by (auto simp: buildDispatchers_def Let_def)
  have row: "map_of rows c = Some (backendRow slots ?decls (layoutParents classes) c)"
    using rows map_of_tabulate [OF assms(2)] by simp
  have k: "map_of (assignKeys types fns []) k = Some s" using assms(4) slots by simp
  have s: "s < length slots" using backend.slot_bound [OF k] slots by simp
  have "lastDecl (map prod.swap (?decls d)) k = lastDecl (moduleDecls types fns d) k" for d
    using declByClass_lookup [of "\<lambda>_. []" types 0 fns d k] lastDecl_swap [of "?decls d" k]
    by (simp add: moduleDecls_def split: option.splits)
  then have n: "nearestDecl (\<lambda>d. map prod.swap (?decls d)) k (take 64 chain) =
      nearestDecl (moduleDecls types fns) k (take 64 chain)"
    by (intro nearestDecl_cong) simp
  have "backendRow slots ?decls (layoutParents classes) c ! s =
      (case nearestDecl (\<lambda>d. map prod.swap (?decls d)) k (take 64 chain) of Some i \<Rightarrow> i | None \<Rightarrow> INVALID_FUNCTION_INDEX)"
    unfolding backendRow_writeChain guardedChain_take [OF assms(1)] slots
    using s slots by (intro backend.writeChain_lookup [OF k]) simp_all
  then show ?thesis using row n s by (simp add: backendRow_writeChain)
qed

text \<open>The dispatch tables of the MIR backend: whenever the chain of ancestors of a class ends, the
  entry of a slot in the class's row is the last declaration of the slot's key in the nearest class
  among the first 64 of the chain, so hierarchies of at most 64 classes dispatch as the reference
  compiler's do.\<close>

theorem backend_dispatch:
  assumes "parentChain (layoutParents classes) c = Some chain" "c \<in> set (rowClasses fns classes)"
    and "buildDispatchers types fns classes = (slots, rows)" "map_of slots k = Some s"
  shows "\<exists>row. map_of rows c = Some row \<and> s < length row \<and>
    row ! s = (case nearestDecl (moduleDecls types fns) k (take 64 chain) of Some i \<Rightarrow> i | None \<Rightarrow> INVALID_FUNCTION_INDEX)"
  by (rule backend_row [OF assms])

text \<open>A method inherited from more than 64 classes up is lost: when none of the first 64 classes of
  the chain declares it and a later one does, the backend's row says that the class does not
  implement it, while the reference compiler dispatches to the inherited method.\<close>

theorem backend_loses_deep_methods:
  assumes "parentChain (layoutParents classes) c = Some chain" "c \<in> set (rowClasses fns classes)"
    and "buildDispatchers types fns classes = (slots, rows)" "map_of slots k = Some s"
    and "nearestDecl (moduleDecls types fns) k (take 64 chain) = None"
    and "nearestDecl (moduleDecls types fns) k chain = Some i"
  shows "64 < length chain \<and> (\<exists>e. invokeTarget rows (length fns) c s = Inl e)"
proof -
  obtain row where "map_of rows c = Some row" "s < length row" "row ! s = INVALID_FUNCTION_INDEX"
    using backend_row [OF assms(1-4)] assms(5) by auto
  moreover have "64 < length chain" using assms(5,6) by (rule_tac ccontr) simp
  ultimately show ?thesis by (simp add: invokeTarget_def)
qed

subsection \<open>Concrete tables\<close>

definition sample_decl :: "string \<Rightarrow> function_decl" where
  "sample_decl owner = \<lparr>fd_name = ''m'', fd_typeParams = [],
     fd_params = [(''x'', TypeAnnotation ''int'' None [] [] [] None False)], fd_isStatic = False, fd_ownerClassName = owner\<rparr>"

abbreviation "sample_decls \<equiv> [sample_decl ''A'', sample_decl ''B'']"
abbreviation "sample_classParams \<equiv> [(''A'', []), (''B'', []), (''C'', [])] :: (string \<times> string list) list"
abbreviation "sample_classParents \<equiv> [(''B'', ''A''), (''C'', ''B'')] :: (string \<times> string) list"

definition sample_key :: dispatch_signature where
  "sample_key = \<lparr>ds_name = ''m'', ds_parameters = [dtype DkInt []]\<rparr>"

lemma sample_signature [simp]: "signatureFor (sample_decl c) tps = sample_key"
  by (simp add: signatureFor_def sample_decl_def sample_key_def dispatchTypeFor_def)

lemma sample_decl_simps [simp]: "fd_ownerClassName (sample_decl c) = c" "fd_isStatic (sample_decl c) = False"
  "fd_name (sample_decl c) = ''m''"
  by (simp_all add: sample_decl_def)

lemma sample_chains:
  "parentChain (map_of sample_classParents) ''A'' = Some [''A'']"
  "parentChain (map_of sample_classParents) ''B'' = Some [''B'', ''A'']"
  "parentChain (map_of sample_classParents) ''C'' = Some [''C'', ''B'', ''A'']"
  by (simp_all add: parentChain.simps)

lemma sample_hierarchy: "hierarchy_ok sample_decls sample_classParams sample_classParents"
  by (simp add: hierarchy_ok_def tableClasses_def dispatched_def sample_chains chainOf_def INVALID_FUNCTION_INDEX_def
      del: map_of.simps)


theorem dispatch_agrees_with_resolution_witness:
  "\<exists>indices tables s r. functionIndices (map_of sample_classParams) 0 sample_decls Map.empty = Inr indices \<and>
     buildDispatchTables sample_decls sample_classParams sample_classParents = Some (Inr tables) \<and>
     methodSlot tables sample_key = Inr s \<and>
     resolveFunctionIndex indices (map_of sample_classParents) ''C'' sample_key = Some r \<and>
     (\<forall>i. r = Inr i \<longleftrightarrow> invokeTarget (tb_classVTables tables) 2 ''C'' s = Inr i)"
proof -
  obtain indices where i: "functionIndices (map_of sample_classParams) 0 sample_decls Map.empty = Inr indices" by simp
  let ?tables = "\<lparr>tb_methodSlots = programSlots (map_of sample_classParams) sample_decls,
     tb_classVTables = map (\<lambda>c. (c, classRow sample_decls sample_classParams sample_classParents c))
       (tableClasses sample_decls sample_classParents)\<rparr>"
  have s: "methodSlot ?tables sample_key = Inr 0"
    by (simp add: methodSlot_def programSlots_def dispatched_def)
  have c: "''C'' \<in> set (tableClasses sample_decls sample_classParents)"
    by (simp add: tableClasses_def dispatched_def)
  have st: "\<forall>fn \<in> set sample_decls. fd_isStatic fn \<longrightarrow>
      signatureFor fn (the (map_of sample_classParams (fd_ownerClassName fn))) \<noteq> sample_key" by simp
  obtain r where r: "resolveFunctionIndex indices (map_of sample_classParents) ''C'' sample_key = Some r"
      "\<forall>i. r = Inr i \<longleftrightarrow> invokeTarget (tb_classVTables ?tables) (length sample_decls) ''C'' 0 = Inr i"
    using dispatch_agrees_with_resolution [OF sample_hierarchy c i tables_built [OF sample_hierarchy] s st] by blast
  have "length sample_decls = 2" by simp
  then show ?thesis
    using i s r tables_built [OF sample_hierarchy] by (metis (no_types, lifting))
qed

text \<open>Hierarchies of any depth for the backend: the class of depth \<open>n\<close> has a name of \<open>n\<close> letters, and only
  the root has a method.\<close>

definition deep_layout :: "nat \<Rightarrow> class_layout" where
  "deep_layout n = \<lparr>cl_name = replicate (Suc n) CHR ''a'', cl_parent = replicate n CHR ''a'', cl_interfaces = [],
     cl_fields = [], cl_isData = False, cl_isEnum = False, cl_enumMembers = []\<rparr>"

definition root_method :: method_function where
  "root_method = \<lparr>fn_id = 1, fn_name = ''a.m()'', fn_ownerClass = ''a'', fn_simpleName = ''m()'',
     fn_parameters = [\<lparr>pa_name = ''this'', pa_type = 0, pa_ownership = OwnGC, pa_borrowSource = []\<rparr>],
     fn_hasThisParameter = True, fn_returnType = 0, fn_slots = [], fn_blocks = [], fn_entryBlock = 0, fn_edges = [],
     fn_isAsync = False, fn_isNative = False, fn_exceptionBehavior = EbUnknown, fn_captures = [], fn_incomplete = False,
     fn_isConstructor = False, fn_isLambda = False\<rparr>"

lemma deep_parents: "i < n \<Longrightarrow> layoutParents (map deep_layout [0..<n]) (replicate (Suc i) CHR ''a'') = Some (replicate i CHR ''a'')"
  unfolding layoutParents_def by (rule map_of_is_SomeI) (force simp: deep_layout_def distinct_map inj_on_def comp_def replicate_eq_replicate)+

lemma deep_chain:
  "i \<le> n \<Longrightarrow> parentChain (layoutParents (map deep_layout [0..<n])) (replicate i CHR ''a'') =
     Some (map (\<lambda>j. replicate j CHR ''a'') (rev [1..<Suc i]))"
proof (induction i)
  case 0
  then show ?case by (simp add: parentChain.simps)
next
  case (Suc i)
  then show ?case using deep_parents [of i n] by (subst parentChain.simps) simp
qed

lemma deep_rowClasses: "1 \<le> n \<Longrightarrow> replicate n CHR ''a'' \<in> set (rowClasses [root_method] (map deep_layout [0..<n]))"
  by (cases n) (auto simp: rowClasses_def deep_layout_def image_iff)

lemma deep_tables:
  "buildDispatchers newTypeArena [root_method] (map deep_layout [0..<n]) =
     (assignKeys newTypeArena [root_method] [], snd (buildDispatchers newTypeArena [root_method] (map deep_layout [0..<n])))"
  by (simp add: buildDispatchers_def Let_def)

lemma root_slot: "map_of (assignKeys newTypeArena [root_method] []) ''m()()'' = Some 0"
  by (simp add: hasSlot_def root_method_def dispatchKeyFor_def)

lemma root_decls: "moduleDecls newTypeArena [root_method] c = (if c = ''a'' then [(0, ''m()()'')] else [])"
  by (auto simp: moduleDecls_def root_method_def dispatchKeyFor_def)

lemma root_nearest:
  "nearestDecl (moduleDecls newTypeArena [root_method]) ''m()()'' chain = (if ''a'' \<in> set chain then Some 0 else None)"
  by (induction chain) (auto simp: root_decls)

theorem backend_dispatch_witness:
  "\<exists>row. map_of (snd (buildDispatchers newTypeArena [root_method] (map deep_layout [0..<2]))) ''aa'' = Some row \<and> row ! 0 = 0"
proof -
  have "parentChain (layoutParents (map deep_layout [0..<2])) ''aa'' = Some [''aa'', ''a'']"
    using deep_chain [of 2 2] by (simp add: numeral_2_eq_2)
  moreover have "''aa'' \<in> set (rowClasses [root_method] (map deep_layout [0..<2]))"
    using deep_rowClasses [of 2] by (simp add: numeral_2_eq_2)
  ultimately show ?thesis
    using backend_dispatch [OF _ _ deep_tables root_slot, of 2 "''aa''" "[''aa'', ''a'']"]
    by (auto simp: root_nearest simp del: nearestDecl.simps)
qed

theorem backend_loses_deep_methods_witness:
  "\<exists>e. invokeTarget (snd (buildDispatchers newTypeArena [root_method] (map deep_layout [0..<65]))) 1
     (replicate 65 CHR ''a'') 0 = Inl e"
proof -
  let ?chain = "map (\<lambda>j. replicate j CHR ''a'') (rev [1..<Suc 65])"
  have "rev [1..<Suc 65] = rev [2..<Suc 65] @ [1]" by (subst upt_rec) (simp add: numeral_2_eq_2)
  then have "?chain = map (\<lambda>j. replicate j CHR ''a'') (rev [2..<Suc 65]) @ [''a'']"
    by (simp only: map_append list.map) simp
  then have t: "take 64 ?chain = map (\<lambda>j. replicate j CHR ''a'') (rev [2..<Suc 65])"
    by (simp only: take_append length_map length_rev length_upt) simp
  have none: "nearestDecl (moduleDecls newTypeArena [root_method]) ''m()()'' (take 64 ?chain) = None"
    unfolding root_nearest t by (auto simp: replicate_eq_replicate dest: arg_cong [where f = length])
  have some: "nearestDecl (moduleDecls newTypeArena [root_method]) ''m()()'' ?chain = Some 0"
    unfolding root_nearest by (auto simp: image_iff intro!: bexI [of _ 1])
  show ?thesis
    using backend_loses_deep_methods [OF deep_chain [OF order_refl] deep_rowClasses deep_tables root_slot none some] by simp
qed

end
