(* ===== verification/Rx_Utf8.thy ===== *)
theory Rx_Utf8
  imports Zl_Prelude
begin

text \<open>
  UTF-8 as the regular-expression engine decodes it (\<^verbatim>\<open>src/regex/regex.cpp\<close>). A text is a list of
  bytes; a code point is a \<^verbatim>\<open>std::uint32_t\<close> whose operations never leave the 21 bits of a character
  here, so it is a natural number and shifts and masks are written as arithmetic on it.
\<close>

text \<open>The number of bytes a first byte announces; 0 for a byte that cannot start a character.\<close>

definition utf8Width :: "nat \<Rightarrow> nat" where
  "utf8Width c =
     (if c < 0x80 then 1
      else if 0xC0 \<le> c \<and> c < 0xE0 then 2
      else if 0xE0 \<le> c \<and> c < 0xF0 then 3
      else if 0xF0 \<le> c \<and> c < 0xF8 then 4
      else 0)"

definition isContinuation :: "nat \<Rightarrow> bool" where
  "isContinuation c \<longleftrightarrow> 0x80 \<le> c \<and> c < 0xC0"

fun decodeTail :: "nat \<Rightarrow> string \<Rightarrow> nat option" where
  "decodeTail cp [] = Some cp"
| "decodeTail cp (c # cs) =
     (if \<not> isContinuation (code c) then None else decodeTail (cp * 64 + code c mod 64) cs)"

definition overlong :: "nat \<Rightarrow> nat \<Rightarrow> bool" where
  "overlong width cp \<longleftrightarrow>
     width = 2 \<and> cp < 0x80 \<or> width = 3 \<and> cp < 0x800 \<or> width = 4 \<and> cp < 0x10000 \<or> 0x10FFFF < cp \<or>
     0xD800 \<le> cp \<and> cp \<le> 0xDFFF"

text \<open>The decoded character at a position with its width in bytes.\<close>

definition decodeUtf8 :: "string \<Rightarrow> nat \<Rightarrow> (nat \<times> nat) option" where
  "decodeUtf8 s pos =
     (if length s \<le> pos then None
      else
        let c0 = code (s ! pos); width = utf8Width c0
        in if width = 0 \<or> length s < pos + width then None
           else if width = 1 then Some (c0, 1)
           else case decodeTail (c0 mod 2 ^ (7 - width)) (take (width - 1) (drop (pos + 1) s)) of
             None \<Rightarrow> None
           | Some cp \<Rightarrow> if overlong width cp then None else Some (cp, width))"

subsection \<open>The encoding\<close>

text \<open>Unicode's definition of UTF-8, as a function from scalar values to bytes.\<close>

definition scalar_value :: "nat \<Rightarrow> bool" where
  "scalar_value cp \<longleftrightarrow> cp \<le> 0x10FFFF \<and> \<not> (0xD800 \<le> cp \<and> cp \<le> 0xDFFF)"

definition continuation :: "nat \<Rightarrow> char" where
  "continuation n = char_of (0x80 + n mod 64 :: nat)"

definition encodeUtf8 :: "nat \<Rightarrow> string" where
  "encodeUtf8 cp =
     (if cp < 0x80 then [char_of cp]
      else if cp < 0x800 then [char_of (0xC0 + cp div 64), continuation cp]
      else if cp < 0x10000 then [char_of (0xE0 + cp div 4096), continuation (cp div 64), continuation cp]
      else [char_of (0xF0 + cp div 262144), continuation (cp div 4096), continuation (cp div 64), continuation cp])"

lemma code_continuation: "code (continuation n) = 0x80 + n mod 64"
  by (simp add: continuation_def)

lemma digit_64: "(q * 64 + d mod 64) div 64 = q" "(q * 64 + d mod 64) mod 64 = (d::nat) mod 64"
  by simp_all

lemma continuation_props [simp]: "isContinuation (code (continuation n))" "code (continuation n) mod 64 = n mod 64"
proof -
  have "n mod 64 < 64" by simp
  then show "isContinuation (code (continuation n))" unfolding code_continuation isContinuation_def by linarith
  show "code (continuation n) mod 64 = n mod 64"
    unfolding code_continuation using digit_64(2) [of 2 n] by simp
qed

text \<open>Base-64 digits.\<close>

lemma base64_step: "n div 64 * 64 + n mod 64 = (n::nat)"
  by (rule div_mult_mod_eq)

lemma div_64_64: "n div 4096 = n div 64 div (64::nat)" "n div 262144 = n div 64 div 64 div (64::nat)"
  by (simp_all add: div_mult2_eq [symmetric])

lemma lead_mod: "a < m \<Longrightarrow> (k * m + a) mod m = (a::nat)"
  by simp

lemma lead_digit: "k * m \<le> c \<Longrightarrow> c < k * m + m \<Longrightarrow> k * m + c mod m = (c::nat)"
proof -
  assume r: "k * m \<le> c" "c < k * m + m"
  define d where "d = c - k * m"
  have c: "c = k * m + d" "d < m" using r by (auto simp: d_def)
  show "k * m + c mod m = c" unfolding c(1) using c(2) by simp
qed

lemma cont_digit: "isContinuation c \<Longrightarrow> 128 + c mod 64 = c"
  using lead_digit [of 2 64 c] by (simp add: isContinuation_def)

lemma decodeUtf8_front:
  assumes "pos \<le> length s"
  shows "decodeUtf8 s pos = decodeUtf8 (drop pos s) 0"
  using assms by (auto simp: decodeUtf8_def Let_def hd_drop_conv_nth[symmetric] nth_drop add.commute)

lemma encodeUtf8_decodes:
  assumes "scalar_value cp"
  shows "decodeUtf8 (encodeUtf8 cp @ rest) 0 = Some (cp, length (encodeUtf8 cp))"
proof -
  have r: "cp \<le> 0x10FFFF" using assms by (simp add: scalar_value_def)
  consider "cp < 0x80" | "0x80 \<le> cp" "cp < 0x800" | "0x800 \<le> cp" "cp < 0x10000" | "0x10000 \<le> cp"
    by linarith
  then show ?thesis
  proof cases
    case 1
    then show ?thesis by (simp add: encodeUtf8_def decodeUtf8_def utf8Width_def Let_def)
  next
    case 2
    have w: "utf8Width (0xC0 + cp div 64) = 2" "code (char_of (0xC0 + cp div 64)) = 0xC0 + cp div 64"
      using 2 by (auto simp: utf8Width_def)
    have "(0xC0 + cp div 64) mod 32 = cp div 64" using lead_mod [of "cp div 64" 32 6] 2 by simp
    moreover note base64_step [of cp]
    ultimately show ?thesis using 2 assms w
      by (simp add: encodeUtf8_def decodeUtf8_def Let_def overlong_def scalar_value_def)
  next
    case 3
    have w: "utf8Width (0xE0 + cp div 4096) = 3" "code (char_of (0xE0 + cp div 4096)) = 0xE0 + cp div 4096"
      using 3 by (auto simp: utf8Width_def)
    have "(0xE0 + cp div 4096) mod 16 = cp div 4096" using lead_mod [of "cp div 4096" 16 14] 3 by simp
    moreover have "(cp div 4096 * 64 + cp div 64 mod 64) * 64 + cp mod 64 = cp"
      unfolding div_64_64 base64_step by (rule refl)
    ultimately show ?thesis using 3 assms w
      by (simp add: encodeUtf8_def decodeUtf8_def Let_def overlong_def scalar_value_def numeral_3_eq_3)
  next
    case 4
    have w: "utf8Width (0xF0 + cp div 262144) = 4" "code (char_of (0xF0 + cp div 262144)) = 0xF0 + cp div 262144"
      using 4 r by (auto simp: utf8Width_def)
    have "(0xF0 + cp div 262144) mod 8 = cp div 262144" using lead_mod [of "cp div 262144" 8 30] 4 r by simp
    moreover have "((cp div 262144 * 64 + cp div 4096 mod 64) * 64 + cp div 64 mod 64) * 64 + cp mod 64 = cp"
      unfolding div_64_64 base64_step by (rule refl)
    ultimately show ?thesis using 4 r assms w
      by (simp add: encodeUtf8_def decodeUtf8_def Let_def overlong_def scalar_value_def)
  qed
qed

text \<open>Conversely, only encodings of scalar values decode.\<close>

lemma width_cases:
  assumes "utf8Width c \<noteq> 0"
  obtains "c < 0x80" "utf8Width c = 1" | "0xC0 \<le> c" "c < 0xE0" "utf8Width c = 2"
    | "0xE0 \<le> c" "c < 0xF0" "utf8Width c = 3" | "0xF0 \<le> c" "c < 0xF8" "utf8Width c = 4"
  using assms by (auto simp: utf8Width_def split: if_splits)

lemma char_of_eqI: "code c = n \<Longrightarrow> char_of n = c"
  by auto

lemma decodeUtf8_encodes:
  assumes "decodeUtf8 s 0 = Some (cp, w)"
  shows "scalar_value cp \<and> (\<exists>rest. s = encodeUtf8 cp @ rest) \<and> w = length (encodeUtf8 cp)"
proof -
  obtain c0 t where s: "s = c0 # t" using assms by (cases s) (auto simp: decodeUtf8_def)
  have "utf8Width (code c0) \<noteq> 0" using assms s by (auto simp: decodeUtf8_def Let_def split: if_splits)
  then show ?thesis
  proof (cases rule: width_cases)
    case 1
    then have "cp = code c0" "w = 1" using assms s by (auto simp: decodeUtf8_def Let_def split: if_splits)
    then show ?thesis using 1 s by (simp add: scalar_value_def encodeUtf8_def)
  next
    case 2
    then obtain c1 u where t: "t = c1 # u" using assms s
      by (cases t) (auto simp: decodeUtf8_def Let_def split: if_splits)
    have c1: "isContinuation (code c1)" and cp: "cp = code c0 mod 32 * 64 + code c1 mod 64" and w: "w = 2"
      and ok: "\<not> overlong 2 cp"
      using assms 2 s t by (auto simp: decodeUtf8_def Let_def split: if_splits)
    have q: "cp div 64 = code c0 mod 32" "cp mod 64 = code c1 mod 64" unfolding cp by simp_all
    have lo: "0x80 \<le> cp" using ok by (simp add: overlong_def)
    have "cp div 64 < 32" unfolding q by simp
    then have "cp < 0x800" by (simp add: div_less_iff_less_mult)
    moreover note lo
    moreover have "0xC0 + cp div 64 = code c0" unfolding q using lead_digit [of 6 32 "code c0"] 2 by simp
    moreover have "0x80 + cp mod 64 = code c1" unfolding q using cont_digit [OF c1] by simp
    ultimately show ?thesis
      using s t w ok by (auto simp: encodeUtf8_def continuation_def scalar_value_def overlong_def char_of_eqI)
  next
    case 3
    then obtain c1 c2 u where t: "t = c1 # c2 # u" using assms s
      by (cases t; cases "tl t") (auto simp: decodeUtf8_def Let_def split: if_splits)
    have c: "isContinuation (code c1)" "isContinuation (code c2)"
      and cp: "cp = (code c0 mod 16 * 64 + code c1 mod 64) * 64 + code c2 mod 64" and w: "w = 3"
      and ok: "\<not> overlong 3 cp"
      using assms 3 s t by (auto simp: decodeUtf8_def Let_def split: if_splits)
    have q: "cp div 4096 = code c0 mod 16" "cp div 64 mod 64 = code c1 mod 64" "cp mod 64 = code c2 mod 64"
      unfolding cp div_64_64 by (simp_all only: digit_64)
    have lo: "0x800 \<le> cp" using ok by (simp add: overlong_def)
    have "cp div 4096 < 16" unfolding q by simp
    then have "cp < 0x10000" by (simp add: div_less_iff_less_mult)
    moreover note lo
    moreover have "0xE0 + cp div 4096 = code c0" unfolding q using lead_digit [of 14 16 "code c0"] 3 by simp
    moreover have "0x80 + cp div 64 mod 64 = code c1" "0x80 + cp mod 64 = code c2"
      unfolding q using c [THEN cont_digit] by simp_all
    ultimately show ?thesis
      using s t w ok by (auto simp: encodeUtf8_def continuation_def scalar_value_def overlong_def char_of_eqI)
  next
    case 4
    then obtain c1 c2 c3 u where t: "t = c1 # c2 # c3 # u" using assms s
      by (cases t; cases "tl t"; cases "tl (tl t)") (auto simp: decodeUtf8_def Let_def split: if_splits)
    have c: "isContinuation (code c1)" "isContinuation (code c2)" "isContinuation (code c3)"
      and cp: "cp = ((code c0 mod 8 * 64 + code c1 mod 64) * 64 + code c2 mod 64) * 64 + code c3 mod 64" and w: "w = 4"
      and ok: "\<not> overlong 4 cp"
      using assms 4 s t by (auto simp: decodeUtf8_def Let_def numeral_3_eq_3 split: if_splits)
    have "0x10000 \<le> cp" "cp \<le> 0x10FFFF" using ok by (auto simp: overlong_def)
    moreover have q: "cp div 262144 = code c0 mod 8" "cp div 4096 mod 64 = code c1 mod 64"
        "cp div 64 mod 64 = code c2 mod 64" "cp mod 64 = code c3 mod 64"
      unfolding cp div_64_64 by (simp_all only: digit_64)
    moreover have "0xF0 + cp div 262144 = code c0" unfolding q using lead_digit [of 30 8 "code c0"] 4 by simp
    moreover have "0x80 + cp div 4096 mod 64 = code c1" "0x80 + cp div 64 mod 64 = code c2" "0x80 + cp mod 64 = code c3"
      unfolding q using c [THEN cont_digit] by simp_all
    ultimately show ?thesis
      using s t w ok by (auto simp: encodeUtf8_def continuation_def scalar_value_def overlong_def char_of_eqI)
  qed
qed

lemma decodeUtf8_iff:
  "decodeUtf8 s pos = Some (cp, w) \<longleftrightarrow>
     pos \<le> length s \<and> scalar_value cp \<and> w = length (encodeUtf8 cp) \<and> (\<exists>rest. drop pos s = encodeUtf8 cp @ rest)"
proof (cases "pos \<le> length s")
  case True
  show ?thesis
    unfolding decodeUtf8_front [OF True]
    using decodeUtf8_encodes [of "drop pos s" cp w] encodeUtf8_decodes [of cp] True by auto
qed (simp add: decodeUtf8_def)

text \<open>C25: Decoding is the inverse of encoding: on a text made of an encoded character between any two strings, decoding
  at the character's position gives it and its width; and whatever decodes anywhere is a scalar value whose
  encoding stands there, so truncated, overlong, surrogate and out-of-range sequences are refused.\<close>

theorem decodeUtf8_correct:
  "{(pos, cp, w). decodeUtf8 s pos = Some (cp, w)} =
     {(length pre, cp, length (encodeUtf8 cp)) | pre cp post. scalar_value cp \<and> s = pre @ encodeUtf8 cp @ post}"
  by (auto simp: decodeUtf8_iff) (metis append_take_drop_id length_take min.absorb2)

end
