(* ===== verification/Rx_Match.thy ===== *)
theory Rx_Match
  imports Rx_Unicode
begin

text \<open>
  The backtracking matcher of the regular-expression engine (\<^verbatim>\<open>src/regex/regex.cpp\<close>): the nodes of
  \<^verbatim>\<open>regex.hpp\<close>, the capture state, the work budget with its two limits, and one definition per function
  (\<^verbatim>\<open>classAtom\<close>, \<^verbatim>\<open>escapeAtom\<close>, \<^verbatim>\<open>matchNode\<close>, \<^verbatim>\<open>matchSequence\<close>, \<^verbatim>\<open>repeatNode\<close>, \<^verbatim>\<open>matchLookbehind\<close>, ...).
\<close>

subsection \<open>Patterns\<close>

text \<open>A \<^verbatim>\<open>Node\<close> with the fields its kind uses: \<open>Group\<close> has its capture index (0 when it does not capture),
  \<open>Backreference\<close> its index and its name, \<open>Quantifier\<close> its minimum, its maximum (\<^verbatim>\<open>-1\<close>, no maximum, is \<^term>\<open>None\<close>),
  whether it is greedy and whether it is possessive.\<close>

datatype node =
    Sequence "node list"
  | Alternation "node list"
  | Literal string
  | Escape string
  | CharacterClass string
  | Any
  | Group nat node
  | NamedGroup nat string node
  | AtomicGroup node
  | Backreference nat string
  | AnchorStart
  | AnchorEnd
  | Quantifier nat "nat option" bool bool node
  | Lookahead node
  | NegativeLookahead node
  | Lookbehind node
  | NegativeLookbehind node

subsection \<open>Character classes and escapes\<close>

definition escapeClass :: "char \<Rightarrow> nat \<Rightarrow> bool option" where
  "escapeClass e cp =
     (if e = CHR ''d'' then Some (unicodeDecimalDigit cp)
      else if e = CHR ''D'' then Some (\<not> unicodeDecimalDigit cp)
      else if e = CHR ''w'' then Some (unicodeWord cp)
      else if e = CHR ''W'' then Some (\<not> unicodeWord cp)
      else if e = CHR ''s'' then Some (unicodeSpace cp)
      else if e = CHR ''S'' then Some (\<not> unicodeSpace cp)
      else if e = CHR ''t'' then Some (cp = 9)
      else if e = CHR ''n'' then Some (cp = 10)
      else if e = CHR ''r'' then Some (cp = 13)
      else None)"

lemma decodeUtf8_width: "decodeUtf8 s i = Some (a, w) \<Longrightarrow> 0 < w \<and> i + w \<le> length s"
  by (auto simp: decodeUtf8_def Let_def split: if_splits option.splits)

text \<open>The loop of \<^verbatim>\<open>classAtom\<close> at byte \<open>i\<close>, with \<open>last\<close> the index of the closing bracket.\<close>

function classLoop :: "string \<Rightarrow> nat \<Rightarrow> nat \<Rightarrow> bool \<Rightarrow> bool" where
  "classLoop cls cp i ok =
     (let last = length cls - 1
      in if \<not> i < last then ok
         else if cls ! i = CHR 0x5C then
           if last \<le> i + 1 then ok
           else
             let e = cls ! (i + 1)
             in if (e = CHR ''p'' \<or> e = CHR ''P'') \<and> i + 2 < last \<and> cls ! (i + 2) = CHR 0x7B then
                  if last \<le> i + 3 then ok
                  else if last \<le> i + 4 then classLoop cls cp (i + 4) ok
                  else if cls ! (i + 4) \<noteq> CHR 0x7D then classLoop cls cp (i + 5) ok
                  else
                    let hit = unicodeProperty cp (cls ! (i + 3))
                    in classLoop cls cp (i + 5) (ok \<or> (if e = CHR ''p'' then hit else \<not> hit))
                else classLoop cls cp (i + 2)
                  (ok \<or> (case escapeClass e cp of Some b \<Rightarrow> b | None \<Rightarrow> cp = code e))
         else case decodeUtf8 cls i of
           None \<Rightarrow> ok
         | Some (a, aw) \<Rightarrow>
             if last < i + aw then ok
             else if i + aw < last \<and> cls ! (i + aw) = CHR ''-'' then
               (case decodeUtf8 cls (i + aw + 1) of
                 None \<Rightarrow> ok
               | Some (b, bw) \<Rightarrow>
                   if last < i + aw + 1 + bw then ok
                   else classLoop cls cp (i + aw + 1 + bw) (ok \<or> a \<le> cp \<and> cp \<le> b))
             else classLoop cls cp (i + aw) (ok \<or> a = cp))"
  by pat_completeness auto

termination classLoop
  by (relation "measure (\<lambda>(cls, cp, i, ok). length cls - i)") (auto dest: decodeUtf8_width)

declare classLoop.simps [simp del]

definition classAtom :: "string \<Rightarrow> nat \<Rightarrow> bool" where
  "classAtom cls cp =
     (if length cls < 2 \<or> hd cls \<noteq> CHR ''['' \<or> last cls \<noteq> CHR '']'' then False
      else
        let neg = 2 < length cls \<and> cls ! 1 = CHR ''^'';
            ok = classLoop cls cp (if neg then 2 else 1) False
        in if neg then \<not> ok else ok)"

definition escapeAtom :: "string \<Rightarrow> nat \<Rightarrow> bool" where
  "escapeAtom e cp =
     (if length e = 5 \<and> e ! 0 = CHR 0x5C \<and> (e ! 1 = CHR ''p'' \<or> e ! 1 = CHR ''P'') \<and> e ! 2 = CHR 0x7B \<and> e ! 4 = CHR 0x7D
      then (let hit = unicodeProperty cp (e ! 3) in if e ! 1 = CHR ''p'' then hit else \<not> hit)
      else if length e \<noteq> 2 \<or> e ! 0 \<noteq> CHR 0x5C then False
      else case escapeClass (e ! 1) cp of
        Some b \<Rightarrow> b
      | None \<Rightarrow>
          if e ! 1 = CHR ''f'' then cp = 12
          else if e ! 1 = CHR ''v'' then cp = 11
          else cp = code (e ! 1))"

subsection \<open>Captures and states\<close>

text \<open>\<^verbatim>\<open>CapState\<close> keeps three vectors that always have the same length; here one list of the triples.\<close>

record capture =
  capStart :: int
  capEnd :: int
  capSet :: bool

record rstate =
  rpos :: nat
  rcaps :: "capture list"

definition makeCaps :: "nat \<Rightarrow> capture list" where
  "makeCaps n = replicate (n + 1) \<lparr>capStart = -1, capEnd = -1, capSet = False\<rparr>"

fun maxCapture :: "node \<Rightarrow> nat" where
  "maxCapture (Sequence ns) = foldr (\<lambda>n m. max (maxCapture n) m) ns 0"
| "maxCapture (Alternation ns) = foldr (\<lambda>n m. max (maxCapture n) m) ns 0"
| "maxCapture (Group i n) = max i (maxCapture n)"
| "maxCapture (NamedGroup i nm n) = max i (maxCapture n)"
| "maxCapture (AtomicGroup n) = maxCapture n"
| "maxCapture (Quantifier mn mx g p n) = maxCapture n"
| "maxCapture (Lookahead n) = maxCapture n"
| "maxCapture (NegativeLookahead n) = maxCapture n"
| "maxCapture (Lookbehind n) = maxCapture n"
| "maxCapture (NegativeLookbehind n) = maxCapture n"
| "maxCapture _ = 0"

text \<open>Entering a group records where it starts and forgets its last match; leaving it records the end.\<close>

definition openGroup :: "nat \<Rightarrow> rstate \<Rightarrow> rstate" where
  "openGroup i st =
     (if 0 < i then st\<lparr>rcaps := (rcaps st)[i := (rcaps st ! i)\<lparr>capStart := int (rpos st), capSet := False\<rparr>]\<rparr> else st)"

definition closeGroup :: "nat \<Rightarrow> rstate \<Rightarrow> rstate" where
  "closeGroup i s =
     (if 0 < i then s\<lparr>rcaps := (rcaps s)[i := (rcaps s ! i)\<lparr>capEnd := int (rpos s), capSet := True\<rparr>]\<rparr> else s)"

definition advanceBy :: "rstate \<Rightarrow> nat \<Rightarrow> rstate" where
  "advanceBy st w = st\<lparr>rpos := rpos st + w\<rparr>"

subsection \<open>Atoms\<close>

definition matchLiteral :: "string \<Rightarrow> string \<Rightarrow> rstate \<Rightarrow> rstate list" where
  "matchLiteral text lit st =
     (if length text < rpos st + length lit \<or> take (length lit) (drop (rpos st) text) \<noteq> lit then []
      else case decodeUtf8 text (rpos st) of
        None \<Rightarrow> []
      | Some (cp, w) \<Rightarrow> [advanceBy st w])"

definition matchOne :: "(nat \<Rightarrow> bool) \<Rightarrow> string \<Rightarrow> rstate \<Rightarrow> rstate list" where
  "matchOne accepts text st =
     (case decodeUtf8 text (rpos st) of
       None \<Rightarrow> []
     | Some (cp, w) \<Rightarrow> if accepts cp then [advanceBy st w] else [])"

definition matchBackreference :: "nat \<Rightarrow> string \<Rightarrow> string \<Rightarrow> rstate \<Rightarrow> rstate list" where
  "matchBackreference i nm text st =
     (if i = 0 \<and> nm \<noteq> [] then []
      else if i = 0 \<or> length (rcaps st) \<le> i \<or> \<not> capSet (rcaps st ! i) then []
      else
        let a = nat (capStart (rcaps st ! i)); b = nat (capEnd (rcaps st ! i))
        in if b < a \<or> length text < b \<or> length text < rpos st + b - a then []
           else if take (b - a) (drop (rpos st) text) \<noteq> take (b - a) (drop a text) then []
           else [advanceBy st (b - a)])"

text \<open>The width of a look-behind in characters, \<^verbatim>\<open>-1\<close> when it is not fixed.\<close>

fun fixedWidth :: "node \<Rightarrow> int" and fixedWidths :: "node list \<Rightarrow> int \<Rightarrow> int" where
  "fixedWidth (Literal l) = 1"
| "fixedWidth (Escape e) = 1"
| "fixedWidth Any = 1"
| "fixedWidth (CharacterClass c) = 1"
| "fixedWidth (Sequence ns) = fixedWidths ns 0"
| "fixedWidth (Group i n) = fixedWidth n"
| "fixedWidth (NamedGroup i nm n) = fixedWidth n"
| "fixedWidth (AtomicGroup n) = fixedWidth n"
| "fixedWidth (Quantifier mn mx g p n) = (if mx = Some mn then fixedWidth n * int mn else -1)"
| "fixedWidth _ = -1"
| "fixedWidths [] w = w"
| "fixedWidths (n # ns) w = (let x = fixedWidth n in if x < 0 then -1 else fixedWidths ns (w + x))"

subsection \<open>The work budget\<close>

text \<open>
  \<^verbatim>\<open>MatchBudget\<close>: the steps taken so far are threaded through the whole match; the depth is that of the
  call. The limits \<^verbatim>\<open>kRegexMaxSteps\<close> and \<^verbatim>\<open>kRegexMaxDepth\<close> are a parameter, and
  \<open>engineLimits\<close> has their values. Crossing one is an error value.
\<close>

datatype budgetError = TooManySteps | TooDeep

record limits =
  maxSteps :: nat
  maxDepth :: nat

definition engineLimits :: limits where
  "engineLimits = \<lparr>maxSteps = 1000000, maxDepth = 10000\<rparr>"

type_synonym 'a budgeted = "nat \<Rightarrow> budgetError + 'a \<times> nat"

definition ticket :: "limits \<Rightarrow> nat \<Rightarrow> (nat \<Rightarrow> 'a budgeted) \<Rightarrow> 'a budgeted" where
  "ticket B depth body steps =
     (if maxSteps B < steps + 1 then Inl TooManySteps
      else if maxDepth B < depth + 1 then Inl TooDeep
      else body (depth + 1) (steps + 1))"

definition pass :: "'a \<Rightarrow> 'a budgeted" where
  "pass x steps = Inr (x, steps)"

definition bindB :: "'a budgeted \<Rightarrow> ('a \<Rightarrow> 'b budgeted) \<Rightarrow> 'b budgeted" where
  "bindB m f steps = (case m steps of Inl e \<Rightarrow> Inl e | Inr (x, steps') \<Rightarrow> f x steps')"

text \<open>The results of a step for every state of a list, one after the other.\<close>

fun forEach :: "('a \<Rightarrow> 'b list budgeted) \<Rightarrow> 'a list \<Rightarrow> 'b list budgeted" where
  "forEach f [] = pass []"
| "forEach f (x # xs) = bindB (f x) (\<lambda>ys. bindB (forEach f xs) (\<lambda>zs. pass (ys @ zs)))"

subsection \<open>Repetition\<close>

definition reached :: "nat option \<Rightarrow> nat \<Rightarrow> bool" where
  "reached mx count = (case mx of None \<Rightarrow> False | Some m \<Rightarrow> m \<le> count)"

text \<open>The loop of a possessive quantifier. Every call of the child takes a step, so a loop that is given
  more rounds than there are steps left ends by itself or by the budget (\<open>possessiveLoop_fuel\<close> below).\<close>

fun possessiveLoop :: "nat \<Rightarrow> (rstate \<Rightarrow> rstate list budgeted) \<Rightarrow> nat option \<Rightarrow> rstate \<Rightarrow> nat \<Rightarrow>
    (rstate \<times> nat) budgeted" where
  "possessiveLoop 0 child mx cur c steps = Inl TooManySteps"
| "possessiveLoop (Suc fuel) child mx cur c steps =
     (if reached mx c then Inr ((cur, c), steps)
      else case child cur steps of
        Inl e \<Rightarrow> Inl e
      | Inr ([], steps') \<Rightarrow> Inr ((cur, c), steps')
      | Inr (chosen # _, steps') \<Rightarrow>
          if rpos chosen = rpos cur then Inr ((cur, c), steps')
          else possessiveLoop fuel child mx chosen (c + 1) steps')"

text \<open>\<^verbatim>\<open>rec\<close> inside \<^verbatim>\<open>repeatNode\<close>, with the states it pushes as its result.\<close>

function repeatRec :: "limits \<Rightarrow> (rstate \<Rightarrow> nat \<Rightarrow> rstate list budgeted) \<Rightarrow> nat \<Rightarrow> nat option \<Rightarrow> bool \<Rightarrow> bool \<Rightarrow>
    rstate \<Rightarrow> nat \<Rightarrow> nat \<Rightarrow> rstate list budgeted" where
  "repeatRec B child mn mx greedy possessive s count depth steps =
     (if maxDepth B < depth + 1 then Inl TooDeep
      else if possessive then
        (case possessiveLoop (maxSteps B - steps + 1) (\<lambda>cur. child cur (depth + 1)) mx s count steps of
          Inl e \<Rightarrow> Inl e
        | Inr ((cur, c), steps') \<Rightarrow> Inr (if mn \<le> c then [cur] else [], steps'))
      else
        let before = (if \<not> greedy \<and> mn \<le> count then [s] else []);
            after = (if greedy \<and> mn \<le> count then [s] else [])
        in if reached mx count then Inr (before @ after, steps)
           else bindB (child s (depth + 1))
             (\<lambda>next. bindB
               (forEach (\<lambda>ns. if rpos ns = rpos s then pass []
                              else repeatRec B child mn mx greedy possessive ns (count + 1) (depth + 1)) next)
               (\<lambda>out. pass (before @ out @ after))) steps)"
  by pat_completeness auto

termination repeatRec
  by (relation "measure (\<lambda>(B, child, mn, mx, g, p, s, count, depth, steps). maxDepth B - depth)") auto

declare repeatRec.simps [simp del]

definition repeatNode :: "limits \<Rightarrow> (rstate \<Rightarrow> nat \<Rightarrow> rstate list budgeted) \<Rightarrow> nat \<Rightarrow> nat option \<Rightarrow> bool \<Rightarrow> bool \<Rightarrow>
    rstate \<Rightarrow> nat \<Rightarrow> rstate list budgeted" where
  "repeatNode B child mn mx greedy possessive base depth =
     repeatRec B child mn mx greedy possessive base 0 depth"

subsection \<open>Matching a node\<close>

text \<open>The start of a look-behind of width \<open>w\<close>, and its verdict.\<close>

definition lookbehindStart :: "int \<Rightarrow> rstate \<Rightarrow> rstate option" where
  "lookbehindStart w st = (if w < 0 \<or> rpos st < nat w then None else Some (st\<lparr>rpos := rpos st - nat w\<rparr>))"

definition endsAt :: "nat \<Rightarrow> rstate list \<Rightarrow> bool" where
  "endsAt p rs = list_ex (\<lambda>s. rpos s = p) rs"

type_synonym matcher = "rstate \<Rightarrow> nat \<Rightarrow> rstate list budgeted"

fun matchSequence :: "matcher list \<Rightarrow> rstate \<Rightarrow> nat \<Rightarrow> rstate list budgeted" where
  "matchSequence [] st d = pass [st]"
| "matchSequence (m # ms) st d = bindB (m st d) (forEach (\<lambda>s. matchSequence ms s d))"

fun matchAlternation :: "matcher list \<Rightarrow> rstate \<Rightarrow> nat \<Rightarrow> rstate list budgeted" where
  "matchAlternation [] st d = pass []"
| "matchAlternation (m # ms) st d =
     bindB (m st d) (\<lambda>r. bindB (matchAlternation ms st d) (\<lambda>out. pass (r @ out)))"

definition matchLookbehind :: "int \<Rightarrow> matcher \<Rightarrow> rstate \<Rightarrow> nat \<Rightarrow> bool budgeted" where
  "matchLookbehind w m st d =
     (case lookbehindStart w st of
       None \<Rightarrow> pass False
     | Some cp \<Rightarrow> bindB (m cp d) (\<lambda>r. pass (endsAt (rpos st) r)))"

text \<open>The lists of a sequence and of an alternation are passed on as the matchers of their nodes.\<close>

primrec matchNode :: "limits \<Rightarrow> string \<Rightarrow> node \<Rightarrow> matcher" where
  "matchNode B text (Sequence ns) = (\<lambda>st d. ticket B d (matchSequence (map (matchNode B text) ns) st))"
| "matchNode B text (Alternation ns) = (\<lambda>st d. ticket B d (matchAlternation (map (matchNode B text) ns) st))"
| "matchNode B text (Literal l) = (\<lambda>st d. ticket B d (\<lambda>d'. pass (matchLiteral text l st)))"
| "matchNode B text (Escape e) = (\<lambda>st d. ticket B d (\<lambda>d'. pass (matchOne (escapeAtom e) text st)))"
| "matchNode B text (CharacterClass c) = (\<lambda>st d. ticket B d (\<lambda>d'. pass (matchOne (classAtom c) text st)))"
| "matchNode B text Any = (\<lambda>st d. ticket B d (\<lambda>d'. pass (matchOne (\<lambda>cp. True) text st)))"
| "matchNode B text AnchorStart = (\<lambda>st d. ticket B d (\<lambda>d'. pass (if rpos st = 0 then [st] else [])))"
| "matchNode B text AnchorEnd = (\<lambda>st d. ticket B d (\<lambda>d'. pass (if rpos st = length text then [st] else [])))"
| "matchNode B text (Group i n) = (\<lambda>st d.
     ticket B d (\<lambda>d'. bindB (matchNode B text n (openGroup i st) d') (\<lambda>r. pass (map (closeGroup i) r))))"
| "matchNode B text (NamedGroup i nm n) = (\<lambda>st d.
     ticket B d (\<lambda>d'. bindB (matchNode B text n (openGroup i st) d') (\<lambda>r. pass (map (closeGroup i) r))))"
| "matchNode B text (AtomicGroup n) = (\<lambda>st d.
     ticket B d (\<lambda>d'. bindB (matchNode B text n st d') (\<lambda>r. pass (take 1 r))))"
| "matchNode B text (Backreference i nm) = (\<lambda>st d. ticket B d (\<lambda>d'. pass (matchBackreference i nm text st)))"
| "matchNode B text (Quantifier mn mx g p n) = (\<lambda>st d.
     ticket B d (repeatNode B (matchNode B text n) mn mx g p st))"
| "matchNode B text (Lookahead n) = (\<lambda>st d.
     ticket B d (\<lambda>d'. bindB (matchNode B text n st d') (\<lambda>r. pass (if r = [] then [] else [st]))))"
| "matchNode B text (NegativeLookahead n) = (\<lambda>st d.
     ticket B d (\<lambda>d'. bindB (matchNode B text n st d') (\<lambda>r. pass (if r = [] then [st] else []))))"
| "matchNode B text (Lookbehind n) = (\<lambda>st d.
     ticket B d (\<lambda>d'. bindB (matchLookbehind (fixedWidth n) (matchNode B text n) st d')
       (\<lambda>b. pass (if b then [st] else []))))"
| "matchNode B text (NegativeLookbehind n) = (\<lambda>st d.
     ticket B d (\<lambda>d'. bindB (matchLookbehind (fixedWidth n) (matchNode B text n) st d')
       (\<lambda>b. pass (if b then [] else [st]))))"

end
