(* ===== verification/Rx_Parser.thy ===== *)
theory Rx_Parser
  imports Rx_Match
begin

text \<open>
  The parser of regular expressions (\<^verbatim>\<open>class Parser\<close> and \<^verbatim>\<open>parse\<close> in \<^verbatim>\<open>src/regex/regex.cpp\<close>). The position in
  the source is represented by the text that remains, and an error carries the number of bytes that remain, from
  which \<open>parsePattern\<close> computes the reported offset.
\<close>

section \<open>The parser\<close>

datatype parseError =
    Fail string nat
  | StoiOutOfRange
  | Invalid string
  | OutOfFuel

text \<open>The text of the exception.\<close>

definition errorText :: "string \<Rightarrow> parseError \<Rightarrow> string" where
  "errorText source e =
     (case e of
        Fail msg left \<Rightarrow> ''Regex: '' @ msg @ '' at offset '' @ nat_to_string (length source - left)
      | StoiOutOfRange \<Rightarrow> ''stoi''
      | Invalid msg \<Rightarrow> msg
      | OutOfFuel \<Rightarrow> [])"

record pstate =
  rest :: string
  captureCount :: nat
  captureNames :: "string list"

type_synonym 'a parser = "pstate \<Rightarrow> parseError + 'a \<times> pstate"

definition failAt :: "string \<Rightarrow> 'a parser" where
  "failAt msg st = Inl (Fail msg (length (rest st)))"

definition peekAt :: "pstate \<Rightarrow> char" where
  "peekAt st = (case rest st of [] \<Rightarrow> CHR 0x00 | c # cs \<Rightarrow> c)"

definition skip :: "nat \<Rightarrow> pstate \<Rightarrow> pstate" where
  "skip k st = st\<lparr>rest := drop k (rest st)\<rparr>"

definition atEnd :: "pstate \<Rightarrow> bool" where
  "atEnd st \<longleftrightarrow> rest st = []"

subsection \<open>Quantifiers\<close>

definition INT_MAX :: nat where
  "INT_MAX = 2147483647"

text \<open>\<^verbatim>\<open>std::stoi\<close> on a non-empty run of digits.\<close>

definition stoi :: "string \<Rightarrow> nat option" where
  "stoi ds = (let v = nat (digits_val ds) in if v \<le> INT_MAX then Some v else None)"

text \<open>\<open>greedy\<close> and \<open>possessive\<close> from what follows the bounds.\<close>

definition quantifierMode :: "nat \<Rightarrow> nat option \<Rightarrow> node \<Rightarrow> node parser" where
  "quantifierMode mn mx atom st =
     (if peekAt st = CHR ''?'' then Inr (Quantifier mn mx False False atom, skip 1 st)
      else if peekAt st = CHR ''+'' then Inr (Quantifier mn mx True True atom, skip 1 st)
      else Inr (Quantifier mn mx True False atom, st))"

definition parseBounds :: "node \<Rightarrow> node parser" where
  "parseBounds atom st =
     (let lo = takeWhile is_digit (rest st); st1 = skip (length lo) st
      in if lo = [] then failAt ''expected quantifier minimum'' st1
         else case stoi lo of
           None \<Rightarrow> Inl StoiOutOfRange
         | Some mn \<Rightarrow>
             if peekAt st1 = CHR 0x7D then quantifierMode mn (Some mn) atom (skip 1 st1)
             else if peekAt st1 = CHR '','' then
               (let hi = takeWhile is_digit (rest (skip 1 st1)); st2 = skip (length hi) (skip 1 st1)
                in if peekAt st2 \<noteq> CHR 0x7D then failAt ''unterminated range quantifier'' st2
                   else if hi = [] then quantifierMode mn None atom (skip 1 st2)
                   else case stoi hi of
                     None \<Rightarrow> Inl StoiOutOfRange
                   | Some mx \<Rightarrow>
                       if mx < mn then failAt ''quantifier maximum is less than minimum'' (skip 1 st2)
                       else quantifierMode mn (Some mx) atom (skip 1 st2))
             else failAt (''expected '' @ [CHR 0x27, CHR 0x7D, CHR 0x27] @ '' in quantifier'') st1)"

definition parseQuantifier :: "node \<Rightarrow> node parser" where
  "parseQuantifier atom st =
     (if peekAt st = CHR ''*'' then quantifierMode 0 None atom (skip 1 st)
      else if peekAt st = CHR ''+'' then quantifierMode 1 None atom (skip 1 st)
      else if peekAt st = CHR ''?'' then quantifierMode 0 (Some 1) atom (skip 1 st)
      else parseBounds atom (skip 1 st))"

definition maybeQuantify :: "node \<Rightarrow> node parser" where
  "maybeQuantify atom st =
     (if peekAt st \<in> {CHR ''*'', CHR ''+'', CHR ''?'', CHR 0x7B} then parseQuantifier atom st else Inr (atom, st))"

subsection \<open>Atoms\<close>

text \<open>The bytes of a character class up to its closing bracket, with the number of bytes read.\<close>

fun scanClass :: "string \<Rightarrow> parseError + string" where
  "scanClass [] = Inl (Fail ''unterminated character class'' 0)"
| "scanClass (c # cs) =
     (if c = CHR '']'' then Inr [c]
      else if c = CHR 0x5C then
        (case cs of
           [] \<Rightarrow> Inl (Fail ''unterminated character-class escape'' 0)
         | d # ds \<Rightarrow> (case scanClass ds of Inl e \<Rightarrow> Inl e | Inr t \<Rightarrow> Inr (c # d # t)))
      else (case scanClass cs of Inl e \<Rightarrow> Inl e | Inr t \<Rightarrow> Inr (c # t)))"

definition parseCharacterClass :: "node parser" where
  "parseCharacterClass st =
     (let open = take 1 (rest st); st1 = skip 1 st;
          neg = (if peekAt st1 = CHR ''^'' then take 1 (rest st1) else []);
          st2 = skip (length neg) st1
      in case scanClass (rest st2) of
        Inl e \<Rightarrow> Inl e
      | Inr t \<Rightarrow> Inr (CharacterClass (open @ neg @ t), skip (length t) st2))"

definition validName :: "string \<Rightarrow> bool" where
  "validName name \<longleftrightarrow> name \<noteq> [] \<and> (is_alpha (hd name) \<or> hd name = CHR ''_'') \<and> (\<forall>c \<in> set name. is_alnum c \<or> c = CHR ''_'')"

text \<open>A construct that goes on to a closing parenthesis.\<close>

definition enclosed :: "node parser \<Rightarrow> string \<Rightarrow> (node \<Rightarrow> node) \<Rightarrow> node parser" where
  "enclosed inner what mk st =
     (case inner st of
        Inl e \<Rightarrow> Inl e
      | Inr (n, st') \<Rightarrow> if peekAt st' \<noteq> CHR '')'' then failAt (''unterminated '' @ what) st' else Inr (mk n, skip 1 st'))"

definition quantified :: "node parser \<Rightarrow> node parser" where
  "quantified p st = (case p st of Inl e \<Rightarrow> Inl e | Inr (n, st') \<Rightarrow> maybeQuantify n st')"

definition newCapture :: "string \<Rightarrow> pstate \<Rightarrow> pstate" where
  "newCapture name st = st\<lparr>captureCount := captureCount st + 1, captureNames := captureNames st @ [name]\<rparr>"

text \<open>A group whose name starts here, and any group after its opening parenthesis.\<close>

definition parseNamedGroup :: "node parser \<Rightarrow> node parser" where
  "parseNamedGroup inner st =
     (let name = takeWhile (\<lambda>c. c \<noteq> CHR ''>'') (rest st); st1 = skip (length name) st; st2 = skip 1 st1
      in if peekAt st1 \<noteq> CHR ''>'' \<or> name = [] then failAt ''invalid named capture syntax'' st1
         else if \<not> validName name then failAt (''invalid capture name '' @ [CHR 0x27] @ name @ [CHR 0x27]) st2
         else quantified (enclosed inner ''named capture'' (NamedGroup (captureCount st2 + 1) name)) (newCapture name st2))"

definition parseGroupAt :: "node parser \<Rightarrow> node parser" where
  "parseGroupAt inner st =
     (if peekAt st = CHR ''?'' then
        (let st1 = skip 1 st
         in if peekAt st1 = CHR '':'' then quantified (enclosed inner ''group'' (Group 0)) (skip 1 st1)
            else if peekAt st1 = CHR ''>'' then quantified (enclosed inner ''atomic group'' AtomicGroup) (skip 1 st1)
            else if peekAt st1 = CHR ''='' then enclosed inner ''positive lookahead'' Lookahead (skip 1 st1)
            else if peekAt st1 = CHR ''!'' then enclosed inner ''negative lookahead'' NegativeLookahead (skip 1 st1)
            else if peekAt st1 = CHR ''<'' then
              (let st2 = skip 1 st1
               in if peekAt st2 = CHR ''='' then enclosed inner ''positive lookbehind'' Lookbehind (skip 1 st2)
                  else if peekAt st2 = CHR ''!'' then enclosed inner ''negative lookbehind'' NegativeLookbehind (skip 1 st2)
                  else parseNamedGroup inner st2)
            else failAt ''unsupported group modifier'' st1)
      else quantified (enclosed inner ''group'' (Group (captureCount st + 1))) (newCapture [] st))"

text \<open>An escape after its backslash.\<close>

definition parseEscape :: "node parser" where
  "parseEscape st =
     (case rest st of
        [] \<Rightarrow> failAt ''trailing escape'' st
      | e # _ \<Rightarrow>
          let st1 = skip 1 st
          in if (e = CHR ''p'' \<or> e = CHR ''P'') \<and> peekAt st1 = CHR 0x7B then
               (let body = takeWhile (\<lambda>c. c \<noteq> CHR 0x7D) (rest (skip 1 st1)); st2 = skip (length body) (skip 1 st1)
                in if peekAt st2 \<noteq> CHR 0x7D \<or> length body \<noteq> 1 then failAt ''invalid Unicode property escape'' st2
                   else if hd body \<notin> set ''LNMPSZC'' then failAt ''unsupported Unicode property'' (skip 1 st2)
                   else maybeQuantify (Escape ([CHR 0x5C, e, CHR 0x7B] @ body @ [CHR 0x7D])) (skip 1 st2))
             else if is_digit e then
               (if e = CHR ''0'' then failAt ''numeric backreference out of range'' st1
                else maybeQuantify (Backreference (nat (digit_val e)) []) st1)
             else if e = CHR ''k'' \<and> peekAt st1 = CHR ''<'' then
               (let name = takeWhile (\<lambda>c. c \<noteq> CHR ''>'') (rest (skip 1 st1)); st2 = skip (length name) (skip 1 st1)
                in if peekAt st2 \<noteq> CHR ''>'' \<or> name = [] then failAt ''invalid named backreference syntax'' st2
                   else maybeQuantify (Backreference 0 name) (skip 1 st2))
             else maybeQuantify (Escape [CHR 0x5C, e]) st1)"

text \<open>\<open>parseAtom\<close>, given the parser of what a group encloses.\<close>

definition parseAtom :: "node parser \<Rightarrow> node parser" where
  "parseAtom inner st =
     (let c = peekAt st
      in if c = CHR ''^'' then maybeQuantify AnchorStart (skip 1 st)
         else if c = CHR ''$'' then maybeQuantify AnchorEnd (skip 1 st)
         else if c = CHR ''.'' then maybeQuantify Any (skip 1 st)
         else if c = CHR ''('' then parseGroupAt inner (skip 1 st)
         else if c = CHR ''['' then quantified parseCharacterClass st
         else if c = CHR 0x5C then parseEscape (skip 1 st)
         else if c \<in> {CHR ''*'', CHR ''+'', CHR ''?'', CHR 0x7B} then failAt ''quantifier without a preceding atom'' st
         else case decodeUtf8 (rest st) 0 of
           None \<Rightarrow> failAt ''invalid UTF-8 in literal'' st
         | Some (cp, w) \<Rightarrow> maybeQuantify (Literal (take w (rest st))) (skip w st))"

subsection \<open>Sequences and alternations\<close>

text \<open>The loop of \<^verbatim>\<open>parseSequence\<close>; an atom takes at least one byte, so one round more than bytes remain is enough.\<close>

fun sequenceLoop :: "nat \<Rightarrow> node parser \<Rightarrow> node list \<Rightarrow> node list parser" where
  "sequenceLoop 0 atom acc st = Inl OutOfFuel"
| "sequenceLoop (Suc k) atom acc st =
     (if atEnd st \<or> peekAt st = CHR '')'' \<or> peekAt st = CHR ''|'' then Inr (acc, st)
      else case atom st of Inl e \<Rightarrow> Inl e | Inr (n, st') \<Rightarrow> sequenceLoop k atom (acc @ [n]) st')"

definition parseSequence :: "node parser \<Rightarrow> node parser" where
  "parseSequence atom st =
     (case sequenceLoop (length (rest st) + 1) atom [] st of
        Inl e \<Rightarrow> Inl e
      | Inr (ns, st') \<Rightarrow>
          if ns = [] then failAt ''empty sequence'' st'
          else if length ns = 1 then Inr (hd ns, st')
          else Inr (Sequence ns, st'))"

fun armsLoop :: "nat \<Rightarrow> node parser \<Rightarrow> node list \<Rightarrow> node list parser" where
  "armsLoop 0 arm acc st = Inl OutOfFuel"
| "armsLoop (Suc k) arm acc st =
     (if peekAt st \<noteq> CHR ''|'' then Inr (acc, st)
      else
        let st1 = skip 1 st
        in if peekAt st1 = CHR ''|'' \<or> peekAt st1 = CHR '')'' \<or> atEnd st1 then failAt ''empty alternation arm'' st1
           else case arm st1 of Inl e \<Rightarrow> Inl e | Inr (n, st') \<Rightarrow> armsLoop k arm (acc @ [n]) st')"

definition parseArms :: "node parser \<Rightarrow> node parser" where
  "parseArms arm st =
     (case arm st of
        Inl e \<Rightarrow> Inl e
      | Inr (left, st') \<Rightarrow>
          if peekAt st' \<noteq> CHR ''|'' then Inr (left, st')
          else case armsLoop (length (rest st') + 1) arm [left] st' of
            Inl e \<Rightarrow> Inl e
          | Inr (ns, st'') \<Rightarrow> Inr (Alternation ns, st''))"

definition kMaxPatternDepth :: nat where
  "kMaxPatternDepth = 500"

text \<open>\<^verbatim>\<open>parseAlternation\<close> with the number of levels of nesting still allowed.\<close>

primrec parseAlternation :: "nat \<Rightarrow> node parser" where
  "parseAlternation 0 = failAt ''pattern nesting exceeds the maximum depth''"
| "parseAlternation (Suc k) = parseArms (parseSequence (parseAtom (parseAlternation k)))"

subsection \<open>Rendering\<close>

definition renderBounds :: "nat \<Rightarrow> nat option \<Rightarrow> string" where
  "renderBounds mn mx =
     (if mn = 0 \<and> mx = None then ''*''
      else if mn = 1 \<and> mx = None then ''+''
      else if mn = 0 \<and> mx = Some 1 then ''?''
      else if mx = Some mn then [CHR 0x7B] @ nat_to_string mn @ [CHR 0x7D]
      else case mx of
        None \<Rightarrow> [CHR 0x7B] @ nat_to_string mn @ [CHR '','', CHR 0x7D]
      | Some m \<Rightarrow> [CHR 0x7B] @ nat_to_string mn @ '','' @ nat_to_string m @ [CHR 0x7D])"

primrec renderNode :: "node \<Rightarrow> string" where
  "renderNode (Sequence ns) = concat (map renderNode ns)"
| "renderNode (Alternation ns) = joinWith ''|'' (map renderNode ns)"
| "renderNode (Literal l) = l"
| "renderNode (Escape e) = e"
| "renderNode (CharacterClass c) = c"
| "renderNode Any = ''.''"
| "renderNode (Group i n) = ''('' @ renderNode n @ '')''"
| "renderNode (NamedGroup i nm n) = ''(?<'' @ nm @ ''>'' @ renderNode n @ '')''"
| "renderNode (AtomicGroup n) = ''(?>'' @ renderNode n @ '')''"
| "renderNode (Backreference i nm) =
     (if nm = [] then [CHR 0x5C] @ nat_to_string i else [CHR 0x5C] @ ''k<'' @ nm @ ''>'')"
| "renderNode AnchorStart = ''^''"
| "renderNode AnchorEnd = ''$''"
| "renderNode (Quantifier mn mx g p n) = renderNode n @ renderBounds mn mx @ (if g then [] else ''?'')"
| "renderNode (Lookahead n) = ''(?='' @ renderNode n @ '')''"
| "renderNode (NegativeLookahead n) = ''(?!'' @ renderNode n @ '')''"
| "renderNode (Lookbehind n) = ''(?<='' @ renderNode n @ '')''"
| "renderNode (NegativeLookbehind n) = ''(?<!'' @ renderNode n @ '')''"

subsection \<open>Validation\<close>

text \<open>The first of the names that occurs before in the list, skipping the empty ones.\<close>

fun duplicateName :: "string list \<Rightarrow> string list \<Rightarrow> string option" where
  "duplicateName seen [] = None"
| "duplicateName seen (nm # nms) =
     (if nm = [] then duplicateName seen nms
      else if nm \<in> set seen then Some nm
      else duplicateName (nm # seen) nms)"

record pattern =
  patRoot :: node
  canonical :: string

definition parsePattern :: "string \<Rightarrow> parseError + pattern" where
  "parsePattern source =
     (if source = [] then Inr \<lparr>patRoot = Sequence [], canonical = []\<rparr>
      else case parseAlternation kMaxPatternDepth \<lparr>rest = source, captureCount = 0, captureNames = []\<rparr> of
        Inl e \<Rightarrow> Inl e
      | Inr (n, st) \<Rightarrow>
          if \<not> atEnd st
          then Inl (Fail (''unexpected character '' @ [CHR 0x27, peekAt st, CHR 0x27]) (length (rest st)))
          else case duplicateName [] (captureNames st) of
            Some nm \<Rightarrow> Inl (Fail (''duplicate capture name '' @ [CHR 0x27] @ nm @ [CHR 0x27]) (length (rest st)))
          | None \<Rightarrow> Inr \<lparr>patRoot = n, canonical = renderNode n\<rparr>)"

text \<open>The names with their indices, and the number of captures, in the order of the traversal.\<close>

primrec collectCaptureNames :: "node \<Rightarrow> (string \<times> nat) list" where
  "collectCaptureNames (Sequence ns) = concat (map collectCaptureNames ns)"
| "collectCaptureNames (Alternation ns) = concat (map collectCaptureNames ns)"
| "collectCaptureNames (Literal l) = []"
| "collectCaptureNames (Escape e) = []"
| "collectCaptureNames (CharacterClass c) = []"
| "collectCaptureNames Any = []"
| "collectCaptureNames (Group i n) = (if 0 < i then [([], i)] else []) @ collectCaptureNames n"
| "collectCaptureNames (NamedGroup i nm n) = (if 0 < i then [(nm, i)] else []) @ collectCaptureNames n"
| "collectCaptureNames (AtomicGroup n) = collectCaptureNames n"
| "collectCaptureNames (Backreference i nm) = []"
| "collectCaptureNames AnchorStart = []"
| "collectCaptureNames AnchorEnd = []"
| "collectCaptureNames (Quantifier mn mx g p n) = collectCaptureNames n"
| "collectCaptureNames (Lookahead n) = collectCaptureNames n"
| "collectCaptureNames (NegativeLookahead n) = collectCaptureNames n"
| "collectCaptureNames (Lookbehind n) = collectCaptureNames n"
| "collectCaptureNames (NegativeLookbehind n) = collectCaptureNames n"

fun addWidths :: "int list \<Rightarrow> int \<Rightarrow> int" where
  "addWidths [] w = w"
| "addWidths (x # xs) w = (if x < 0 then -1 else addWidths xs (w + x))"

primrec validationLookbehindWidth :: "node \<Rightarrow> int" where
  "validationLookbehindWidth (Sequence ns) = addWidths (map validationLookbehindWidth ns) 0"
| "validationLookbehindWidth (Alternation ns) = -1"
| "validationLookbehindWidth (Literal l) = 1"
| "validationLookbehindWidth (Escape e) = 1"
| "validationLookbehindWidth (CharacterClass c) = 1"
| "validationLookbehindWidth Any = 1"
| "validationLookbehindWidth (Group i n) = validationLookbehindWidth n"
| "validationLookbehindWidth (NamedGroup i nm n) = validationLookbehindWidth n"
| "validationLookbehindWidth (AtomicGroup n) = -1"
| "validationLookbehindWidth (Backreference i nm) = -1"
| "validationLookbehindWidth AnchorStart = -1"
| "validationLookbehindWidth AnchorEnd = -1"
| "validationLookbehindWidth (Quantifier mn mx g p n) =
     (if mx \<noteq> Some mn then -1
      else let x = validationLookbehindWidth n in if x < 0 then -1 else x * int mn)"
| "validationLookbehindWidth (Lookahead n) = -1"
| "validationLookbehindWidth (NegativeLookahead n) = -1"
| "validationLookbehindWidth (Lookbehind n) = -1"
| "validationLookbehindWidth (NegativeLookbehind n) = -1"

definition lookbehindWidthOk :: "node \<Rightarrow> bool" where
  "lookbehindWidthOk n \<longleftrightarrow> 0 < validationLookbehindWidth n \<and> validationLookbehindWidth n \<le> 1024"

primrec validateLookbehinds :: "node \<Rightarrow> bool" where
  "validateLookbehinds (Sequence ns) = list_all id (map validateLookbehinds ns)"
| "validateLookbehinds (Alternation ns) = list_all id (map validateLookbehinds ns)"
| "validateLookbehinds (Literal l) = True"
| "validateLookbehinds (Escape e) = True"
| "validateLookbehinds (CharacterClass c) = True"
| "validateLookbehinds Any = True"
| "validateLookbehinds (Group i n) = validateLookbehinds n"
| "validateLookbehinds (NamedGroup i nm n) = validateLookbehinds n"
| "validateLookbehinds (AtomicGroup n) = validateLookbehinds n"
| "validateLookbehinds (Backreference i nm) = True"
| "validateLookbehinds AnchorStart = True"
| "validateLookbehinds AnchorEnd = True"
| "validateLookbehinds (Quantifier mn mx g p n) = validateLookbehinds n"
| "validateLookbehinds (Lookahead n) = validateLookbehinds n"
| "validateLookbehinds (NegativeLookahead n) = validateLookbehinds n"
| "validateLookbehinds (Lookbehind n) \<longleftrightarrow> lookbehindWidthOk n \<and> validateLookbehinds n"
| "validateLookbehinds (NegativeLookbehind n) \<longleftrightarrow> lookbehindWidthOk n \<and> validateLookbehinds n"

fun collectResults :: "('e + 'a) list \<Rightarrow> 'e + 'a list" where
  "collectResults [] = Inr []"
| "collectResults (Inl e # rs) = Inl e"
| "collectResults (Inr x # rs) = map_sum id (Cons x) (collectResults rs)"

definition resolveReference :: "nat \<Rightarrow> (string \<Rightarrow> nat option) \<Rightarrow> nat \<Rightarrow> string \<Rightarrow> parseError + node" where
  "resolveReference count names i nm =
     (if nm \<noteq> [] then
        (case names nm of
           None \<Rightarrow> Inl (Invalid (''Regex: unknown named backreference '' @ [CHR 0x27] @ nm @ [CHR 0x27]))
         | Some j \<Rightarrow> Inr (Backreference j nm))
      else if i = 0 \<or> count < i then
        Inl (Invalid (''Regex: backreference index out of range at capture '' @ nat_to_string i))
      else Inr (Backreference i nm))"

primrec validateReferences :: "nat \<Rightarrow> (string \<Rightarrow> nat option) \<Rightarrow> node \<Rightarrow> parseError + node" where
  "validateReferences count names (Sequence ns) = map_sum id Sequence (collectResults (map (validateReferences count names) ns))"
| "validateReferences count names (Alternation ns) =
     map_sum id Alternation (collectResults (map (validateReferences count names) ns))"
| "validateReferences count names (Literal l) = Inr (Literal l)"
| "validateReferences count names (Escape e) = Inr (Escape e)"
| "validateReferences count names (CharacterClass c) = Inr (CharacterClass c)"
| "validateReferences count names Any = Inr Any"
| "validateReferences count names (Group i n) = map_sum id (Group i) (validateReferences count names n)"
| "validateReferences count names (NamedGroup i nm n) = map_sum id (NamedGroup i nm) (validateReferences count names n)"
| "validateReferences count names (AtomicGroup n) = map_sum id AtomicGroup (validateReferences count names n)"
| "validateReferences count names (Backreference i nm) = resolveReference count names i nm"
| "validateReferences count names AnchorStart = Inr AnchorStart"
| "validateReferences count names AnchorEnd = Inr AnchorEnd"
| "validateReferences count names (Quantifier mn mx g p n) =
     map_sum id (Quantifier mn mx g p) (validateReferences count names n)"
| "validateReferences count names (Lookahead n) = map_sum id Lookahead (validateReferences count names n)"
| "validateReferences count names (NegativeLookahead n) = map_sum id NegativeLookahead (validateReferences count names n)"
| "validateReferences count names (Lookbehind n) = map_sum id Lookbehind (validateReferences count names n)"
| "validateReferences count names (NegativeLookbehind n) =
     map_sum id NegativeLookbehind (validateReferences count names n)"

text \<open>The map of the names: a later group of the same name wins.\<close>

definition captureIndex :: "(string \<times> nat) list \<Rightarrow> string \<Rightarrow> nat option" where
  "captureIndex cs nm = (if nm = [] then None else map_of (rev cs) nm)"

definition parse :: "string \<Rightarrow> parseError + pattern" where
  "parse source =
     (case parsePattern source of
        Inl e \<Rightarrow> Inl e
      | Inr p \<Rightarrow>
          let cs = collectCaptureNames (patRoot p)
          in if \<not> validateLookbehinds (patRoot p)
             then Inl (Invalid ''Regex: lookbehind must be a non-empty fixed-width expression (maximum width 1024)'')
             else case validateReferences (length cs) (captureIndex cs) (patRoot p) of
               Inl e \<Rightarrow> Inl e
             | Inr n \<Rightarrow> Inr (p\<lparr>patRoot := n\<rparr>))"

section \<open>What the parser guarantees\<close>

text \<open>A property of every node of a tree.\<close>

primrec everywhere :: "(node \<Rightarrow> bool) \<Rightarrow> node \<Rightarrow> bool" where
  "everywhere P (Sequence ns) \<longleftrightarrow> P (Sequence ns) \<and> list_all id (map (everywhere P) ns)"
| "everywhere P (Alternation ns) \<longleftrightarrow> P (Alternation ns) \<and> list_all id (map (everywhere P) ns)"
| "everywhere P (Literal l) \<longleftrightarrow> P (Literal l)"
| "everywhere P (Escape e) \<longleftrightarrow> P (Escape e)"
| "everywhere P (CharacterClass c) \<longleftrightarrow> P (CharacterClass c)"
| "everywhere P Any \<longleftrightarrow> P Any"
| "everywhere P (Group i n) \<longleftrightarrow> P (Group i n) \<and> everywhere P n"
| "everywhere P (NamedGroup i nm n) \<longleftrightarrow> P (NamedGroup i nm n) \<and> everywhere P n"
| "everywhere P (AtomicGroup n) \<longleftrightarrow> P (AtomicGroup n) \<and> everywhere P n"
| "everywhere P (Backreference i nm) \<longleftrightarrow> P (Backreference i nm)"
| "everywhere P AnchorStart \<longleftrightarrow> P AnchorStart"
| "everywhere P AnchorEnd \<longleftrightarrow> P AnchorEnd"
| "everywhere P (Quantifier mn mx g p n) \<longleftrightarrow> P (Quantifier mn mx g p n) \<and> everywhere P n"
| "everywhere P (Lookahead n) \<longleftrightarrow> P (Lookahead n) \<and> everywhere P n"
| "everywhere P (NegativeLookahead n) \<longleftrightarrow> P (NegativeLookahead n) \<and> everywhere P n"
| "everywhere P (Lookbehind n) \<longleftrightarrow> P (Lookbehind n) \<and> everywhere P n"
| "everywhere P (NegativeLookbehind n) \<longleftrightarrow> P (NegativeLookbehind n) \<and> everywhere P n"

text \<open>The shape of a node as the parser makes it.\<close>

definition shape :: "node \<Rightarrow> bool" where
  "shape n \<longleftrightarrow> (case n of
       Literal l \<Rightarrow> (\<exists>cp. decodeUtf8 l 0 = Some (cp, length l))
     | NamedGroup i nm m \<Rightarrow> validName nm
     | Quantifier mn (Some mx) g p m \<Rightarrow> mn \<le> mx
     | Sequence ns \<Rightarrow> length ns \<noteq> 1
     | Alternation ns \<Rightarrow> 2 \<le> length ns
     | _ \<Rightarrow> True)"

lemma shape_simps [simp]:
  "shape (Literal l) \<longleftrightarrow> (\<exists>cp. decodeUtf8 l 0 = Some (cp, length l))" "shape (NamedGroup i nm m) \<longleftrightarrow> validName nm"
  "shape (Quantifier mn mx g p m) \<longleftrightarrow> (case mx of None \<Rightarrow> True | Some k \<Rightarrow> mn \<le> k)"
  "shape (Sequence ns) \<longleftrightarrow> length ns \<noteq> 1" "shape (Alternation ns) \<longleftrightarrow> 2 \<le> length ns"
  "shape (Escape e)" "shape (CharacterClass c)" "shape Any" "shape (Group i m)" "shape (AtomicGroup m)"
  "shape (Backreference i nm)" "shape AnchorStart" "shape AnchorEnd" "shape (Lookahead m)" "shape (NegativeLookahead m)"
  "shape (Lookbehind m)" "shape (NegativeLookbehind m)"
  by (simp_all add: shape_def split: option.splits)

text \<open>Nodes parsed between two states: they have the right shape, and their captures are numbered on and recorded.\<close>

definition produced :: "pstate \<Rightarrow> node list \<Rightarrow> pstate \<Rightarrow> bool" where
  "produced st ns st' \<longleftrightarrow>
     (\<forall>n \<in> set ns. everywhere shape n) \<and> length (rest st') \<le> length (rest st) \<and> captureCount st \<le> captureCount st' \<and>
     map snd (concat (map collectCaptureNames ns)) = [Suc (captureCount st)..<Suc (captureCount st')] \<and>
     captureNames st' = captureNames st @ map fst (concat (map collectCaptureNames ns))"

lemma produced_nil [simp]: "produced st [] st"
  by (simp add: produced_def)

lemma produced_append:
  assumes "produced a ns b" "produced b ms c"
  shows "produced a (ns @ ms) c"
proof -
  have "[Suc (captureCount a)..<Suc (captureCount c)] =
      [Suc (captureCount a)..<Suc (captureCount b)] @ [Suc (captureCount b)..<Suc (captureCount c)]"
    using assms upt_add_eq_append [of "Suc (captureCount a)" "Suc (captureCount b)" "captureCount c - captureCount b"]
    by (simp add: produced_def)
  then show ?thesis using assms unfolding produced_def by auto
qed

text \<open>States that differ only in what remains.\<close>

definition shorter :: "nat \<Rightarrow> pstate \<Rightarrow> pstate \<Rightarrow> bool" where
  "shorter k st st' \<longleftrightarrow>
     length (rest st') + k \<le> length (rest st) \<and> captureCount st' = captureCount st \<and> captureNames st' = captureNames st"

lemma shorter_skip: "k \<le> length (rest st) \<Longrightarrow> shorter k st (skip k st)"
  by (simp add: shorter_def skip_def)

lemma shorter_skip0: "shorter 0 st (skip k st)"
  by (simp add: shorter_def skip_def)

lemma shorter_refl [simp]: "shorter 0 st st"
  by (simp add: shorter_def)

lemma shorter_trans: "shorter j a b \<Longrightarrow> shorter k b c \<Longrightarrow> i \<le> j + k \<Longrightarrow> shorter i a c"
  by (auto simp: shorter_def)

lemma peek_some: "peekAt st = c \<Longrightarrow> c \<noteq> CHR 0x00 \<Longrightarrow> \<exists>cs. rest st = c # cs"
  by (cases "rest st") (auto simp: peekAt_def)

lemma shorter_peek: "peekAt st = c \<Longrightarrow> c \<noteq> CHR 0x00 \<Longrightarrow> shorter 1 st (skip 1 st)"
  using peek_some by (fastforce intro: shorter_skip)

lemma produced_shorter: "shorter k a b \<Longrightarrow> produced b ns c \<Longrightarrow> produced a ns c"
  by (auto simp: shorter_def produced_def)

lemma produced_one:
  "shorter k a b \<Longrightarrow> everywhere shape n \<Longrightarrow> collectCaptureNames n = [] \<Longrightarrow> produced a [n] b"
  by (auto simp: shorter_def produced_def)

subsection \<open>Quantifiers\<close>

text \<open>A quantifier wraps the atom it is given, or leaves it.\<close>

definition wraps :: "node \<Rightarrow> node \<Rightarrow> bool" where
  "wraps atom n \<longleftrightarrow> n = atom \<or> (\<exists>mn mx g p. n = Quantifier mn mx g p atom \<and> (case mx of None \<Rightarrow> True | Some k \<Rightarrow> mn \<le> k))"

lemma quantifierMode_spec:
  assumes "quantifierMode mn mx atom st = Inr (n, st')" "case mx of None \<Rightarrow> True | Some k \<Rightarrow> mn \<le> k"
  shows "wraps atom n \<and> shorter 0 st st'"
  using assms shorter_skip0 by (auto simp: quantifierMode_def wraps_def split: if_splits)

lemma quantifierMode_total: "quantifierMode mn mx atom st \<noteq> Inl OutOfFuel"
  by (simp add: quantifierMode_def)

lemma parseBounds_spec:
  assumes "parseBounds atom st = Inr (n, st')"
  shows "wraps atom n \<and> shorter 0 st st'"
proof -
  obtain mn mx j where q: "quantifierMode mn mx atom j = Inr (n, st')" "case mx of None \<Rightarrow> True | Some k \<Rightarrow> mn \<le> k"
      "shorter 0 st j"
    using assms
    by (auto simp: parseBounds_def Let_def failAt_def skip_def shorter_def split: if_splits option.splits)
  from quantifierMode_spec [OF q(1,2)] shorter_trans [OF q(3), of 0 st' 0] show ?thesis by simp
qed

lemma parseBounds_total: "parseBounds atom st \<noteq> Inl OutOfFuel"
  by (auto simp: parseBounds_def Let_def failAt_def quantifierMode_total split: option.splits)

lemma parseQuantifier_spec:
  assumes "parseQuantifier atom st = Inr (n, st')"
  shows "wraps atom n \<and> shorter 0 st st'"
proof -
  have "wraps atom n \<and> shorter 0 (skip 1 st) st'"
    using assms quantifierMode_spec parseBounds_spec by (fastforce simp: parseQuantifier_def split: if_splits)
  then show ?thesis using shorter_trans [OF shorter_skip0 [of st 1], of 0 st' 0] by simp
qed

lemma maybeQuantify_spec: "maybeQuantify atom st = Inr (n, st') \<Longrightarrow> wraps atom n \<and> shorter 0 st st'"
  by (cases "peekAt st \<in> {CHR ''*'', CHR ''+'', CHR ''?'', CHR 0x7B}")
    (simp_all only: maybeQuantify_def if_True if_False parseQuantifier_spec, auto simp: wraps_def)

lemma maybeQuantify_total: "maybeQuantify atom st \<noteq> Inl OutOfFuel"
  by (simp add: maybeQuantify_def parseQuantifier_def quantifierMode_total parseBounds_total)

lemma produced_wraps: "produced a [atom] b \<Longrightarrow> wraps atom n \<Longrightarrow> shorter 0 b c \<Longrightarrow> produced a [n] c"
  by (auto simp: produced_def wraps_def shorter_def)

lemma maybeQuantify_produced:
  "maybeQuantify atom st = Inr (n, st') \<Longrightarrow> produced a [atom] st \<Longrightarrow> produced a [n] st'"
  using maybeQuantify_spec produced_wraps by blast

subsection \<open>Atoms\<close>

lemma scanClass_spec: "scanClass s = Inr t \<Longrightarrow> \<exists>u. s = t @ u"
  by (induction s arbitrary: t rule: scanClass.induct) (auto split: if_splits list.splits sum.splits)

lemma scanClass_total: "scanClass s \<noteq> Inl OutOfFuel"
proof (induction s rule: scanClass.induct)
  case (2 c cs)
  then show ?case by (subst scanClass.simps) (auto simp del: scanClass.simps split: list.splits sum.splits)
qed simp

text \<open>What a parser of patterns promises to the parsers that use it.\<close>

locale pattern_parser =
  fixes p :: "node parser"
  assumes total: "p st \<noteq> Inl OutOfFuel"
    and yields: "p st = Inr (n, st') \<Longrightarrow> produced st [n] st'"
begin

lemma enclosed_spec:
  assumes "enclosed p what mk st = Inr (n, st')"
  obtains m j where "produced st [m] j" "n = mk m" "shorter 0 j st'"
proof (cases "p st")
  case (Inr r)
  obtain m j where r: "r = (m, j)" by (cases r)
  have "n = mk m" "st' = skip 1 j" using assms Inr r by (auto simp: enclosed_def failAt_def split: if_splits)
  moreover have "produced st [m] j" using yields Inr r by simp
  ultimately show thesis using that [of m j] shorter_skip0 by simp
qed (use assms in \<open>simp add: enclosed_def\<close>)

lemma enclosed_total: "enclosed p what mk st \<noteq> Inl OutOfFuel"
  using total by (auto simp: enclosed_def failAt_def split: sum.splits)

text \<open>A construct that adds no capture, and one that does.\<close>

lemma enclosed_produced:
  assumes "enclosed p what mk st = Inr (n, st')"
    and "\<And>m. everywhere shape m \<Longrightarrow> everywhere shape (mk m)" "\<And>m. collectCaptureNames (mk m) = collectCaptureNames m"
  shows "produced st [n] st'"
  using enclosed_spec [OF assms(1)] assms(2,3) by (fastforce simp: produced_def shorter_def)

lemma capturing_produced:
  assumes "enclosed p what mk (newCapture nm st) = Inr (n, st')"
    and "\<And>m. everywhere shape m \<Longrightarrow> everywhere shape (mk m)"
    and "\<And>m. collectCaptureNames (mk m) = (nm, Suc (captureCount st)) # collectCaptureNames m"
  shows "produced st [n] st'"
proof -
  obtain m j where m: "produced (newCapture nm st) [m] j" "n = mk m" "shorter 0 j st'" by (rule enclosed_spec [OF assms(1)])
  have "[Suc (captureCount st)..<Suc (captureCount st')] =
      Suc (captureCount st) # [Suc (Suc (captureCount st))..<Suc (captureCount st')]"
    using m by (intro upt_conv_Cons) (auto simp: produced_def shorter_def newCapture_def)
  then show ?thesis using m assms(2,3) by (auto simp: produced_def shorter_def newCapture_def)
qed

lemma quantified_produced:
  assumes "quantified q st = Inr (n, st')" "\<And>m j. q st = Inr (m, j) \<Longrightarrow> produced a [m] j"
  shows "produced a [n] st'"
  using assms maybeQuantify_produced by (auto simp: quantified_def split: sum.splits)

lemma quantified_total: "q st \<noteq> Inl OutOfFuel \<Longrightarrow> quantified q st \<noteq> Inl OutOfFuel"
  by (auto simp: quantified_def maybeQuantify_total split: sum.splits)

lemma parseNamedGroup_produced:
  assumes "parseNamedGroup p st = Inr (n, st')"
  shows "produced st [n] st'"
proof -
  define nm where "nm = takeWhile (\<lambda>c. c \<noteq> CHR ''>'') (rest st)"
  define j where "j = skip 1 (skip (length nm) st)"
  have v: "validName nm" and q: "quantified (enclosed p ''named capture'' (NamedGroup (captureCount j + 1) nm)) (newCapture nm j) = Inr (n, st')"
    using assms by (auto simp: parseNamedGroup_def Let_def nm_def j_def failAt_def split: if_splits)
  have "produced j [n] st'"
  proof (rule quantified_produced [OF q])
    fix m k
    assume "enclosed p ''named capture'' (NamedGroup (captureCount j + 1) nm) (newCapture nm j) = Inr (m, k)"
    then show "produced j [m] k" by (rule capturing_produced) (use v in simp_all)
  qed
  moreover have "shorter 0 st j" by (simp add: j_def shorter_def skip_def)
  ultimately show ?thesis by (rule produced_shorter [rotated])
qed

lemma parseNamedGroup_total: "parseNamedGroup p st \<noteq> Inl OutOfFuel"
  by (auto simp: parseNamedGroup_def Let_def failAt_def quantified_total enclosed_total)

lemma step_in: "peekAt st = c \<Longrightarrow> c \<noteq> CHR 0x00 \<Longrightarrow> produced (skip 1 st) ns st' \<Longrightarrow> produced st ns st'"
  using produced_shorter [OF shorter_skip0] .

lemma parseGroupAt_produced:
  assumes "parseGroupAt p st = Inr (n, st')"
  shows "produced st [n] st'"
proof (cases "peekAt st = CHR ''?''")
  case False
  then have q: "quantified (enclosed p ''group'' (Group (captureCount st + 1))) (newCapture [] st) = Inr (n, st')"
    using assms by (simp add: parseGroupAt_def)
  show ?thesis
  proof (rule quantified_produced [OF q])
    fix m j
    assume "enclosed p ''group'' (Group (captureCount st + 1)) (newCapture [] st) = Inr (m, j)"
    then show "produced st [m] j" by (rule capturing_produced) simp_all
  qed
next
  case q: True
  define st1 where "st1 = skip 1 st"
  have s1: "shorter 0 st (skip 1 st1)" by (simp add: st1_def shorter_def skip_def)
  have s2: "shorter 0 st (skip 1 (skip 1 st1))" by (simp add: st1_def shorter_def skip_def)
  have plain: "produced st [n] st'" if "enclosed p what mk (skip 1 st1) = Inr (n, st')"
      "\<And>m. everywhere shape m \<Longrightarrow> everywhere shape (mk m)" "\<And>m. collectCaptureNames (mk m) = collectCaptureNames m" for what mk
    by (rule produced_shorter [OF s1 enclosed_produced [OF that]])
  have behind: "produced st [n] st'" if "enclosed p what mk (skip 1 (skip 1 st1)) = Inr (n, st')"
      "\<And>m. everywhere shape m \<Longrightarrow> everywhere shape (mk m)" "\<And>m. collectCaptureNames (mk m) = collectCaptureNames m" for what mk
    by (rule produced_shorter [OF s2 enclosed_produced [OF that]])
  have quant: "produced st [n] st'" if "quantified (enclosed p what mk) (skip 1 st1) = Inr (n, st')"
      "\<And>m. everywhere shape m \<Longrightarrow> everywhere shape (mk m)" "\<And>m. collectCaptureNames (mk m) = collectCaptureNames m" for what mk
  proof (rule produced_shorter [OF s1 quantified_produced [OF that(1)]])
    fix m j
    assume "enclosed p what mk (skip 1 st1) = Inr (m, j)"
    then show "produced (skip 1 st1) [m] j" by (rule enclosed_produced) (use that(2,3) in simp_all)
  qed
  have named: "produced st [n] st'" if "parseNamedGroup p (skip 1 st1) = Inr (n, st')"
    by (rule produced_shorter [OF s1 parseNamedGroup_produced [OF that]])
  note a = assms [unfolded parseGroupAt_def Let_def, folded st1_def]
  consider "peekAt st1 = CHR '':''" | "peekAt st1 = CHR ''>''" | "peekAt st1 = CHR ''=''" | "peekAt st1 = CHR ''!''"
    | "peekAt st1 = CHR ''<''" "peekAt (skip 1 st1) = CHR ''=''" | "peekAt st1 = CHR ''<''" "peekAt (skip 1 st1) = CHR ''!''"
    | "peekAt st1 = CHR ''<''" "peekAt (skip 1 st1) \<noteq> CHR ''=''" "peekAt (skip 1 st1) \<noteq> CHR ''!''"
    | "peekAt st1 \<notin> {CHR '':'', CHR ''>'', CHR ''='', CHR ''!'', CHR ''<''}" by blast
  then show ?thesis
  proof cases
    case 1
    then show ?thesis using a q by (intro quant [of "''group''" "Group 0"]) simp_all
  next
    case 2
    then show ?thesis using a q by (intro quant [of "''atomic group''" AtomicGroup]) simp_all
  next
    case 3
    then show ?thesis using a q by (intro plain [of "''positive lookahead''" Lookahead]) simp_all
  next
    case 4
    then show ?thesis using a q by (intro plain [of "''negative lookahead''" NegativeLookahead]) simp_all
  next
    case 5
    then show ?thesis using a q by (intro behind [of "''positive lookbehind''" Lookbehind]) simp_all
  next
    case 6
    then show ?thesis using a q by (intro behind [of "''negative lookbehind''" NegativeLookbehind]) simp_all
  next
    case 7
    then show ?thesis using a q by (intro named) simp_all
  next
    case 8
    then show ?thesis using a q by (simp add: failAt_def)
  qed
qed

lemma parseGroupAt_total: "parseGroupAt p st \<noteq> Inl OutOfFuel"
  by (simp add: parseGroupAt_def Let_def failAt_def quantified_total enclosed_total parseNamedGroup_total)

end

lemma parseCharacterClass_spec:
  assumes "parseCharacterClass st = Inr (n, st')"
  shows "produced st [n] st'"
proof -
  obtain c where "n = CharacterClass c" using assms by (auto simp: parseCharacterClass_def Let_def split: sum.splits)
  moreover have "shorter 0 st st'" using assms
    by (auto simp: parseCharacterClass_def Let_def shorter_def skip_def split: sum.splits)
  ultimately show ?thesis by (intro produced_one) simp_all
qed

lemma parseCharacterClass_total: "parseCharacterClass st \<noteq> Inl OutOfFuel"
  using scanClass_total by (auto simp: parseCharacterClass_def Let_def split: sum.splits)

text \<open>A node without captures or children after some bytes, with its quantifier.\<close>

lemma leaf_produced:
  "maybeQuantify atom (skip k st) = Inr (n, st') \<Longrightarrow> everywhere shape atom \<Longrightarrow> collectCaptureNames atom = [] \<Longrightarrow> produced st [n] st'"
  using maybeQuantify_produced produced_one [OF shorter_skip0] by blast

lemma leaf_produced2:
  "maybeQuantify atom (skip k (skip j (skip i st))) = Inr (n, st') \<Longrightarrow> everywhere shape atom \<Longrightarrow>
     collectCaptureNames atom = [] \<Longrightarrow> produced st [n] st'"
  by (rule produced_shorter [OF _ leaf_produced]) (auto simp: shorter_def skip_def)

lemma parseEscape_produced:
  assumes "parseEscape st = Inr (n, st')"
  shows "produced st [n] st'"
proof -
  obtain e es where e: "rest st = e # es" using assms by (auto simp: parseEscape_def failAt_def split: list.splits)
  note a = assms [unfolded parseEscape_def e list.case Let_def]
  from a consider b k j i where "maybeQuantify (Escape b) (skip k (skip j (skip i (skip 1 st)))) = Inr (n, st')"
    | "maybeQuantify (Backreference (nat (digit_val e)) []) (skip 1 st) = Inr (n, st')"
    | nm k j i where "maybeQuantify (Backreference 0 nm) (skip k (skip j (skip i (skip 1 st)))) = Inr (n, st')"
    | "maybeQuantify (Escape [CHR 0x5C, e]) (skip 1 st) = Inr (n, st')"
    by (auto simp: failAt_def split: if_splits)
  then show ?thesis
  proof cases
    case 1
    show ?thesis by (rule produced_shorter [OF shorter_skip0 leaf_produced2 [OF 1]]) simp_all
  next
    case 3
    show ?thesis by (rule produced_shorter [OF shorter_skip0 leaf_produced2 [OF 3]]) simp_all
  next
    case 2
    show ?thesis by (rule leaf_produced [OF 2]) simp_all
  next
    case 4
    show ?thesis by (rule leaf_produced [OF 4]) simp_all
  qed
qed

lemma parseEscape_total: "parseEscape st \<noteq> Inl OutOfFuel"
  by (simp add: parseEscape_def Let_def failAt_def maybeQuantify_total split: list.splits)


subsection \<open>The levels of the grammar\<close>

lemma decodeUtf8_take: "decodeUtf8 s 0 = Some (cp, w) \<Longrightarrow> decodeUtf8 (take w s) 0 = Some (cp, w)"
proof -
  assume d: "decodeUtf8 s 0 = Some (cp, w)"
  then have e: "scalar_value cp" "w = length (encodeUtf8 cp)" "take w s = encodeUtf8 cp" by (auto simp: decodeUtf8_iff)
  then show ?thesis by (simp add: decodeUtf8_iff)
qed

text \<open>An atom also takes at least one byte.\<close>

lemma parseAtom_produced:
  assumes p: "pattern_parser p" and a: "parseAtom p st = Inr (n, st')"
  shows "produced st [n] st' \<and> (rest st \<noteq> [] \<longrightarrow> length (rest st') < length (rest st))"
proof -
  let ?s = "skip 1 st"
  have shrink: "rest st \<noteq> [] \<longrightarrow> length (rest st') < length (rest st)" if "produced ?s [n] st'"
    using that by (cases "rest st") (auto simp: produced_def skip_def)
  have go: ?thesis if "produced ?s [n] st'" using that shrink produced_shorter [OF shorter_skip0 that] by blast
  consider (anchor) atom where "atom \<in> {AnchorStart, AnchorEnd, Any}" "maybeQuantify atom ?s = Inr (n, st')"
    | (grp) "parseGroupAt p ?s = Inr (n, st')"
    | (cls) "peekAt st = CHR ''[''" "quantified parseCharacterClass st = Inr (n, st')"
    | (esc) "parseEscape ?s = Inr (n, st')"
    | (lit) cp w where "decodeUtf8 (rest st) 0 = Some (cp, w)" "maybeQuantify (Literal (take w (rest st))) (skip w st) = Inr (n, st')"
    using a by (auto simp: parseAtom_def Let_def failAt_def split: if_splits option.splits)
  then show ?thesis
  proof cases
    case anchor
    then have "produced ?s [atom] ?s" by (intro produced_one [of 0]) auto
    then show ?thesis by (intro go maybeQuantify_produced [OF anchor(2)])
  next
    case grp
    then show ?thesis by (intro go pattern_parser.parseGroupAt_produced [OF p])
  next
    case esc
    then show ?thesis by (intro go parseEscape_produced)
  next
    case cls
    obtain m j where m: "parseCharacterClass st = Inr (m, j)" "maybeQuantify m j = Inr (n, st')"
      using cls(2) by (auto simp: quantified_def split: sum.splits)
    obtain cs where "rest st = CHR ''['' # cs" using peek_some [OF cls(1)] by auto
    then have "length (rest j) < length (rest st)" using m(1)
      by (auto simp: parseCharacterClass_def Let_def skip_def split: sum.splits)
    moreover have "length (rest st') \<le> length (rest j)" using maybeQuantify_spec [OF m(2)] by (simp add: shorter_def)
    ultimately show ?thesis using maybeQuantify_produced [OF m(2) parseCharacterClass_spec [OF m(1)]] by simp
  next
    case lit
    have w: "0 < w" "w \<le> length (rest st)" using decodeUtf8_width [OF lit(1)] by simp_all
    have "decodeUtf8 (take w (rest st)) 0 = Some (cp, w)" by (rule decodeUtf8_take [OF lit(1)])
    then have "produced st [Literal (take w (rest st))] (skip w st)"
      using w by (intro produced_one [OF shorter_skip0]) auto
    from maybeQuantify_produced [OF lit(2) this] maybeQuantify_spec [OF lit(2)] w show ?thesis
      by (auto simp: shorter_def skip_def)
  qed
qed

lemma parseAtom_total: "pattern_parser p \<Longrightarrow> parseAtom p st \<noteq> Inl OutOfFuel"
  by (auto simp: parseAtom_def Let_def failAt_def maybeQuantify_total pattern_parser.parseGroupAt_total parseEscape_total
      pattern_parser.quantified_total [of p] parseCharacterClass_total split: option.splits)

lemma sequenceLoop_produced:
  assumes p: "pattern_parser p"
  shows "sequenceLoop k (parseAtom p) acc st = Inr (ns, st') \<Longrightarrow> produced a acc st \<Longrightarrow> produced a ns st'"
proof (induction k arbitrary: acc st)
  case (Suc k)
  show ?case
  proof (cases "atEnd st \<or> peekAt st = CHR '')'' \<or> peekAt st = CHR ''|''")
    case True
    then show ?thesis using Suc.prems by (auto split: if_splits)
  next
    case False
    then obtain n j where n: "parseAtom p st = Inr (n, j)" "sequenceLoop k (parseAtom p) (acc @ [n]) j = Inr (ns, st')"
      using Suc.prems(1) by (auto split: sum.splits)
    have "produced st [n] j" using parseAtom_produced [OF p n(1)] by simp
    from Suc.IH [OF n(2) produced_append [OF Suc.prems(2) this]] show ?thesis .
  qed
qed simp

lemma sequenceLoop_total:
  assumes p: "pattern_parser p"
  shows "length (rest st) < k \<Longrightarrow> sequenceLoop k (parseAtom p) acc st \<noteq> Inl OutOfFuel"
proof (induction k arbitrary: acc st)
  case (Suc k)
  show ?case
  proof (cases "atEnd st \<or> peekAt st = CHR '')'' \<or> peekAt st = CHR ''|''")
    case False
    show ?thesis
    proof (cases "parseAtom p st")
      case (Inl e)
      then show ?thesis using False parseAtom_total [OF p, of st] by auto
    next
      case (Inr r)
      obtain n j where r: "r = (n, j)" by (cases r)
      have "length (rest j) < k" using parseAtom_produced [OF p, of st n j] Inr r False Suc.prems by (simp add: atEnd_def)
      from Suc.IH [OF this] Inr r False show ?thesis by simp
    qed
  qed auto
qed simp

lemma produced_wrap:
  assumes "produced a ns b" "everywhere shape n" "collectCaptureNames n = concat (map collectCaptureNames ns)"
  shows "produced a [n] b"
  using assms by (simp add: produced_def)

lemma everywhere_children: "produced a ns b \<Longrightarrow> list_all id (map (everywhere shape) ns)"
  by (simp add: produced_def list_all_iff)

lemma parseSequence_parser: "pattern_parser p \<Longrightarrow> pattern_parser (parseSequence (parseAtom p))"
proof
  fix st
  assume p: "pattern_parser p"
  show "parseSequence (parseAtom p) st \<noteq> Inl OutOfFuel"
    using sequenceLoop_total [OF p, of st "length (rest st) + 1" "[]"]
    by (auto simp: parseSequence_def failAt_def split: sum.splits)
  fix n st'
  assume "parseSequence (parseAtom p) st = Inr (n, st')"
  then obtain ns where ns: "sequenceLoop (length (rest st) + 1) (parseAtom p) [] st = Inr (ns, st')" "ns \<noteq> []"
      "n = (if length ns = 1 then hd ns else Sequence ns)"
    by (auto simp: parseSequence_def failAt_def split: sum.splits if_splits)
  have pr: "produced st ns st'" by (rule sequenceLoop_produced [OF p ns(1) produced_nil])
  show "produced st [n] st'"
  proof (cases "length ns = 1")
    case True
    then show ?thesis using pr ns(3) by (auto simp: length_Suc_conv)
  next
    case False
    then show ?thesis using ns(3) everywhere_children [OF pr] by (intro produced_wrap [OF pr]) auto
  qed
qed

lemma armsLoop_produced:
  assumes p: "pattern_parser p"
  shows "armsLoop k p acc st = Inr (ns, st') \<Longrightarrow> produced a acc st \<Longrightarrow> produced a ns st' \<and> length acc \<le> length ns \<and>
    (peekAt st = CHR ''|'' \<longrightarrow> length acc < length ns)"
proof (induction k arbitrary: acc st)
  case (Suc k)
  show ?case
  proof (cases "peekAt st = CHR ''|''")
    case False
    then show ?thesis using Suc.prems by auto
  next
    case True
    then obtain n j where n: "p (skip 1 st) = Inr (n, j)" "armsLoop k p (acc @ [n]) j = Inr (ns, st')"
      using Suc.prems(1) by (auto simp: Let_def failAt_def split: sum.splits if_splits)
    have "produced st [n] j" by (rule produced_shorter [OF shorter_skip0 pattern_parser.yields [OF p n(1)]])
    from Suc.IH [OF n(2) produced_append [OF Suc.prems(2) this]] show ?thesis by auto
  qed
qed simp

lemma armsLoop_total:
  assumes p: "pattern_parser p"
  shows "length (rest st) < k \<Longrightarrow> armsLoop k p acc st \<noteq> Inl OutOfFuel"
proof (induction k arbitrary: acc st)
  case (Suc k)
  show ?case
  proof (cases "peekAt st = CHR ''|''")
    case True
    obtain cs where cs: "rest st = CHR ''|'' # cs" using peek_some [OF True] by auto
    show ?thesis
    proof (cases "p (skip 1 st)")
      case (Inl e)
      then show ?thesis using True pattern_parser.total [OF p, of "skip 1 st"] by (auto simp: Let_def failAt_def)
    next
      case (Inr r)
      obtain n j where r: "r = (n, j)" by (cases r)
      have "length (rest j) < k"
        using pattern_parser.yields [OF p, of "skip 1 st" n j] Inr r cs Suc.prems by (simp add: produced_def skip_def)
      from Suc.IH [OF this] Inr r True show ?thesis by (simp add: Let_def failAt_def)
    qed
  qed auto
qed simp

lemma parseArms_parser: "pattern_parser p \<Longrightarrow> pattern_parser (parseArms p)"
proof
  fix st
  assume p: "pattern_parser p"
  show "parseArms p st \<noteq> Inl OutOfFuel"
    using pattern_parser.total [OF p, of st] armsLoop_total [OF p]
    by (auto simp: parseArms_def simp del: armsLoop.simps split: sum.splits)
  fix n st'
  assume a: "parseArms p st = Inr (n, st')"
  then obtain m j where m: "p st = Inr (m, j)" by (auto simp: parseArms_def split: sum.splits)
  have pm: "produced st [m] j" by (rule pattern_parser.yields [OF p m])
  show "produced st [n] st'"
  proof (cases "peekAt j = CHR ''|''")
    case False
    then show ?thesis using a m pm by (simp add: parseArms_def)
  next
    case True
    then obtain ns where ns: "armsLoop (length (rest j) + 1) p [m] j = Inr (ns, st')" "n = Alternation ns"
      using a m by (auto simp: parseArms_def split: sum.splits)
    have pr: "produced st ns st'" "2 \<le> length ns" using armsLoop_produced [OF p ns(1) pm] True by auto
    show ?thesis using ns(2) pr(2) everywhere_children [OF pr(1)] by (intro produced_wrap [OF pr(1)]) simp_all
  qed
qed

lemma parseAlternation_parser: "pattern_parser (parseAlternation k)"
proof (induction k)
  case 0
  show ?case by (standard) (simp_all add: failAt_def)
next
  case (Suc k)
  then show ?case by (simp add: parseArms_parser parseSequence_parser)
qed

interpretation alternation: pattern_parser "parseAlternation k" for k
  by (rule parseAlternation_parser)

subsection \<open>Validated patterns\<close>

declare map_sum_Inr [simp]

lemma collectResults_Inr: "collectResults rs = Inr xs \<longleftrightarrow> rs = map Inr xs"
  by (induction rs arbitrary: xs rule: collectResults.induct) (auto simp: Cons_eq_map_conv)

lemma collectResults_map:
  assumes "collectResults (map f ns) = Inr ms"
  shows "length ms = length ns" "\<And>i. i < length ns \<Longrightarrow> f (ns ! i) = Inr (ms ! i)"
proof -
  have m: "map f ns = map Inr ms" using assms by (simp add: collectResults_Inr)
  then show l: "length ms = length ns" by (metis length_map)
  show "f (ns ! i) = Inr (ms ! i)" if "i < length ns" for i
    using arg_cong [OF m, of "\<lambda>xs. xs ! i"] that l by simp
qed

text \<open>A function of the nodes that resolving does not change.\<close>

lemma resolved_map:
  assumes "collectResults (map (validateReferences count names) ns) = Inr ms"
    and "\<And>n m. n \<in> set ns \<Longrightarrow> validateReferences count names n = Inr m \<Longrightarrow> g m = g n"
  shows "map g ms = map g ns"
  by (rule nth_equalityI) (use collectResults_map [OF assms(1)] assms(2) in simp_all)

lemma resolve_back: "resolveReference count names i nm = Inr m \<Longrightarrow>
    \<exists>j. m = Backreference j nm \<and> (if nm \<noteq> [] then names nm = Some j else j = i \<and> 0 < i \<and> i \<le> count)"
  by (auto simp: resolveReference_def split: if_splits option.splits)

lemma resolved_names: "validateReferences count names n = Inr m \<Longrightarrow> collectCaptureNames m = collectCaptureNames n"
proof (induction n arbitrary: m)
  case (Sequence ns)
  then obtain ms where ms: "collectResults (map (validateReferences count names) ns) = Inr ms" "m = Sequence ms" by auto
  from resolved_map [OF ms(1), of collectCaptureNames] Sequence.IH ms(2) show ?case by simp
next
  case (Alternation ns)
  then obtain ms where ms: "collectResults (map (validateReferences count names) ns) = Inr ms" "m = Alternation ms" by auto
  from resolved_map [OF ms(1), of collectCaptureNames] Alternation.IH ms(2) show ?case by simp
next
  case (Backreference i nm)
  then show ?case by (auto dest: resolve_back)
qed auto

lemma resolved_width: "validateReferences count names n = Inr m \<Longrightarrow> validationLookbehindWidth m = validationLookbehindWidth n"
proof (induction n arbitrary: m)
  case (Sequence ns)
  then obtain ms where ms: "collectResults (map (validateReferences count names) ns) = Inr ms" "m = Sequence ms" by auto
  from resolved_map [OF ms(1), of validationLookbehindWidth] Sequence.IH ms(2) show ?case by simp
next
  case (Backreference i nm)
  then show ?case by (auto dest: resolve_back)
qed auto

lemma resolved_render: "validateReferences count names n = Inr m \<Longrightarrow> renderNode m = renderNode n"
proof (induction n arbitrary: m)
  case (Sequence ns)
  then obtain ms where ms: "collectResults (map (validateReferences count names) ns) = Inr ms" "m = Sequence ms" by auto
  from resolved_map [OF ms(1), of renderNode] Sequence.IH ms(2) show ?case by simp
next
  case (Alternation ns)
  then obtain ms where ms: "collectResults (map (validateReferences count names) ns) = Inr ms" "m = Alternation ms" by auto
  from resolved_map [OF ms(1), of renderNode] Alternation.IH ms(2) show ?case by simp
next
  case (Backreference i nm)
  then show ?case by (auto dest!: resolve_back split: if_splits)
qed auto

text \<open>The width the validation accepts is the one the matcher uses.\<close>

lemma fixedWidths_add:
  assumes "\<And>n. n \<in> set ns \<Longrightarrow> 0 \<le> validationLookbehindWidth n \<Longrightarrow> fixedWidth n = validationLookbehindWidth n"
  shows "0 \<le> addWidths (map validationLookbehindWidth ns) w \<Longrightarrow>
    fixedWidths ns w = addWidths (map validationLookbehindWidth ns) w"
  using assms by (induction ns arbitrary: w) (auto simp: Let_def split: if_splits)

lemma validation_width_fixed: "0 \<le> validationLookbehindWidth n \<Longrightarrow> fixedWidth n = validationLookbehindWidth n"
proof (induction n)
  case (Sequence ns)
  then show ?case using fixedWidths_add [of ns 0] by simp
qed (auto simp: Let_def split: if_splits)

text \<open>What holds of every node of a validated pattern with so many captures and these names.\<close>

definition node_ok :: "nat \<Rightarrow> (string \<Rightarrow> nat option) \<Rightarrow> node \<Rightarrow> bool" where
  "node_ok count names n \<longleftrightarrow> shape n \<and> (case n of
       Backreference i nm \<Rightarrow> 0 < i \<and> i \<le> count \<and> (nm \<noteq> [] \<longrightarrow> names nm = Some i)
     | Lookbehind m \<Rightarrow> 0 < fixedWidth m \<and> fixedWidth m \<le> 1024
     | NegativeLookbehind m \<Rightarrow> 0 < fixedWidth m \<and> fixedWidth m \<le> 1024
     | _ \<Rightarrow> True)"

lemma everywhere_list:
  assumes "collectResults (map (validateReferences count names) ns) = Inr ms"
    and "\<And>n m. n \<in> set ns \<Longrightarrow> validateReferences count names n = Inr m \<Longrightarrow> everywhere P m"
  shows "list_all id (map (everywhere P) ms)"
  unfolding list_all_length
  using collectResults_map [OF assms(1)] assms(2) [OF nth_mem] by (simp add: all_conj_distrib)

lemma lookbehind_ok: "lookbehindWidthOk n \<Longrightarrow> validateReferences count names n = Inr m \<Longrightarrow> 0 < fixedWidth m \<and> fixedWidth m \<le> 1024"
  using resolved_width [of count names n m] validation_width_fixed [of m] by (simp add: lookbehindWidthOk_def)

lemma resolved_ok:
  assumes "\<And>nm j. nm \<noteq> [] \<Longrightarrow> names nm = Some j \<Longrightarrow> 0 < j \<and> j \<le> count"
  shows "validateReferences count names n = Inr m \<Longrightarrow> everywhere shape n \<Longrightarrow> validateLookbehinds n \<Longrightarrow>
    everywhere (node_ok count names) m"
proof (induction n arbitrary: m)
  case (Sequence ns)
  then obtain ms where ms: "collectResults (map (validateReferences count names) ns) = Inr ms" "m = Sequence ms" by auto
  have "list_all id (map (everywhere (node_ok count names)) ms)"
    by (rule everywhere_list [OF ms(1)], rule Sequence.IH) (use Sequence.prems in \<open>auto simp: list_all_iff\<close>)
  then show ?case using ms Sequence.prems(2) collectResults_map(1) [OF ms(1)] by (simp add: node_ok_def [of _ _ "Sequence ms"])
next
  case (Alternation ns)
  then obtain ms where ms: "collectResults (map (validateReferences count names) ns) = Inr ms" "m = Alternation ms" by auto
  have "list_all id (map (everywhere (node_ok count names)) ms)"
    by (rule everywhere_list [OF ms(1)], rule Alternation.IH) (use Alternation.prems in \<open>auto simp: list_all_iff\<close>)
  then show ?case using ms Alternation.prems(2) collectResults_map(1) [OF ms(1)] by (simp add: node_ok_def [of _ _ "Alternation ms"])
next
  case (Backreference i nm)
  then show ?case using assms by (auto simp: node_ok_def dest!: resolve_back split: if_splits)
next
  case (Lookbehind n)
  then show ?case using lookbehind_ok by (auto simp: node_ok_def)
next
  case (NegativeLookbehind n)
  then show ?case using lookbehind_ok by (auto simp: node_ok_def)
qed (auto simp: node_ok_def)

lemma duplicateName_None: "duplicateName seen nms = None \<Longrightarrow>
    distinct (filter (\<lambda>nm. nm \<noteq> []) nms) \<and> set (filter (\<lambda>nm. nm \<noteq> []) nms) \<inter> set seen = {}"
  by (induction seen nms rule: duplicateName.induct) (auto split: if_splits)

lemma captureIndex_range:
  "map snd cs = [1..<Suc (length cs)] \<Longrightarrow> captureIndex cs nm = Some j \<Longrightarrow> 0 < j \<and> j \<le> length cs"
proof -
  assume m: "map snd cs = [1..<Suc (length cs)]" and "captureIndex cs nm = Some j"
  then have "(nm, j) \<in> set cs" by (auto simp: captureIndex_def split: if_splits dest: map_of_SomeD)
  then have "j \<in> set (map snd cs)" by force
  then show ?thesis unfolding m by auto
qed

lemma maxCapture_list: "foldr (\<lambda>n m. max (maxCapture n) m) ns 0 = foldr max (map maxCapture ns) 0"
  by (induction ns) auto

lemma foldr_max_start: "foldr max xs k = max (foldr max xs 0) (k::nat)"
  by (induction xs) auto

lemma maxCapture_collect: "maxCapture n = foldr max (map snd (collectCaptureNames n)) 0"
proof (induction n)
  case (Sequence ns)
  then have "foldr max (map maxCapture ns) 0 = foldr max (map snd (concat (map collectCaptureNames ns))) 0"
    by (induction ns) (simp_all add: foldr_max_start [of _ "foldr max _ _"])
  then show ?case by (simp add: maxCapture_list)
next
  case (Alternation ns)
  then have "foldr max (map maxCapture ns) 0 = foldr max (map snd (concat (map collectCaptureNames ns))) 0"
    by (induction ns) (simp_all add: foldr_max_start [of _ "foldr max _ _"])
  then show ?case by (simp add: maxCapture_list)
qed (auto simp: max_def)

lemma foldr_max_upt: "foldr max [1..<Suc k] (0::nat) = k"
  by (induction k) (auto simp: foldr_max_start [of _ "Suc _"])

lemma parsePattern_produced:
  assumes "parsePattern source = Inr p"
  shows "everywhere shape (patRoot p) \<and> map snd (collectCaptureNames (patRoot p)) = [1..<Suc (length (collectCaptureNames (patRoot p)))] \<and>
    distinct (filter (\<lambda>nm. nm \<noteq> []) (map fst (collectCaptureNames (patRoot p)))) \<and> canonical p = renderNode (patRoot p)"
proof (cases "source = []")
  case True
  then show ?thesis using assms by (auto simp: parsePattern_def)
next
  case False
  let ?st = "\<lparr>rest = source, captureCount = 0, captureNames = []\<rparr>"
  obtain n st where a: "parseAlternation kMaxPatternDepth ?st = Inr (n, st)" "duplicateName [] (captureNames st) = None"
      "p = \<lparr>patRoot = n, canonical = renderNode n\<rparr>"
    using assms False by (auto simp: parsePattern_def split: sum.splits if_splits option.splits)
  have pr: "produced ?st [n] st" by (rule alternation.yields [OF a(1)])
  then have snd: "map snd (collectCaptureNames n) = [1..<Suc (captureCount st)]" by (simp add: produced_def)
  from arg_cong [OF snd, of length] have "length (collectCaptureNames n) = captureCount st" by simp
  moreover have "captureNames st = map fst (collectCaptureNames n)" "everywhere shape n"
    using pr by (simp_all add: produced_def)
  ultimately show ?thesis using snd duplicateName_None [OF a(2)] a(3) by simp
qed

lemma collectResults_total: "(\<And>r. r \<in> set rs \<Longrightarrow> r \<noteq> Inl e) \<Longrightarrow> collectResults rs \<noteq> Inl e"
  by (induction rs rule: collectResults.induct) (auto simp: map_sum_Inl)

lemma parsePattern_total: "parsePattern source \<noteq> Inl OutOfFuel"
proof (cases "parseAlternation kMaxPatternDepth \<lparr>rest = source, captureCount = 0, captureNames = []\<rparr>")
  case (Inl e)
  then show ?thesis
    using alternation.total [of kMaxPatternDepth "\<lparr>rest = source, captureCount = 0, captureNames = []\<rparr>"]
    by (simp add: parsePattern_def)
next
  case (Inr r)
  then show ?thesis by (cases r) (simp add: parsePattern_def split: option.splits)
qed

lemma references_total: "validateReferences count names n \<noteq> Inl OutOfFuel"
proof (induction n)
  case (Sequence ns)
  then have "collectResults (map (validateReferences count names) ns) \<noteq> Inl OutOfFuel" by (intro collectResults_total) auto
  then show ?case by (simp add: map_sum_Inl)
next
  case (Alternation ns)
  then have "collectResults (map (validateReferences count names) ns) \<noteq> Inl OutOfFuel" by (intro collectResults_total) auto
  then show ?case by (simp add: map_sum_Inl)
qed (auto simp: resolveReference_def map_sum_Inl split: option.splits)

text \<open>Parsing always ends: it never runs out of the rounds the loops of the model are given, on any source, so every
  source has a pattern or one of the errors of the code.\<close>

theorem parse_total: "parse source \<noteq> Inl OutOfFuel"
  using parsePattern_total references_total by (auto simp: parse_def Let_def split: sum.splits)

lemma parsed_wellformed:
  assumes "parse source = Inr p"
  shows "let cs = collectCaptureNames (patRoot p)
    in everywhere (node_ok (length cs) (captureIndex cs)) (patRoot p) \<and>
       map snd cs = [1..<Suc (length cs)] \<and> distinct (filter (\<lambda>nm. nm \<noteq> []) (map fst cs)) \<and>
       maxCapture (patRoot p) = length cs \<and> canonical p = renderNode (patRoot p)"
proof -
  obtain q n where q: "parsePattern source = Inr q" "validateLookbehinds (patRoot q)" "p = q\<lparr>patRoot := n\<rparr>"
      "validateReferences (length (collectCaptureNames (patRoot q))) (captureIndex (collectCaptureNames (patRoot q))) (patRoot q) = Inr n"
    using assms by (auto simp: parse_def Let_def split: sum.splits if_splits)
  note pp = parsePattern_produced [OF q(1)]
  have cs: "collectCaptureNames n = collectCaptureNames (patRoot q)" by (rule resolved_names [OF q(4)])
  have range: "0 < j \<and> j \<le> length (collectCaptureNames (patRoot q))"
    if "captureIndex (collectCaptureNames (patRoot q)) nm = Some j" for nm j
    using captureIndex_range that pp by blast
  have "everywhere (node_ok (length (collectCaptureNames n)) (captureIndex (collectCaptureNames n))) n"
    unfolding cs by (rule resolved_ok [OF range q(4)]) (use pp q(2) in auto)
  moreover have "maxCapture n = length (collectCaptureNames n)"
    unfolding maxCapture_collect cs using pp foldr_max_upt by metis
  ultimately show ?thesis using pp q(3) cs resolved_render [OF q(4)] by (simp add: Let_def)
qed

lemma parsed_ok:
  assumes "parse source = Inr p"
  shows "everywhere (node_ok (length (collectCaptureNames (patRoot p))) (captureIndex (collectCaptureNames (patRoot p)))) (patRoot p)"
  using parsed_wellformed [OF assms] by (simp add: Let_def)


lemma parseAlternation_numeral:
  "parseAlternation (numeral n) = parseArms (parseSequence (parseAtom (parseAlternation (pred_numeral n))))"
  by (simp add: numeral_eq_Suc)

lemmas parse_simps = parse_def parsePattern_def kMaxPatternDepth_def parseAlternation_numeral parseArms_def
  parseSequence_def parseAtom_def maybeQuantify_def peekAt_def skip_def atEnd_def parseGroupAt_def quantified_def
  enclosed_def newCapture_def parseQuantifier_def quantifierMode_def decodeUtf8_def utf8Width_def

lemma parse_backreference:
  "parse [CHR ''('', CHR ''a'', CHR '')'', CHR 0x5C, CHR ''1''] =
     Inr \<lparr>patRoot = Sequence [Group 1 (Literal ''a''), Backreference 1 []],
          canonical = [CHR ''('', CHR ''a'', CHR '')'', CHR 0x5C, CHR ''1'']\<rparr>"
  by (simp add: parse_simps parseEscape_def is_digit_def digit_val_def resolveReference_def nat_to_string.simps digit_char_def
      char_of_eqI lookbehindWidthOk_def)


end
