(* ===== verification/Rx_Results.thy ===== *)
theory Rx_Results
  imports Rx_Match
begin

text \<open>
  Results: the matcher without a budget, the notion of computing a value within a budget, and the proof that the budgeted matcher computes the results of the other one.
\<close>

section \<open>The matcher without a budget\<close>

text \<open>
  What the matcher would return if it could not run out of steps or stack: a list of the states after
  each way the node can match, in the order the backtracking explores them. It is defined without
  fuel: a repetition recurses only after progress in the text.
\<close>

function repeatAll :: "string \<Rightarrow> (rstate \<Rightarrow> rstate list) \<Rightarrow> nat \<Rightarrow> nat option \<Rightarrow> bool \<Rightarrow> rstate \<Rightarrow> nat \<Rightarrow> rstate list" where
  "repeatAll text f mn mx greedy s count =
     (if \<not> greedy \<and> mn \<le> count then [s] else []) @
     (if reached mx count then []
      else concat (map (\<lambda>ns. if rpos s < rpos ns \<and> rpos ns \<le> length text
                            then repeatAll text f mn mx greedy ns (count + 1) else []) (f s))) @
     (if greedy \<and> mn \<le> count then [s] else [])"
  by pat_completeness auto

termination repeatAll
  by (relation "measure (\<lambda>(text, f, mn, mx, g, s, count). length text - rpos s)") auto

function possessiveAll :: "string \<Rightarrow> (rstate \<Rightarrow> rstate list) \<Rightarrow> nat option \<Rightarrow> rstate \<Rightarrow> nat \<Rightarrow> rstate \<times> nat" where
  "possessiveAll text f mx cur c =
     (if reached mx c \<or> f cur = [] \<or> \<not> (rpos cur < rpos (hd (f cur)) \<and> rpos (hd (f cur)) \<le> length text)
      then (cur, c)
      else possessiveAll text f mx (hd (f cur)) (c + 1))"
  by pat_completeness auto

termination possessiveAll
  by (relation "measure (\<lambda>(text, f, mx, cur, c). length text - rpos cur)") auto

declare repeatAll.simps [simp del] possessiveAll.simps [simp del]

definition repeatResults ::
  "string \<Rightarrow> (rstate \<Rightarrow> rstate list) \<Rightarrow> nat \<Rightarrow> nat option \<Rightarrow> bool \<Rightarrow> bool \<Rightarrow> rstate \<Rightarrow> rstate list" where
  "repeatResults text f mn mx greedy possessive st =
     (if possessive then (case possessiveAll text f mx st 0 of (cur, c) \<Rightarrow> if mn \<le> c then [cur] else [])
      else repeatAll text f mn mx greedy st 0)"

fun sequenceResults :: "(rstate \<Rightarrow> rstate list) list \<Rightarrow> rstate \<Rightarrow> rstate list" where
  "sequenceResults [] st = [st]"
| "sequenceResults (f # fs) st = concat (map (sequenceResults fs) (f st))"

definition lookbehindHolds :: "int \<Rightarrow> (rstate \<Rightarrow> rstate list) \<Rightarrow> rstate \<Rightarrow> bool" where
  "lookbehindHolds w f st = (case lookbehindStart w st of None \<Rightarrow> False | Some cp \<Rightarrow> endsAt (rpos st) (f cp))"

primrec results :: "string \<Rightarrow> node \<Rightarrow> rstate \<Rightarrow> rstate list" where
  "results text (Sequence ns) = sequenceResults (map (results text) ns)"
| "results text (Alternation ns) = (\<lambda>st. concat (map (\<lambda>f. f st) (map (results text) ns)))"
| "results text (Literal l) = matchLiteral text l"
| "results text (Escape e) = matchOne (escapeAtom e) text"
| "results text (CharacterClass c) = matchOne (classAtom c) text"
| "results text Any = matchOne (\<lambda>cp. True) text"
| "results text AnchorStart = (\<lambda>st. if rpos st = 0 then [st] else [])"
| "results text AnchorEnd = (\<lambda>st. if rpos st = length text then [st] else [])"
| "results text (Group i n) = (\<lambda>st. map (closeGroup i) (results text n (openGroup i st)))"
| "results text (NamedGroup i nm n) = (\<lambda>st. map (closeGroup i) (results text n (openGroup i st)))"
| "results text (AtomicGroup n) = (\<lambda>st. take 1 (results text n st))"
| "results text (Backreference i nm) = matchBackreference i nm text"
| "results text (Quantifier mn mx g p n) = repeatResults text (results text n) mn mx g p"
| "results text (Lookahead n) = (\<lambda>st. if results text n st = [] then [] else [st])"
| "results text (NegativeLookahead n) = (\<lambda>st. if results text n st = [] then [st] else [])"
| "results text (Lookbehind n) = (\<lambda>st. if lookbehindHolds (fixedWidth n) (results text n) st then [st] else [])"
| "results text (NegativeLookbehind n) = (\<lambda>st. if lookbehindHolds (fixedWidth n) (results text n) st then [] else [st])"

subsection \<open>Computing a value within a budget\<close>

text \<open>\<open>computes c x\<close>: under any limits the budgeted computation either runs out or returns \<open>x\<close>, never giving steps back,
  and it does return \<open>x\<close> whenever a certain number of steps and of stack frames is left.\<close>

definition computes :: "(limits \<Rightarrow> nat \<Rightarrow> 'a budgeted) \<Rightarrow> 'a \<Rightarrow> bool" where
  "computes c x \<longleftrightarrow>
     (\<forall>B d k y k'. c B d k = Inr (y, k') \<longrightarrow> y = x \<and> k \<le> k' \<and> (k \<le> maxSteps B \<longrightarrow> k' \<le> maxSteps B)) \<and>
     (\<exists>K D. \<forall>B d k. k + K \<le> maxSteps B \<and> d + D \<le> maxDepth B \<longrightarrow> (\<exists>k' \<le> k + K. c B d k = Inr (x, k')))"

lemma computesI:
  assumes "\<And>B d k y k'. c B d k = Inr (y, k') \<Longrightarrow> y = x \<and> k \<le> k' \<and> (k \<le> maxSteps B \<longrightarrow> k' \<le> maxSteps B)"
    and "\<And>B d k. k + K \<le> maxSteps B \<Longrightarrow> d + D \<le> maxDepth B \<Longrightarrow> \<exists>k' \<le> k + K. c B d k = Inr (x, k')"
  shows "computes c x"
  using assms unfolding computes_def by blast

lemma computes_sound:
  fixes B :: limits
  assumes "computes c x" "c B d k = Inr (y, k')"
  shows "y = x" "k \<le> k'" "k \<le> maxSteps B \<Longrightarrow> k' \<le> maxSteps B"
  using assms unfolding computes_def by blast+

lemma computes_complete:
  assumes "computes c x"
  obtains K D where "\<And>B d k. k + K \<le> maxSteps B \<Longrightarrow> d + D \<le> maxDepth B \<Longrightarrow> \<exists>k' \<le> k + K. c B d k = Inr (x, k')"
  using assms unfolding computes_def by blast

lemma computes_pass [intro]: "computes (\<lambda>B d. pass x) x"
  by (rule computesI [where K = 0 and D = 0]) (auto simp: pass_def)

lemma computes_bind:
  assumes c: "computes c x" and g: "computes (g x) y"
  shows "computes (\<lambda>B d. bindB (c B d) (\<lambda>z. g z B d)) y"
proof -
  obtain K D where K: "\<And>B d k. k + K \<le> maxSteps B \<Longrightarrow> d + D \<le> maxDepth B \<Longrightarrow> \<exists>k' \<le> k + K. c B d k = Inr (x, k')"
    using computes_complete [OF c] by blast
  obtain L E where L: "\<And>B d k. k + L \<le> maxSteps B \<Longrightarrow> d + E \<le> maxDepth B \<Longrightarrow> \<exists>k' \<le> k + L. g x B d k = Inr (y, k')"
    using computes_complete [OF g] by blast
  show ?thesis
  proof (rule computesI [where K = "K + L" and D = "(D + E)"])
    fix B :: limits and d k z k'
    assume r: "bindB (c B d) (\<lambda>z. g z B d) k = Inr (z, k')"
    then obtain u l where u: "c B d k = Inr (u, l)" "g u B d l = Inr (z, k')"
      by (auto simp: bindB_def split: sum.splits)
    note cs = computes_sound [OF c u(1)]
    note gs = computes_sound [OF g u(2) [unfolded cs(1)]]
    show "z = y \<and> k \<le> k' \<and> (k \<le> maxSteps B \<longrightarrow> k' \<le> maxSteps B)" using cs gs by simp
  next
    fix B :: limits and d k
    assume b: "k + (K + L) \<le> maxSteps B" "d + (D + E) \<le> maxDepth B"
    then obtain l where l: "l \<le> k + K" "c B d k = Inr (x, l)" using K [of k B d] by auto
    moreover obtain k' where "k' \<le> l + L" "g x B d l = Inr (y, k')" using L [of l B d] b l by auto
    ultimately show "\<exists>k' \<le> k + (K + L). bindB (c B d) (\<lambda>z. g z B d) k = Inr (y, k')"
      by (intro exI [of _ k']) (simp add: bindB_def)
  qed
qed

lemma computes_forEach:
  assumes "\<And>x. x \<in> set xs \<Longrightarrow> computes (g x) (h x)"
  shows "computes (\<lambda>B d. forEach (\<lambda>x. g x B d) xs) (concat (map h xs))"
  using assms
proof (induction xs)
  case (Cons x xs)
  have "computes (\<lambda>B d. bindB (forEach (\<lambda>x. g x B d) xs) (\<lambda>zs. pass (h x @ zs))) (h x @ concat (map h xs))"
    by (rule computes_bind [where g = "\<lambda>zs B d. pass (h x @ zs)"]) (use Cons in auto)
  from computes_bind [where g = "\<lambda>ys B d. bindB (forEach (\<lambda>x. g x B d) xs) (\<lambda>zs. pass (ys @ zs))", OF _ this]
  show ?case using Cons.prems [of x] by simp
qed auto

text \<open>A ticket takes a step and a frame, a repetition takes a frame.\<close>

lemma computes_deeper:
  assumes "computes c x"
  shows "computes (\<lambda>B d k. if maxDepth B < d + 1 then Inl TooDeep else c B (d + 1) k) x"
proof -
  obtain K D where K: "\<And>B d k. k + K \<le> maxSteps B \<Longrightarrow> d + D \<le> maxDepth B \<Longrightarrow> \<exists>k' \<le> k + K. c B d k = Inr (x, k')"
    using computes_complete [OF assms] by blast
  show ?thesis
    by (rule computesI [where K = K and D = "D + 1"])
      (use computes_sound [OF assms] K in \<open>auto split: if_splits\<close>)
qed

lemma computes_ticket:
  assumes "computes c x"
  shows "computes (\<lambda>B d. ticket B d (c B)) x"
proof -
  obtain K D where K: "\<And>B d k. k + K \<le> maxSteps B \<Longrightarrow> d + D \<le> maxDepth B \<Longrightarrow> \<exists>k' \<le> k + K. c B d k = Inr (x, k')"
    using computes_complete [OF assms] by blast
  show ?thesis
  proof (rule computesI [where K = "K + 1" and D = "D + 1"])
    fix B :: limits and d k y k'
    assume "ticket B d (c B) k = Inr (y, k')"
    then have t: "k + 1 \<le> maxSteps B" "c B (d + 1) (k + 1) = Inr (y, k')"
      by (auto simp: ticket_def split: if_splits)
    from computes_sound [OF assms t(2)] t(1) show "y = x \<and> k \<le> k' \<and> (k \<le> maxSteps B \<longrightarrow> k' \<le> maxSteps B)" by simp
  next
    fix B :: limits and d k
    assume "k + (K + 1) \<le> maxSteps B" "d + (D + 1) \<le> maxDepth B"
    then show "\<exists>k' \<le> k + (K + 1). ticket B d (c B) k = Inr (x, k')"
      using K [of "k + 1" B "d + 1"] by (auto simp: ticket_def)
  qed
qed

lemma ticket_strict:
  fixes B :: limits
  assumes "computes c x" "ticket B d (c B) k = Inr (y, k')"
  shows "k < k' \<and> k' \<le> maxSteps B"
proof -
  have t: "k + 1 \<le> maxSteps B" "c B (d + 1) (k + 1) = Inr (y, k')"
    using assms(2) by (auto simp: ticket_def split: if_splits)
  from computes_sound [OF assms(1) t(2)] t(1) show ?thesis by simp
qed

subsection \<open>A matcher and its results\<close>

text \<open>What the combinators rely on: from a position of the input the matcher computes its results, every call
  takes a step, and no result lies before the state it started from.\<close>

locale backtracker =
  fixes input :: string and m :: "limits \<Rightarrow> matcher" and f :: "rstate \<Rightarrow> rstate list"
  assumes forward: "rpos st \<le> length input \<Longrightarrow> s \<in> set (f st) \<Longrightarrow> rpos st \<le> rpos s \<and> rpos s \<le> length input"
    and yields: "rpos st \<le> length input \<Longrightarrow> computes (\<lambda>B. m B st) (f st)"
    and strict: "rpos st \<le> length input \<Longrightarrow> m B st d k = Inr (rs, k') \<Longrightarrow> k < k' \<and> k' \<le> maxSteps B"
begin

lemma repeatAll_forward:
  assumes "rpos s \<le> length input" "t \<in> set (repeatAll input f mn mx g s count)"
  shows "rpos s \<le> rpos t \<and> rpos t \<le> length input"
  using assms
proof (induction "length input - rpos s" arbitrary: s count rule: less_induct)
  case less
  from less.prems(2) consider "t = s"
    | ns where "rpos s < rpos ns" "rpos ns \<le> length input" "t \<in> set (repeatAll input f mn mx g ns (count + 1))"
    by (subst (asm) repeatAll.simps) (auto split: if_splits)
  then show ?case
  proof cases
    case 1
    then show ?thesis using less.prems(1) by simp
  next
    case 2
    then show ?thesis using less.hyps [of ns "count + 1"] by force
  qed
qed

lemma possessiveAll_forward:
  assumes "rpos cur \<le> length input"
  shows "rpos cur \<le> rpos (fst (possessiveAll input f mx cur c)) \<and> rpos (fst (possessiveAll input f mx cur c)) \<le> length input"
  using assms
proof (induction "length input - rpos cur" arbitrary: cur c rule: less_induct)
  case less
  show ?case
  proof (cases "reached mx c \<or> f cur = [] \<or> \<not> (rpos cur < rpos (hd (f cur)) \<and> rpos (hd (f cur)) \<le> length input)")
    case True
    then show ?thesis using less.prems by (simp add: possessiveAll.simps [of input f mx cur])
  next
    case False
    then have "possessiveAll input f mx cur c = possessiveAll input f mx (hd (f cur)) (c + 1)"
      by (subst possessiveAll.simps) simp
    then show ?thesis using less.hyps [of "hd (f cur)" "c + 1"] False by force
  qed
qed

lemma repeatResults_forward:
  assumes "rpos st \<le> length input" "t \<in> set (repeatResults input f mn mx g p st)"
  shows "rpos st \<le> rpos t \<and> rpos t \<le> length input"
  using assms repeatAll_forward [of st t] possessiveAll_forward [of st mx 0]
  by (cases "possessiveAll input f mx st 0") (auto simp: repeatResults_def split: if_splits)

text \<open>Rounds beyond the steps that are left are never used.\<close>

lemma possessiveLoop_fuel:
  assumes "rpos cur \<le> length input" "maxSteps B - k < F" "maxSteps B - k < F'"
  shows "possessiveLoop F (\<lambda>cur. m B cur d) mx cur c k = possessiveLoop F' (\<lambda>cur. m B cur d) mx cur c k"
  using assms
proof (induction F arbitrary: F' cur c k)
  case (Suc F)
  obtain G where F': "F' = Suc G" using Suc.prems(3) by (cases F') auto
  show ?case
  proof (cases "m B cur d k")
    case (Inr r)
    obtain rs k' where r: "r = (rs, k')" by (cases r)
    show ?thesis
    proof (cases rs)
      case (Cons chosen rest)
      have k': "k < k'" "k' \<le> maxSteps B" using strict [OF Suc.prems(1)] Inr r by blast+
      have "chosen \<in> set (f cur)"
        using computes_sound(1) [OF yields [OF Suc.prems(1)]] Inr r Cons by (metis list.set_intros(1))
      then have "rpos chosen \<le> length input" using forward [OF Suc.prems(1)] by blast
      then have "possessiveLoop F (\<lambda>cur. m B cur d) mx chosen (c + 1) k' = possessiveLoop G (\<lambda>cur. m B cur d) mx chosen (c + 1) k'"
        using Suc.IH [of chosen k' G "c + 1"] Suc.prems(2,3) F' k' by linarith
      then show ?thesis using Inr r Cons F' by simp
    qed (use Inr r F' in simp)
  qed (use F' in simp)
qed simp

lemma possessive_computes:
  assumes "rpos cur \<le> length input"
  shows "computes (\<lambda>B d k. possessiveLoop (maxSteps B - k + 1) (\<lambda>cur. m B cur d) mx cur c k) (possessiveAll input f mx cur c)"
  using assms
proof (induction "length input - rpos cur" arbitrary: cur c rule: less_induct)
  case less
  let ?loop = "\<lambda>cur c B d k. possessiveLoop (maxSteps B - k + 1) (\<lambda>cur. m B cur d) mx cur c k"
  show ?case
  proof (cases "reached mx c")
    case True
    then have "?loop cur c = (\<lambda>B d. pass (cur, c))" by (auto simp: pass_def fun_eq_iff)
    then show ?thesis using True by (simp add: possessiveAll.simps [of _ _ _ cur] computes_pass)
  next
    case False
    let ?next = "\<lambda>rs B d. case rs of [] \<Rightarrow> pass (cur, c)
      | chosen # rest \<Rightarrow> if rpos chosen = rpos cur then pass (cur, c)
                    else if rpos chosen \<le> length input then ?loop chosen (c + 1) B d else pass (cur, c)"
    have step: "?loop cur c = (\<lambda>B d. bindB (m B cur d) (\<lambda>rs. ?next rs B d))"
    proof (intro ext)
      fix B d k
      show "?loop cur c B d k = bindB (m B cur d) (\<lambda>rs. ?next rs B d) k"
      proof (cases "m B cur d k")
        case (Inr r)
        obtain rs k' where r: "r = (rs, k')" by (cases r)
        show ?thesis
        proof (cases rs)
          case (Cons chosen rest)
          have k': "k < k'" "k' \<le> maxSteps B" using strict [OF less.prems] Inr r by blast+
          have "chosen \<in> set (f cur)"
            using computes_sound(1) [OF yields [OF less.prems]] Inr r Cons by (metis list.set_intros(1))
          then have p: "rpos chosen \<le> length input" using forward [OF less.prems] by blast
          have "possessiveLoop (maxSteps B - k) (\<lambda>cur. m B cur d) mx chosen (c + 1) k' = ?loop chosen (c + 1) B d k'"
            by (rule possessiveLoop_fuel [OF p]) (use k' in linarith)+
          then show ?thesis using Inr r Cons p False by (simp add: bindB_def pass_def)
        qed (use Inr r False in \<open>simp add: bindB_def pass_def\<close>)
      qed (use False in \<open>simp add: bindB_def\<close>)
    qed
    have "computes (?next (f cur)) (possessiveAll input f mx cur c)"
    proof (cases "f cur")
      case Nil
      then show ?thesis by (simp add: possessiveAll.simps [of _ _ _ cur] computes_pass)
    next
      case (Cons chosen rest)
      have p: "rpos cur \<le> rpos chosen" "rpos chosen \<le> length input" using forward [OF less.prems, of chosen] Cons by auto
      show ?thesis
      proof (cases "rpos chosen = rpos cur")
        case True
        then show ?thesis using Cons by (simp add: possessiveAll.simps [of _ _ _ cur] computes_pass)
      next
        case neq: False
        have "computes (?loop chosen (c + 1)) (possessiveAll input f mx chosen (c + 1))"
          by (rule less.hyps) (use p neq in auto)
        then show ?thesis using Cons p neq False by (simp add: possessiveAll.simps [of _ _ _ cur])
      qed
    qed
    from computes_bind [where g = ?next, OF yields [OF less.prems] this] show ?thesis unfolding step .
  qed
qed

lemma repeatRec_computes:
  assumes "rpos s \<le> length input"
  shows "computes (\<lambda>B d. repeatRec B (m B) mn mx g False s count d) (repeatAll input f mn mx g s count)"
  using assms
proof (induction "length input - rpos s" arbitrary: s count rule: less_induct)
  case less
  let ?before = "if \<not> g \<and> mn \<le> count then [s] else []"
  let ?after = "if g \<and> mn \<le> count then [s] else []"
  let ?rec = "\<lambda>ns B d. if rpos ns = rpos s then pass [] else repeatRec B (m B) mn mx g False ns (count + 1) d"
  let ?all = "\<lambda>ns. if rpos s < rpos ns \<and> rpos ns \<le> length input then repeatAll input f mn mx g ns (count + 1) else []"
  let ?body = "\<lambda>B d. bindB (m B s d) (\<lambda>next. bindB (forEach (\<lambda>ns. ?rec ns B d) next) (\<lambda>out. pass (?before @ out @ ?after)))"
  have "computes (if reached mx count then (\<lambda>B d. pass (?before @ ?after)) else ?body) (repeatAll input f mn mx g s count)"
  proof (cases "reached mx count")
    case True
    then show ?thesis by (simp add: repeatAll.simps [of _ _ _ _ _ s] computes_pass)
  next
    case False
    have "computes (?rec ns) (?all ns)" if "ns \<in> set (f s)" for ns
    proof (cases "rpos ns = rpos s")
      case neq: False
      have p: "rpos s < rpos ns" "rpos ns \<le> length input" using forward [OF less.prems that] neq by auto
      have "computes (\<lambda>B d. repeatRec B (m B) mn mx g False ns (count + 1) d) (repeatAll input f mn mx g ns (count + 1))"
        by (rule less.hyps) (use p in auto)
      then show ?thesis using p neq by simp
    qed (simp add: computes_pass)
    then have "computes (\<lambda>B d. forEach (\<lambda>ns. ?rec ns B d) (f s)) (concat (map ?all (f s)))"
      by (rule computes_forEach)
    then have "computes (\<lambda>B d. bindB (forEach (\<lambda>ns. ?rec ns B d) (f s)) (\<lambda>out. pass (?before @ out @ ?after)))
        (?before @ concat (map ?all (f s)) @ ?after)"
      by (rule computes_bind [where g = "\<lambda>out B d. pass (?before @ out @ ?after)"]) (rule computes_pass)
    from computes_bind [where g = "\<lambda>next B d. bindB (forEach (\<lambda>ns. ?rec ns B d) next) (\<lambda>out. pass (?before @ out @ ?after))",
        OF yields [OF less.prems] this]
    have "computes ?body (repeatAll input f mn mx g s count)"
      unfolding repeatAll.simps [of input f mn mx g s count] using False by simp
    then show ?thesis using False by simp
  qed
  from computes_deeper [OF this] show ?case
    by (rule back_subst [of "\<lambda>c. computes c x" for x]) (auto simp: fun_eq_iff repeatRec.simps [of _ _ _ _ _ _ s] pass_def)
qed

lemma repeatNode_computes:
  assumes "rpos st \<le> length input"
  shows "computes (\<lambda>B. repeatNode B (m B) mn mx g p st) (repeatResults input f mn mx g p st)"
proof (cases p)
  case True
  let ?loop = "\<lambda>B d k. possessiveLoop (maxSteps B - k + 1) (\<lambda>cur. m B cur d) mx st 0 k"
  have "computes (\<lambda>B d. bindB (?loop B d) (\<lambda>r. pass (case r of (cur, c) \<Rightarrow> if mn \<le> c then [cur] else [])))
      (repeatResults input f mn mx g p st)"
    using computes_bind [where g = "\<lambda>r B d. pass (case r of (cur, c) \<Rightarrow> if mn \<le> c then [cur] else [])",
        OF possessive_computes [OF assms] computes_pass] True by (simp add: repeatResults_def)
  from computes_deeper [OF this] show ?thesis
    by (rule back_subst [of "\<lambda>c. computes c x" for x])
      (auto simp: fun_eq_iff repeatNode_def repeatRec.simps [of _ _ _ _ _ _ st] True pass_def bindB_def split: sum.splits prod.splits)
next
  case False
  then show ?thesis using repeatRec_computes [OF assms] by (simp add: repeatResults_def repeatNode_def [abs_def])
qed

text \<open>A body that runs the matcher and maps its results.\<close>

lemma computes_then:
  assumes "rpos st \<le> length input"
  shows "computes (\<lambda>B d. bindB (m B st d) (\<lambda>r. pass (h r))) (h (f st))"
  by (rule computes_bind [where g = "\<lambda>r B d. pass (h r)", OF yields [OF assms] computes_pass])

lemma computes_lookbehind:
  assumes "rpos st \<le> length input"
  shows "computes (\<lambda>B. matchLookbehind w (m B) st) (lookbehindHolds w f st)"
proof (cases "lookbehindStart w st")
  case None
  then show ?thesis by (simp add: matchLookbehind_def [abs_def] lookbehindHolds_def computes_pass)
next
  case (Some cp)
  then have "rpos cp \<le> length input" using assms by (auto simp: lookbehindStart_def split: if_splits)
  from computes_then [OF this, of "endsAt (rpos st)"] Some show ?thesis
    by (simp add: matchLookbehind_def [abs_def] lookbehindHolds_def)
qed

lemma computes_check:
  assumes "rpos st \<le> length input"
  shows "computes (\<lambda>B d. bindB (matchLookbehind w (m B) st d) (\<lambda>b. pass (h b))) (h (lookbehindHolds w f st))"
  by (rule computes_bind [where g = "\<lambda>b B d. pass (h b)", OF computes_lookbehind [OF assms] computes_pass])

end

subsection \<open>The nodes\<close>

text \<open>A matcher that takes a ticket around a body is a backtracker if the body computes results ahead.\<close>

lemma backtracker_ticket:
  assumes "\<And>st. rpos st \<le> length text \<Longrightarrow> computes (\<lambda>B. c B st) (f st)"
    and "\<And>st s. rpos st \<le> length text \<Longrightarrow> s \<in> set (f st) \<Longrightarrow> rpos st \<le> rpos s \<and> rpos s \<le> length text"
  shows "backtracker text (\<lambda>B st d. ticket B d (c B st)) f"
  by (intro backtracker.intro assms computes_ticket ticket_strict [OF assms(1)])

lemma pos_simps [simp]: "rpos (openGroup i st) = rpos st" "rpos (closeGroup i st) = rpos st" "rpos (advanceBy st w) = rpos st + w"
  by (simp_all add: openGroup_def closeGroup_def advanceBy_def)

lemma matchLiteral_forward: "s \<in> set (matchLiteral text l st) \<Longrightarrow> rpos st \<le> rpos s \<and> rpos s \<le> length text"
  by (auto simp: matchLiteral_def split: if_splits option.splits dest: decodeUtf8_width [OF sym])

lemma matchOne_forward: "s \<in> set (matchOne p text st) \<Longrightarrow> rpos st \<le> rpos s \<and> rpos s \<le> length text"
  by (auto simp: matchOne_def split: if_splits option.splits dest: decodeUtf8_width [OF sym])

lemma matchBackreference_forward:
  "s \<in> set (matchBackreference i nm text st) \<Longrightarrow> rpos st \<le> rpos s \<and> rpos s \<le> length text"
  by (auto simp: matchBackreference_def Let_def split: if_splits)

lemma backtracker_atom:
  assumes "\<And>st s. s \<in> set (f st) \<Longrightarrow> rpos st \<le> rpos s \<and> rpos s \<le> length text"
  shows "backtracker text (\<lambda>B st d. ticket B d (\<lambda>d'. pass (f st))) f"
  by (rule backtracker_ticket [where c = "\<lambda>B st d. pass (f st)"]) (use assms computes_pass in auto)

text \<open>Sequences and alternations of backtrackers.\<close>

lemma sequence_forward:
  assumes "\<And>n. n \<in> set ns \<Longrightarrow> backtracker text (m n) (f n)" "rpos st \<le> length text"
    "s \<in> set (sequenceResults (map f ns) st)"
  shows "rpos st \<le> rpos s \<and> rpos s \<le> length text"
  using assms
proof (induction ns arbitrary: st)
  case (Cons n ns)
  obtain t where t: "t \<in> set (f n st)" "s \<in> set (sequenceResults (map f ns) t)" using Cons.prems(3) by auto
  have "rpos st \<le> rpos t" "rpos t \<le> length text"
    using backtracker.forward [OF Cons.prems(1) Cons.prems(2) t(1)] by simp_all
  then show ?case using Cons.IH [of t] Cons.prems(1) t(2) by fastforce
qed simp

lemma sequence_computes:
  assumes "\<And>n. n \<in> set ns \<Longrightarrow> backtracker text (m n) (f n)" "rpos st \<le> length text"
  shows "computes (\<lambda>B. matchSequence (map (\<lambda>n. m n B) ns) st) (sequenceResults (map f ns) st)"
  using assms
proof (induction ns arbitrary: st)
  case Nil
  then show ?case by (simp add: computes_pass)
next
  case (Cons n ns)
  have b: "backtracker text (m n) (f n)" using Cons.prems(1) by simp
  have "computes (\<lambda>B d. forEach (\<lambda>s. matchSequence (map (\<lambda>n. m n B) ns) s d) (f n st))
      (concat (map (sequenceResults (map f ns)) (f n st)))"
  proof (rule computes_forEach)
    fix s
    assume "s \<in> set (f n st)"
    then have "rpos s \<le> length text" using backtracker.forward [OF b Cons.prems(2)] by blast
    then show "computes (\<lambda>B. matchSequence (map (\<lambda>n. m n B) ns) s) (sequenceResults (map f ns) s)"
      using Cons.IH Cons.prems(1) by simp
  qed
  from computes_bind [where g = "\<lambda>r B d. forEach (\<lambda>s. matchSequence (map (\<lambda>n. m n B) ns) s d) r",
      OF backtracker.yields [OF b Cons.prems(2)] this]
  show ?case by simp
qed

lemma alternation_computes:
  assumes "\<And>n. n \<in> set ns \<Longrightarrow> backtracker text (m n) (f n)" "rpos st \<le> length text"
  shows "computes (\<lambda>B. matchAlternation (map (\<lambda>n. m n B) ns) st) (concat (map (\<lambda>g. g st) (map f ns)))"
  using assms(1)
proof (induction ns)
  case Nil
  then show ?case by (simp add: computes_pass)
next
  case (Cons n ns)
  have b: "backtracker text (m n) (f n)" using Cons.prems by simp
  let ?rest = "concat (map (\<lambda>g. g st) (map f ns))"
  have "computes (\<lambda>B. matchAlternation (map (\<lambda>n. m n B) ns) st) ?rest" using Cons by simp
  then have "computes (\<lambda>B d. bindB (matchAlternation (map (\<lambda>n. m n B) ns) st d) (\<lambda>out. pass (f n st @ out))) (f n st @ ?rest)"
    by (rule computes_bind [where g = "\<lambda>out B d. pass (f n st @ out)"]) (rule computes_pass)
  from computes_bind [where g = "\<lambda>r B d. bindB (matchAlternation (map (\<lambda>n. m n B) ns) st d) (\<lambda>out. pass (r @ out))",
      OF backtracker.yields [OF b assms(2)] this]
  show ?case by simp
qed

text \<open>A matcher whose states and results are adjusted without moving, and one that asks a look-behind.\<close>

lemma backtracker_then:
  assumes b: "backtracker text m f" and pre: "\<And>st. rpos (pre st) = rpos st"
    and post: "\<And>st s. rpos st \<le> length text \<Longrightarrow> s \<in> set (post st (f (pre st))) \<Longrightarrow>
      s = st \<or> (\<exists>t \<in> set (f (pre st)). rpos s = rpos t)"
  shows "backtracker text (\<lambda>B st d. ticket B d (\<lambda>d'. bindB (m B (pre st) d') (\<lambda>r. pass (post st r))))
    (\<lambda>st. post st (f (pre st)))"
proof (rule backtracker_ticket)
  fix st :: rstate
  assume st: "rpos st \<le> length text"
  then have p: "rpos (pre st) \<le> length text" by (simp add: pre)
  show "computes (\<lambda>B d'. bindB (m B (pre st) d') (\<lambda>r. pass (post st r))) (post st (f (pre st)))"
    by (rule backtracker.computes_then [OF b p])
  fix s
  assume "s \<in> set (post st (f (pre st)))"
  from post [OF st this] show "rpos st \<le> rpos s \<and> rpos s \<le> length text"
    using backtracker.forward [OF b p] st pre [of st] by auto
qed

lemma backtracker_check:
  assumes b: "backtracker text m f" and post: "\<And>v st. set (post st v) \<subseteq> {st}"
  shows "backtracker text (\<lambda>B st d. ticket B d (\<lambda>d'. bindB (matchLookbehind w (m B) st d') (\<lambda>v. pass (post st v))))
    (\<lambda>st. post st (lookbehindHolds w f st))"
proof (rule backtracker_ticket)
  fix st :: rstate
  assume st: "rpos st \<le> length text"
  show "computes (\<lambda>B d'. bindB (matchLookbehind w (m B) st d') (\<lambda>v. pass (post st v))) (post st (lookbehindHolds w f st))"
    by (rule backtracker.computes_check [OF b st])
  fix s
  assume "s \<in> set (post st (lookbehindHolds w f st))"
  then have "s = st" using post by blast
  then show "rpos st \<le> rpos s \<and> rpos s \<le> length text" using st by simp
qed

text \<open>Every node is matched by a backtracker.\<close>

lemma matchNode_backtracker: "backtracker text (\<lambda>B. matchNode B text n) (results text n)"
proof (induction n)
  case (Sequence ns)
  show ?case unfolding matchNode.simps results.simps
    by (rule backtracker_ticket [where c = "\<lambda>B. matchSequence (map (matchNode B text) ns)"])
      (use sequence_computes [of ns "text" "\<lambda>n B. matchNode B text n" "results text"]
        sequence_forward [of ns "text" "\<lambda>n B. matchNode B text n" "results text"] Sequence in blast)+
next
  case (Alternation ns)
  show ?case unfolding matchNode.simps results.simps
    by (rule backtracker_ticket [where c = "\<lambda>B. matchAlternation (map (matchNode B text) ns)"])
      (use alternation_computes [of ns "text" "\<lambda>n B. matchNode B text n" "results text"] Alternation
        backtracker.forward [OF Alternation] in \<open>auto simp del: map_map\<close>)
next
  case (Quantifier mn mx g p n)
  show ?case unfolding matchNode.simps results.simps
    by (rule backtracker_ticket [where c = "\<lambda>B. repeatNode B (matchNode B text n) mn mx g p"])
      (use backtracker.repeatNode_computes [OF Quantifier] backtracker.repeatResults_forward [OF Quantifier] in blast)+
next
  case (Literal l)
  show ?case unfolding matchNode.simps results.simps by (rule backtracker_atom) (rule matchLiteral_forward)
next
  case (Escape e)
  show ?case unfolding matchNode.simps results.simps by (rule backtracker_atom) (rule matchOne_forward)
next
  case (CharacterClass c)
  show ?case unfolding matchNode.simps results.simps by (rule backtracker_atom) (rule matchOne_forward)
next
  case Any
  show ?case unfolding matchNode.simps results.simps by (rule backtracker_atom) (rule matchOne_forward)
next
  case (Backreference i nm)
  show ?case unfolding matchNode.simps results.simps by (rule backtracker_atom) (rule matchBackreference_forward)
next
  case AnchorStart
  show ?case unfolding matchNode.simps results.simps
    by (rule backtracker_ticket [where c = "\<lambda>B st d. pass (if rpos st = 0 then [st] else [])"])
      (auto intro: computes_pass split: if_splits)
next
  case AnchorEnd
  show ?case unfolding matchNode.simps results.simps
    by (rule backtracker_ticket [where c = "\<lambda>B st d. pass (if rpos st = length text then [st] else [])"])
      (auto intro: computes_pass split: if_splits)
next
  case (Group i n)
  show ?case unfolding matchNode.simps results.simps
    by (rule backtracker_then [where pre = "openGroup i" and post = "\<lambda>st. map (closeGroup i)", OF Group]) auto
next
  case (NamedGroup i nm n)
  show ?case unfolding matchNode.simps results.simps
    by (rule backtracker_then [where pre = "openGroup i" and post = "\<lambda>st. map (closeGroup i)", OF NamedGroup]) auto
next
  case (AtomicGroup n)
  show ?case unfolding matchNode.simps results.simps
    by (rule backtracker_then [where pre = "\<lambda>st. st" and post = "\<lambda>st. take 1", OF AtomicGroup]) (auto dest: in_set_takeD)
next
  case (Lookahead n)
  show ?case unfolding matchNode.simps results.simps
    by (rule backtracker_then [where pre = "\<lambda>st. st" and post = "\<lambda>st r. if r = [] then [] else [st]", OF Lookahead]) (auto split: if_splits)
next
  case (NegativeLookahead n)
  show ?case unfolding matchNode.simps results.simps
    by (rule backtracker_then [where pre = "\<lambda>st. st" and post = "\<lambda>st r. if r = [] then [st] else []", OF NegativeLookahead]) (auto split: if_splits)
next
  case (Lookbehind n)
  show ?case unfolding matchNode.simps results.simps
    by (rule backtracker_check [where post = "\<lambda>st v. if v then [st] else []", OF Lookbehind]) auto
next
  case (NegativeLookbehind n)
  show ?case unfolding matchNode.simps results.simps
    by (rule backtracker_check [where post = "\<lambda>st v. if v then [] else [st]", OF NegativeLookbehind]) auto
qed

interpretation node: backtracker "text" "\<lambda>B. matchNode B text n" "results text n" for "text" n
  by (rule matchNode_backtracker)

end
