(* ===== verification/Rx_Spans.thy ===== *)
theory Rx_Spans
  imports Rx_Results
begin

text \<open>
  The relational semantics of patterns and the proof that the results of plain patterns realize it.
\<close>

section \<open>Relational semantics\<close>

text \<open>
  The textbook meaning of a pattern over a text: the relation of the positions between which it matches.
  A character node relates the ends of one UTF-8 encoded character; a sequence composes, an alternation
  joins, a quantifier is the union of the powers its bounds allow.
\<close>

definition charSpan :: "(nat \<Rightarrow> bool) \<Rightarrow> string \<Rightarrow> (nat \<times> nat) set" where
  "charSpan p text =
     {(i, j). \<exists>cp. scalar_value cp \<and> p cp \<and> i \<le> length text \<and> j = i + length (encodeUtf8 cp) \<and>
        take (length (encodeUtf8 cp)) (drop i text) = encodeUtf8 cp}"

definition allowed :: "nat \<Rightarrow> nat option \<Rightarrow> nat \<Rightarrow> bool" where
  "allowed mn mx k \<longleftrightarrow> mn \<le> k \<and> (case mx of None \<Rightarrow> True | Some m \<Rightarrow> k \<le> m)"

primrec spans :: "string \<Rightarrow> node \<Rightarrow> (nat \<times> nat) set" where
  "spans text (Sequence ns) = foldr (O) (map (spans text) ns) Id"
| "spans text (Alternation ns) = \<Union> (set (map (spans text) ns))"
| "spans text (Literal l) = {(i, j). j = i + length l \<and> take (length l) (drop i text) = l}"
| "spans text (Escape e) = charSpan (escapeAtom e) text"
| "spans text (CharacterClass c) = charSpan (classAtom c) text"
| "spans text Any = charSpan (\<lambda>cp. True) text"
| "spans text AnchorStart = {(0, 0)}"
| "spans text AnchorEnd = {(length text, length text)}"
| "spans text (Group i n) = spans text n"
| "spans text (NamedGroup i nm n) = spans text n"
| "spans text (AtomicGroup n) = spans text n"
| "spans text (Backreference i nm) = {}"
| "spans text (Quantifier mn mx g p n) = (\<Union>k \<in> {k. allowed mn mx k}. spans text n ^^ k)"
| "spans text (Lookahead n) = Id_on (Domain (spans text n))"
| "spans text (NegativeLookahead n) = Id_on (- Domain (spans text n))"
| "spans text (Lookbehind n) = Id_on (Range (spans text n))"
| "spans text (NegativeLookbehind n) = Id_on (- Range (spans text n))"

text \<open>A node that cannot match the empty string, by its shape.\<close>

primrec consuming :: "node \<Rightarrow> bool" where
  "consuming (Sequence ns) \<longleftrightarrow> list_ex id (map consuming ns)"
| "consuming (Alternation ns) \<longleftrightarrow> list_all id (map consuming ns)"
| "consuming (Literal l) \<longleftrightarrow> True"
| "consuming (Escape e) \<longleftrightarrow> True"
| "consuming (CharacterClass c) \<longleftrightarrow> True"
| "consuming Any \<longleftrightarrow> True"
| "consuming AnchorStart \<longleftrightarrow> False"
| "consuming AnchorEnd \<longleftrightarrow> False"
| "consuming (Group i n) \<longleftrightarrow> consuming n"
| "consuming (NamedGroup i nm n) \<longleftrightarrow> consuming n"
| "consuming (AtomicGroup n) \<longleftrightarrow> consuming n"
| "consuming (Backreference i nm) \<longleftrightarrow> False"
| "consuming (Quantifier mn mx g p n) \<longleftrightarrow> 0 < mn \<and> consuming n"
| "consuming (Lookahead n) \<longleftrightarrow> False"
| "consuming (NegativeLookahead n) \<longleftrightarrow> False"
| "consuming (Lookbehind n) \<longleftrightarrow> False"
| "consuming (NegativeLookbehind n) \<longleftrightarrow> False"

text \<open>
  The nodes the relation describes: no back-references, atomic groups, possessive quantifiers or
  look-behinds; a literal is one encoded character, as the parser makes it; and a quantifier that
  requires a repetition has a consuming body.
\<close>

primrec plain :: "node \<Rightarrow> bool" where
  "plain (Sequence ns) \<longleftrightarrow> list_all id (map plain ns)"
| "plain (Alternation ns) \<longleftrightarrow> list_all id (map plain ns)"
| "plain (Literal l) \<longleftrightarrow> (case decodeUtf8 l 0 of Some (cp, w) \<Rightarrow> w = length l | None \<Rightarrow> False)"
| "plain (Escape e) \<longleftrightarrow> True"
| "plain (CharacterClass c) \<longleftrightarrow> True"
| "plain Any \<longleftrightarrow> True"
| "plain AnchorStart \<longleftrightarrow> True"
| "plain AnchorEnd \<longleftrightarrow> True"
| "plain (Group i n) \<longleftrightarrow> plain n"
| "plain (NamedGroup i nm n) \<longleftrightarrow> plain n"
| "plain (AtomicGroup n) \<longleftrightarrow> False"
| "plain (Backreference i nm) \<longleftrightarrow> False"
| "plain (Quantifier mn mx g p n) \<longleftrightarrow> \<not> p \<and> plain n \<and> (mn = 0 \<or> consuming n)"
| "plain (Lookahead n) \<longleftrightarrow> plain n"
| "plain (NegativeLookahead n) \<longleftrightarrow> plain n"
| "plain (Lookbehind n) \<longleftrightarrow> False"
| "plain (NegativeLookbehind n) \<longleftrightarrow> False"

text \<open>The results of \<open>f\<close> end exactly where the relation says.\<close>

definition realizes :: "string \<Rightarrow> (rstate \<Rightarrow> rstate list) \<Rightarrow> (nat \<times> nat) set \<Rightarrow> bool" where
  "realizes text f R \<longleftrightarrow> (\<forall>st. rpos st \<le> length text \<longrightarrow> rpos ` set (f st) = R `` {rpos st})"

lemma realizesD: "realizes text f R \<Longrightarrow> rpos st \<le> length text \<Longrightarrow> rpos ` set (f st) = R `` {rpos st}"
  by (simp add: realizes_def)

lemma realizes_mem: "realizes text f R \<Longrightarrow> rpos st \<le> length text \<Longrightarrow> s \<in> set (f st) \<Longrightarrow> (rpos st, rpos s) \<in> R"
  using realizesD by fastforce

lemma realizes_ex:
  "realizes text f R \<Longrightarrow> rpos st \<le> length text \<Longrightarrow> (rpos st, j) \<in> R \<Longrightarrow> \<exists>s \<in> set (f st). rpos s = j"
proof -
  assume "realizes text f R" "rpos st \<le> length text" "(rpos st, j) \<in> R"
  then have "j \<in> rpos ` set (f st)" by (auto dest: realizesD)
  then show ?thesis by force
qed

lemma realizes_empty:
  assumes "realizes text f R" "rpos st \<le> length text"
  shows "f st = [] \<longleftrightarrow> rpos st \<notin> Domain R"
proof -
  have "f st = [] \<longleftrightarrow> rpos ` set (f st) = {}" by simp
  also have "\<dots> \<longleftrightarrow> rpos st \<notin> Domain R" unfolding realizesD [OF assms] by blast
  finally show ?thesis .
qed

lemma realizes_char: "realizes text (matchOne p text) (charSpan p text)"
  unfolding realizes_def
proof (intro allI impI)
  fix st :: rstate
  assume st: "rpos st \<le> length text"
  show "rpos ` set (matchOne p text st) = charSpan p text `` {rpos st}"
  proof (cases "decodeUtf8 text (rpos st)")
    case None
    have "\<not> (scalar_value cp \<and> take (length (encodeUtf8 cp)) (drop (rpos st) text) = encodeUtf8 cp)" for cp
      using None decodeUtf8_iff [of "text" "rpos st" cp "length (encodeUtf8 cp)"] st by (metis append_take_drop_id option.distinct(1))
    then show ?thesis using None by (auto simp: matchOne_def charSpan_def)
  next
    case (Some r)
    obtain cp w where r: "r = (cp, w)" by (cases r)
    have d: "scalar_value cp" "w = length (encodeUtf8 cp)" "take w (drop (rpos st) text) = encodeUtf8 cp"
      using Some r decodeUtf8_iff [of "text" "rpos st" cp w] by auto
    have u: "cp' = cp" if "scalar_value cp'" "take (length (encodeUtf8 cp')) (drop (rpos st) text) = encodeUtf8 cp'" for cp'
      using Some r decodeUtf8_iff [of "text" "rpos st" cp' "length (encodeUtf8 cp')"] st that
      by (metis append_take_drop_id option.inject prod.inject)
    show ?thesis using Some r d st by (auto simp: matchOne_def charSpan_def dest: u)
  qed
qed

lemma realizes_literal:
  assumes "plain (Literal l)"
  shows "realizes text (matchLiteral text l) (spans text (Literal l))"
  unfolding realizes_def
proof (intro allI impI)
  fix st :: rstate
  assume st: "rpos st \<le> length text"
  obtain cp where l: "decodeUtf8 l 0 = Some (cp, length l)" using assms by (auto split: option.splits)
  then have e: "scalar_value cp" "l = encodeUtf8 cp"
    using decodeUtf8_iff [of l 0 cp "length l"] by auto
  show "rpos ` set (matchLiteral text l st) = spans text (Literal l) `` {rpos st}"
  proof (cases "take (length l) (drop (rpos st) text) = l")
    case True
    then have len: "rpos st + length l \<le> length text"
      by (metis add.commute le_diff_conv2 length_drop length_take min.cobounded1 st)
    have "decodeUtf8 text (rpos st) = Some (cp, length l)"
      using decodeUtf8_iff [of "text" "rpos st" cp "length l"] e st True by (metis append_take_drop_id)
    then show ?thesis using True len by (auto simp: matchLiteral_def)
  next
    case False
    then show ?thesis by (auto simp: matchLiteral_def)
  qed
qed


lemma realizes_sequence:
  assumes "\<And>n. n \<in> set ns \<Longrightarrow> realizes text (results text n) (spans text n)"
  shows "realizes text (sequenceResults (map (results text) ns)) (foldr (O) (map (spans text) ns) Id)"
  using assms
proof (induction ns)
  case (Cons n ns)
  have n: "realizes text (results text n) (spans text n)"
    and IH: "realizes text (sequenceResults (map (results text) ns)) (foldr (O) (map (spans text) ns) Id)"
    using Cons by auto
  show ?case
    unfolding realizes_def
  proof (intro allI impI)
    fix st :: rstate
    assume st: "rpos st \<le> length text"
    have "rpos ` set (sequenceResults (map (results text) ns) s) = foldr (O) (map (spans text) ns) Id `` {rpos s}"
      if "s \<in> set (results text n st)" for s
      using realizesD [OF IH] node.forward [OF st that] by blast
    then have "rpos ` set (sequenceResults (map (results text) (n # ns)) st) =
        (\<Union>s \<in> set (results text n st). foldr (O) (map (spans text) ns) Id `` {rpos s})"
      by (simp add: image_UN)
    also have "\<dots> = foldr (O) (map (spans text) ns) Id `` (rpos ` set (results text n st))" by blast
    also have "\<dots> = foldr (O) (map (spans text) (n # ns)) Id `` {rpos st}"
      unfolding realizesD [OF n st] by (simp add: relcomp_Image)
    finally show "rpos ` set (sequenceResults (map (results text) (n # ns)) st) =
        foldr (O) (map (spans text) (n # ns)) Id `` {rpos st}" .
  qed
qed (simp add: realizes_def)

subsection \<open>Repetition as powers\<close>

lemma steps_progress:
  assumes "realizes text f R" "rpos s \<le> length text"
    and "\<And>t. t \<in> set (f s) \<Longrightarrow> rpos s \<le> rpos t \<and> rpos t \<le> length text"
  shows "rpos ` {t \<in> set (f s). rpos s < rpos t \<and> rpos t \<le> length text} = (R - Id) `` {rpos s}"
proof (intro set_eqI iffI)
  fix j
  assume "j \<in> rpos ` {t \<in> set (f s). rpos s < rpos t \<and> rpos t \<le> length text}"
  then obtain t where "t \<in> set (f s)" "rpos s < rpos t" "j = rpos t" by blast
  then show "j \<in> (R - Id) `` {rpos s}" using realizes_mem [OF assms(1,2)] by auto
next
  fix j
  assume j: "j \<in> (R - Id) `` {rpos s}"
  then obtain t where t: "t \<in> set (f s)" "rpos t = j" using realizes_ex [OF assms(1,2), of j] by blast
  then show "j \<in> rpos ` {t \<in> set (f s). rpos s < rpos t \<and> rpos t \<le> length text}"
    using assms(3) [OF t(1)] j by (intro image_eqI [of _ _ t]) auto
qed

lemma power_split:
  "{j. \<exists>k. P k \<and> (i, j) \<in> Q ^^ k} = (if P 0 then {i} else {}) \<union> (\<Union>l \<in> Q `` {i}. {j. \<exists>k. P (Suc k) \<and> (l, j) \<in> Q ^^ k})"
proof (intro set_eqI iffI)
  fix j
  assume "j \<in> {j. \<exists>k. P k \<and> (i, j) \<in> Q ^^ k}"
  then obtain k where k: "P k" "(i, j) \<in> Q ^^ k" by blast
  show "j \<in> (if P 0 then {i} else {}) \<union> (\<Union>l \<in> Q `` {i}. {j. \<exists>k. P (Suc k) \<and> (l, j) \<in> Q ^^ k})"
  proof (cases k)
    case (Suc k')
    then obtain l where "(i, l) \<in> Q" "(l, j) \<in> Q ^^ k'" using k(2) relpow_Suc_D2 [of i j k' Q] by blast
    then show ?thesis using k(1) Suc by blast
  qed (use k in auto)
next
  fix j
  assume "j \<in> (if P 0 then {i} else {}) \<union> (\<Union>l \<in> Q `` {i}. {j. \<exists>k. P (Suc k) \<and> (l, j) \<in> Q ^^ k})"
  then consider "P 0" "j = i" | l k where "(i, l) \<in> Q" "P (Suc k)" "(l, j) \<in> Q ^^ k" by (auto split: if_splits)
  then show "j \<in> {j. \<exists>k. P k \<and> (i, j) \<in> Q ^^ k}"
  proof cases
    case 1
    then have "P 0 \<and> (i, j) \<in> Q ^^ 0" by simp
    then show ?thesis by blast
  next
    case 2
    then show ?thesis using relpow_Suc_I2 [of i l Q j k] by blast
  qed
qed

lemma repeatAll_positions:
  assumes R: "realizes text f R"
    and fw: "\<And>s t. rpos s \<le> length text \<Longrightarrow> t \<in> set (f s) \<Longrightarrow> rpos s \<le> rpos t \<and> rpos t \<le> length text"
    and "rpos s \<le> length text" "\<And>m. mx = Some m \<Longrightarrow> count \<le> m"
  shows "rpos ` set (repeatAll text f mn mx g s count) = {j. \<exists>k. allowed mn mx (count + k) \<and> (rpos s, j) \<in> (R - Id) ^^ k}"
  using assms(3,4)
proof (induction "length text - rpos s" arbitrary: s count rule: less_induct)
  case less
  let ?T = "{t \<in> set (f s). rpos s < rpos t \<and> rpos t \<le> length text}"
  let ?stop = "if allowed mn mx (count + 0) then {rpos s} else {}"
  have stop: "mn \<le> count \<longleftrightarrow> allowed mn mx (count + 0)"
    using less.prems(2) by (auto simp: allowed_def split: option.splits)
  show ?case
  proof (cases "reached mx count")
    case True
    then have "\<not> allowed mn mx (count + Suc k)" for k
      by (auto simp: reached_def allowed_def split: option.splits)
    then have "{j. \<exists>k. allowed mn mx (count + k) \<and> (rpos s, j) \<in> (R - Id) ^^ k} = ?stop"
      unfolding power_split [of "\<lambda>k. allowed mn mx (count + k)"] by simp
    moreover have "rpos ` set (repeatAll text f mn mx g s count) = ?stop"
      unfolding repeatAll.simps [of "text" f mn mx g s] stop [symmetric] using True by auto
    ultimately show ?thesis by simp
  next
    case False
    have T: "rpos ` ?T = (R - Id) `` {rpos s}"
      by (rule steps_progress [OF R less.prems(1) fw [OF less.prems(1)]])
    have IH: "rpos ` set (repeatAll text f mn mx g t (count + 1)) =
        {j. \<exists>k. allowed mn mx (count + Suc k) \<and> (rpos t, j) \<in> (R - Id) ^^ k}" if "t \<in> ?T" for t
    proof -
      have "rpos ` set (repeatAll text f mn mx g t (count + 1)) =
          {j. \<exists>k. allowed mn mx (count + 1 + k) \<and> (rpos t, j) \<in> (R - Id) ^^ k}"
      proof (rule less.hyps)
        show "length text - rpos t < length text - rpos s" "rpos t \<le> length text" using that by auto
        show "count + 1 \<le> m" if "mx = Some m" for m using False that by (simp add: reached_def)
      qed
      then show ?thesis by simp
    qed
    have "rpos ` set (repeatAll text f mn mx g s count) =
        ?stop \<union> (\<Union>t \<in> ?T. rpos ` set (repeatAll text f mn mx g t (count + 1)))"
      unfolding repeatAll.simps [of "text" f mn mx g s] stop [symmetric] using False
      by (auto simp: image_iff split: if_splits)
    also have "\<dots> = ?stop \<union> (\<Union>t \<in> ?T. {j. \<exists>k. allowed mn mx (count + Suc k) \<and> (rpos t, j) \<in> (R - Id) ^^ k})"
      using IH by simp
    also have "\<dots> = ?stop \<union> (\<Union>l \<in> rpos ` ?T. {j. \<exists>k. allowed mn mx (count + Suc k) \<and> (l, j) \<in> (R - Id) ^^ k})" by simp
    also have "\<dots> = {j. \<exists>k. allowed mn mx (count + k) \<and> (rpos s, j) \<in> (R - Id) ^^ k}"
      unfolding T by (rule power_split [of "\<lambda>k. allowed mn mx (count + k)", symmetric])
    finally show ?thesis .
  qed
qed

text \<open>Steps that make no progress can be left out of a power.\<close>

lemma relpow_shorten: "(i, j) \<in> R ^^ k \<Longrightarrow> \<exists>l \<le> k. (i, j) \<in> (R - Id) ^^ l"
proof (induction k arbitrary: j)
  case (Suc k)
  then obtain h where h: "(i, h) \<in> R ^^ k" "(h, j) \<in> R" by auto
  then obtain l where l: "l \<le> k" "(i, h) \<in> (R - Id) ^^ l" using Suc.IH by blast
  show ?case
  proof (cases "h = j")
    case True
    then show ?thesis using l le_SucI by blast
  next
    case False
    then have "(i, j) \<in> (R - Id) ^^ Suc l" using l h(2) by auto
    then show ?thesis using l(1) by (intro exI [of _ "Suc l"]) simp
  qed
qed auto

lemma powers_mono: "(R :: ('a \<times> 'a) set) \<subseteq> S \<Longrightarrow> R ^^ k \<subseteq> S ^^ k"
  by (induction k) auto

lemma powers_progress:
  assumes "mn = 0 \<or> R \<inter> Id = {}"
  shows "(\<Union>k \<in> {k. allowed mn mx k}. R ^^ k) `` {i} = {j. \<exists>k. allowed mn mx k \<and> (i, j) \<in> (R - Id) ^^ k}"
proof (cases "R \<inter> Id = {}")
  case True
  then have "R - Id = R" by blast
  then show ?thesis by auto
next
  case False
  then have mn: "mn = 0" using assms by blast
  show ?thesis
  proof (intro set_eqI iffI)
    fix j
    assume "j \<in> (\<Union>k \<in> {k. allowed mn mx k}. R ^^ k) `` {i}"
    then obtain k where k: "allowed mn mx k" "(i, j) \<in> R ^^ k" by auto
    from relpow_shorten [OF k(2)] obtain l where l: "l \<le> k" "(i, j) \<in> (R - Id) ^^ l" by (elim exE conjE)
    then have "allowed mn mx l" using k(1) mn by (auto simp: allowed_def split: option.splits)
    then show "j \<in> {j. \<exists>k. allowed mn mx k \<and> (i, j) \<in> (R - Id) ^^ k}" using l(2) by blast
  next
    fix j
    assume "j \<in> {j. \<exists>k. allowed mn mx k \<and> (i, j) \<in> (R - Id) ^^ k}"
    then obtain k where k: "allowed mn mx k" "(i, j) \<in> (R - Id) ^^ k" by blast
    have "(R - Id) ^^ k \<subseteq> R ^^ k" by (rule powers_mono) (rule Diff_subset)
    then have "(i, j) \<in> R ^^ k" using k(2) by (rule subsetD)
    then show "j \<in> (\<Union>k \<in> {k. allowed mn mx k}. R ^^ k) `` {i}" using k(1) by (intro ImageI [of i] UN_I [of k]) simp_all
  qed
qed

subsection \<open>Progress\<close>

lemma charSpan_less: "(i, j) \<in> charSpan p text \<Longrightarrow> i < j"
  by (auto simp: charSpan_def encodeUtf8_def)

lemma relpow_le: "(\<And>i j. (i, j) \<in> R \<Longrightarrow> i \<le> j) \<Longrightarrow> (i, j) \<in> R ^^ k \<Longrightarrow> i \<le> (j::nat)"
  by (induction k arbitrary: j) (auto intro: order.trans)

lemma compose_le:
  assumes "\<And>R i j. R \<in> set Rs \<Longrightarrow> (i, j) \<in> R \<Longrightarrow> i \<le> (j::nat)"
  shows "(i, j) \<in> foldr (O) Rs Id \<Longrightarrow> i \<le> j"
  using assms
proof (induction Rs arbitrary: i)
  case (Cons R Rs)
  obtain h where h: "(i, h) \<in> R" "(h, j) \<in> foldr (O) Rs Id" using Cons.prems(1) by auto
  have "i \<le> h" using Cons.prems(2) [OF _ h(1)] by simp
  also have "h \<le> j" by (rule Cons.IH [OF h(2)], rule Cons.prems(2)) simp_all
  finally show ?case .
qed simp

lemma compose_less:
  assumes "\<And>R i j. R \<in> set Rs \<Longrightarrow> (i, j) \<in> R \<Longrightarrow> i \<le> (j::nat)"
    and "\<exists>R \<in> set Rs. \<forall>i j. (i, j) \<in> R \<longrightarrow> i < j"
  shows "(i, j) \<in> foldr (O) Rs Id \<Longrightarrow> i < j"
  using assms
proof (induction Rs arbitrary: i)
  case (Cons R Rs)
  obtain h where h: "(i, h) \<in> R" "(h, j) \<in> foldr (O) Rs Id" using Cons.prems(1) by auto
  have le: "i \<le> h" "h \<le> j" using Cons.prems(2) [of R i h] h compose_le [of Rs h j] Cons.prems(2) by auto
  show ?case
  proof (cases "\<forall>i j. (i, j) \<in> R \<longrightarrow> i < j")
    case True
    then show ?thesis using h(1) le(2) by fastforce
  next
    case False
    then have "\<exists>R \<in> set Rs. \<forall>i j. (i, j) \<in> R \<longrightarrow> i < j" using Cons.prems(3) by auto
    then have "h < j" using Cons.IH [OF h(2)] Cons.prems(2) by auto
    then show ?thesis using le(1) by simp
  qed
qed simp

lemma decodeUtf8_nil: "decodeUtf8 [] i = None"
  by (simp add: decodeUtf8_def)

lemma literal_nonempty: "plain (Literal l) \<Longrightarrow> 0 < length l"
  by (auto split: option.splits dest: decodeUtf8_width)

lemma span_le: "plain n \<Longrightarrow> (i, j) \<in> spans text n \<Longrightarrow> i \<le> j"
proof (induction n arbitrary: i j)
  case (Sequence ns)
  have le: "a \<le> b" if "R \<in> set (map (spans text) ns)" "(a, b) \<in> R" for R a b
    using Sequence.IH Sequence.prems(1) that by (auto simp: list_all_iff)
  show ?case by (rule compose_le [of "map (spans text) ns", OF le]) (use Sequence.prems(2) in simp_all)
next
  case (Quantifier mn mx g p n)
  have "a \<le> b" if "(a, b) \<in> spans text n" for a b using Quantifier.IH Quantifier.prems(1) that by simp
  then show ?case using Quantifier.prems(2) relpow_le [of "spans text n"] by fastforce
qed (auto simp: list_all_iff dest: charSpan_less)

lemma span_less: "plain n \<Longrightarrow> consuming n \<Longrightarrow> (i, j) \<in> spans text n \<Longrightarrow> i < j"
proof (induction n arbitrary: i j)
  case (Sequence ns)
  have le: "a \<le> b" if "R \<in> set (map (spans text) ns)" "(a, b) \<in> R" for R a b
    using Sequence.prems(1) that span_le by (auto simp: list_all_iff)
  have "\<exists>R \<in> set (map (spans text) ns). \<forall>i j. (i, j) \<in> R \<longrightarrow> i < j"
    using Sequence.IH Sequence.prems(1,2) by (auto simp: list_all_iff list_ex_iff)
  from compose_less [of "map (spans text) ns", OF le this] Sequence.prems(3) show ?case by simp
next
  case (Quantifier mn mx g p n)
  obtain k where k: "allowed mn mx k" "(i, j) \<in> spans text n ^^ k" using Quantifier.prems(3) by auto
  have "0 < k" using k(1) Quantifier.prems(2) by (simp add: allowed_def)
  then obtain k' where "k = Suc k'" by (cases k) auto
  then obtain h where h: "(i, h) \<in> spans text n" "(h, j) \<in> spans text n ^^ k'"
    using k(2) relpow_Suc_D2 [of i j k' "spans text n"] by blast
  have le: "a \<le> b" if "(a, b) \<in> spans text n" for a b using span_le [of n a b "text"] Quantifier.prems(1) that by simp
  have "i < h" using Quantifier.IH Quantifier.prems(1,2) h(1) by simp
  moreover have "h \<le> j" by (rule relpow_le [OF le h(2)])
  ultimately show ?case by simp
qed (auto simp: list_all_iff decodeUtf8_nil dest: charSpan_less literal_nonempty)

subsection \<open>The results of a plain node\<close>

lemma plain_realizes: "plain n \<Longrightarrow> realizes text (results text n) (spans text n)"
proof (induction n)
  case (Sequence ns)
  then show ?case using realizes_sequence [of ns "text"] by (simp add: list_all_iff)
next
  case (Alternation ns)
  then show ?case by (auto simp: list_all_iff realizes_def image_UN)
next
  case (Literal l)
  then show ?case using realizes_literal by (simp del: plain.simps spans.simps)
next
  case (Quantifier mn mx g p n)
  have IH: "realizes text (results text n) (spans text n)" using Quantifier by simp
  have pr: "mn = 0 \<or> spans text n \<inter> Id = {}" using Quantifier.prems span_less [of n] by fastforce
  show ?case
    unfolding realizes_def
  proof (intro allI impI)
    fix st :: rstate
    assume st: "rpos st \<le> length text"
    have "rpos ` set (repeatAll text (results text n) mn mx g st 0) =
        {j. \<exists>k. allowed mn mx (0 + k) \<and> (rpos st, j) \<in> (spans text n - Id) ^^ k}"
      by (rule repeatAll_positions [OF IH node.forward st]) auto
    then show "rpos ` set (results text (Quantifier mn mx g p n) st) = spans text (Quantifier mn mx g p n) `` {rpos st}"
      using powers_progress [OF pr, of mx "rpos st"] Quantifier.prems by (simp add: repeatResults_def)
  qed
next
  case (Group i n)
  then have "realizes text (results text n) (spans text n)" by simp
  then show ?case by (simp add: realizes_def image_image)
next
  case (NamedGroup i nm n)
  then have "realizes text (results text n) (spans text n)" by simp
  then show ?case by (simp add: realizes_def image_image)
next
  case (Lookahead n)
  then have "realizes text (results text n) (spans text n)" by simp
  from realizes_empty [OF this] show ?case by (auto simp: realizes_def [of _ "\<lambda>st. if results text n st = [] then [] else [st]"])
next
  case (NegativeLookahead n)
  then have "realizes text (results text n) (spans text n)" by simp
  from realizes_empty [OF this] show ?case by (auto simp: realizes_def [of _ "\<lambda>st. if results text n st = [] then [st] else []"])
qed (auto simp: realizes_char, auto simp: realizes_def)

end
