(* ===== verification/Rx_Search.thy ===== *)
theory Rx_Search
  imports Rx_Spans
begin

text \<open>
  The entry points of the regular-expression engine (\<^verbatim>\<open>match\<close>, \<^verbatim>\<open>matchAll\<close>, \<^verbatim>\<open>replace\<close> in \<^verbatim>\<open>regex.cpp\<close>), what they guarantee, and where the
  engine departs from the usual meaning of patterns.
\<close>

section \<open>Searching and replacing\<close>

record matchResult =
  matched :: bool
  mstart :: nat
  mend :: nat
  groups :: "string list"
  groupMatched :: "bool list"

definition noMatch :: matchResult where
  "noMatch = \<lparr>matched = False, mstart = 0, mend = 0, groups = [], groupMatched = []\<rparr>"

text \<open>\<^verbatim>\<open>std::string::substr\<close> at a position inside the string.\<close>

definition substr :: "string \<Rightarrow> nat \<Rightarrow> nat \<Rightarrow> string" where
  "substr s pos len = take len (drop pos s)"

definition materialize :: "string \<Rightarrow> rstate \<Rightarrow> matchResult" where
  "materialize text s =
     (let start = (if rcaps s = [] then rpos s
                   else if capSet (hd (rcaps s)) then nat (capStart (hd (rcaps s))) else rpos s);
          gs = map (\<lambda>c. if capSet c then substr text (nat (capStart c)) (nat (capEnd c - capStart c)) else []) (rcaps s);
          ms = map capSet (rcaps s)
      in \<lparr>matched = True, mstart = start, mend = rpos s,
          groups = (if gs = [] then [substr text start (rpos s - start)] else gs),
          groupMatched = (if gs = [] then ms @ [True] else ms)\<rparr>)"

text \<open>The capture of the whole match, before an attempt at \<open>pos\<close> and for its winner.\<close>

definition initialState :: "node \<Rightarrow> nat \<Rightarrow> nat \<Rightarrow> rstate" where
  "initialState ast start0 pos =
     \<lparr>rpos = pos, rcaps = (makeCaps (maxCapture ast))[0 := \<lparr>capStart = int start0, capEnd = -1, capSet = True\<rparr>]\<rparr>"

definition wholeMatch :: "nat \<Rightarrow> rstate \<Rightarrow> rstate" where
  "wholeMatch start s = s\<lparr>rcaps := (rcaps s)[0 := \<lparr>capStart = int start, capEnd = int (rpos s), capSet = True\<rparr>]\<rparr>"

text \<open>\<^verbatim>\<open>match\<close>: an attempt with a fresh budget at every position of a search, or only at the first.\<close>

function matchFrom :: "limits \<Rightarrow> node \<Rightarrow> string \<Rightarrow> bool \<Rightarrow> nat \<Rightarrow> budgetError + matchResult" where
  "matchFrom B ast text search pos =
     (if (if search then length text else 0) < pos then Inr noMatch
      else case matchNode B text ast (initialState ast 0 pos) 0 0 of
        Inl e \<Rightarrow> Inl e
      | Inr (s # _, _) \<Rightarrow> Inr (materialize text (wholeMatch pos s))
      | Inr ([], _) \<Rightarrow> if search then matchFrom B ast text search (pos + 1) else Inr noMatch)"
  by pat_completeness auto

termination matchFrom
  by (relation "measure (\<lambda>(B, ast, text, search, pos). Suc (length text) - pos)") auto

declare matchFrom.simps [simp del]

definition matchPattern :: "limits \<Rightarrow> node \<Rightarrow> string \<Rightarrow> bool \<Rightarrow> budgetError + matchResult" where
  "matchPattern B ast text search = matchFrom B ast text search 0"

text \<open>Results lie at or after the start, so the search for all matches moves on.\<close>

lemma matchNode_forward:
  assumes "matchNode B text n st d k = Inr (rs, k')" "s \<in> set rs" "rpos st \<le> length text"
  shows "rpos st \<le> rpos s \<and> rpos s \<le> length text"
  using node.forward [OF assms(3)] computes_sound(1) [OF node.yields [OF assms(3)] assms(1)] assms(2) by blast

definition nextStart :: "matchResult \<Rightarrow> nat" where
  "nextStart r = (if mstart r < mend r then mend r else mstart r + 1)"

lemma nextStart_advances: "start \<le> rpos s \<Longrightarrow> start < nextStart (materialize text (wholeMatch start s))"
  by (cases "rcaps s") (auto simp: nextStart_def materialize_def wholeMatch_def Let_def)

lemma attempt_advances:
  assumes "matchNode B text ast (initialState ast p start) 0 0 = Inr (w # ws, k)" "start \<le> length text"
  shows "start < nextStart (materialize text (wholeMatch start w))"
  using matchNode_forward [OF assms(1), of w] assms(2) by (intro nextStart_advances) (simp add: initialState_def)

function matchAllFrom :: "limits \<Rightarrow> node \<Rightarrow> string \<Rightarrow> nat \<Rightarrow> budgetError + matchResult list" where
  "matchAllFrom B ast text start =
     (if length text < start then Inr []
      else case matchNode B text ast (initialState ast start start) 0 0 of
        Inl e \<Rightarrow> Inl e
      | Inr ([], _) \<Rightarrow> matchAllFrom B ast text (start + 1)
      | Inr (winner # _, _) \<Rightarrow>
          let r = materialize text (wholeMatch start winner)
          in case matchAllFrom B ast text (nextStart r) of
               Inl e \<Rightarrow> Inl e
             | Inr rest \<Rightarrow> Inr (r # rest))"
  by pat_completeness auto

termination matchAllFrom
  by (relation "measure (\<lambda>(B, ast, text, start). Suc (length text) - start)") (auto simp: not_less intro!: diff_less_mono2 dest: attempt_advances)

declare matchAllFrom.simps [simp del]

definition matchAll :: "limits \<Rightarrow> node \<Rightarrow> string \<Rightarrow> budgetError + matchResult list" where
  "matchAll B ast text = matchAllFrom B ast text 0"

subsection \<open>Replacement\<close>

text \<open>\<^verbatim>\<open>captureNameMap\<close>: a node's own name first, then those of its children in order (\<^verbatim>\<open>insert\<close> keeps the first).\<close>

primrec captureNameMap :: "node \<Rightarrow> (string \<times> nat) list" where
  "captureNameMap (Sequence ns) = concat (map captureNameMap ns)"
| "captureNameMap (Alternation ns) = concat (map captureNameMap ns)"
| "captureNameMap (Literal l) = []"
| "captureNameMap (Escape e) = []"
| "captureNameMap (CharacterClass c) = []"
| "captureNameMap Any = []"
| "captureNameMap (Group i n) = captureNameMap n"
| "captureNameMap (NamedGroup i nm n) = (if nm = [] then [] else [(nm, i)]) @ captureNameMap n"
| "captureNameMap (AtomicGroup n) = captureNameMap n"
| "captureNameMap (Backreference i nm) = []"
| "captureNameMap AnchorStart = []"
| "captureNameMap AnchorEnd = []"
| "captureNameMap (Quantifier mn mx g p n) = captureNameMap n"
| "captureNameMap (Lookahead n) = captureNameMap n"
| "captureNameMap (NegativeLookahead n) = captureNameMap n"
| "captureNameMap (Lookbehind n) = captureNameMap n"
| "captureNameMap (NegativeLookbehind n) = captureNameMap n"

text \<open>The replacement text with \<open>$\<close>-references to groups by number and by name in braces.\<close>

function expand :: "(string \<times> nat) list \<Rightarrow> matchResult \<Rightarrow> string \<Rightarrow> string" where
  "expand names m [] = []"
| "expand names m (c # cs) =
     (if c = CHR ''$'' \<and> cs \<noteq> [] \<and> hd cs = CHR 0x7B \<and> CHR 0x7D \<in> set (tl cs) then
        (let name = takeWhile (\<lambda>x. x \<noteq> CHR 0x7D) (tl cs); rest = drop (length name + 2) cs
         in (case map_of names name of
               Some g \<Rightarrow> if g < length (groups m) then groups m ! g else c # take (length name + 2) cs
             | None \<Rightarrow> c # take (length name + 2) cs) @ expand names m rest)
      else if c = CHR ''$'' \<and> cs \<noteq> [] \<and> is_digit (hd cs) then
        (let ds = takeWhile is_digit cs; rest = drop (length ds) cs; num = nat (digits_val ds)
         in (if num < length (groups m) then groups m ! num else c # ds) @ expand names m rest)
      else c # expand names m cs)"
  by pat_completeness auto

termination expand
  by (relation "measure (\<lambda>(names, m, cs). length cs)") auto

text \<open>The text between the matches, with each match expanded.\<close>

fun replaceMatches :: "(matchResult \<Rightarrow> string) \<Rightarrow> string \<Rightarrow> nat \<Rightarrow> matchResult list \<Rightarrow> string" where
  "replaceMatches e text cur [] = drop cur text"
| "replaceMatches e text cur (m # ms) =
     (if mstart m < cur then replaceMatches e text cur ms
      else substr text cur (mstart m - cur) @ e m @ replaceMatches e text (mend m) ms)"

definition replace :: "limits \<Rightarrow> node \<Rightarrow> string \<Rightarrow> string \<Rightarrow> budgetError + string" where
  "replace B ast text replacement =
     (case matchAll B ast text of
        Inl e \<Rightarrow> Inl e
      | Inr ms \<Rightarrow> Inr (replaceMatches (\<lambda>m. expand (captureNameMap ast) m replacement) text 0 ms))"

section \<open>Correctness of the engine\<close>

subsection \<open>The budget\<close>

text \<open>C5: Under any limits, from any depth and number of steps taken, matching a node either reports that the budget
  is exceeded or returns exactly the results of the unlimited matcher, having taken at least one step and no
  more than the limit.\<close>

theorem matchNode_refines:
  assumes "rpos st \<le> length text"
  shows "case matchNode B text n st d k of
    Inl e \<Rightarrow> e \<in> {TooManySteps, TooDeep}
  | Inr (rs, k') \<Rightarrow> rs = results text n st \<and> k < k' \<and> k' \<le> maxSteps B"
proof (cases "matchNode B text n st d k")
  case (Inl e)
  then show ?thesis by (cases e) simp_all
next
  case (Inr r)
  obtain rs k' where r: "r = (rs, k')" by (cases r)
  show ?thesis
    using Inr r computes_sound(1) [OF node.yields [OF assms], of B n d k rs k'] node.strict [OF assms, of B n d k rs k'] by simp
qed

definition startState :: rstate where
  "startState = \<lparr>rpos = 0, rcaps = makeCaps 0\<rparr>"

lemma startState_ok: "rpos startState \<le> length text"
  by (simp add: startState_def)

theorem matchNode_refines_witness:
  "case matchNode engineLimits ''aa'' (Quantifier 1 None True False (Literal ''a'')) startState 0 0 of
    Inl e \<Rightarrow> e \<in> {TooManySteps, TooDeep}
  | Inr (rs, k') \<Rightarrow> rs = results ''aa'' (Quantifier 1 None True False (Literal ''a'')) startState \<and> 0 < k' \<and> k' \<le> maxSteps engineLimits"
  by (rule matchNode_refines) (rule startState_ok)

text \<open>C6: The matcher always ends with its results when it is given enough: for every node, text and state there are
  numbers of steps and of frames such that any limits that leave that much return the results.\<close>

theorem matchNode_enough:
  assumes "rpos st \<le> length text"
  shows "\<exists>K D. \<forall>B. K \<le> maxSteps B \<and> D \<le> maxDepth B \<longrightarrow> (\<exists>k'. matchNode B text n st 0 0 = Inr (results text n st, k'))"
proof -
  obtain K D where K: "\<And>B d k. k + K \<le> maxSteps B \<Longrightarrow> d + D \<le> maxDepth B \<Longrightarrow>
      \<exists>k' \<le> k + K. matchNode B text n st d k = Inr (results text n st, k')"
    using computes_complete [OF node.yields [OF assms]] by blast
  show ?thesis using K [of 0 _ 0] by (intro exI [of _ K] exI [of _ D]) fastforce
qed

theorem matchNode_enough_witness:
  "\<exists>B k'. matchNode B ''aa'' (Quantifier 1 None True False (Literal ''a'')) startState 0 0 =
     Inr (results ''aa'' (Quantifier 1 None True False (Literal ''a'')) startState, k')"
proof -
  obtain K D where "\<forall>B. K \<le> maxSteps B \<and> D \<le> maxDepth B \<longrightarrow>
      (\<exists>k'. matchNode B ''aa'' (Quantifier 1 None True False (Literal ''a'')) startState 0 0 =
        Inr (results ''aa'' (Quantifier 1 None True False (Literal ''a'')) startState, k'))"
    using matchNode_enough [OF startState_ok] by blast
  from this [THEN spec, of "\<lparr>maxSteps = K, maxDepth = D\<rparr>"] show ?thesis by auto
qed

subsection \<open>Searching\<close>

lemma attempt_results:
  assumes "matchNode B text ast (initialState ast p pos) 0 0 = Inr (rs, k)" "pos \<le> length text"
  shows "rs = results text ast (initialState ast p pos)"
  using computes_sound(1) [OF node.yields assms(1)] assms(2) by (simp add: initialState_def)

lemma attempt_spans:
  assumes "matchNode B text ast (initialState ast p pos) 0 0 = Inr (rs, k)" "pos \<le> length text" "plain ast"
  shows "rpos ` set rs = spans text ast `` {pos}"
  using realizesD [OF plain_realizes [OF assms(3)], of "initialState ast p pos" "text"] attempt_results [OF assms(1,2)] assms(2)
  by (simp add: initialState_def)

subsection \<open>Captures\<close>

text \<open>A set capture, other than that of the whole match, is a stretch of the text.\<close>

definition captureOk :: "string \<Rightarrow> capture \<Rightarrow> bool" where
  "captureOk text c \<longleftrightarrow> (capSet c \<longrightarrow> 0 \<le> capStart c \<and> capStart c \<le> capEnd c \<and> capEnd c \<le> int (length text))"

definition capturesOk :: "string \<Rightarrow> rstate \<Rightarrow> bool" where
  "capturesOk text s \<longleftrightarrow> (\<forall>i. 0 < i \<and> i < length (rcaps s) \<longrightarrow> captureOk text (rcaps s ! i))"

text \<open>How a state may differ from the one it was reached from: it lies ahead in the text, a capture that starts
  elsewhere starts between the two, and captures stay in order.\<close>

definition grows :: "string \<Rightarrow> rstate \<Rightarrow> rstate \<Rightarrow> bool" where
  "grows text st s \<longleftrightarrow>
     rpos st \<le> rpos s \<and> rpos s \<le> length text \<and> length (rcaps s) = length (rcaps st) \<and>
     (\<forall>i < length (rcaps st). capStart (rcaps s ! i) = capStart (rcaps st ! i) \<or>
        int (rpos st) \<le> capStart (rcaps s ! i) \<and> capStart (rcaps s ! i) \<le> int (rpos s)) \<and>
     (capturesOk text st \<longrightarrow> capturesOk text s)"

lemma grows_refl: "rpos st \<le> length text \<Longrightarrow> grows text st st"
  by (simp add: grows_def)

lemma grows_trans: "grows text a b \<Longrightarrow> grows text b c \<Longrightarrow> grows text a c"
  unfolding grows_def by fastforce

lemma grows_end: "grows text st s \<Longrightarrow> rpos s \<le> length text"
  by (simp add: grows_def)

lemma grows_advance: "rpos st + w \<le> length text \<Longrightarrow> grows text st (advanceBy st w)"
  by (simp add: grows_def advanceBy_def capturesOk_def)

lemma open_nth:
  "i < length (rcaps st) \<Longrightarrow> 0 < i \<Longrightarrow> rcaps (openGroup i st) ! i = (rcaps st ! i)\<lparr>capStart := int (rpos st), capSet := False\<rparr>"
  "j \<noteq> i \<Longrightarrow> rcaps (openGroup i st) ! j = rcaps st ! j" "length (rcaps (openGroup i st)) = length (rcaps st)"
  by (auto simp: openGroup_def)

lemma close_nth:
  "i < length (rcaps s) \<Longrightarrow> 0 < i \<Longrightarrow> rcaps (closeGroup i s) ! i = (rcaps s ! i)\<lparr>capEnd := int (rpos s), capSet := True\<rparr>"
  "j \<noteq> i \<Longrightarrow> rcaps (closeGroup i s) ! j = rcaps s ! j" "length (rcaps (closeGroup i s)) = length (rcaps s)"
  by (auto simp: closeGroup_def)

lemma open_ok: "capturesOk text st \<Longrightarrow> capturesOk text (openGroup i st)"
  unfolding capturesOk_def
proof (intro allI impI)
  fix j
  assume ok: "\<forall>j. 0 < j \<and> j < length (rcaps st) \<longrightarrow> captureOk text (rcaps st ! j)"
    and j: "0 < j \<and> j < length (rcaps (openGroup i st))"
  show "captureOk text (rcaps (openGroup i st) ! j)"
    by (cases "j = i") (use ok j in \<open>simp_all add: open_nth captureOk_def\<close>)
qed

lemma grows_group:
  assumes e: "grows text (openGroup i st) s"
  shows "grows text st (closeGroup i s)"
proof (cases "0 < i")
  case False
  then show ?thesis using e by (simp add: openGroup_def closeGroup_def)
next
  case True
  have start: "capStart (rcaps s ! j) = capStart (rcaps (openGroup i st) ! j) \<or>
      int (rpos st) \<le> capStart (rcaps s ! j) \<and> capStart (rcaps s ! j) \<le> int (rpos s)" if "j < length (rcaps st)" for j
    using e that by (auto simp: grows_def open_nth)
  have pos: "rpos st \<le> rpos s" "rpos s \<le> length text" "length (rcaps s) = length (rcaps st)"
    using e by (auto simp: grows_def open_nth)
  have own: "int (rpos st) \<le> capStart (rcaps s ! i) \<and> capStart (rcaps s ! i) \<le> int (rpos s)" if "i < length (rcaps st)"
    using start [OF that] pos that True by (auto simp: open_nth)
  have "captureOk text (rcaps (closeGroup i s) ! j)"
    if ok: "capturesOk text st" and j: "0 < j" "j < length (rcaps st)" for j
  proof (cases "j = i")
    case True
    then show ?thesis using own j pos by (simp add: close_nth captureOk_def)
  next
    case False
    have "capturesOk text s" using e open_ok [OF ok] by (simp add: grows_def)
    then show ?thesis using False j pos by (simp add: close_nth capturesOk_def)
  qed
  moreover have "capStart (rcaps (closeGroup i s) ! j) = capStart (rcaps st ! j) \<or>
      int (rpos st) \<le> capStart (rcaps (closeGroup i s) ! j) \<and> capStart (rcaps (closeGroup i s) ! j) \<le> int (rpos s)"
    if "j < length (rcaps st)" for j
    by (cases "j = i") (use own start [OF that] that True pos in \<open>auto simp: close_nth open_nth\<close>)
  ultimately show ?thesis using pos by (simp add: grows_def close_nth capturesOk_def)
qed

lemma repeatAll_grows:
  assumes f: "\<And>s t. rpos s \<le> length text \<Longrightarrow> t \<in> set (f s) \<Longrightarrow> grows text s t"
    and "rpos s \<le> length text" "t \<in> set (repeatAll text f mn mx g s count)"
  shows "grows text s t"
  using assms(2,3)
proof (induction "length text - rpos s" arbitrary: s count rule: less_induct)
  case less
  from less.prems(2) consider "t = s"
    | ns where "ns \<in> set (f s)" "rpos s < rpos ns" "rpos ns \<le> length text" "t \<in> set (repeatAll text f mn mx g ns (count + 1))"
    by (subst (asm) repeatAll.simps) (auto split: if_splits)
  then show ?case
  proof cases
    case 1
    then show ?thesis using grows_refl less.prems(1) by simp
  next
    case 2
    have "grows text ns t" by (rule less.hyps [OF _ 2(3,4)]) (use 2 in auto)
    then show ?thesis by (rule grows_trans [OF f [OF less.prems(1) 2(1)]])
  qed
qed

lemma possessiveAll_grows:
  assumes f: "\<And>s t. rpos s \<le> length text \<Longrightarrow> t \<in> set (f s) \<Longrightarrow> grows text s t" and "rpos cur \<le> length text"
  shows "grows text cur (fst (possessiveAll text f mx cur c))"
  using assms(2)
proof (induction "length text - rpos cur" arbitrary: cur c rule: less_induct)
  case less
  show ?case
  proof (cases "reached mx c \<or> f cur = [] \<or> \<not> (rpos cur < rpos (hd (f cur)) \<and> rpos (hd (f cur)) \<le> length text)")
    case True
    then show ?thesis using grows_refl less.prems by (simp add: possessiveAll.simps [of "text" f mx cur])
  next
    case False
    then have step: "possessiveAll text f mx cur c = possessiveAll text f mx (hd (f cur)) (c + 1)"
      by (subst possessiveAll.simps) simp
    have "grows text (hd (f cur)) (fst (possessiveAll text f mx (hd (f cur)) (c + 1)))"
      by (rule less.hyps) (use False in auto)
    moreover have "grows text cur (hd (f cur))" using f [OF less.prems, of "hd (f cur)"] False by simp
    ultimately show ?thesis unfolding step by (rule grows_trans [rotated])
  qed
qed

lemma sequence_grows:
  assumes "\<And>n s t. n \<in> set ns \<Longrightarrow> rpos s \<le> length text \<Longrightarrow> t \<in> set (results text n s) \<Longrightarrow> grows text s t"
    and "rpos s \<le> length text" "t \<in> set (sequenceResults (map (results text) ns) s)"
  shows "grows text s t"
  using assms
proof (induction ns arbitrary: s)
  case (Cons n ns)
  obtain u where u: "u \<in> set (results text n s)" "t \<in> set (sequenceResults (map (results text) ns) u)"
    using Cons.prems(3) by auto
  have e: "grows text s u" using Cons.prems(1) [of n s u] Cons.prems(2) u(1) by simp
  have "grows text u t" by (rule Cons.IH [OF Cons.prems(1) grows_end [OF e] u(2)]) simp_all
  then show ?case by (rule grows_trans [OF e])
qed (simp add: grows_refl)

lemma results_evolve: "rpos st \<le> length text \<Longrightarrow> s \<in> set (results text n st) \<Longrightarrow> grows text st s"
proof (induction n arbitrary: st s)
  case (Sequence ns)
  show ?case by (rule sequence_grows [OF Sequence.IH Sequence.prems(1)]) (use Sequence.prems(2) in auto)
next
  case (Quantifier mn mx g p n)
  obtain c where c: "possessiveAll text (results text n) mx st 0 = (fst (possessiveAll text (results text n) mx st 0), c)"
    by (metis prod.collapse)
  show ?case
  proof (cases p)
    case True
    then have "s = fst (possessiveAll text (results text n) mx st 0)"
      using Quantifier.prems(2) by (subst (asm) results.simps, subst (asm) repeatResults_def, subst (asm) c) (auto split: if_splits)
    then show ?thesis using possessiveAll_grows [OF Quantifier.IH Quantifier.prems(1)] by simp
  next
    case False
    then have "s \<in> set (repeatAll text (results text n) mn mx g st 0)" using Quantifier.prems(2) by (simp add: repeatResults_def)
    from repeatAll_grows [OF Quantifier.IH Quantifier.prems(1) this] show ?thesis .
  qed
next
  case (Group i n)
  then obtain t where t: "t \<in> set (results text n (openGroup i st))" "s = closeGroup i t" by auto
  show ?case unfolding t(2) by (rule grows_group, rule Group.IH [OF _ t(1)]) (simp add: Group.prems(1))
next
  case (NamedGroup i nm n)
  then obtain t where t: "t \<in> set (results text n (openGroup i st))" "s = closeGroup i t" by auto
  show ?case unfolding t(2) by (rule grows_group, rule NamedGroup.IH [OF _ t(1)]) (simp add: NamedGroup.prems(1))
next
  case (Literal l)
  then show ?case
    by (auto simp: matchLiteral_def intro!: grows_advance split: if_splits option.splits dest: decodeUtf8_width [OF sym])
next
  case (Backreference i nm)
  then show ?case by (auto simp: matchBackreference_def Let_def intro!: grows_advance split: if_splits)
next
  case (AtomicGroup n)
  then show ?case by (auto dest: in_set_takeD)
qed (auto simp: matchOne_def grows_refl intro!: grows_advance split: if_splits option.splits
    dest: decodeUtf8_width [OF sym])

lemma initial_ok: "capturesOk text (initialState ast p pos)"
  by (auto simp: capturesOk_def captureOk_def initialState_def makeCaps_def)

lemma attempt_grows:
  assumes "matchNode B text ast (initialState ast p pos) 0 0 = Inr (rs, k)" "pos \<le> length text" "s \<in> set rs"
  shows "grows text (initialState ast p pos) s"
  by (rule results_evolve) (use assms(2,3) attempt_results [OF assms(1,2)] in \<open>simp_all add: initialState_def\<close>)

lemma attempt_winner:
  assumes "matchNode B text ast (initialState ast p pos) 0 0 = Inr (rs, k)" "pos \<le> length text" "s \<in> set rs"
  shows "pos \<le> rpos s" "rpos s \<le> length text" "rcaps s \<noteq> []" "capturesOk text s"
  using attempt_grows [OF assms] initial_ok [of "text" ast p pos]
  by (auto simp: grows_def initialState_def makeCaps_def)

text \<open>C16: Captures are stretches of the text: in every result of an attempt at a position, each set capture, with the one
  of the whole match filled in, starts at or after 0, ends at or after its start and inside the text, so the
  sub-strings that become the groups of a match are never taken out of range.\<close>

theorem captures_in_range:
  assumes "pos \<le> length text" "matchNode B text ast (initialState ast p pos) 0 0 = Inr (rs, k)"
  shows "\<forall>s \<in> set rs. \<forall>c \<in> set (rcaps (wholeMatch pos s)). captureOk text c"
proof (intro ballI)
  fix s c
  assume s: "s \<in> set rs" and c: "c \<in> set (rcaps (wholeMatch pos s))"
  note w = attempt_winner [OF assms(2,1) s]
  obtain i where i: "i < length (rcaps s)" "c = rcaps (wholeMatch pos s) ! i"
    using c by (auto simp: in_set_conv_nth wholeMatch_def)
  show "captureOk text c"
    by (cases "i = 0") (use i w in \<open>auto simp: wholeMatch_def captureOk_def capturesOk_def\<close>)
qed

theorem captures_in_range_witness:
  "captureOk ''a'' \<lparr>capStart = 0, capEnd = 1, capSet = True\<rparr>"
proof -
  let ?s = "\<lparr>rpos = 1, rcaps = [\<lparr>capStart = 0, capEnd = -1, capSet = True\<rparr>, \<lparr>capStart = 0, capEnd = 1, capSet = True\<rparr>]\<rparr>"
  have "matchNode engineLimits ''a'' (Group 1 (Literal ''a'')) (initialState (Group 1 (Literal ''a'')) 0 0) 0 0 = Inr ([?s], 2)"
    by (simp add: engineLimits_def ticket_def bindB_def pass_def initialState_def makeCaps_def openGroup_def
      closeGroup_def matchLiteral_def decodeUtf8_def utf8Width_def advanceBy_def numeral_2_eq_2)
  from captures_in_range [OF _ this] show ?thesis by (simp add: wholeMatch_def)
qed

subsection \<open>The first match\<close>

lemma materialize_whole:
  assumes "rcaps s \<noteq> []" "p \<le> rpos s"
  shows "matched (materialize text (wholeMatch p s))" "mstart (materialize text (wholeMatch p s)) = p"
    "mend (materialize text (wholeMatch p s)) = rpos s" "groups (materialize text (wholeMatch p s)) \<noteq> []"
    "groups (materialize text (wholeMatch p s)) ! 0 = substr text p (rpos s - p)"
  using assms by (cases "rcaps s"; simp add: materialize_def wholeMatch_def Let_def nat_diff_distrib)+

text \<open>An attempt that succeeds, and one that fails.\<close>

definition attempt :: "node \<Rightarrow> string \<Rightarrow> nat \<Rightarrow> rstate list" where
  "attempt ast text pos = results text ast (initialState ast 0 pos)"

lemma matchFrom_spec:
  assumes "matchFrom B ast text True pos = Inr r"
  shows "if matched r
    then pos \<le> mstart r \<and> mstart r \<le> length text \<and> (\<exists>s rest. attempt ast text (mstart r) = s # rest \<and> mend r = rpos s) \<and>
         (\<forall>i. pos \<le> i \<and> i < mstart r \<longrightarrow> attempt ast text i = [])
    else \<forall>i. pos \<le> i \<and> i \<le> length text \<longrightarrow> attempt ast text i = []"
  using assms
proof (induction "Suc (length text) - pos" arbitrary: pos rule: less_induct)
  case less
  show ?case
  proof (cases "length text < pos")
    case True
    then show ?thesis using less.prems by (auto simp: matchFrom.simps [of B ast "text" True pos] noMatch_def)
  next
    case False
    then have le: "pos \<le> length text" by simp
    obtain rs k where m: "matchNode B text ast (initialState ast 0 pos) 0 0 = Inr (rs, k)"
      using less.prems False by (auto simp: matchFrom.simps [of B ast "text" True pos] split: sum.splits)
    have rs: "attempt ast text pos = rs" using attempt_results [OF m le] by (simp add: attempt_def)
    show ?thesis
    proof (cases rs)
      case (Cons s rest)
      note w = attempt_winner [OF m le, of s]
      have "r = materialize text (wholeMatch pos s)"
        using less.prems False m Cons by (simp add: matchFrom.simps [of B ast "text" True pos])
      then show ?thesis using materialize_whole [of s pos "text"] w rs Cons le by auto
    next
      case Nil
      have "matchFrom B ast text True (pos + 1) = Inr r"
        using less.prems False m Nil by (simp add: matchFrom.simps [of B ast "text" True pos])
      then have IH: "if matched r
        then pos + 1 \<le> mstart r \<and> mstart r \<le> length text \<and> (\<exists>s rest. attempt ast text (mstart r) = s # rest \<and> mend r = rpos s) \<and>
             (\<forall>i. pos + 1 \<le> i \<and> i < mstart r \<longrightarrow> attempt ast text i = [])
        else \<forall>i. pos + 1 \<le> i \<and> i \<le> length text \<longrightarrow> attempt ast text i = []"
        by (rule less.hyps [rotated]) (use le in simp)
      have first: "attempt ast text i = []" if "pos \<le> i" "\<not> pos + 1 \<le> i" for i
        using that rs Nil by (cases "i = pos") auto
      show ?thesis
      proof (cases "matched r")
        case True
        then show ?thesis using IH first by (simp, meson)
      next
        case False
        then show ?thesis using IH first by (simp, meson)
      qed
    qed
  qed
qed

lemma attempt_plain:
  assumes "plain ast" "pos \<le> length text"
  shows "rpos ` set (attempt ast text pos) = spans text ast `` {pos}"
  using realizesD [OF plain_realizes [OF assms(1)], of "initialState ast 0 pos" "text"] assms(2)
  by (simp add: attempt_def initialState_def)

lemma attempt_empty: "plain ast \<Longrightarrow> pos \<le> length text \<Longrightarrow> attempt ast text pos = [] \<longleftrightarrow> pos \<notin> Domain (spans text ast)"
proof -
  assume a: "plain ast" "pos \<le> length text"
  have "attempt ast text pos = [] \<longleftrightarrow> rpos ` set (attempt ast text pos) = {}" by simp
  also have "\<dots> \<longleftrightarrow> pos \<notin> Domain (spans text ast)" unfolding attempt_plain [OF a] by blast
  finally show ?thesis .
qed

text \<open>C4: A search for a plain pattern finds the leftmost match: when it ends within its budgets, a match it returns spans
  two positions that the pattern's relation relates and no match starts further left; when it reports no match,
  the pattern matches nowhere in the text.\<close>

theorem match_leftmost:
  assumes "plain ast" "matchPattern B ast text True = Inr r"
  shows "if matched r
    then (mstart r, mend r) \<in> spans text ast \<and> mend r \<le> length text \<and> (\<forall>i < mstart r. i \<notin> Domain (spans text ast))
    else \<forall>i \<le> length text. i \<notin> Domain (spans text ast)"
proof (cases "matched r")
  case True
  then obtain s rest where s: "mstart r \<le> length text" "attempt ast text (mstart r) = s # rest" "mend r = rpos s"
      "\<And>i. i < mstart r \<Longrightarrow> attempt ast text i = []"
    using matchFrom_spec [OF assms(2) [unfolded matchPattern_def]] by auto
  have "mend r \<in> rpos ` set (attempt ast text (mstart r))" using s(2,3) by simp
  then have "(mstart r, mend r) \<in> spans text ast" unfolding attempt_plain [OF assms(1) s(1)] by simp
  moreover have "mend r \<le> length text"
    using node.forward [of "initialState ast 0 (mstart r)" "text" s ast] s(1-3) by (simp add: attempt_def initialState_def)
  moreover have "\<forall>i < mstart r. i \<notin> Domain (spans text ast)"
    using s(1,4) attempt_empty [OF assms(1)] by (meson less_imp_le order.trans)
  ultimately show ?thesis using True by simp
next
  case False
  then show ?thesis
    using matchFrom_spec [OF assms(2) [unfolded matchPattern_def]] attempt_empty [OF assms(1)] by auto
qed

lemmas run_simps = engineLimits_def ticket_def bindB_def pass_def initialState_def makeCaps_def openGroup_def
  closeGroup_def matchLiteral_def decodeUtf8_def utf8Width_def advanceBy_def wholeMatch_def materialize_def
  repeatNode_def repeatRec.simps reached_def substr_def noMatch_def

lemma search_run:
  "matchPattern engineLimits (Literal ''b'') ''ab'' True =
     Inr \<lparr>matched = True, mstart = 1, mend = 2, groups = [''b''], groupMatched = [True]\<rparr>"
  by (simp add: matchPattern_def matchFrom.simps run_simps)

theorem match_leftmost_witness:
  "(1, 2) \<in> spans ''ab'' (Literal ''b'') \<and> 0 \<notin> Domain (spans ''ab'' (Literal ''b''))"
  using match_leftmost [OF _ search_run] by (simp add: decodeUtf8_def utf8Width_def)

subsection \<open>All matches\<close>

lemma matchAllFrom_spec:
  assumes "matchAllFrom B ast text start = Inr ms"
  shows "sorted_wrt (\<lambda>m m'. mstart m < mstart m' \<and> mend m \<le> mstart m') ms \<and>
    (\<forall>m \<in> set ms. start \<le> mstart m \<and> mstart m \<le> mend m \<and> mend m \<le> length text \<and>
       groups m \<noteq> [] \<and> groups m ! 0 = substr text (mstart m) (mend m - mstart m)) \<and>
    (\<forall>i. start \<le> i \<and> i \<le> length text \<and> results text ast (initialState ast i i) \<noteq> [] \<longrightarrow>
       (\<exists>m \<in> set ms. mstart m \<le> i \<and> i < nextStart m))"
  using assms
proof (induction "Suc (length text) - start" arbitrary: start ms rule: less_induct)
  case less
  show ?case
  proof (cases "length text < start")
    case True
    then show ?thesis using less.prems by (auto simp: matchAllFrom.simps [of B ast "text" start])
  next
    case False
    then have le: "start \<le> length text" by simp
    obtain rs k where m: "matchNode B text ast (initialState ast start start) 0 0 = Inr (rs, k)"
      using less.prems False by (auto simp: matchAllFrom.simps [of B ast "text" start] split: sum.splits)
    have rs: "results text ast (initialState ast start start) = rs" using attempt_results [OF m le] by simp
    show ?thesis
    proof (cases rs)
      case Nil
      have "matchAllFrom B ast text (start + 1) = Inr ms"
        using less.prems False m Nil by (simp add: matchAllFrom.simps [of B ast "text" start])
      note IH = less.hyps [OF _ this]
      have "start + 1 \<le> i" if "start \<le> i" "results text ast (initialState ast i i) \<noteq> []" for i
        using that rs Nil by (cases "i = start") auto
      then show ?thesis using IH le by fastforce
    next
      case (Cons s rest)
      note w = attempt_winner [OF m le, of s, unfolded Cons, simplified]
      define r where "r = materialize text (wholeMatch start s)"
      have r: "mstart r = start" "mend r = rpos s" "groups r \<noteq> []" "groups r ! 0 = substr text start (rpos s - start)"
        using materialize_whole [of s start "text"] w by (simp_all add: r_def)
      have next': "start < nextStart r" "mend r \<le> nextStart r" using r w by (auto simp: nextStart_def)
      obtain ms' where ms': "matchAllFrom B ast text (nextStart r) = Inr ms'" "ms = r # ms'"
        using less.prems False m Cons
        by (auto simp: matchAllFrom.simps [of B ast "text" start] r_def Let_def split: sum.splits)
      note IH = less.hyps [OF _ ms'(1)]
      have tail: "sorted_wrt (\<lambda>m m'. mstart m < mstart m' \<and> mend m \<le> mstart m') ms'"
        "\<And>m. m \<in> set ms' \<Longrightarrow> nextStart r \<le> mstart m \<and> mstart m \<le> mend m \<and> mend m \<le> length text \<and>
           groups m \<noteq> [] \<and> groups m ! 0 = substr text (mstart m) (mend m - mstart m)"
        "\<And>i. nextStart r \<le> i \<Longrightarrow> i \<le> length text \<Longrightarrow> results text ast (initialState ast i i) \<noteq> [] \<Longrightarrow>
           \<exists>m \<in> set ms'. mstart m \<le> i \<and> i < nextStart m"
        using IH le next' by auto
      have ex: "\<exists>m \<in> set ms. mstart m \<le> i \<and> i < nextStart m"
        if "start \<le> i" "i \<le> length text" "results text ast (initialState ast i i) \<noteq> []" for i
        using tail(3) [of i] that r(1) ms'(2) by (cases "i < nextStart r") auto
      have el: "start \<le> mstart m \<and> mstart m \<le> mend m \<and> mend m \<le> length text \<and> groups m \<noteq> [] \<and>
          groups m ! 0 = substr text (mstart m) (mend m - mstart m)" if "m \<in> set ms" for m
        using that tail(2) [of m] r w next' ms'(2) by auto
      have "sorted_wrt (\<lambda>m m'. mstart m < mstart m' \<and> mend m \<le> mstart m') ms"
        using tail(1) tail(2) r(1) next' ms'(2) by fastforce
      then show ?thesis using ex el by blast
    qed
  qed
qed

text \<open>C15: All matches are listed from left to right without overlap, each inside the text and with its stretch of the text
  as group 0; and no match is missed: a position where an attempt succeeds lies between the start of a listed
  match and where the scan goes on after it.\<close>

theorem matchAll_ordered:
  assumes "matchAll B ast text = Inr ms"
  shows "sorted_wrt (\<lambda>m m'. mstart m < mstart m' \<and> mend m \<le> mstart m') ms \<and>
    (\<forall>m \<in> set ms. mstart m \<le> mend m \<and> mend m \<le> length text \<and> groups m ! 0 = substr text (mstart m) (mend m - mstart m)) \<and>
    (\<forall>i \<le> length text. results text ast (initialState ast i i) \<noteq> [] \<longrightarrow> (\<exists>m \<in> set ms. mstart m \<le> i \<and> i < nextStart m))"
  using matchAllFrom_spec [OF assms [unfolded matchAll_def]] by auto

lemma all_run:
  "matchAll engineLimits (Literal ''a'') ''aba'' =
     Inr [\<lparr>matched = True, mstart = 0, mend = 1, groups = [''a''], groupMatched = [True]\<rparr>,
          \<lparr>matched = True, mstart = 2, mend = 3, groups = [''a''], groupMatched = [True]\<rparr>]"
  by (simp add: matchAll_def matchAllFrom.simps run_simps nextStart_def numeral_2_eq_2)

theorem matchAll_ordered_witness:
  "results ''aba'' (Literal ''a'') (initialState (Literal ''a'') 1 1) = []"
proof -
  have "results ''aba'' (Literal ''a'') (initialState (Literal ''a'') 1 1) \<noteq> [] \<Longrightarrow> False"
    using matchAll_ordered [OF all_run, THEN conjunct2, THEN conjunct2, rule_format, of 1]
    by (auto simp: nextStart_def)
  then show ?thesis by blast
qed

subsection \<open>Replacement\<close>

lemma substr_append: "a \<le> b \<Longrightarrow> b \<le> c \<Longrightarrow> substr text a (b - a) @ substr text b (c - b) @ drop c text = drop a text"
  by (simp add: substr_def) (metis append_take_drop_id drop_drop le_add_diff_inverse2)

lemma replaceMatches_same:
  assumes "\<And>m. m \<in> set ms \<Longrightarrow> mstart m \<le> mend m \<and> e m = substr text (mstart m) (mend m - mstart m)"
  shows "replaceMatches e text cur ms = drop cur text"
  using assms
proof (induction ms arbitrary: cur)
  case (Cons m ms)
  show ?case
  proof (cases "mstart m < cur")
    case False
    then have "replaceMatches e text cur (m # ms) =
        substr text cur (mstart m - cur) @ substr text (mstart m) (mend m - mstart m) @ drop (mend m) text"
      using Cons.IH [of "mend m"] Cons.prems by simp
    also have "\<dots> = drop cur text" by (rule substr_append) (use False Cons.prems in auto)
    finally show ?thesis .
  qed (use Cons in simp)
qed simp

lemma expand_whole: "groups m \<noteq> [] \<Longrightarrow> expand names m ''$0'' = groups m ! 0"
  by (simp add: is_digit_def digits_val_def digit_val_def Let_def)

text \<open>C31: Replacing every match by itself (\<open>$0\<close>) gives the text back, for every pattern and text whose search ends within
  its budgets.\<close>

theorem replace_identity:
  assumes "matchAll B ast text = Inr ms"
  shows "replace B ast text ''$0'' = Inr text"
proof -
  have "replaceMatches (\<lambda>m. expand (captureNameMap ast) m ''$0'') text 0 ms = drop 0 text"
    by (rule replaceMatches_same) (use matchAllFrom_spec [OF assms [unfolded matchAll_def]] expand_whole in auto)
  then show ?thesis using assms by (simp add: replace_def)
qed

theorem replace_identity_witness: "replace engineLimits (Literal ''a'') ''aba'' ''$0'' = Inr ''aba''"
  by (rule replace_identity) (rule all_run)

section \<open>Deviations\<close>

text \<open>A repetition skips iterations that match nothing even when they are required, so a quantifier with a minimum fails on
  the empty string although its body matches there: \<open>(a*)+\<close> does not match an empty text.\<close>

theorem empty_iterations_not_counted:
  "matchPattern engineLimits (Quantifier 1 None True False (Quantifier 0 None True False (Literal ''a''))) [] True = Inr noMatch \<and>
   (0, 0) \<in> spans [] (Quantifier 1 None True False (Quantifier 0 None True False (Literal ''a'')))"
proof
  show "matchPattern engineLimits (Quantifier 1 None True False (Quantifier 0 None True False (Literal ''a''))) [] True = Inr noMatch"
    by (simp add: matchPattern_def matchFrom.simps run_simps)
  have "(0, 0) \<in> spans [] (Quantifier 0 None True False (Literal ''a''))"
    by (auto simp: allowed_def intro!: exI [of _ 0])
  then show "(0, 0) \<in> spans [] (Quantifier 1 None True False (Quantifier 0 None True False (Literal ''a'')))"
    unfolding spans.simps(13) [of _ 1] by (intro UN_I [of "Suc 0"]) (simp_all add: allowed_def)
qed

definition eacute :: string where
  "eacute = encodeUtf8 0xE9"

lemma eacute_bytes: "eacute = [CHR 0xC3, CHR 0xA9]"
  using char_of_eqI [of "CHR 0xC3" 195] char_of_eqI [of "CHR 0xA9" 169]
  by (simp add: eacute_def encodeUtf8_def continuation_def)

text \<open>The width of a look-behind counts characters, but the matcher goes back that many bytes: after a two-byte character
  the look-behind for this very character fails, and its negation succeeds.\<close>

theorem lookbehind_counts_bytes:
  "matchNode engineLimits eacute (Lookbehind (Literal eacute)) \<lparr>rpos = 2, rcaps = makeCaps 0\<rparr> 0 0 = Inr ([], 2) \<and>
   matchNode engineLimits eacute (NegativeLookbehind (Literal eacute)) \<lparr>rpos = 2, rcaps = makeCaps 0\<rparr> 0 0 =
     Inr ([\<lparr>rpos = 2, rcaps = makeCaps 0\<rparr>], 2) \<and>
   (0, 2) \<in> spans eacute (Literal eacute)"
  by (simp add: eacute_bytes run_simps matchLookbehind_def lookbehindStart_def endsAt_def numeral_2_eq_2)

text \<open>After an empty match the scan goes on at the next byte, so an empty pattern also matches inside a character.\<close>

theorem matchAll_splits_characters:
  "map_sum id (map mstart) (matchAll engineLimits (Sequence []) eacute) = Inr [0, 1, 2]"
  by (simp add: eacute_bytes matchAll_def matchAllFrom.simps run_simps nextStart_def numeral_2_eq_2)

text \<open>Inside brackets the escapes for form feed and vertical tab stand for the letters f and v, outside for the controls; and a
  hyphen before the closing bracket ends the reading of the class, the character before it included.\<close>

theorem class_escapes_differ:
  "escapeAtom [CHR 0x5C, CHR ''f''] 12 \<and> \<not> classAtom [CHR ''['', CHR 0x5C, CHR ''f'', CHR '']''] 12 \<and>
   classAtom [CHR ''['', CHR 0x5C, CHR ''f'', CHR '']''] (code (CHR ''f'')) \<and>
   \<not> classAtom ''[a-]'' (code (CHR ''a'')) \<and> \<not> classAtom ''[a-]'' (code (CHR ''-''))"
  by (simp add: escapeAtom_def classAtom_def classLoop.simps escapeClass_def decodeUtf8_def utf8Width_def Let_def)

end
