(* ===== verification/Rx_Natives.thy ===== *)
theory Rx_Natives
  imports Rx_Parser Rx_Search
begin

text \<open>
  The regular-expression functions of the standard library (\<^verbatim>\<open>Text.regexMatches\<close> and its siblings in
  \<^verbatim>\<open>src/vm/native.cpp\<close>): they parse the pattern, run the engine within its limits, and prefix the text of every
  error.
\<close>

section \<open>The library functions\<close>

definition budgetText :: "budgetError \<Rightarrow> string" where
  "budgetText e =
     ''match budget exceeded ('' @ (case e of TooManySteps \<Rightarrow> ''too many steps'' | TooDeep \<Rightarrow> ''recursion too deep'') @
     ''): the pattern backtracks pathologically or the input is too large for this engine''"

definition regexError :: "string \<Rightarrow> string \<Rightarrow> string" where
  "regexError fnName what = ''RegexError: '' @ fnName @ '': '' @ what"

text \<open>Parsing the pattern and running the engine on it.\<close>

definition withPattern :: "string \<Rightarrow> string \<Rightarrow> (pattern \<Rightarrow> budgetError + 'a) \<Rightarrow> string + 'a" where
  "withPattern fnName source run =
     (case parse source of
        Inl e \<Rightarrow> Inl (regexError fnName (errorText source e))
      | Inr p \<Rightarrow> map_sum (\<lambda>e. regexError fnName (budgetText e)) id (run p))"

definition textRegexMatches :: "limits \<Rightarrow> string \<Rightarrow> string \<Rightarrow> string + bool" where
  "textRegexMatches B text source =
     withPattern ''Text.regexMatches'' source (\<lambda>p. map_sum id matched (matchPattern B (patRoot p) text True))"

definition textRegexFullMatches :: "limits \<Rightarrow> string \<Rightarrow> string \<Rightarrow> string + bool" where
  "textRegexFullMatches B text source =
     withPattern ''Text.regexFullMatches'' source
       (\<lambda>p. map_sum id (\<lambda>r. matched r \<and> mstart r = 0 \<and> mend r = length text) (matchPattern B (patRoot p) text False))"

definition textRegexFindAll :: "limits \<Rightarrow> string \<Rightarrow> string \<Rightarrow> string + string list" where
  "textRegexFindAll B text source =
     withPattern ''Text.regexFindAll'' source
       (\<lambda>p. map_sum id (map (\<lambda>m. if groups m = [] then substr text (mstart m) (mend m - mstart m) else groups m ! 0))
              (matchAll B (patRoot p) text))"

definition textRegexReplace :: "limits \<Rightarrow> string \<Rightarrow> string \<Rightarrow> string \<Rightarrow> string + string" where
  "textRegexReplace B text source repl =
     withPattern ''Text.regexReplace'' source (\<lambda>p. replace B (patRoot p) text repl)"

record regexMatch =
  mvalue :: string
  mfrom :: nat
  mto :: nat
  mgroups :: "string list"
  mmatched :: "bool list"
  mnamedGroups :: "(string \<times> string) list"
  mnamedMatched :: "(string \<times> bool) list"

primrec collectRegexNames :: "node \<Rightarrow> (nat \<times> string) list" where
  "collectRegexNames (Sequence ns) = concat (map collectRegexNames ns)"
| "collectRegexNames (Alternation ns) = concat (map collectRegexNames ns)"
| "collectRegexNames (Literal l) = []"
| "collectRegexNames (Escape e) = []"
| "collectRegexNames (CharacterClass c) = []"
| "collectRegexNames Any = []"
| "collectRegexNames (Group i n) = collectRegexNames n"
| "collectRegexNames (NamedGroup i nm n) = (if 0 < i \<and> nm \<noteq> [] then [(i, nm)] else []) @ collectRegexNames n"
| "collectRegexNames (AtomicGroup n) = collectRegexNames n"
| "collectRegexNames (Backreference i nm) = []"
| "collectRegexNames AnchorStart = []"
| "collectRegexNames AnchorEnd = []"
| "collectRegexNames (Quantifier mn mx g p n) = collectRegexNames n"
| "collectRegexNames (Lookahead n) = collectRegexNames n"
| "collectRegexNames (NegativeLookahead n) = collectRegexNames n"
| "collectRegexNames (Lookbehind n) = collectRegexNames n"
| "collectRegexNames (NegativeLookbehind n) = collectRegexNames n"

definition makeRegexMatchObject :: "string \<Rightarrow> matchResult \<Rightarrow> node \<Rightarrow> regexMatch" where
  "makeRegexMatchObject text m ast =
     (let names = filter (\<lambda>(i, nm). i < length (groups m)) (collectRegexNames ast);
          flag = (\<lambda>i. i < length (groupMatched m) \<and> groupMatched m ! i)
      in \<lparr>mvalue = (if groups m = [] then substr text (mstart m) (mend m - mstart m) else groups m ! 0),
          mfrom = mstart m, mto = mend m, mgroups = groups m, mmatched = map flag [0..<length (groups m)],
          mnamedGroups = map (\<lambda>(i, nm). (nm, groups m ! i)) names,
          mnamedMatched = map (\<lambda>(i, nm). (nm, flag i)) names\<rparr>)"

definition textRegexFind :: "limits \<Rightarrow> string \<Rightarrow> string \<Rightarrow> string + regexMatch option" where
  "textRegexFind B text source =
     withPattern ''Text.regexFind'' source
       (\<lambda>p. map_sum id (\<lambda>m. if matched m then Some (makeRegexMatchObject text m (patRoot p)) else None)
              (matchPattern B (patRoot p) text True))"

definition textRegexFindMatches :: "limits \<Rightarrow> string \<Rightarrow> string \<Rightarrow> string + regexMatch list" where
  "textRegexFindMatches B text source =
     withPattern ''Text.regexFindMatches'' source
       (\<lambda>p. map_sum id (map (\<lambda>m. makeRegexMatchObject text m (patRoot p))) (matchAll B (patRoot p) text))"

section \<open>Properties\<close>

text \<open>The patterns the relational semantics describes, among the parsed ones: no back-references, atomic groups, possessive
  quantifiers or look-behinds, and a consuming body where a repetition is required.\<close>

definition supported :: "node \<Rightarrow> bool" where
  "supported n \<longleftrightarrow> (case n of
       AtomicGroup m \<Rightarrow> False
     | Backreference i nm \<Rightarrow> False
     | Lookbehind m \<Rightarrow> False
     | NegativeLookbehind m \<Rightarrow> False
     | Quantifier mn mx g p m \<Rightarrow> \<not> p \<and> (mn = 0 \<or> consuming m)
     | _ \<Rightarrow> True)"

lemma supported_plain: "everywhere (node_ok c names) n \<Longrightarrow> everywhere supported n \<Longrightarrow> plain n"
  by (induction n) (auto simp: node_ok_def supported_def list_all_iff split: option.splits)

lemma parsed_plain: "parse source = Inr p \<Longrightarrow> everywhere supported (patRoot p) \<Longrightarrow> plain (patRoot p)"
  using parsed_ok supported_plain by blast

lemma search_decides:
  assumes "plain ast" "matchPattern B ast text True = Inr r"
  shows "matched r \<longleftrightarrow> (\<exists>i \<le> length text. i \<in> Domain (spans text ast))"
proof (cases "matched r")
  case True
  then obtain s rest where s: "mstart r \<le> length text" "attempt ast text (mstart r) = s # rest"
    using matchFrom_spec [OF assms(2) [unfolded matchPattern_def]] by auto
  then show ?thesis using True attempt_empty [OF assms(1) s(1)] by auto
next
  case False
  then show ?thesis
    using matchFrom_spec [OF assms(2) [unfolded matchPattern_def]] attempt_empty [OF assms(1)] by auto
qed

lemma matchPattern_first:
  assumes "matchPattern B ast text False = Inr r" "matched r"
  shows "mstart r = 0 \<and> (\<exists>s rest. attempt ast text 0 = s # rest \<and> mend r = rpos s)"
proof -
  obtain rs k where m: "matchNode B text ast (initialState ast 0 0) 0 0 = Inr (rs, k)"
    using assms(1) by (auto simp: matchPattern_def matchFrom.simps [of B ast "text" False 0] split: sum.splits)
  then have rs: "attempt ast text 0 = rs" using attempt_results [OF m] by (simp add: attempt_def)
  show ?thesis
  proof (cases rs)
    case Nil
    then show ?thesis using assms m by (auto simp: matchPattern_def matchFrom.simps [of B ast "text" False 0] noMatch_def)
  next
    case (Cons s rest)
    have "r = materialize text (wholeMatch 0 s)"
      using assms(1) m Cons by (simp add: matchPattern_def matchFrom.simps [of B ast "text" False 0])
    then show ?thesis using materialize_whole [of s 0 "text"] attempt_winner [OF m, of s] rs Cons by simp
  qed
qed

text \<open>C13: The tests of the library answer for the pattern's meaning: on a source that parses to a supported pattern, a test
  that does not run out of its budget says whether the pattern matches somewhere in the text, and a full test that
  says yes is right: the pattern's relation spans the whole text.\<close>

theorem regex_tests_sound:
  assumes "parse source = Inr p" "everywhere supported (patRoot p)"
  shows "(case textRegexMatches B text source of
      Inl e \<Rightarrow> True
    | Inr b \<Rightarrow> b \<longleftrightarrow> (\<exists>i \<le> length text. i \<in> Domain (spans text (patRoot p)))) \<and>
    (textRegexFullMatches B text source = Inr True \<longrightarrow> (0, length text) \<in> spans text (patRoot p))"
proof
  note pl = parsed_plain [OF assms]
  show "case textRegexMatches B text source of
      Inl e \<Rightarrow> True
    | Inr b \<Rightarrow> b \<longleftrightarrow> (\<exists>i \<le> length text. i \<in> Domain (spans text (patRoot p)))"
  proof (cases "matchPattern B (patRoot p) text True")
    case (Inr r)
    then show ?thesis using search_decides [OF pl Inr] assms(1) by (simp add: textRegexMatches_def withPattern_def)
  qed (use assms(1) in \<open>simp add: textRegexMatches_def withPattern_def\<close>)
  show "textRegexFullMatches B text source = Inr True \<longrightarrow> (0, length text) \<in> spans text (patRoot p)"
  proof
    assume "textRegexFullMatches B text source = Inr True"
    then obtain r where r: "matchPattern B (patRoot p) text False = Inr r" "matched r" "mend r = length text"
      using assms(1) by (auto simp: textRegexFullMatches_def withPattern_def)
    obtain s rest where s: "attempt (patRoot p) text 0 = s # rest" "mend r = rpos s"
      using matchPattern_first [OF r(1,2)] by blast
    have "length text \<in> rpos ` set (attempt (patRoot p) text 0)" using s r(3) by simp
    then show "(0, length text) \<in> spans text (patRoot p)" unfolding attempt_plain [OF pl le0] by simp
  qed
qed

lemma parse_choice:
  "parse ''a|ab'' = Inr \<lparr>patRoot = Alternation [Literal ''a'', Sequence [Literal ''a'', Literal ''b'']], canonical = ''a|ab''\<rparr>"
  by (simp add: parse_simps Let_def)

theorem regex_tests_sound_witness:
  "(0, 1) \<in> spans ''a'' (Alternation [Literal ''a'', Sequence [Literal ''a'', Literal ''b'']])"
proof -
  have "textRegexFullMatches engineLimits ''a'' ''a|ab'' = Inr True"
    by (simp add: textRegexFullMatches_def withPattern_def parse_choice matchPattern_def matchFrom.simps run_simps)
  then show ?thesis
    using regex_tests_sound [OF parse_choice, of "''a''" engineLimits] by (simp add: supported_def)
qed

text \<open>The full test takes only the first way in which the pattern matches at the start, so it misses a match of the whole text
  that the engine would find by backtracking: the first arm of \<open>a|ab\<close> matches the beginning of \<open>ab\<close>.\<close>

theorem full_match_misses:
  "textRegexFullMatches engineLimits ''ab'' ''a|ab'' = Inr False \<and>
   (0, 2) \<in> spans ''ab'' (Alternation [Literal ''a'', Sequence [Literal ''a'', Literal ''b'']])"
proof
  show "textRegexFullMatches engineLimits ''ab'' ''a|ab'' = Inr False"
    by (simp add: textRegexFullMatches_def withPattern_def parse_choice matchPattern_def matchFrom.simps run_simps numeral_2_eq_2)
  show "(0, 2) \<in> spans ''ab'' (Alternation [Literal ''a'', Sequence [Literal ''a'', Literal ''b'']])"
    by (auto simp: relcomp_unfold)
qed

text \<open>The canonical text of a non-capturing group is that of a capturing one, and a possessive plus is dropped, so reading it
  back gives a different pattern.\<close>

theorem canonical_loses_groups:
  "map_sum id canonical (parse ''(?:a)'') = Inr ''(a)'' \<and> map_sum id canonical (parse ''a*+'') = Inr ''a*'' \<and>
   map_sum id patRoot (parse ''(?:a)'') = Inr (Group 0 (Literal ''a'')) \<and>
   map_sum id patRoot (parse ''(a)'') = Inr (Group 1 (Literal ''a''))"
  by (simp add: parse_simps renderBounds_def Let_def)

end
