(* ===== verification/Spec2Isabelle.thy ===== *)
theory Spec2Isabelle
  imports Zl_Lexer Vm_Print Mir_Dominators Vm_Safepoint Sema_Overload Sema_Dispatch Rx_Natives
begin

text \<open>
  ZL is a programming language with a lexer and parser, a type checker, a mid-level intermediate
  representation (MIR) with its analyses and optimisations, a bytecode backend, and a runtime: a stack
  interpreter with boxed values, a tracing collector and cooperative tasks. This development models the
  parts whose correctness is a matter of algorithm. Paths below are relative to the repository root.

  \<^bold>\<open>How the parts interact.\<close> The lexer turns a source file into tokens. The compiler and the runtime share
  one grammar of type names. The semantic tables (classes, interfaces, their interned ids, the dispatch
  tables) are built once from the declarations; overload resolution consults them through the
  assignability of types. Lowering interns every type into an arena and every constant into the module's
  pool, and builds functions of blocks. The control-flow analysis computes reachability, order and
  dominators of a function; the effect analysis says what an instruction may do, and the constant
  evaluator replaces a pure instruction by its value; both must agree with what the interpreter does when
  the instruction is not optimised away. The interpreter computes on values, whose boxes are registered
  with the collector; tasks hold values, and so are roots and interior nodes of the collector's graph;
  the machines that run concurrently meet in a rendezvous before one of them traces. The library functions on
  regular expressions run a backtracking engine of their own over strings decoded from UTF-8.

  \<^bold>\<open>Theories.\<close>
  \<^item> \<open>Zl_Prelude\<close>: results that can be exceptions (\<open>'e + 'a\<close>), 64-bit integers as words, the character
    classes of \<^verbatim>\<open><cctype>\<close>, decimal text, generic list facts, the collections \<open>zl_defs\<close> and \<open>int64_simps\<close>.
  \<^item> \<open>Zl_Double\<close>: the C++ \<open>double\<close>: NaN, signed infinities and signed finite magnitudes as exact
    rationals on the binary64 grid, with correctly rounded operations and the conversions from and to integers.
  \<^item> \<open>Zl_Lexer\<close>: \<^verbatim>\<open>src/lexer/lexer.cpp\<close>. One definition per scanning function, on the remaining text with its
    position; a second half says what tokens a text has without a scanner.
  \<^item> \<open>Zl_Type_Name\<close>: \<^verbatim>\<open>src/common/type_name.cpp\<close>. The recursive-descent parser takes fuel; one more than
    the length of the text is always enough (\<open>parseTypeName_total\<close>).
  \<^item> \<open>Vm_Value\<close>, \<open>Vm_Map\<close>, \<open>Vm_Print\<close>: \<^verbatim>\<open>src/vm/value.cpp\<close> and its header. A value is the variant of the
    source; boxes live in an explicit heap indexed by address, since aliasing matters. Equality follows
    boxes with fuel, because a heap can be cyclic. A map box is an insertion-ordered association list
    with a lazily rebuilt string-key index; the index is transparent (\<open>map_lookup_is_scan\<close>) and the box
    implements the interface \<open>fallible_map\<close>.
  \<^item> \<open>Vm_Arith\<close>: the operators of \<^verbatim>\<open>src/vm/vm.cpp\<close>, each returning a value or the exception it raises.
  \<^item> \<open>Mir_Type\<close>, \<open>Mir_Opcode\<close>, \<open>Mir_Core\<close>: the data of MIR (\<^verbatim>\<open>src/mir/type.cpp\<close>, \<^verbatim>\<open>instruction.cpp\<close>,
    \<^verbatim>\<open>function.cpp\<close>). The arena and the constant pool both implement the interface \<open>interner\<close>.
  \<^item> \<open>Mir_Effects\<close>: \<^verbatim>\<open>src/mir/effects.cpp\<close>, \<^verbatim>\<open>src/mir/folding.cpp\<close>, and of \<^verbatim>\<open>src/mir/vm_backend.cpp\<close> the
    operators a pure instruction becomes. The reference semantics of an instruction is the interpreter's.
  \<^item> \<open>Mir_Cfg\<close>, \<open>Mir_Dominators\<close>: \<^verbatim>\<open>src/mir/analysis.cpp\<close>. The loops of the dominator computation are
    partial functions into \<open>option\<close>; that they return is part of what is proved. The iteration is reasoned
    about in the locale \<open>rpo_graph\<close>, a graph numbered in reverse post-order, which the depth-first search
    of the source provides.
  \<^item> \<open>Vm_Task\<close>: \<^verbatim>\<open>src/vm/runtime_task.cpp\<close>, \<^verbatim>\<open>runtime_exception.cpp\<close>. A world is a list of tasks; each
    public operation, which the source runs under the task's lock, is one step, and reachable worlds are
    an inductive predicate over arbitrary interleavings.
  \<^item> \<open>Vm_Gc\<close>: \<^verbatim>\<open>src/vm/gc.cpp\<close>. Tracing is a worklist loop (a partial function into \<open>option\<close>), a collection
    marks and sweeps, reclaimed boxes go to bounded free lists and are handed out again.
  \<^item> \<open>Vm_Safepoint\<close>: \<^verbatim>\<open>src/vm/gc_safepoint.cpp\<close>. Each stretch of code under the coordinator's mutex is one
    step, the waits of the condition variable included; any number of machines register, publish their
    roots, park, trace and leave.
  \<^item> \<open>Mir_Operators\<close>: \<^verbatim>\<open>src/compiler/operator_rules.cpp\<close>, the typing of the built-in operators, and its
    agreement with the interpreter.
  \<^item> \<open>Sema_Classes\<close>, \<open>Sema_Dispatch\<close>, \<open>Sema_Overload\<close>: \<^verbatim>\<open>src/compiler/semantic_model.cpp\<close>,
    \<^verbatim>\<open>dispatch_table.cpp\<close>, \<^verbatim>\<open>overload_resolver.cpp\<close> and the assignability of \<^verbatim>\<open>type_checker.cpp\<close>. Walks up
    a chain of parents are partial functions, since the chain could be circular; that they return on
    hierarchies the checker accepts is proved. Both ways of numbering dispatch slots implement the
    interface \<open>slot_table\<close>.
  \<^item> \<open>Rx_Utf8\<close>, \<open>Rx_Unicode\<close>: the strict decoder of \<^verbatim>\<open>src/regex/regex.cpp\<close> and the category tables of
    \<^verbatim>\<open>include/zl/regex/unicode.hpp\<close> with their binary search.
  \<^item> \<open>Rx_Match\<close>: the nodes of a pattern and the matcher. It returns the list of the states after every way to
    match, in the order of the backtracking, under a budget of steps and depth whose two limits are an
    argument (\<open>engineLimits\<close> has the engine's). The one loop that needs fuel, that of possessive
    quantifiers, gets one round more than there are steps left, and each round takes a step.
  \<^item> \<open>Rx_Results\<close>, \<open>Rx_Spans\<close>: the matcher without a budget, the locale \<open>backtracker\<close> that relates the two (every
    node interprets it), the textbook relation of a pattern between positions, and the proof that the
    results realize it.
  \<^item> \<open>Rx_Search\<close>: \<^verbatim>\<open>match\<close>, \<^verbatim>\<open>matchAll\<close>, \<^verbatim>\<open>replace\<close>, and where the engine departs from the usual meaning.
  \<^item> \<open>Rx_Parser\<close>: \<^verbatim>\<open>class Parser\<close> of \<^verbatim>\<open>regex.cpp\<close>. Its loops and its recursion take fuel; the length of the text
    gives enough (\<open>parse_total\<close>). The locale \<open>pattern_parser\<close> is the contract between an alternation and the
    groups inside it.
  \<^item> \<open>Rx_Natives\<close>: the functions of \<^verbatim>\<open>src/vm/native.cpp\<close> that expose the engine to programs.

  \<^bold>\<open>What is shown.\<close> Of the analyses: removal of unreachable blocks keeps the paths of the program,
  the depth-first search yields a reverse post-order, the dominator computation terminates with the
  dominators in the sense of paths, and frontiers are the textbook ones. Of the optimiser: folding
  gives the interpreter's value, and what is declared unable to raise does not raise, with the
  exceptions listed as divergences. Of the data: interning is hash-consing and ids are stable; a map
  box is a finite map. Of the interpreter: arithmetic is exact or reports overflow, comparison is
  exact on finite numbers. Of the runtime: a task ends once, its continuations run exactly once,
  cancellation reaches all descendants; a collection keeps exactly what the roots reach and recycling
  never hands out a box somebody still holds. Of the lexer: it always returns, its tokens are the longest ones at their places and can be written back.
  Of the semantic tables: the walks end on accepted
  hierarchies, dispatch calls what static resolution names, overload resolution returns a best applicable candidate. Of the regular expressions: the parser is total
  and yields well-formed nodes; the matcher's answer is the first of the ordered list of results and
  the search is leftmost; captures stay inside the subject; replacing and splitting visit matches in order.

  \<^bold>\<open>Parameters.\<close> \<open>std::pow\<close> and the shortest decimal digits of a double are arguments of the definitions
  that use them, with the documented behaviour they need as hypotheses.

  \<^bold>\<open>Not modelled.\<close> File, socket and process access, foreign-function calls, the encodings of the native
  code generator, the parking of operating-system threads and the command line are effects outside the model.
  The parser of the language, the bodies of the type checker, lowering, the MIR verifier and the bytecode compiler
  are functions of the whole typed syntax tree and of the module under compilation: they are a model of their own
  size, and of these only the parts that stand alone (operator rules, assignability, overloads, class shapes,
  dispatch) are here. The remaining passes over MIR rewrite a function in place through its
  builder, and rest on that same missing model.
\<close>

subsection \<open>The collector and the rendezvous\<close>

text \<open>C11: What a virtual machine holds survives every collection: when a machine traces in the
  rendezvous, the collection over the roots it has gathered keeps each registered box that the
  published roots of any participant reach, the machines blocked in native calls included.\<close>

theorem published_roots_survive:
  assumes "rendezvous_reached w" "rv_act w i = Some (Tracing r)" "collectable M r ids g"
    and "participantAt (rv_co w) j = Some p" "e \<in> set (gc_entries g)" "kept M (pa_roots p) g (snd e)"
  shows "\<exists>st retired g'. collect M r ids g = Some (st, retired, g') \<and>
    e \<in> set (gc_entries g') \<and> e \<notin> set retired"
proof -
  obtain s act where w: "w = \<lparr>rv_co = s, rv_act = act\<rparr>" by (cases w) simp
  have "r = allRoots s"
    using rendezvous_okD(5) [OF rendezvous_reached_ok [OF assms(1), unfolded w], of i r] assms(2) w by simp
  then have "kept M r g (snd e)"
    using assms(6) allRoots_covers [of s j p] assms(4) w
    unfolding kept_def by (auto elim!: live_mono)
  moreover obtain mk where mk: "collect M r ids g = Some (sweep mk g)"
      "\<And>a. a \<in> set (mk_marked mk) \<longleftrightarrow> kept M r g a"
    using collect_sweeps [OF assms(3)] by blast
  moreover obtain st retired g' where "sweep mk g = (st, retired, g')" using prod_cases3 by blast
  ultimately show ?thesis
    using sweep_entries(1,2) [of mk g st retired g'] assms(5) by auto
qed

theorem published_roots_survive_witness:
  "\<exists>st retired g'. collect sample_memory sample_roots [] sample_gc = Some (st, retired, g') \<and>
    (KList, 1) \<in> set (gc_entries g') \<and> (KList, 1) \<notin> set retired"
proof -
  obtain w where w: "rendezvousRun [Register, Poll 1 True, Publish 1 True sample_roots] = Some w"
      "rv_act w 1 = Some (Tracing sample_roots)"
      "participantAt (rv_co w) 1 = Some \<lparr>pa_parked = True, pa_roots = sample_roots\<rparr>"
    by (simp add: rendezvousRun_def registerParticipant_def newRendezvous_def sample_roots_def
        newCoordinator_def participantAt_def setParticipant_def newParticipant_def pollEnter_def
        pollPublish_def enterLoop_def pollLoop_def allParked_def allRoots_def
        appendRoots_def emptyRoots_def notifyAll_def Let_def)
  have h: "gm_heap sample_memory 0 = Some (BList (empty_list_box\<lparr>lb_items := [VList (Some 1), VInt 5]\<rparr>))"
    by (simp add: sample_memory_def)
  let ?V = "set (gr_values sample_roots) \<union> protectedHandles sample_gc (gm_heap sample_memory)"
  have "live sample_memory ?V (set (gr_programs sample_roots)) (Inl 0)"
    by (rule live_value [of "VList (Some 0)"]) (simp_all add: identity_def sample_roots_def)
  moreover have "VList (Some 1) \<in> set (boxValues (gm_heap sample_memory) 0)"
    by (simp add: h handle_def appendValueChildren_def list_at_def)
  ultimately have "live sample_memory ?V (set (gr_programs sample_roots)) (Inl 1)"
    by (rule live_box_value) (simp add: identity_def)
  then have k: "kept sample_memory (pa_roots \<lparr>pa_parked = True, pa_roots = sample_roots\<rparr>) sample_gc (snd (KList, 1))"
    by (simp only: kept_def participant.select_convs snd_conv)
  have e: "(KList, 1) \<in> set (gc_entries sample_gc)" by (simp add: sample_gc_def)
  show ?thesis
    by (rule published_roots_survive [OF rendezvousRun_reached [OF w(1)] w(2) sample_collectable w(3) e k])
qed

subsection \<open>Strings in printed records\<close>

definition readable_char :: "char \<Rightarrow> bool" where
  "readable_char c \<longleftrightarrow> 32 \<le> code c \<or> code c = 9 \<or> code c = 10 \<or> code c = 13"

lemma escapeChar_span:
  assumes "readable_char c" "string_span s = Some (l, b)"
  shows "string_span (escapeChar c @ s) = Some (c # l, escapeChar c @ b)"
proof -
  have eq: "code c = n \<Longrightarrow> c = char_of n" for n by auto
  consider "code c = 92" | "code c = 34" | "code c = 10" | "code c = 13" | "code c = 9"
    | "code c \<noteq> 92" "code c \<noteq> 34" "32 \<le> code c"
    using assms(1) by (auto simp: readable_char_def)
  then show ?thesis
  proof cases
    case 6
    then have "c \<noteq> QUOTE" "c \<noteq> BACKSLASH" "escapeChar c = [c]" by (auto simp: escapeChar_def)
    with assms(2) show ?thesis by simp
  qed (use assms(2) eq in \<open>auto simp: escapeChar_def escaped_def char_of_def bit_Suc_0_iff\<close>)
qed

lemma escapeRecordString_span:
  "list_all readable_char s \<Longrightarrow>
   string_span (escapeRecordString s @ [QUOTE]) = Some (s, escapeRecordString s)"
  by (induction s) (auto simp: escapeRecordString_def escapeChar_span)

text \<open>C34: The text in which the runtime shows a string field of a record is a string literal of the
  language: read by the lexer it denotes the field's value, for every string whose only control
  characters are tab, newline and carriage return.\<close>

theorem record_string_reads_back:
  assumes "list_all readable_char s"
  shows "\<exists>n m. tokenize (QUOTE # escapeRecordString s @ [QUOTE]) =
    Inr [mkToken STRING_LITERAL s 1 1, mkToken END_OF_FILE [] n m]"
proof -
  let ?t = "QUOTE # escapeRecordString s @ [QUOTE]"
  have sp: "spells STRING_LITERAL s ?t" using escapeRecordString_span [OF assms] by simp
  have "layout ?t = []" by (subst layout.simps) (simp add: isBlank_def starts_comment_def)
  moreover have "longest_token (?t @ []) STRING_LITERAL s ?t"
    using token_at_separated [OF sp, of "[]"] token_at_longest [of ?t STRING_LITERAL s ?t] by simp
  moreover have "lexed p [] [mkToken END_OF_FILE [] (fst p) (snd p)]" for p
    by (rule lexed.at_end) (simp_all add: layout.simps starts_comment_def)
  ultimately have "lexed (1, 1) ?t [mkToken STRING_LITERAL s 1 1,
      mkToken END_OF_FILE [] (fst (position_after (1, 1) ?t)) (snd (position_after (1, 1) ?t))]"
    by (intro lexed.at_token [of ?t ?t "[]"]) simp_all
  then show ?thesis
    by (auto simp: tokenize_def tokenizeLoop_lexed newLexer_start)
qed

theorem record_string_reads_back_witness:
  "list_all readable_char [QUOTE, NEWLINE, BACKSLASH, CHR ''a''] \<and>
   (\<exists>n m. tokenize (QUOTE # escapeRecordString [QUOTE, NEWLINE, BACKSLASH, CHR ''a''] @ [QUOTE]) =
      Inr [mkToken STRING_LITERAL [QUOTE, NEWLINE, BACKSLASH, CHR ''a''] 1 1, mkToken END_OF_FILE [] n m])"
  using record_string_reads_back [of "[QUOTE, NEWLINE, BACKSLASH, CHR ''a'']"]
  by (simp add: readable_char_def)

end
